(* ===== verification/Prelude.thy ===== *)
theory Prelude
  imports Main "HOL-Library.Multiset" "HOL-Library.AList" "HOL-Library.Signed_Division"
begin

text \<open>
  Shared vocabulary of the development: the outcome of a Go call (a value, an error or a
  panic), Go maps as association lists with distinct keys, the wrap-around of 32- and
  64-bit integers, the few functions of Go's \<open>strings\<close> package the services use, and the
  generic lemmas on lists and sums that the components share.

  Identifiers and texts are byte strings (\<^typ>\<open>string\<close>), as Go's \<open>string\<close> is.
\<close>

named_theorems chips \<open>equations that account for chips and money\<close>
named_theorems perms \<open>operations that only permute a collection\<close>

section \<open>Outcomes of Go calls\<close>

text \<open>
  A Go function with an \<open>error\<close> result either returns a value, returns an error or
  panics (index out of range, nil dereference, explicit \<open>panic\<close>).
\<close>

datatype ('e, 'a) outcome = Ok 'a | Err 'e | Panic string

fun bind_outcome :: "('e, 'a) outcome \<Rightarrow> ('a \<Rightarrow> ('e, 'b) outcome) \<Rightarrow> ('e, 'b) outcome" where
  "bind_outcome (Ok x) f = f x"
| "bind_outcome (Err e) f = Err e"
| "bind_outcome (Panic m) f = Panic m"

fun map_err :: "('e \<Rightarrow> 'f) \<Rightarrow> ('e, 'a) outcome \<Rightarrow> ('f, 'a) outcome" where
  "map_err g (Ok x) = Ok x"
| "map_err g (Err e) = Err (g e)"
| "map_err g (Panic m) = Panic m"

fun is_ok :: "('e, 'a) outcome \<Rightarrow> bool" where
  "is_ok (Ok x) = True"
| "is_ok (Err e) = False"
| "is_ok (Panic m) = False"

lemma bind_outcome_Ok_iff [simp]:
  "bind_outcome m f = Ok y \<longleftrightarrow> (\<exists>x. m = Ok x \<and> f x = Ok y)"
  by (cases m) auto

lemma bind_outcome_Err_iff:
  "bind_outcome m f = Err e \<longleftrightarrow> m = Err e \<or> (\<exists>x. m = Ok x \<and> f x = Err e)"
  by (cases m) auto

lemma map_err_Ok_iff [simp]: "map_err g m = Ok y \<longleftrightarrow> m = Ok y"
  by (cases m) auto

lemma is_ok_iff: "is_ok m \<longleftrightarrow> (\<exists>x. m = Ok x)"
  by (cases m) auto

section \<open>Go maps\<close>

text \<open>
  A Go map is an association list with distinct keys. \<open>m[k] = v\<close> is \<^const>\<open>AList.update\<close>,
  \<open>delete(m, k)\<close> is \<^const>\<open>AList.delete\<close>, \<open>m[k]\<close> with its zero value is \<open>get0\<close>.
\<close>

type_synonym ('k, 'v) gomap = "('k \<times> 'v) list"

definition wf_gomap :: "('k, 'v) gomap \<Rightarrow> bool" where
  "wf_gomap m \<longleftrightarrow> distinct (map fst m)"

definition get0 :: "('k, int) gomap \<Rightarrow> 'k \<Rightarrow> int" where
  "get0 m k = (case map_of m k of None \<Rightarrow> 0 | Some v \<Rightarrow> v)"

definition gosum :: "('k, int) gomap \<Rightarrow> int" where
  "gosum m = sum_list (map snd m)"

lemma wf_gomap_Nil [simp]: "wf_gomap []"
  by (simp add: wf_gomap_def)

lemma wf_gomap_update [simp]: "wf_gomap m \<Longrightarrow> wf_gomap (AList.update k v m)"
  by (simp add: wf_gomap_def distinct_update)

lemma map_of_update [simp]: "map_of (AList.update k v m) = (map_of m)(k \<mapsto> v)"
  by (rule update_conv')

lemma get0_update: "get0 (AList.update k v m) k' = (if k' = k then v else get0 m k')"
  by (simp add: get0_def)

lemma keys_update: "fst ` set (AList.update k v m) = insert k (fst ` set m)"
  using dom_update [of k v m] by (simp add: dom_map_of_conv_image_fst [symmetric])

lemma gosum_update [chips]:
  "wf_gomap m \<Longrightarrow> gosum (AList.update k v m) = gosum m - get0 m k + v"
proof (induction m)
  case Nil
  then show ?case by (simp add: gosum_def get0_def)
next
  case (Cons p m)
  show ?case
  proof (cases "fst p = k")
    case True
    then show ?thesis by (cases p) (simp add: gosum_def get0_def)
  next
    case False
    with Cons show ?thesis by (cases p) (simp add: gosum_def get0_def wf_gomap_def)
  qed
qed

lemma get0_nonneg: "(\<forall>v \<in> snd ` set m. 0 \<le> v) \<Longrightarrow> 0 \<le> get0 m k"
  by (force simp: get0_def dest: map_of_SomeD split: option.splits)

text \<open>Each key of a map is visited once: the sum over the keys is the sum of the values.\<close>

lemma gosum_keys: "wf_gomap m \<Longrightarrow> gosum m = sum_list (map (get0 m) (map fst m))"
proof (induction m)
  case Nil
  then show ?case by (simp add: gosum_def)
next
  case (Cons p m)
  have "get0 (p # m) (fst q) = get0 m (fst q)" if "q \<in> set m" for q
    using Cons.prems that by (cases p) (auto simp: get0_def wf_gomap_def image_iff)
  then have "sum_list (map (\<lambda>q. get0 (p # m) (fst q)) m) = sum_list (map (\<lambda>q. get0 m (fst q)) m)"
    by (intro arg_cong [where f = sum_list] map_cong) auto
  moreover have "get0 (p # m) (fst p) = snd p"
    by (cases p) (simp add: get0_def)
  moreover have "gosum m = sum_list (map (\<lambda>q. get0 m (fst q)) m)"
    using Cons by (simp add: wf_gomap_def comp_def)
  ultimately show ?case
    by (simp add: gosum_def comp_def)
qed

section \<open>Machine integers\<close>

text \<open>Conversion of an integer to a signed machine width, as Go's \<open>int32(x)\<close> and \<open>int64\<close> arithmetic wrap.\<close>

definition wrap32 :: "int \<Rightarrow> int" where
  "wrap32 x = (x + 2 ^ 31) mod 2 ^ 32 - 2 ^ 31"

definition wrap64 :: "int \<Rightarrow> int" where
  "wrap64 x = (x + 2 ^ 63) mod 2 ^ 64 - 2 ^ 63"

definition in_int32 :: "int \<Rightarrow> bool" where
  "in_int32 x \<longleftrightarrow> - (2 ^ 31) \<le> x \<and> x < 2 ^ 31"

definition in_int64 :: "int \<Rightarrow> bool" where
  "in_int64 x \<longleftrightarrow> - (2 ^ 63) \<le> x \<and> x < 2 ^ 63"

lemma wrap32_id [simp]: "in_int32 x \<Longrightarrow> wrap32 x = x"
  by (simp add: wrap32_def in_int32_def)

lemma wrap64_id [simp]: "in_int64 x \<Longrightarrow> wrap64 x = x"
  by (simp add: wrap64_def in_int64_def)

lemma wrap32_range: "in_int32 (wrap32 x)"
  by (simp add: wrap32_def in_int32_def)

lemma wrap64_range: "in_int64 (wrap64 x)"
  by (simp add: wrap64_def in_int64_def)

section \<open>Sums over lists\<close>

lemma sum_list_map_update [chips]:
  fixes f :: "'a \<Rightarrow> int"
  shows "i < length xs \<Longrightarrow> sum_list (map f (xs[i := y])) = sum_list (map f xs) - f (xs ! i) + f y"
  by (induction xs arbitrary: i) (auto simp: nth_Cons split: nat.splits)

lemma sum_list_map_mset: "mset xs = mset ys \<Longrightarrow> sum_list (map f xs) = (sum_list (map f ys) :: int)"
  by (metis mset_map sum_mset_sum_list)

lemma sum_list_map_nonneg:
  fixes f :: "'a \<Rightarrow> int"
  shows "(\<forall>x \<in> set xs. 0 \<le> f x) \<Longrightarrow> 0 \<le> sum_list (map f xs)"
  by (induction xs) auto

lemma sum_list_member_le:
  fixes f :: "'a \<Rightarrow> int"
  shows "\<lbrakk>\<forall>x \<in> set xs. 0 \<le> f x; x \<in> set xs\<rbrakk> \<Longrightarrow> f x \<le> sum_list (map f xs)"
proof (induction xs)
  case (Cons y ys)
  have "0 \<le> sum_list (map f ys)" using Cons.prems(1) by (intro sum_list_map_nonneg) simp
  with Cons show ?case by (auto intro: order_trans)
qed simp

lemma map_update_at:
  "i < length xs \<Longrightarrow> f y = f (xs ! i) \<Longrightarrow> map f (xs[i := y]) = map f xs"
  by (metis list_update_id map_update)

lemma map_update_same [simp]: "(map f xs)[i := f (xs ! i)] = map f xs"
  by (metis list_update_id map_update)

text \<open>A counting loop that stops at the first index that fits.\<close>

lemma find_upt_Some:
  assumes "find P [a..<b] = Some k"
  shows "a \<le> k \<and> k < b \<and> P k \<and> (\<forall>m. a \<le> m \<and> m < k \<longrightarrow> \<not> P m)"
proof -
  obtain i where i: "i < b - a" "P (a + i)" "k = a + i" "\<forall>j < i. \<not> P ([a..<b] ! j)"
    using assms by (auto simp: find_Some_iff)
  have "\<not> P m" if "a \<le> m" "m < k" for m
    using i(1,3) i(4) [rule_format, of "m - a"] that by simp
  with i show ?thesis by auto
qed

text \<open>An order the program does not control: a Go map's iteration, a query without \<open>ORDER BY\<close>.\<close>

definition permuting :: "('a list \<Rightarrow> 'a list) \<Rightarrow> bool" where
  "permuting iter \<longleftrightarrow> (\<forall>xs. mset (iter xs) = mset xs)"

lemma permuting_id [simp]: "permuting (\<lambda>xs. xs)"
  and permuting_rev [simp]: "permuting rev"
  by (simp_all add: permuting_def)

lemma permuting_mset: "permuting iter \<Longrightarrow> mset (iter xs) = mset xs"
  by (simp add: permuting_def)

lemma permuting_set: "permuting iter \<Longrightarrow> set (iter xs) = set xs"
  by (metis permuting_def mset_eq_setD)

section \<open>Strings\<close>

text \<open>
  ASCII versions of the functions of Go's \<open>strings\<close> package: \<open>ToLower\<close> on the letters A to Z,
  \<open>TrimSpace\<close> on the ASCII white space, \<open>HasPrefix\<close>, \<open>HasSuffix\<close>, \<open>Contains\<close> and \<open>Join\<close>.
\<close>

definition is_space :: "char \<Rightarrow> bool" where
  "is_space c \<longleftrightarrow> c \<in> {CHR '' '', CHR 0x09, CHR 0x0A, CHR 0x0B, CHR 0x0C, CHR 0x0D}"

definition TrimSpace :: "string \<Rightarrow> string" where
  "TrimSpace s = rev (dropWhile is_space (rev (dropWhile is_space s)))"

definition lower_char :: "char \<Rightarrow> char" where
  "lower_char c = (if 65 \<le> (of_char c :: nat) \<and> (of_char c :: nat) \<le> 90
     then char_of ((of_char c :: nat) + 32) else c)"

definition ToLower :: "string \<Rightarrow> string" where
  "ToLower s = map lower_char s"

definition HasPrefix :: "string \<Rightarrow> string \<Rightarrow> bool" where
  "HasPrefix s p \<longleftrightarrow> take (length p) s = p"

definition HasSuffix :: "string \<Rightarrow> string \<Rightarrow> bool" where
  "HasSuffix s p \<longleftrightarrow> length p \<le> length s \<and> drop (length s - length p) s = p"

fun Contains :: "string \<Rightarrow> string \<Rightarrow> bool" where
  "Contains [] sub \<longleftrightarrow> sub = []"
| "Contains (c # s) sub \<longleftrightarrow> HasPrefix (c # s) sub \<or> Contains s sub"

fun Join :: "string list \<Rightarrow> string \<Rightarrow> string" where
  "Join [] sep = ''''"
| "Join [x] sep = x"
| "Join (x # y # xs) sep = x @ sep @ Join (y # xs) sep"

text \<open>Decimal rendering of an integer, \<open>fmt.Sprintf("%d", n)\<close>.\<close>

fun show_nat :: "nat \<Rightarrow> string" where
  "show_nat n = (if n < 10 then [char_of (48 + n)] else show_nat (n div 10) @ [char_of (48 + n mod 10)])"

declare show_nat.simps [simp del]

definition show_int :: "int \<Rightarrow> string" where
  "show_int i = (if i < 0 then ''-'' @ show_nat (nat (- i)) else show_nat (nat i))"

lemma lower_char_idem [simp]: "lower_char (lower_char c) = lower_char c"
  by (simp add: lower_char_def)

lemma ToLower_idem [simp]: "ToLower (ToLower s) = ToLower s"
  by (simp add: ToLower_def)

lemma TrimSpace_no_lead: "TrimSpace s = [] \<or> \<not> is_space (hd (TrimSpace s))"
proof -
  let ?t = "dropWhile is_space s"
  have t: "\<not> is_space (hd ?t)" if "?t \<noteq> []"
    using that by (rule hd_dropWhile)
  have "\<exists>us. ?t = TrimSpace s @ us"
    unfolding TrimSpace_def
    by (metis rev_append rev_rev_ident takeWhile_dropWhile_id)
  with t show ?thesis
    by (cases "TrimSpace s") (auto simp del: dropWhile_eq_Nil_conv)
qed

lemma show_nat_nonempty [simp]: "show_nat n \<noteq> []"
  by (subst show_nat.simps) simp

end
