(* ===== verification/Cards.thy ===== *)
theory Cards
  imports Prelude
begin

text \<open>
  Cards, the deck and the shuffle of the engine (\<open>domain/card.go\<close>, \<open>domain/deck.go\<close>,
  \<open>domain/errors.go\<close>, \<open>infrastructure/shuffle/shuffle.go\<close>) and the card parser of its
  repository (\<open>infrastructure/repository/card_parser.go\<close>).

  \<open>Rank\<close> and \<open>Suit\<close> are Go bytes on which the code computes (\<open>rank++\<close>, \<open>int(c.Rank)\<close>) and whose
  zero value the evaluator uses, so they are natural numbers with the source's constants.
  The suit signs are the three UTF-8 bytes of the source's literals.
\<close>

section \<open>Errors of the engine\<close>

text \<open>
  The sentinel errors of \<open>errors.go\<close>; \<open>ErrText\<close> is an error made from a text, \<open>ErrTextQ\<close> one that
  quotes an offending value, \<open>Wrapped\<close> is \<open>fmt.Errorf("...: %w", err)\<close>.
\<close>

datatype engine_err =
    ErrEmptyDeck | ErrNotEnoughCards
  | ErrInvalidAction | ErrInvalidRaiseAmount | ErrPlayerNotActive | ErrNotPlayerTurn
  | ErrInsufficientStack
  | ErrGameNotFound | ErrTableNotFound | ErrPlayerNotFound
  | ErrHandAlreadyStarted | ErrHandNotStarted | ErrNotEnoughPlayers
  | ErrRaiseCapReached
  | ErrText string
  | ErrTextQ string string
  | Wrapped string engine_err

fun errors_Is :: "engine_err \<Rightarrow> engine_err \<Rightarrow> bool" where
  "errors_Is (Wrapped m e) target \<longleftrightarrow> Wrapped m e = target \<or> errors_Is e target"
| "errors_Is e target \<longleftrightarrow> e = target"

section \<open>Cards\<close>

type_synonym Suit = nat
type_synonym Rank = nat

abbreviation (input) Spades :: Suit where "Spades \<equiv> 0"
abbreviation (input) Hearts :: Suit where "Hearts \<equiv> 1"
abbreviation (input) Diamonds :: Suit where "Diamonds \<equiv> 2"
abbreviation (input) Clubs :: Suit where "Clubs \<equiv> 3"

abbreviation (input) Two :: Rank where "Two \<equiv> 2"
abbreviation (input) Three :: Rank where "Three \<equiv> 3"
abbreviation (input) Four :: Rank where "Four \<equiv> 4"
abbreviation (input) Five :: Rank where "Five \<equiv> 5"
abbreviation (input) Six :: Rank where "Six \<equiv> 6"
abbreviation (input) Seven :: Rank where "Seven \<equiv> 7"
abbreviation (input) Eight :: Rank where "Eight \<equiv> 8"
abbreviation (input) Nine :: Rank where "Nine \<equiv> 9"
abbreviation (input) Ten :: Rank where "Ten \<equiv> 10"
abbreviation (input) Jack :: Rank where "Jack \<equiv> 11"
abbreviation (input) Queen :: Rank where "Queen \<equiv> 12"
abbreviation (input) King :: Rank where "King \<equiv> 13"
abbreviation (input) Ace :: Rank where "Ace \<equiv> 14"

abbreviation spade_sign :: string where "spade_sign \<equiv> [CHR 0xE2, CHR 0x99, CHR 0xA0]"
abbreviation heart_sign :: string where "heart_sign \<equiv> [CHR 0xE2, CHR 0x99, CHR 0xA5]"
abbreviation diamond_sign :: string where "diamond_sign \<equiv> [CHR 0xE2, CHR 0x99, CHR 0xA6]"
abbreviation club_sign :: string where "club_sign \<equiv> [CHR 0xE2, CHR 0x99, CHR 0xA3]"

definition Suit_String :: "Suit \<Rightarrow> string" where
  "Suit_String s =
     (if s = Spades then spade_sign
      else if s = Hearts then heart_sign
      else if s = Diamonds then diamond_sign
      else if s = Clubs then club_sign
      else ''?'')"

definition Rank_String :: "Rank \<Rightarrow> string" where
  "Rank_String r =
     (if r = Two then ''2'' else if r = Three then ''3'' else if r = Four then ''4''
      else if r = Five then ''5'' else if r = Six then ''6'' else if r = Seven then ''7''
      else if r = Eight then ''8'' else if r = Nine then ''9'' else if r = Ten then ''T''
      else if r = Jack then ''J'' else if r = Queen then ''Q'' else if r = King then ''K''
      else if r = Ace then ''A'' else ''?'')"

record Card =
  c_Rank :: Rank
  c_Suit :: Suit

definition NewCard :: "Rank \<Rightarrow> Suit \<Rightarrow> Card" where
  "NewCard rank suit = \<lparr>c_Rank = rank, c_Suit = suit\<rparr>"

definition Card_String :: "Card \<Rightarrow> string" where
  "Card_String c = Rank_String (c_Rank c) @ Suit_String (c_Suit c)"

definition IsValid :: "Card \<Rightarrow> bool" where
  "IsValid c \<longleftrightarrow> c_Rank c \<ge> Two \<and> c_Rank c \<le> Ace \<and> c_Suit c \<ge> Spades \<and> c_Suit c \<le> Clubs"

section \<open>Parsing\<close>

text \<open>\<open>string(s[0])\<close>: a byte converted to a string is the UTF-8 encoding of that code point.\<close>

definition byte_to_string :: "char \<Rightarrow> string" where
  "byte_to_string c =
     (let n = (of_char c :: nat)
      in if n < 128 then [c] else [char_of (192 + n div 64), char_of (128 + n mod 64)])"

definition ParseRank :: "string \<Rightarrow> (engine_err, Rank) outcome" where
  "ParseRank s =
     (if s = ''2'' then Ok Two else if s = ''3'' then Ok Three else if s = ''4'' then Ok Four
      else if s = ''5'' then Ok Five else if s = ''6'' then Ok Six else if s = ''7'' then Ok Seven
      else if s = ''8'' then Ok Eight else if s = ''9'' then Ok Nine else if s = ''T'' then Ok Ten
      else if s = ''J'' then Ok Jack else if s = ''Q'' then Ok Queen else if s = ''K'' then Ok King
      else if s = ''A'' then Ok Ace else Err (ErrTextQ ''invalid rank'' s))"

definition ParseSuit :: "string \<Rightarrow> (engine_err, Suit) outcome" where
  "ParseSuit s =
     (if s = spade_sign then Ok Spades
      else if s = heart_sign then Ok Hearts
      else if s = diamond_sign then Ok Diamonds
      else if s = club_sign then Ok Clubs
      else Err (ErrTextQ ''invalid suit'' s))"

definition ParseCard :: "string \<Rightarrow> (engine_err, Card) outcome" where
  "ParseCard s =
     (if length s < 2 then Err (ErrTextQ ''invalid card string'' s)
      else bind_outcome (ParseRank (byte_to_string (s ! 0))) (\<lambda>rank.
           bind_outcome (ParseSuit (drop 1 s)) (\<lambda>suit.
           Ok (NewCard rank suit))))"

section \<open>The deck\<close>

type_synonym ShuffleFunc = "Card list \<Rightarrow> (engine_err, Card list) outcome"

record Deck =
  d_cards :: "Card list"
  d_shuffle :: "ShuffleFunc option"

definition NewDeck :: "ShuffleFunc \<Rightarrow> Deck" where
  "NewDeck shuffle =
     \<lparr>d_cards = concat (map (\<lambda>suit. map (\<lambda>rank. NewCard rank suit) [Two..<Suc Ace])
        [Spades, Hearts, Diamonds, Clubs]),
      d_shuffle = Some shuffle\<rparr>"

definition NewDeckFromCards :: "Card list \<Rightarrow> Deck" where
  "NewDeckFromCards cards = \<lparr>d_cards = cards, d_shuffle = None\<rparr>"

definition Deck_Shuffle :: "Deck \<Rightarrow> (engine_err, Deck) outcome" where
  "Deck_Shuffle d =
     (case d_shuffle d of
        None \<Rightarrow> Panic ''nil shuffle''
      | Some shuffle \<Rightarrow> bind_outcome (shuffle (d_cards d)) (\<lambda>cs. Ok (d\<lparr>d_cards := cs\<rparr>)))"

definition Deal :: "Deck \<Rightarrow> int \<Rightarrow> (engine_err, Card list \<times> Deck) outcome" where
  "Deal d n =
     (if n \<le> 0 then Err (ErrText ''n must be positive'')
      else if length (d_cards d) = 0 then Err ErrEmptyDeck
      else if int (length (d_cards d)) < n then Err ErrNotEnoughCards
      else Ok (take (nat n) (d_cards d), d\<lparr>d_cards := drop (nat n) (d_cards d)\<rparr>))"

definition Remaining :: "Deck \<Rightarrow> nat" where
  "Remaining d = length (d_cards d)"

section \<open>The shuffle\<close>

text \<open>
  Fisher-Yates with \<open>crypto/rand\<close>. The random source is a parameter: \<open>src i\<close> is the raw value
  drawn at loop index \<open>i\<close> (\<open>None\<close> when the generator fails, which panics); \<open>rand.Int(r, n)\<close>
  returns a value below \<open>n\<close>, here the raw value reduced modulo \<open>n\<close>.
\<close>

fun shuffle_loop :: "(nat \<Rightarrow> nat option) \<Rightarrow> nat \<Rightarrow> 'a list \<Rightarrow> (engine_err, 'a list) outcome" where
  "shuffle_loop src 0 result = Ok result"
| "shuffle_loop src (Suc k) result =
     (case src (Suc k) of
        None \<Rightarrow> Panic ''rng: crypto/rand failed''
      | Some raw \<Rightarrow>
          (let i = Suc k; j = raw mod (i + 1)
           in shuffle_loop src k (result[i := result ! j, j := result ! i])))"

definition Shuffle :: "(nat \<Rightarrow> nat option) \<Rightarrow> 'a list \<Rightarrow> (engine_err, 'a list) outcome" where
  "Shuffle src cards = shuffle_loop src (length cards - 1) cards"

section \<open>Lemmas on cards\<close>

text \<open>The thirteen ranks, the four suits: the finite cases behind every card property.\<close>

lemma IsValid_cases:
  assumes "IsValid c"
  obtains r s where "c = NewCard r s" "r \<in> {Two..Ace}" "s \<in> {Spades, Hearts, Diamonds, Clubs}"
proof -
  have "c_Suit c \<in> {Spades, Hearts, Diamonds, Clubs}" using assms by (auto simp: IsValid_def)
  moreover have "c_Rank c \<in> {Two..Ace}"
    using assms by (simp add: IsValid_def)
  moreover have "c = NewCard (c_Rank c) (c_Suit c)" by (simp add: NewCard_def)
  ultimately show thesis using that by blast
qed

lemma NewCard_valid:
  "r \<in> {Two..Ace} \<Longrightarrow> s \<in> {Spades, Hearts, Diamonds, Clubs} \<Longrightarrow> IsValid (NewCard r s)"
  by (auto simp: IsValid_def NewCard_def)

lemma rank_cases:
  assumes "r \<in> {Two..Ace}"
  shows "r \<in> {2, 3, 4, 5, 6, 7, 8, 9, 10, 11, 12, 13, 14}"
  using assms by (simp, arith)

lemma Rank_String_byte:
  "r \<in> {Two..Ace} \<Longrightarrow>
    \<exists>b. Rank_String r = [b] \<and> ParseRank (byte_to_string b) = Ok r"
  by (drule rank_cases) (auto simp: Rank_String_def ParseRank_def byte_to_string_def)

lemma ParseSuit_Suit_String:
  "s \<in> {Spades, Hearts, Diamonds, Clubs} \<Longrightarrow> ParseSuit (Suit_String s) = Ok s \<and> length (Suit_String s) = 3"
  by (auto simp: Suit_String_def ParseSuit_def)

lemma ParseCard_Card_String: "IsValid c \<Longrightarrow> ParseCard (Card_String c) = Ok c"
proof (erule IsValid_cases)
  fix r s
  assume c: "c = NewCard r s" and r: "r \<in> {Two..Ace}" and s: "s \<in> {Spades, Hearts, Diamonds, Clubs}"
  from Rank_String_byte [OF r] obtain b
    where b: "Rank_String r = [b]" "ParseRank (byte_to_string b) = Ok r" by blast
  then show ?thesis
    using ParseSuit_Suit_String [OF s] by (simp add: c ParseCard_def Card_String_def NewCard_def)
qed

lemma ParseCard_OkD:
  assumes "ParseCard s = Ok c"
  shows "IsValid c \<and> Card_String c = s"
proof -
  from assms have len: "\<not> length s < 2"
    by (auto simp: ParseCard_def split: if_splits)
  then obtain b t where s: "s = b # t"
    by (cases s) auto
  from assms len obtain r u where
    r: "ParseRank (byte_to_string b) = Ok r" and u: "ParseSuit t = Ok u" and c: "c = NewCard r u"
    by (auto simp: ParseCard_def s)
  have "IsValid (NewCard r u)"
    using r u by (auto simp: ParseRank_def ParseSuit_def IsValid_def NewCard_def split: if_splits)
  moreover have "Suit_String u = t"
    using u by (auto simp: ParseSuit_def Suit_String_def split: if_splits)
  moreover have "Rank_String r = byte_to_string b"
    using r by (auto simp: ParseRank_def Rank_String_def split: if_splits)
  moreover have "byte_to_string b = [b]"
    using r by (auto simp: ParseRank_def byte_to_string_def Let_def split: if_splits)
  ultimately show ?thesis
    by (simp add: c s Card_String_def NewCard_def)
qed

section \<open>Lemmas on the deck\<close>

lemma Deal_Ok_iff:
  "Deal d n = Ok (cs, d') \<longleftrightarrow>
     0 < n \<and> n \<le> int (length (d_cards d)) \<and> cs = take (nat n) (d_cards d) \<and>
     d' = d\<lparr>d_cards := drop (nat n) (d_cards d)\<rparr>"
  by (auto simp: Deal_def)

lemma Deal_split: "Deal d n = Ok (cs, d') \<Longrightarrow> d_cards d = cs @ d_cards d'"
  by (simp add: Deal_Ok_iff)

lemma Deal_length: "Deal d n = Ok (cs, d') \<Longrightarrow> int (length cs) = n"
  by (auto simp: Deal_Ok_iff)

lemma Deal_not_Panic [simp]: "Deal d n \<noteq> Panic m"
  by (simp add: Deal_def)

lemma Deal_total: "0 < n \<Longrightarrow> n \<le> int (length (d_cards d)) \<Longrightarrow> \<exists>cs d'. Deal d n = Ok (cs, d')"
  by (auto simp: Deal_def)

lemma d_shuffle_NewDeck [simp]: "d_shuffle (NewDeck f) = Some f"
  by (simp add: NewDeck_def)

lemma distinct_NewDeck: "distinct (d_cards (NewDeck f))"
  by (simp add: NewDeck_def NewCard_def upt_rec)

lemma length_NewDeck: "length (d_cards (NewDeck f)) = 52"
  by (simp add: NewDeck_def upt_rec)

lemma set_NewDeck: "set (d_cards (NewDeck f)) = {c. IsValid c}"
proof
  show "set (d_cards (NewDeck f)) \<subseteq> {c. IsValid c}"
    by (auto simp: NewDeck_def IsValid_def NewCard_def)
  show "{c. IsValid c} \<subseteq> set (d_cards (NewDeck f))"
    by (auto elim!: IsValid_cases dest!: rank_cases simp del: atLeastAtMost_iff simp: NewDeck_def)
qed

section \<open>The contract of a shuffle\<close>

text \<open>\<open>StartHand\<close> relies on its \<open>ShuffleFunc\<close> for one thing only: it permutes the cards it is given.\<close>

locale card_shuffler =
  fixes shuf :: ShuffleFunc
  assumes shuf_perm: "shuf cs = Ok cs' \<Longrightarrow> mset cs' = mset cs"
begin

lemma shuffled_mset:
  "Deck_Shuffle (NewDeck shuf) = Ok d \<Longrightarrow> mset (d_cards d) = mset (d_cards (NewDeck shuf))"
  by (auto simp: Deck_Shuffle_def NewDeck_def dest: shuf_perm)

lemma shuffled_deck:
  assumes "Deck_Shuffle (NewDeck shuf) = Ok d"
  shows "distinct (d_cards d) \<and> length (d_cards d) = 52 \<and> set (d_cards d) = {c. IsValid c}"
proof -
  from shuffled_mset [OF assms] have m: "mset (d_cards d) = mset (d_cards (NewDeck shuf))" .
  show ?thesis
    using mset_eq_imp_distinct_iff [OF m] mset_eq_length [OF m] mset_eq_setD [OF m]
    by (simp add: distinct_NewDeck length_NewDeck set_NewDeck)
qed

end

section \<open>The shuffle permutes\<close>

lemma mset_swap2 [perms]:
  "i < length xs \<Longrightarrow> j < length xs \<Longrightarrow> mset (xs[i := xs ! j, j := xs ! i]) = mset xs"
  using mset_swap [of j xs i] by simp

lemma shuffle_loop_mset [perms]:
  "shuffle_loop src k xs = Ok ys \<Longrightarrow> k < length xs \<or> xs = [] \<and> k = 0 \<Longrightarrow> mset ys = mset xs"
proof (induction k arbitrary: xs)
  case 0
  then show ?case by simp
next
  case (Suc k)
  then obtain raw where raw: "src (Suc k) = Some raw"
    by (auto split: option.splits)
  let ?j = "raw mod (Suc k + 1)"
  let ?xs = "xs[Suc k := xs ! ?j, ?j := xs ! Suc k]"
  have "mset ys = mset ?xs"
    using Suc.prems raw by (intro Suc.IH) (auto simp: Let_def)
  moreover have "mset ?xs = mset xs"
    using Suc.prems by (intro mset_swap2) (auto intro: le_less_trans [of _ "Suc k"] simp: mod_Suc_le_divisor le_trans)
  ultimately show ?case by simp
qed

interpretation fisher_yates: card_shuffler "Shuffle src" for src
proof
  fix cs cs' :: "Card list"
  assume "Shuffle src cs = Ok cs'"
  then show "mset cs' = mset cs"
    unfolding Shuffle_def by (rule shuffle_loop_mset) (cases cs, auto)
qed

text \<open>
  Every permutation can come out: the draws that produce a given order are found from the
  last position down.
\<close>

lemma mset_take_if_agree:
  assumes "mset xs = mset ys" and "drop n xs = drop n ys"
  shows "mset (take n xs) = mset (take n ys)"
proof -
  have "mset (take n xs) + mset (drop n xs) = mset (take n ys) + mset (drop n ys)"
    using assms(1) by (simp flip: mset_append)
  with assms(2) show ?thesis by simp
qed

lemma drop_two_updates: "i < n \<Longrightarrow> j < n \<Longrightarrow> drop n (xs[i := a, j := b]) = drop n xs"
  by (simp add: drop_update_cancel)

lemma drop_swap_agree:
  assumes k: "Suc k < length xs" and len: "length ys = length xs"
    and agree: "drop (Suc (Suc k)) xs = drop (Suc (Suc k)) ys"
    and j: "j \<le> Suc k" "xs ! j = ys ! Suc k"
  shows "drop (Suc k) (xs[Suc k := xs ! j, j := xs ! Suc k]) = drop (Suc k) ys"
proof -
  let ?xs = "xs[Suc k := xs ! j, j := xs ! Suc k]"
  have "drop (Suc k) ?xs = ?xs ! Suc k # drop (Suc (Suc k)) ?xs"
    using k by (simp add: Cons_nth_drop_Suc)
  also have "?xs ! Suc k = ys ! Suc k"
    using j k by (cases "j = Suc k") auto
  also have "drop (Suc (Suc k)) ?xs = drop (Suc (Suc k)) ys"
    using j agree by (simp add: drop_two_updates)
  finally show ?thesis
    using k len by (simp add: Cons_nth_drop_Suc)
qed

lemma mset_eq_short: "mset zs = mset ws \<Longrightarrow> length zs \<le> Suc 0 \<Longrightarrow> zs = ws"
  by (cases zs) (auto simp: mset_single_iff_right)

lemma shuffle_loop_above:
  "m \<le> k \<Longrightarrow> shuffle_loop (src(Suc k := Some j)) m zs = shuffle_loop src m zs"
  by (induction m arbitrary: zs) (auto simp: Let_def split: option.splits)

lemma shuffle_loop_surj:
  assumes "mset ys = mset xs" "k < length xs" "drop (Suc k) xs = drop (Suc k) ys"
  shows "\<exists>src. shuffle_loop src k xs = Ok ys"
  using assms
proof (induction k arbitrary: xs)
  case 0
  have "mset (take (Suc 0) xs) = mset (take (Suc 0) ys)"
    using 0 by (intro mset_take_if_agree) auto
  then have "take (Suc 0) xs = take (Suc 0) ys"
    by (rule mset_eq_short) simp
  with 0 have "take (Suc 0) xs @ drop (Suc 0) xs = take (Suc 0) ys @ drop (Suc 0) ys"
    by simp
  then have "xs = ys"
    unfolding append_take_drop_id .
  then show ?case by simp
next
  case (Suc k)
  have len: "length ys = length xs" using Suc.prems(1) by (rule mset_eq_length)
  have "ys ! Suc k \<in> set (take (Suc (Suc k)) ys)"
    using Suc.prems(2) len by (simp add: in_set_conv_nth) (metis lessI less_Suc_eq nth_take)
  then have "ys ! Suc k \<in> set (take (Suc (Suc k)) xs)"
    using mset_take_if_agree [of xs ys "Suc (Suc k)"] Suc.prems by (metis mset_eq_setD)
  then obtain j where j: "j \<le> Suc k" "xs ! j = ys ! Suc k"
    by (auto simp: in_set_conv_nth less_Suc_eq_le)
  let ?xs = "xs[Suc k := xs ! j, j := xs ! Suc k]"
  have "mset ?xs = mset xs"
    using Suc.prems(2) j by (intro mset_swap2) auto
  then obtain src where src: "shuffle_loop src k ?xs = Ok ys"
    using Suc.IH [of ?xs] Suc.prems drop_swap_agree [OF Suc.prems(2) len Suc.prems(3) j] by auto
  have "shuffle_loop (src(Suc k := Some j)) (Suc k) xs = Ok ys"
    using j src shuffle_loop_above [of k k src j ?xs] by simp
  then show ?case by blast
qed

lemma shuffle_loop_id: "shuffle_loop (\<lambda>i. Some i) k xs = Ok xs"
  by (induction k) simp_all

section \<open>Properties\<close>

text \<open>Parsing and printing are inverse. The text the repository stores for a card parses back
  to that card, and a text parses only if it is the printed form of a valid card: rank letter
  first, then the suit sign, nothing else.\<close>

theorem ParseCard_exactly_printed_cards:
  "ParseCard s = Ok c \<longleftrightarrow> IsValid c \<and> Card_String c = s"
  using ParseCard_Card_String ParseCard_OkD by blast

text \<open>C34: the shuffle returns a permutation of its input, and with suitable random draws it returns
  every permutation: no order of the deck is unreachable and no card is lost or doubled.\<close>

theorem Shuffle_yields_exactly_the_permutations:
  "(\<exists>src. Shuffle src (xs :: Card list) = Ok ys) \<longleftrightarrow> mset ys = mset xs"
proof
  assume "\<exists>src. Shuffle src xs = Ok ys"
  then show "mset ys = mset xs" by (blast dest: fisher_yates.shuf_perm)
next
  assume m: "mset ys = mset xs"
  show "\<exists>src. Shuffle src xs = Ok ys"
  proof (cases "xs = []")
    case True
    with m show ?thesis by (simp add: Shuffle_def)
  next
    case False
    then show ?thesis
      unfolding Shuffle_def using m mset_eq_length [OF m] by (intro shuffle_loop_surj) auto
  qed
qed

text \<open>a shuffled new deck holds each of the 52 valid cards exactly once.\<close>

theorem shuffled_deck_is_complete:
  assumes "Deck_Shuffle (NewDeck (Shuffle src)) = Ok d"
  shows "distinct (d_cards d) \<and> Remaining d = 52 \<and> set (d_cards d) = {c. IsValid c}"
  using fisher_yates.shuffled_deck [OF assms] by (simp add: Remaining_def)

theorem shuffled_deck_is_complete_witness:
  "\<exists>d. Deck_Shuffle (NewDeck (Shuffle (\<lambda>i. Some i))) = Ok d \<and> distinct (d_cards d) \<and> Remaining d = 52"
proof -
  have "Deck_Shuffle (NewDeck (Shuffle (\<lambda>i. Some i))) = Ok (NewDeck (Shuffle (\<lambda>i. Some i)))"
    by (simp add: Deck_Shuffle_def Shuffle_def shuffle_loop_id)
  from shuffled_deck_is_complete [OF this] this show ?thesis by blast
qed

end
