(* ===== verification/Game.thy ===== *)
theory Game
  imports Cards Complex_Main
begin

text \<open>
  The data of a hand: players, actions, pots and the game state of the engine, with the
  observers of \<open>domain/player.go\<close>, \<open>domain/action.go\<close>, \<open>domain/game.go\<close>, \<open>domain/betting.go\<close>
  (the configuration) and the event values of \<open>domain/events.go\<close>.

  Go's byte enumerations are datatypes with the source's constants; the extra constructor
  \<open>...Other\<close> stands for the remaining bytes, which the \<open>default\<close> branches catch. Chip amounts
  are \<^typ>\<open>int\<close>: these theories give the exact amounts, \<open>Engine64\<close> the same operations as
  the machine computes them, wrapping at 64 bits, and proves when the two agree. Slice indices that the code has validated are \<^typ>\<open>nat\<close>.
\<close>

section \<open>Identifiers, players, actions\<close>

type_synonym PlayerID = string
type_synonym TableID = string
type_synonym HandID = string

datatype PlayerStatus =
    PlayerStatusActive | PlayerStatusFolded | PlayerStatusAllIn | PlayerStatusSittingOut
  | PlayerStatusOther nat

record Player =
  p_ID :: PlayerID
  p_Stack :: int
  p_HoleCards :: "Card \<times> Card"
  p_Status :: PlayerStatus
  p_CurrentBet :: int
  p_Position :: int

definition IsActive :: "Player \<Rightarrow> bool" where
  "IsActive p \<longleftrightarrow> p_Status p = PlayerStatusActive"

definition IsAllIn :: "Player \<Rightarrow> bool" where
  "IsAllIn p \<longleftrightarrow> p_Status p = PlayerStatusAllIn"

definition IsFolded :: "Player \<Rightarrow> bool" where
  "IsFolded p \<longleftrightarrow> p_Status p = PlayerStatusFolded"

definition CanAct :: "Player \<Rightarrow> bool" where
  "CanAct p \<longleftrightarrow> p_Status p = PlayerStatusActive \<and> p_Stack p > 0"

datatype ActionType =
    ActionFold | ActionCheck | ActionCall | ActionRaise | ActionAllIn | ActionOther nat

fun ActionType_String :: "ActionType \<Rightarrow> string" where
  "ActionType_String ActionFold = ''fold''"
| "ActionType_String ActionCheck = ''check''"
| "ActionType_String ActionCall = ''call''"
| "ActionType_String ActionRaise = ''raise''"
| "ActionType_String ActionAllIn = ''all-in''"
| "ActionType_String (ActionOther n) = ''unknown''"

record Action =
  a_PlayerID :: PlayerID
  a_Type :: ActionType
  a_Amount :: int

definition NewFold :: "PlayerID \<Rightarrow> Action" where
  "NewFold playerID = \<lparr>a_PlayerID = playerID, a_Type = ActionFold, a_Amount = 0\<rparr>"

definition NewCheck :: "PlayerID \<Rightarrow> Action" where
  "NewCheck playerID = \<lparr>a_PlayerID = playerID, a_Type = ActionCheck, a_Amount = 0\<rparr>"

definition NewCall :: "PlayerID \<Rightarrow> Action" where
  "NewCall playerID = \<lparr>a_PlayerID = playerID, a_Type = ActionCall, a_Amount = 0\<rparr>"

definition NewRaise :: "PlayerID \<Rightarrow> int \<Rightarrow> Action" where
  "NewRaise playerID amount = \<lparr>a_PlayerID = playerID, a_Type = ActionRaise, a_Amount = amount\<rparr>"

definition NewAllIn :: "PlayerID \<Rightarrow> Action" where
  "NewAllIn playerID = \<lparr>a_PlayerID = playerID, a_Type = ActionAllIn, a_Amount = 0\<rparr>"

section \<open>The game state\<close>

datatype Street =
    StreetPreflop | StreetFlop | StreetTurn | StreetRiver | StreetShowdown | StreetOther nat

datatype BettingStructure = BettingFixedLimit | BettingOther nat

record BettingConfig =
  bc_Structure :: BettingStructure
  bc_SmallBlind :: int
  bc_BigBlind :: int
  bc_SmallBet :: int
  bc_BigBet :: int
  bc_MaxRaisesPerStreet :: int

record Pot =
  pot_Amount :: int
  pot_Eligible :: "PlayerID list"

record GameState =
  g_ID :: HandID
  g_TableID :: TableID
  g_Players :: "Player list"
  g_Board :: "Card list"
  g_Pots :: "Pot list"
  g_Street :: Street
  g_CurrentBet :: int
  g_ActivePlayer :: nat
  g_Button :: nat
  g_EventSequence :: int
  g_BettingConfig :: BettingConfig
  g_RaisesThisStreet :: int
  g_Deck :: "Deck option"

definition BetSizeForStreet :: "GameState \<Rightarrow> int" where
  "BetSizeForStreet g =
     (case g_Street g of
        StreetPreflop \<Rightarrow> bc_SmallBet (g_BettingConfig g)
      | StreetFlop \<Rightarrow> bc_SmallBet (g_BettingConfig g)
      | StreetTurn \<Rightarrow> bc_BigBet (g_BettingConfig g)
      | StreetRiver \<Rightarrow> bc_BigBet (g_BettingConfig g)
      | _ \<Rightarrow> 0)"

definition ActivePlayers :: "GameState \<Rightarrow> Player list" where
  "ActivePlayers g = filter (\<lambda>p. IsActive p \<or> IsAllIn p) (g_Players g)"

definition PlayersWhoCanAct :: "GameState \<Rightarrow> Player list" where
  "PlayersWhoCanAct g = filter CanAct (g_Players g)"

text \<open>\<open>PlayerByID\<close> returns a pointer into the player slice; here the index it points to.\<close>

fun find_player :: "PlayerID \<Rightarrow> Player list \<Rightarrow> nat option" where
  "find_player i [] = None"
| "find_player i (p # ps) = (if p_ID p = i then Some 0 else map_option Suc (find_player i ps))"

definition PlayerByID :: "GameState \<Rightarrow> PlayerID \<Rightarrow> nat option" where
  "PlayerByID g i = find_player i (g_Players g)"

definition IsHandOver :: "GameState \<Rightarrow> bool" where
  "IsHandOver g \<longleftrightarrow> length (PlayersWhoCanAct g) \<le> 1"

definition NextEventSequence :: "GameState \<Rightarrow> int" where
  "NextEventSequence g = g_EventSequence g + 1"

definition AdvanceEventSequence :: "GameState \<Rightarrow> GameState \<times> int" where
  "AdvanceEventSequence g =
     (let g' = g\<lparr>g_EventSequence := g_EventSequence g + 1\<rparr> in (g', g_EventSequence g'))"

section \<open>Event values\<close>

fun Street_EventValue :: "Street \<Rightarrow> string" where
  "Street_EventValue StreetPreflop = ''preflop''"
| "Street_EventValue StreetFlop = ''flop''"
| "Street_EventValue StreetTurn = ''turn''"
| "Street_EventValue StreetRiver = ''river''"
| "Street_EventValue StreetShowdown = ''showdown''"
| "Street_EventValue (StreetOther n) = ''unknown''"

fun BettingStructure_EventValue :: "BettingStructure \<Rightarrow> string" where
  "BettingStructure_EventValue BettingFixedLimit = ''fixed_limit''"
| "BettingStructure_EventValue (BettingOther n) = ''unknown''"

record HandStartedEvent =
  hs_EventID :: string
  hs_EventVersion :: int
  hs_HandID :: HandID
  hs_TableID :: TableID
  hs_SequenceNumber :: int
  hs_Players :: "PlayerID list"
  hs_PlayerCount :: int
  hs_Button :: int
  hs_BettingStructure :: string
  hs_SmallBlind :: int
  hs_BigBlind :: int
  hs_OccurredAt :: int

record PlayerActedEvent =
  pa_EventID :: string
  pa_EventVersion :: int
  pa_HandID :: HandID
  pa_TableID :: TableID
  pa_SequenceNumber :: int
  pa_PlayerID :: PlayerID
  pa_Street :: string
  pa_PlayerPosition :: int
  pa_Action :: Action
  pa_CurrentBet :: int
  pa_PlayerCurrentBet :: int
  pa_OccurredAt :: int

record HandEndedEvent =
  he_EventID :: string
  he_EventVersion :: int
  he_HandID :: HandID
  he_TableID :: TableID
  he_SequenceNumber :: int
  he_PlayerCount :: int
  he_Button :: int
  he_SmallBlind :: int
  he_BigBlind :: int
  he_Showdown :: bool
  he_GrossPot :: int
  he_NetPot :: int
  he_Winners :: "(PlayerID, int) gomap"
  he_Rake :: int
  he_Board :: "Card list"
  he_OccurredAt :: int

datatype EngineEvent =
    EvHandStarted HandStartedEvent
  | EvPlayerActed PlayerActedEvent
  | EvHandEnded HandEndedEvent

section \<open>The order of the streets\<close>

text \<open>The byte behind a street orders the streets; a hand only moves up in it.\<close>

fun street_code :: "Street \<Rightarrow> nat" where
  "street_code StreetPreflop = 0"
| "street_code StreetFlop = 1"
| "street_code StreetTurn = 2"
| "street_code StreetRiver = 3"
| "street_code StreetShowdown = 4"
| "street_code (StreetOther n) = n + 5"

lemma street_code_inj: "street_code s = street_code t \<Longrightarrow> s = t"
  by (cases s; cases t) auto

instantiation Street :: linorder
begin

definition less_eq_Street :: "Street \<Rightarrow> Street \<Rightarrow> bool" where
  "less_eq_Street s t \<longleftrightarrow> street_code s \<le> street_code t"

definition less_Street :: "Street \<Rightarrow> Street \<Rightarrow> bool" where
  "less_Street s t \<longleftrightarrow> street_code s < street_code t"

instance
  by standard (auto simp: less_eq_Street_def less_Street_def intro: street_code_inj)

end

section \<open>Lemmas on players and chips\<close>

lemma find_player_Some:
  "find_player i ps = Some k \<Longrightarrow> k < length ps \<and> p_ID (ps ! k) = i"
  by (induction ps arbitrary: k) (auto split: if_splits)

lemma find_player_None: "find_player i ps = None \<longleftrightarrow> i \<notin> p_ID ` set ps"
  by (induction ps) auto

lemma find_player_distinct:
  assumes "distinct (map p_ID ps)" "k < length ps"
  shows "find_player (p_ID (ps ! k)) ps = Some k"
  using assms
proof (induction ps arbitrary: k)
  case (Cons p ps)
  then show ?case by (cases k) (auto simp: image_iff)
qed simp

lemma find_player_ids: "map p_ID ps = map p_ID qs \<Longrightarrow> find_player i ps = find_player i qs"
  by (induction ps qs rule: list_induct2') auto

lemma CanAct_IsActive: "CanAct p \<Longrightarrow> IsActive p"
  by (simp add: CanAct_def IsActive_def)

definition Total :: "Pot list \<Rightarrow> int" where
  "Total pots = sum_list (map pot_Amount pots)"

definition stacks :: "Player list \<Rightarrow> int" where
  "stacks ps = sum_list (map p_Stack ps)"

definition bets :: "Player list \<Rightarrow> int" where
  "bets ps = sum_list (map p_CurrentBet ps)"

text \<open>All the chips in play: behind, in front of the players and in the pots.\<close>

definition chips_in_play :: "GameState \<Rightarrow> int" where
  "chips_in_play g = stacks (g_Players g) + bets (g_Players g) + Total (g_Pots g)"

lemma Total_Nil [simp]: "Total [] = 0"
  and Total_Cons [simp]: "Total (p # ps) = pot_Amount p + Total ps"
  and Total_append [simp]: "Total (ps @ qs) = Total ps + Total qs"
  by (simp_all add: Total_def)

lemma stacks_simps [simp]:
  "stacks [] = 0" "stacks (p # ps) = p_Stack p + stacks ps"
  by (simp_all add: stacks_def)

lemma bets_simps [simp]:
  "bets [] = 0" "bets (p # ps) = p_CurrentBet p + bets ps"
  by (simp_all add: bets_def)

lemma stacks_update [chips]:
  "i < length ps \<Longrightarrow> stacks (ps[i := p]) = stacks ps - p_Stack (ps ! i) + p_Stack p"
  by (simp add: stacks_def sum_list_map_update)

lemma bets_update [chips]:
  "i < length ps \<Longrightarrow> bets (ps[i := p]) = bets ps - p_CurrentBet (ps ! i) + p_CurrentBet p"
  by (simp add: bets_def sum_list_map_update)

lemma Total_nonneg: "(\<forall>p \<in> set pots. 0 \<le> pot_Amount p) \<Longrightarrow> 0 \<le> Total pots"
  unfolding Total_def by (rule sum_list_map_nonneg)

end
