(* ===== verification/Pots.thy ===== *)
theory Pots
  imports Game
begin

text \<open>
  Pots and rake: \<open>domain/pot.go\<close> and \<open>domain/rake.go\<close>. The order in which Go ranges over a map
  is unspecified; \<open>iter\<close> is that order, a parameter that may only permute the keys. Float64
  rounding is the parameter \<open>fl\<close> (IEEE 754 rounding of a rational).
\<close>

section \<open>Side pots\<close>

fun min_scan :: "int \<Rightarrow> int list \<Rightarrow> int" where
  "min_scan minContrib [] = minContrib"
| "min_scan minContrib (amount # rest) =
     min_scan (if minContrib = -1 \<or> amount < minContrib then amount else minContrib) rest"

lemma min_scan_in: "min_scan m xs = m \<or> min_scan m xs \<in> set xs"
proof (induction xs arbitrary: m)
  case (Cons a xs)
  show ?case
    using Cons [of a] Cons [of m] by auto
qed simp

lemma min_scan_mem: "xs \<noteq> [] \<Longrightarrow> min_scan (-1) xs \<in> set xs"
  by (cases xs) (use min_scan_in in auto)

definition subtract_min :: "int \<Rightarrow> (PlayerID, int) gomap \<Rightarrow> (PlayerID, int) gomap" where
  "subtract_min m remaining =
     filter (\<lambda>(i, a). a \<noteq> 0) (map (\<lambda>(i, a). (i, a - m)) remaining)"

lemma length_subtract_min:
  assumes "m \<in> snd ` set remaining"
  shows "length (subtract_min m remaining) < length remaining"
proof -
  have "length (filter (\<lambda>p. snd p \<noteq> m) remaining) < length remaining"
    using assms by (metis (mono_tags, lifting) imageE length_filter_less)
  then show ?thesis
    by (simp add: subtract_min_def filter_map comp_def case_prod_unfold)
qed

function calculate_loop ::
    "(PlayerID list \<Rightarrow> PlayerID list) \<Rightarrow> (PlayerID, int) gomap \<Rightarrow> Pot list" where
  "calculate_loop iter remaining =
     (if remaining = [] then []
      else let minContrib = min_scan (-1) (map snd remaining)
           in \<lparr>pot_Amount = minContrib * int (length remaining),
               pot_Eligible = iter (map fst remaining)\<rparr>
              # calculate_loop iter (subtract_min minContrib remaining))"
  by pat_completeness auto
termination
proof (relation "measure (\<lambda>(iter, remaining). length remaining)")
  fix iter :: "PlayerID list \<Rightarrow> PlayerID list" and remaining :: "(PlayerID, int) gomap" and m
  assume "remaining \<noteq> []" and m: "m = min_scan (-1) (map snd remaining)"
  then have "m \<in> snd ` set remaining"
    using min_scan_mem [of "map snd remaining"] by simp
  then show "((iter, subtract_min m remaining), iter, remaining)
      \<in> measure (\<lambda>(iter, remaining). length remaining)"
    by (simp add: length_subtract_min)
qed simp

declare calculate_loop.simps [simp del]

definition Calculate ::
    "(PlayerID list \<Rightarrow> PlayerID list) \<Rightarrow> (PlayerID, int) gomap \<Rightarrow> Pot list" where
  "Calculate iter contributions =
     (if contributions = [] then []
      else calculate_loop iter (filter (\<lambda>(i, amount). amount > 0) contributions))"

section \<open>Rake\<close>

record RakeConfig =
  rc_Percent :: rat
  rc_Cap :: int
  rc_NoFlopNoDrop :: bool

text \<open>Go's conversion of a float to an int truncates towards zero.\<close>

definition trunc_int :: "rat \<Rightarrow> int" where
  "trunc_int x = (if 0 \<le> x then \<lfloor>x\<rfloor> else \<lceil>x\<rceil>)"

definition CalculateRake :: "(rat \<Rightarrow> rat) \<Rightarrow> Pot list \<Rightarrow> Street \<Rightarrow> RakeConfig \<Rightarrow> int" where
  "CalculateRake fl pots street config =
     (if rc_NoFlopNoDrop config \<and> street = StreetPreflop then 0
      else let total = Total pots
           in if total = 0 then 0
              else let rake = trunc_int (fl (fl (of_int total) * rc_Percent config))
                   in if rake > rc_Cap config then rc_Cap config else rake)"

text \<open>The loop of \<open>ApplyRake\<close> runs from the last pot to the first: here on the reversed list.\<close>

fun apply_rake_loop :: "int \<Rightarrow> Pot list \<Rightarrow> Pot list" where
  "apply_rake_loop remaining [] = []"
| "apply_rake_loop remaining (p # ps) =
     (if remaining > 0
      then let deduct = (if remaining > pot_Amount p then pot_Amount p else remaining)
           in p\<lparr>pot_Amount := pot_Amount p - deduct\<rparr> # apply_rake_loop (remaining - deduct) ps
      else p # ps)"

definition ApplyRake :: "Pot list \<Rightarrow> int \<Rightarrow> Pot list" where
  "ApplyRake pots rake =
     (if rake = 0 \<or> pots = [] then pots else rev (apply_rake_loop rake (rev pots)))"

section \<open>Lemmas on pots\<close>

lemma permuting_distinct: "permuting iter \<Longrightarrow> distinct (iter xs) = distinct xs"
  by (metis permuting_def mset_eq_imp_distinct_iff)

lemma min_scan_Min:
  "\<lbrakk>0 < m; \<forall>a \<in> set xs. 0 < a\<rbrakk> \<Longrightarrow> min_scan m xs = Min (insert m (set xs))"
proof (induction xs arbitrary: m)
  case (Cons a xs)
  have "min_scan m (a # xs) = min_scan (min m a) xs"
    using Cons.prems by (simp add: min_def)
  also have "\<dots> = Min (insert (min m a) (set xs))"
    using Cons by simp
  also have "\<dots> = Min (insert m (set (a # xs)))"
    by (cases "xs = []") (simp_all add: ac_simps min.left_commute)
  finally show ?case .
qed simp

lemma min_scan_start:
  "\<lbrakk>xs \<noteq> []; \<forall>a \<in> set xs. 0 < a\<rbrakk> \<Longrightarrow> min_scan (-1) xs = Min (set xs)"
  by (cases xs) (simp_all add: min_scan_Min)

lemma gosum_subtract_min:
  "gosum (subtract_min m r) = gosum r - m * int (length r)"
  by (induction r) (auto simp: gosum_def subtract_min_def algebra_simps)

lemma Total_calculate_loop: "Total (calculate_loop iter r) = gosum r"
proof (induction iter r rule: calculate_loop.induct)
  case (1 iter r)
  show ?case
  proof (cases "r = []")
    case True
    then show ?thesis by (simp add: calculate_loop.simps gosum_def)
  next
    case False
    then show ?thesis
      using "1.IH" [OF False refl]
      by (subst calculate_loop.simps) (simp add: Let_def gosum_subtract_min)
  qed
qed

lemma Total_Calculate [chips]:
  "Total (Calculate iter m) = gosum (filter (\<lambda>(i, a). a > 0) m)"
  by (simp add: Calculate_def Total_calculate_loop) (simp add: gosum_def)

definition all_pos :: "(PlayerID, int) gomap \<Rightarrow> bool" where
  "all_pos r \<longleftrightarrow> (\<forall>(i, a) \<in> set r. 0 < a)"

lemma min_contrib:
  assumes "all_pos r" "r \<noteq> []"
  shows "min_scan (-1) (map snd r) = Min (snd ` set r)"
    and "0 < Min (snd ` set r)"
    and "(i, a) \<in> set r \<Longrightarrow> Min (snd ` set r) \<le> a"
  using assms by (auto simp: min_scan_start all_pos_def case_prod_unfold intro!: Min_le rev_image_eqI)

lemma all_pos_subtract_min:
  "\<lbrakk>all_pos r; r \<noteq> []\<rbrakk> \<Longrightarrow> all_pos (subtract_min (Min (snd ` set r)) r)"
  using min_contrib(3) [of r] by (fastforce simp: all_pos_def subtract_min_def)

lemma calculate_loop_step:
  assumes "all_pos r" "r \<noteq> []"
  shows "calculate_loop iter r =
     \<lparr>pot_Amount = Min (snd ` set r) * int (length r), pot_Eligible = iter (map fst r)\<rparr>
     # calculate_loop iter (subtract_min (Min (snd ` set r)) r)"
  using assms by (subst calculate_loop.simps) (simp add: min_contrib(1))

text \<open>Induction along the loop of \<open>Calculate\<close>: peel off the smallest remaining contribution.\<close>

lemma calculate_induct [consumes 1, case_names Nil Peel]:
  assumes "all_pos r"
    and "P []"
    and "\<And>r. \<lbrakk>all_pos r; r \<noteq> []; P (subtract_min (Min (snd ` set r)) r)\<rbrakk> \<Longrightarrow> P r"
  shows "P r"
  using assms(1)
proof (induction "length r" arbitrary: r rule: less_induct)
  case less
  show ?case
  proof (cases "r = []")
    case False
    have "Min (snd ` set r) \<in> snd ` set r"
      using False by (intro Min_in) auto
    then have "P (subtract_min (Min (snd ` set r)) r)"
      using less False by (intro less(1)) (auto simp: length_subtract_min all_pos_subtract_min)
    then show ?thesis using less(2) False assms(3) by blast
  qed (use assms(2) in simp)
qed

text \<open>What player \<open>i\<close> can win in total: the sum of the pots that list him.\<close>

definition winnable :: "PlayerID \<Rightarrow> Pot list \<Rightarrow> int" where
  "winnable i pots = Total (filter (\<lambda>p. i \<in> set (pot_Eligible p)) pots)"

lemma sum_min_zero: "all_pos r \<Longrightarrow> sum_list (map (\<lambda>(j, a). min 0 a) r) = 0"
  by (induction r) (auto simp: all_pos_def)

lemma sum_min_filter_pos:
  "\<lbrakk>0 \<le> c; \<forall>(j, a) \<in> set m. (0::int) \<le> a\<rbrakk> \<Longrightarrow>
    sum_list (map (\<lambda>(j, a). min c a) (filter (\<lambda>(j, a). a > 0) m)) = sum_list (map (\<lambda>(j, a). min c a) m)"
  by (induction m) auto

lemma sum_min_subtract:
  assumes "\<forall>(j, a) \<in> set r. m \<le> a" "m \<le> c"
  shows "sum_list (map (\<lambda>(j, a). min c a) r) =
    m * int (length r) + sum_list (map (\<lambda>(j, a). min (c - m) a) (subtract_min m r))"
  using assms
  by (induction r) (auto simp: subtract_min_def algebra_simps min_def split: if_splits)

lemma winnable_not_listed:
  assumes "all_pos r" "permuting iter" "i \<notin> fst ` set r"
  shows "winnable i (calculate_loop iter r) = 0"
  using assms(1,3)
proof (induction r rule: calculate_induct)
  case Nil
  then show ?case by (simp add: winnable_def calculate_loop.simps)
next
  case (Peel r)
  then have "i \<notin> fst ` set (subtract_min (Min (snd ` set r)) r)"
    by (force simp: subtract_min_def)
  with Peel show ?case
    by (auto simp: winnable_def calculate_loop_step permuting_set [OF assms(2)])
qed

lemma winnable_calculate_loop:
  assumes "all_pos r" "permuting iter" "wf_gomap r" "(i, c) \<in> set r"
  shows "winnable i (calculate_loop iter r) = sum_list (map (\<lambda>(j, a). min c a) r)"
  using assms(1,3,4)
proof (induction r arbitrary: c rule: calculate_induct)
  case (Peel r)
  let ?m = "Min (snd ` set r)"
  let ?r = "subtract_min ?m r"
  have listed: "i \<in> set (iter (map fst r))"
    using Peel.prems by (force simp: permuting_set [OF assms(2)])
  have wf: "wf_gomap ?r"
    using Peel.prems(1)
    by (simp add: wf_gomap_def subtract_min_def filter_map comp_def case_prod_unfold distinct_map_filter)
  have mc: "?m \<le> c" using Peel min_contrib(3) by blast
  have rest: "winnable i (calculate_loop iter ?r) = sum_list (map (\<lambda>(j, a). min (c - ?m) a) ?r)"
  proof (cases "c = ?m")
    case True
    have "i \<notin> fst ` set ?r"
      using Peel.prems True by (auto simp: subtract_min_def wf_gomap_def dest: eq_key_imp_eq_value)
    then show ?thesis
      using True winnable_not_listed [OF all_pos_subtract_min [OF Peel(1,2)] assms(2)]
      by (simp add: sum_min_zero all_pos_subtract_min [OF Peel(1,2)])
  next
    case False
    then have "(i, c - ?m) \<in> set ?r"
      using Peel.prems(2) by (force simp: subtract_min_def)
    then show ?thesis using Peel.IH wf by blast
  qed
  have "winnable i (calculate_loop iter r) = ?m * int (length r) + winnable i (calculate_loop iter ?r)"
    using Peel(1,2) listed by (simp add: winnable_def calculate_loop_step)
  then show ?case
    using rest mc min_contrib(3) [OF Peel(1,2)] by (subst sum_min_subtract [of r ?m c]) auto
qed simp

text \<open>Each pot takes the same from everyone it lists, so a player may win from each other what he matched.\<close>

lemma side_pots_fair:
  assumes "permuting iter" "wf_gomap contributions" "\<forall>(j, a) \<in> set contributions. 0 \<le> a"
  shows "winnable i (Calculate iter contributions)
    = sum_list (map (\<lambda>(j, a). min (get0 contributions i) a) contributions)"
proof -
  let ?r = "filter (\<lambda>(j, a). a > 0) contributions"
  let ?c = "get0 contributions i"
  have pos: "all_pos ?r" by (auto simp: all_pos_def)
  have wf: "wf_gomap ?r" using assms(2) by (simp add: wf_gomap_def distinct_map_filter)
  have c0: "0 \<le> ?c" using assms(3) by (intro get0_nonneg) auto
  have drop0: "sum_list (map (\<lambda>(j, a). min ?c a) contributions)
      = sum_list (map (\<lambda>(j, a). min ?c a) ?r)"
    using sum_min_filter_pos [OF c0 assms(3)] by simp
  have "winnable i (calculate_loop iter ?r) = sum_list (map (\<lambda>(j, a). min ?c a) ?r)"
  proof (cases "?c = 0")
    case True
    then have "i \<notin> fst ` set ?r"
      using assms(2) by (force simp: get0_def wf_gomap_def split: option.splits)
    then show ?thesis
      using True winnable_not_listed [OF pos assms(1)] by (simp add: sum_min_zero [OF pos])
  next
    case False
    then have "(i, ?c) \<in> set ?r"
      using c0 by (auto simp: get0_def dest: map_of_SomeD split: option.splits)
    then show ?thesis by (rule winnable_calculate_loop [OF pos assms(1) wf])
  qed
  then show ?thesis
    using drop0 by (cases "contributions = []") (simp_all add: Calculate_def winnable_def)
qed

lemma Calculate_amounts_pos:
  assumes "wf_gomap m" "p \<in> set (Calculate iter m)"
  shows "0 < pot_Amount p"
proof -
  have "\<forall>p \<in> set (calculate_loop iter r). 0 < pot_Amount p" if "all_pos r" for r
    using that by (induction r rule: calculate_induct)
      (auto simp: calculate_loop_step calculate_loop.simps [of _ "[]"] intro!: mult_pos_pos min_contrib(2)
        simp del: Min_gr_iff)
  moreover have "all_pos (filter (\<lambda>(i, a). a > 0) m)" by (auto simp: all_pos_def)
  ultimately show ?thesis using assms(2) by (auto simp: Calculate_def split: if_splits)
qed

lemma Calculate_eligible:
  assumes "permuting iter" "wf_gomap m" "p \<in> set (Calculate iter m)"
  shows "distinct (pot_Eligible p)" and "set (pot_Eligible p) \<subseteq> fst ` set m"
    and "pot_Eligible p \<noteq> []"
proof -
  have "\<forall>p \<in> set (calculate_loop iter r). distinct (pot_Eligible p) \<and> pot_Eligible p \<noteq> []
      \<and> set (pot_Eligible p) \<subseteq> fst ` set r" if "all_pos r" "wf_gomap r" for r
    using that
  proof (induction r rule: calculate_induct)
    case (Peel r)
    let ?r = "subtract_min (Min (snd ` set r)) r"
    have "wf_gomap ?r"
      using Peel.prems by (simp add: wf_gomap_def subtract_min_def filter_map comp_def
          case_prod_unfold distinct_map_filter)
    moreover have "fst ` set ?r \<subseteq> fst ` set r" by (force simp: subtract_min_def)
    moreover have "iter (map fst r) \<noteq> []"
      using Peel(2) permuting_set [OF assms(1), of "map fst r"] by auto
    ultimately show ?case
      using Peel by (auto simp: calculate_loop_step permuting_set [OF assms(1)]
          permuting_distinct [OF assms(1)] wf_gomap_def, blast)
  qed (simp add: calculate_loop.simps)
  moreover have "all_pos (filter (\<lambda>(i, a). a > 0) m)" by (auto simp: all_pos_def)
  moreover have "wf_gomap (filter (\<lambda>(i, a). a > 0) m)"
    using assms(2) by (simp add: wf_gomap_def distinct_map_filter)
  ultimately have "distinct (pot_Eligible p) \<and> pot_Eligible p \<noteq> []
      \<and> set (pot_Eligible p) \<subseteq> fst ` set (filter (\<lambda>(i, a). a > 0) m)"
    using assms(3) unfolding Calculate_def by (auto simp del: set_filter split: if_splits)
  then show "distinct (pot_Eligible p)" "set (pot_Eligible p) \<subseteq> fst ` set m" "pot_Eligible p \<noteq> []"
    by auto
qed

section \<open>Lemmas on the rake\<close>

text \<open>
  What the rake relies on of IEEE 754 double precision: rounding is monotone, keeps zero and is
  exact on the integers up to \<open>2^53\<close>.
\<close>

definition float64_rounding :: "(rat \<Rightarrow> rat) \<Rightarrow> bool" where
  "float64_rounding fl \<longleftrightarrow> mono fl \<and> fl 0 = 0 \<and> (\<forall>n. \<bar>n\<bar> \<le> 2 ^ 53 \<longrightarrow> fl (of_int n) = of_int n)"

lemma float64_rounding_id [simp]: "float64_rounding (\<lambda>x. x)"
  by (simp add: float64_rounding_def mono_def)

definition wf_rake :: "RakeConfig \<Rightarrow> bool" where
  "wf_rake c \<longleftrightarrow> 0 \<le> rc_Percent c \<and> rc_Percent c \<le> 1 \<and> 0 \<le> rc_Cap c"

lemma CalculateRake_bounds:
  assumes fl: "float64_rounding fl" and c: "wf_rake config" and t: "0 \<le> Total pots" "Total pots \<le> 2 ^ 53"
  shows "0 \<le> CalculateRake fl pots street config"
    and "CalculateRake fl pots street config \<le> Total pots"
    and "CalculateRake fl pots street config \<le> rc_Cap config"
proof -
  let ?t = "of_int (Total pots) :: rat"
  let ?x = "fl (fl ?t * rc_Percent config)"
  have mono: "mono fl" and exact: "fl ?t = ?t" and z: "fl 0 = 0"
    using fl t by (auto simp: float64_rounding_def)
  have "0 \<le> ?t * rc_Percent config" using c t by (simp add: wf_rake_def)
  then have x0: "0 \<le> ?x" using monoD [OF mono] z exact by metis
  have "?t * rc_Percent config \<le> ?t" using c t by (simp add: wf_rake_def mult_left_le)
  then have "?x \<le> ?t" using monoD [OF mono] exact by metis
  then have "\<lfloor>?x\<rfloor> \<le> Total pots" by (metis floor_mono floor_of_int)
  then show "0 \<le> CalculateRake fl pots street config"
    "CalculateRake fl pots street config \<le> Total pots"
    "CalculateRake fl pots street config \<le> rc_Cap config"
    using x0 c t by (auto simp: CalculateRake_def trunc_int_def wf_rake_def Let_def)
qed

lemma apply_rake_loop_0 [simp]: "apply_rake_loop 0 ps = ps"
  by (cases ps) auto

lemma apply_rake_loop_spec:
  assumes "\<forall>p \<in> set ps. 0 \<le> pot_Amount p" "0 \<le> r" "r \<le> Total ps"
  shows "Total (apply_rake_loop r ps) = Total ps - r
    \<and> (\<forall>p \<in> set (apply_rake_loop r ps). 0 \<le> pot_Amount p)"
  using assms
proof (induction ps arbitrary: r)
  case (Cons p ps)
  have "Total (apply_rake_loop (r - pot_Amount p) ps) = Total ps - (r - pot_Amount p)
      \<and> (\<forall>q \<in> set (apply_rake_loop (r - pot_Amount p) ps). 0 \<le> pot_Amount q)" if "pot_Amount p < r"
    using that Cons.prems by (intro Cons.IH) auto
  then show ?case using Cons.prems by (auto simp: Let_def)
qed simp

lemma apply_rake_loop_eligible: "map pot_Eligible (apply_rake_loop r ps) = map pot_Eligible ps"
  by (induction ps arbitrary: r) (auto simp: Let_def)

lemma ApplyRake_eligible [simp]: "map pot_Eligible (ApplyRake ps r) = map pot_Eligible ps"
  by (simp add: ApplyRake_def rev_map [symmetric] apply_rake_loop_eligible)

lemma length_ApplyRake [simp]: "length (ApplyRake ps r) = length ps"
  using ApplyRake_eligible by (metis length_map)

lemma Total_rev [simp]: "Total (rev ps) = Total ps"
  by (induction ps) auto

lemma ApplyRake_spec:
  assumes "\<forall>p \<in> set ps. 0 \<le> pot_Amount p" "0 \<le> r" "r \<le> Total ps"
  shows "Total (ApplyRake ps r) = Total ps - r"
    and "\<forall>p \<in> set (ApplyRake ps r). 0 \<le> pot_Amount p"
  using apply_rake_loop_spec [of "rev ps" r] assms by (auto simp: ApplyRake_def)

text \<open>
  C31: The house takes exactly the rake it reports. For non-negative pots below \<open>2^53\<close> chips
  and a rake percentage between 0 and 1, the rake lies between 0 and its cap, nothing is taken
  before the flop under no-flop-no-drop, the pots after \<open>ApplyRake\<close> hold exactly the rake less,
  none is negative, and who may win which pot is unchanged.
\<close>

theorem rake_is_taken_exactly:
  assumes "float64_rounding fl" "wf_rake config"
    and "\<forall>p \<in> set pots. 0 \<le> pot_Amount p" "Total pots \<le> 2 ^ 53"
    and rake: "rake = CalculateRake fl pots street config"
  shows "0 \<le> rake \<and> rake \<le> rc_Cap config
    \<and> (rc_NoFlopNoDrop config \<and> street = StreetPreflop \<longrightarrow> rake = 0)
    \<and> Total (ApplyRake pots rake) = Total pots - rake
    \<and> (\<forall>p \<in> set (ApplyRake pots rake). 0 \<le> pot_Amount p)
    \<and> map pot_Eligible (ApplyRake pots rake) = map pot_Eligible pots"
proof -
  have "0 \<le> Total pots" using assms(3) by (rule Total_nonneg)
  note bounds = CalculateRake_bounds [OF assms(1,2) this assms(4), of street, folded rake]
  have "rc_NoFlopNoDrop config \<and> street = StreetPreflop \<longrightarrow> rake = 0"
    by (simp add: rake CalculateRake_def)
  with bounds ApplyRake_spec [OF assms(3) bounds(1,2)] show ?thesis by simp
qed

theorem rake_is_taken_exactly_witness:
  "Total (ApplyRake [\<lparr>pot_Amount = 90, pot_Eligible = [''a'', ''b'']\<rparr>, \<lparr>pot_Amount = 2, pot_Eligible = [''b'']\<rparr>]
     (CalculateRake (\<lambda>x. x)
       [\<lparr>pot_Amount = 90, pot_Eligible = [''a'', ''b'']\<rparr>, \<lparr>pot_Amount = 2, pot_Eligible = [''b'']\<rparr>]
       StreetRiver \<lparr>rc_Percent = 1/20, rc_Cap = 3, rc_NoFlopNoDrop = True\<rparr>)) = 92 - 3"
  using rake_is_taken_exactly [of "\<lambda>x. x" "\<lparr>rc_Percent = 1/20, rc_Cap = 3, rc_NoFlopNoDrop = True\<rparr>"
      "[\<lparr>pot_Amount = 90, pot_Eligible = [''a'', ''b'']\<rparr>, \<lparr>pot_Amount = 2, pot_Eligible = [''b'']\<rparr>]"
      3 StreetRiver]
  by (simp add: wf_rake_def CalculateRake_def trunc_int_def)

end
