(* ===== verification/Betting.thy ===== *)
theory Betting
  imports Pots
begin

text \<open>
  The betting rules (\<open>domain/betting.go\<close>): validation and application of an action, the end of a
  betting round, the next player to act, collecting the bets into pots, together with the
  well-formedness invariant of a hand in progress that every rule preserves.

  A Go slice of player pointers is a list of players; an index out of range panics.
\<close>

section \<open>The rules\<close>

definition ValidateAction :: "GameState \<Rightarrow> Action \<Rightarrow> (engine_err, unit) outcome" where
  "ValidateAction state action =
     (if g_ActivePlayer state \<ge> length (g_Players state) then Panic ''index out of range''
      else let player = g_Players state ! g_ActivePlayer state
      in if p_ID player \<noteq> a_PlayerID action then Err ErrNotPlayerTurn
      else if \<not> CanAct player then Err ErrPlayerNotActive
      else case a_Type action of
          ActionCheck \<Rightarrow>
            if g_CurrentBet state > p_CurrentBet player then Err ErrInvalidAction else Ok ()
        | ActionCall \<Rightarrow>
            if g_CurrentBet state = p_CurrentBet player then Err ErrInvalidAction else Ok ()
        | ActionRaise \<Rightarrow>
            if g_RaisesThisStreet state \<ge> bc_MaxRaisesPerStreet (g_BettingConfig state)
              then Err ErrRaiseCapReached
            else let expectedRaiseTo = g_CurrentBet state + BetSizeForStreet state
            in if a_Amount action \<noteq> expectedRaiseTo then Err ErrInvalidRaiseAmount
            else if a_Amount action > p_Stack player + p_CurrentBet player then Err ErrInsufficientStack
            else Ok ()
        | ActionFold \<Rightarrow> Ok ()
        | ActionAllIn \<Rightarrow> Err ErrInvalidAction
        | ActionOther n \<Rightarrow> Err ErrInvalidAction)"

definition ApplyAction :: "GameState \<Rightarrow> Action \<Rightarrow> (engine_err, GameState) outcome" where
  "ApplyAction state action =
     (if g_ActivePlayer state \<ge> length (g_Players state) then Panic ''index out of range''
      else let i = g_ActivePlayer state; player = g_Players state ! i
      in Ok (case a_Type action of
          ActionFold \<Rightarrow>
            state\<lparr>g_Players := (g_Players state)[i := player\<lparr>p_Status := PlayerStatusFolded\<rparr>]\<rparr>
        | ActionCall \<Rightarrow>
            (let owed = g_CurrentBet state - p_CurrentBet player;
                 allin = owed \<ge> p_Stack player;
                 amount = (if allin then p_Stack player else owed);
                 player = (if allin then player\<lparr>p_Status := PlayerStatusAllIn\<rparr> else player);
                 player = player\<lparr>p_Stack := p_Stack player - amount,
                                 p_CurrentBet := p_CurrentBet player + amount\<rparr>
             in state\<lparr>g_Players := (g_Players state)[i := player]\<rparr>)
        | ActionRaise \<Rightarrow>
            (let amount = a_Amount action - p_CurrentBet player;
                 player = player\<lparr>p_Stack := p_Stack player - amount,
                                 p_CurrentBet := a_Amount action\<rparr>;
                 player = (if p_Stack player = 0 then player\<lparr>p_Status := PlayerStatusAllIn\<rparr> else player)
             in state\<lparr>g_Players := (g_Players state)[i := player],
                      g_CurrentBet := a_Amount action,
                      g_RaisesThisStreet := g_RaisesThisStreet state + 1\<rparr>)
        | ActionCheck \<Rightarrow> state
        | ActionAllIn \<Rightarrow> state
        | ActionOther n \<Rightarrow> state))"

definition IsBettingRoundOver :: "GameState \<Rightarrow> bool" where
  "IsBettingRoundOver state =
     list_all (\<lambda>p. if \<not> CanAct p then True else \<not> p_CurrentBet p < g_CurrentBet state) (g_Players state)"

text \<open>The seat scan shared by the two searches: offsets 1 to n from a seat, the first that fits.\<close>

definition NextActivePlayer :: "GameState \<Rightarrow> nat" where
  "NextActivePlayer state =
     (let n = length (g_Players state)
      in case find (\<lambda>i. CanAct (g_Players state ! ((g_ActivePlayer state + i) mod n))) [1..<n + 1] of
          Some i \<Rightarrow> (g_ActivePlayer state + i) mod n
        | None \<Rightarrow> g_ActivePlayer state)"

definition FirstActiveAfterButton :: "GameState \<Rightarrow> nat" where
  "FirstActiveAfterButton state =
     (let n = length (g_Players state)
      in case find (\<lambda>i. let p = g_Players state ! ((g_Button state + i) mod n) in IsActive p \<or> IsAllIn p)
           [1..<n + 1] of
          Some i \<Rightarrow> (g_Button state + i) mod n
        | None \<Rightarrow> g_Button state)"

definition mergePots :: "Pot list \<Rightarrow> Pot list \<Rightarrow> Pot list" where
  "mergePots existing newPots =
     (if length existing = 0 then newPots
      else if length newPots = 0 then existing
      else let l = length existing - 1
           in existing[l := (existing ! l)\<lparr>pot_Amount := pot_Amount (existing ! l) + pot_Amount (newPots ! 0)\<rparr>]
              @ drop 1 newPots)"

definition contributions_of :: "Player list \<Rightarrow> (PlayerID, int) gomap" where
  "contributions_of players =
     foldl (\<lambda>m p. if p_CurrentBet p > 0 then AList.update (p_ID p) (p_CurrentBet p) m else m) [] players"

definition CollectBets :: "(PlayerID list \<Rightarrow> PlayerID list) \<Rightarrow> GameState \<Rightarrow> GameState" where
  "CollectBets iter state =
     (let contributions = contributions_of (g_Players state);
          players = map (\<lambda>p. if p_CurrentBet p > 0 then p\<lparr>p_CurrentBet := 0\<rparr> else p) (g_Players state);
          newPots = Calculate iter contributions
      in if length (g_Pots state) = 0
         then state\<lparr>g_Players := players, g_Pots := newPots\<rparr>
         else state\<lparr>g_Players := players, g_Pots := mergePots (g_Pots state) newPots\<rparr>)"

section \<open>Lemmas on single rules\<close>

lemma ValidateAction_Ok:
  assumes "ValidateAction g a = Ok ()"
  obtains p where "g_ActivePlayer g < length (g_Players g)" "p = g_Players g ! g_ActivePlayer g"
    "p_ID p = a_PlayerID a" "CanAct p"
    "a_Type a = ActionFold
      \<or> a_Type a = ActionCheck \<and> g_CurrentBet g \<le> p_CurrentBet p
      \<or> a_Type a = ActionCall \<and> g_CurrentBet g \<noteq> p_CurrentBet p
      \<or> a_Type a = ActionRaise \<and> g_RaisesThisStreet g < bc_MaxRaisesPerStreet (g_BettingConfig g)
        \<and> a_Amount a = g_CurrentBet g + BetSizeForStreet g \<and> a_Amount a \<le> p_Stack p + p_CurrentBet p"
  using assms that
  by (cases "a_Type a") (auto simp: ValidateAction_def Let_def split: if_splits)

text \<open>An action only touches the acting player's seat.\<close>

lemma ApplyAction_frame:
  assumes "ApplyAction g a = Ok g'"
  shows "\<exists>p. g_Players g' = (g_Players g)[g_ActivePlayer g := p] \<and> p_ID p = p_ID (g_Players g ! g_ActivePlayer g)
      \<and> p_HoleCards p = p_HoleCards (g_Players g ! g_ActivePlayer g)"
    and "g_Pots g' = g_Pots g" "g_Board g' = g_Board g" "g_Deck g' = g_Deck g" "g_Street g' = g_Street g"
    "g_ActivePlayer g' = g_ActivePlayer g" "g_Button g' = g_Button g" "g_ID g' = g_ID g"
    "g_TableID g' = g_TableID g" "g_EventSequence g' = g_EventSequence g"
    "g_BettingConfig g' = g_BettingConfig g"
    "g_ActivePlayer g < length (g_Players g)"
proof -
  let ?p = "g_Players g ! g_ActivePlayer g"
  have "\<exists>p. g_Players g' = (g_Players g)[g_ActivePlayer g := p] \<and> p_ID p = p_ID ?p
      \<and> p_HoleCards p = p_HoleCards ?p"
    using assms
    by (intro exI [of _ "g_Players g' ! g_ActivePlayer g"]; cases "a_Type a")
      (auto simp: ApplyAction_def Let_def split: if_splits)
  then show "\<exists>p. g_Players g' = (g_Players g)[g_ActivePlayer g := p] \<and> p_ID p = p_ID ?p
      \<and> p_HoleCards p = p_HoleCards ?p" .
qed (use assms in \<open>cases "a_Type a"; force simp: ApplyAction_def Let_def split: if_splits\<close>)+

lemma ApplyAction_ids:
  "ApplyAction g a = Ok g' \<Longrightarrow> map p_ID (g_Players g') = map p_ID (g_Players g)"
  by (frule ApplyAction_frame(1), drule ApplyAction_frame(12)) (auto simp: map_update_at)

lemma ApplyAction_length:
  "ApplyAction g a = Ok g' \<Longrightarrow> length (g_Players g') = length (g_Players g)"
  by (metis ApplyAction_ids length_map)

lemma ApplyAction_chips [chips]: "ApplyAction g a = Ok g' \<Longrightarrow> chips_in_play g' = chips_in_play g"
  by (cases "a_Type a") (auto simp: ApplyAction_def Let_def chips_in_play_def chips split: if_splits)

lemma ApplyAction_total: "ValidateAction g a = Ok () \<Longrightarrow> \<exists>g'. ApplyAction g a = Ok g'"
  by (erule ValidateAction_Ok) (auto simp: ApplyAction_def Let_def)

lemma IsBettingRoundOver_iff:
  "IsBettingRoundOver g \<longleftrightarrow> (\<forall>p \<in> set (g_Players g). CanAct p \<longrightarrow> g_CurrentBet g \<le> p_CurrentBet p)"
  by (auto simp: IsBettingRoundOver_def list_all_iff)

section \<open>Turn order\<close>

text \<open>
  The players still to act, in seat order from the active player round the table. The betting
  rules treat it as a queue: the head acts and, if it still can, goes to the back.
\<close>

definition turn_queue :: "GameState \<Rightarrow> Player list" where
  "turn_queue g = filter CanAct (rotate (g_ActivePlayer g) (g_Players g))"

definition others :: "nat \<Rightarrow> 'a list \<Rightarrow> 'a list" where
  "others i ps = drop (Suc i) ps @ take i ps"

lemma rotate_seat: "i < length ps \<Longrightarrow> rotate i ps = ps ! i # others i ps"
  by (simp add: rotate_drop_take others_def Cons_nth_drop_Suc)

lemma others_update [simp]: "others i (ps[i := p]) = others i ps"
  by (simp add: others_def)

lemma length_others: "i < length ps \<Longrightarrow> length (others i ps) = length ps - 1"
  by (simp add: others_def)

lemma set_others: "i < length ps \<Longrightarrow> set ps = insert (ps ! i) (set (others i ps))"
  by (metis list.simps(15) rotate_seat set_rotate)

lemma turn_queue_split:
  "g_ActivePlayer g < length (g_Players g) \<Longrightarrow>
    turn_queue g = filter CanAct [g_Players g ! g_ActivePlayer g]
      @ filter CanAct (others (g_ActivePlayer g) (g_Players g))"
  by (simp add: turn_queue_def rotate_seat)

lemma set_turn_queue: "set (turn_queue g) = {p \<in> set (g_Players g). CanAct p}"
  by (auto simp: turn_queue_def)

lemma mset_turn_queue: "mset (turn_queue g) = mset (PlayersWhoCanAct g)"
proof -
  have "mset (rotate i ps) = mset ps" for i :: nat and ps :: "Player list"
    by (metis append_take_drop_id mset_append rotate_drop_take union_commute)
  then show ?thesis by (simp add: turn_queue_def PlayersWhoCanAct_def mset_filter [symmetric] del: mset_filter)
      (simp add: mset_filter)
qed

lemma length_turn_queue: "length (turn_queue g) = length (PlayersWhoCanAct g)"
  using mset_turn_queue by (metis size_mset)

lemma IsHandOver_iff: "IsHandOver g \<longleftrightarrow> length (turn_queue g) \<le> 1"
  by (simp add: IsHandOver_def length_turn_queue)

text \<open>Seat \<open>k\<close> places on is position \<open>k\<close> of the rotated table.\<close>

lemma seat_offset: "\<lbrakk>ps \<noteq> []; k < length ps\<rbrakk> \<Longrightarrow> ps ! ((i + k) mod length ps) = rotate i ps ! k"
  by (simp add: nth_rotate)

lemma filter_rotate_first:
  assumes k: "1 \<le> k" "k < length (h # rest)" and skipped: "\<forall>j. 1 \<le> j \<and> j < k \<longrightarrow> \<not> P ((h # rest) ! j)"
  shows "filter P (rotate k (h # rest)) = filter P rest @ filter P [h]"
proof -
  have "filter P (take (k - 1) rest) = []"
  proof (rule filter_False, rule ballI)
    fix x assume "x \<in> set (take (k - 1) rest)"
    then obtain j where "j < k - 1" "j < length rest" "x = rest ! j"
      by (auto simp: in_set_conv_nth)
    with skipped [rule_format, of "Suc j"] show "\<not> P x" by simp
  qed
  moreover have "filter P rest = filter P (take (k - 1) rest) @ filter P (drop (k - 1) rest)"
    by (metis append_take_drop_id filter_append)
  moreover have "rotate k (h # rest) = drop (k - 1) rest @ h # take (k - 1) rest"
    using k by (simp add: rotate_drop_take drop_Cons' take_Cons')
  ultimately show ?thesis by simp
qed

lemma NextActivePlayer_cases:
  assumes i: "g_ActivePlayer g < length (g_Players g)"
  obtains (seat) k where "1 \<le> k" "k < length (g_Players g)"
      "NextActivePlayer g = (g_ActivePlayer g + k) mod length (g_Players g)"
      "CanAct (rotate (g_ActivePlayer g) (g_Players g) ! k)"
      "\<forall>j. 1 \<le> j \<and> j < k \<longrightarrow> \<not> CanAct (rotate (g_ActivePlayer g) (g_Players g) ! j)"
  | (self) "NextActivePlayer g = g_ActivePlayer g"
      "filter CanAct (others (g_ActivePlayer g) (g_Players g)) = []"
proof -
  let ?ps = "g_Players g" and ?i = "g_ActivePlayer g" and ?n = "length (g_Players g)"
  let ?P = "\<lambda>k. CanAct (?ps ! ((?i + k) mod ?n))"
  have at: "?ps ! ((?i + k) mod ?n) = rotate ?i ?ps ! k" if "k < ?n" for k
    using that i by (intro seat_offset) auto
  have full: "(?i + ?n) mod ?n = ?i" using i by simp
  have none: "filter CanAct (others ?i ?ps) = []" if "\<forall>k. 1 \<le> k \<and> k < ?n \<longrightarrow> \<not> ?P k"
  proof (rule filter_False, rule ballI)
    fix x assume "x \<in> set (others ?i ?ps)"
    then obtain j where "j < length (others ?i ?ps)" "x = others ?i ?ps ! j"
      by (auto simp: in_set_conv_nth)
    then show "\<not> CanAct x"
      using that [rule_format, of "Suc j"] at [of "Suc j"] i by (simp add: rotate_seat length_others)
  qed
  show thesis
  proof (cases "find ?P [1..<?n + 1]")
    case None
    then have "\<forall>k. 1 \<le> k \<and> k < ?n \<longrightarrow> \<not> ?P k" by (auto simp: find_None_iff)
    then show thesis using None none self by (simp add: NextActivePlayer_def del: upt_Suc)
  next
    case (Some k)
    from find_upt_Some [OF this]
    have k: "1 \<le> k" "k < ?n + 1" "?P k" and skipped: "\<forall>m. 1 \<le> m \<and> m < k \<longrightarrow> \<not> ?P m" by blast+
    have next_k: "NextActivePlayer g = (?i + k) mod ?n"
      using Some by (simp add: NextActivePlayer_def del: upt_Suc)
    show thesis
    proof (cases "k < ?n")
      case True
      then have "CanAct (rotate ?i ?ps ! k)"
        and "\<forall>j. 1 \<le> j \<and> j < k \<longrightarrow> \<not> CanAct (rotate ?i ?ps ! j)"
        using at k(3) skipped by (metis, metis less_trans)
      then show thesis using seat [of k] k(1) True next_k by blast
    next
      case False
      then have "k = ?n" using k by simp
      then show thesis using self next_k full none skipped by simp
    qed
  qed
qed

lemma NextActivePlayer_bound:
  "g_ActivePlayer g < length (g_Players g) \<Longrightarrow> NextActivePlayer g < length (g_Players g)"
  by (rule NextActivePlayer_cases [of g]) (auto intro!: mod_less_divisor)

lemma next_turn_queue:
  assumes i: "g_ActivePlayer g < length (g_Players g)"
  shows "turn_queue (g\<lparr>g_ActivePlayer := NextActivePlayer g\<rparr>) =
    filter CanAct (others (g_ActivePlayer g) (g_Players g)) @ filter CanAct [g_Players g ! g_ActivePlayer g]"
  using i
proof (cases rule: NextActivePlayer_cases)
  case (seat k)
  have "rotate (NextActivePlayer g) (g_Players g) = rotate k (rotate (g_ActivePlayer g) (g_Players g))"
    using seat(3) by (metis add.commute rotate_conv_mod rotate_rotate)
  moreover have "filter CanAct (rotate k (rotate (g_ActivePlayer g) (g_Players g))) =
      filter CanAct (others (g_ActivePlayer g) (g_Players g)) @ filter CanAct [g_Players g ! g_ActivePlayer g]"
    unfolding rotate_seat [OF i]
    by (rule filter_rotate_first) (use seat i in \<open>simp_all add: rotate_seat [OF i] length_others\<close>)
  ultimately show ?thesis by (simp add: turn_queue_def del: filter.simps)
next
  case self
  then show ?thesis by (simp add: turn_queue_def rotate_seat [OF i])
qed

lemma NextActivePlayer_can_act:
  assumes i: "g_ActivePlayer g < length (g_Players g)" and some: "PlayersWhoCanAct g \<noteq> []"
  shows "CanAct (g_Players g ! NextActivePlayer g)"
  using i
proof (cases rule: NextActivePlayer_cases)
  case (seat k)
  then show ?thesis using i by (simp add: nth_rotate add.commute)
next
  case self
  then show ?thesis using some set_others [OF i] i by (auto simp: PlayersWhoCanAct_def filter_empty_conv)
qed

text \<open>
  Turns go round the table: the seat \<open>NextActivePlayer\<close> returns is in range, and passing the
  turn there moves the acting player behind all others who can still act, without skipping or
  repeating anyone; if anyone can act, the seat chosen can.
\<close>

theorem NextActivePlayer_rotates_turns:
  assumes "g_ActivePlayer g < length (g_Players g)"
  shows "NextActivePlayer g < length (g_Players g)
    \<and> turn_queue (g\<lparr>g_ActivePlayer := NextActivePlayer g\<rparr>) =
      filter CanAct (others (g_ActivePlayer g) (g_Players g)) @ filter CanAct [g_Players g ! g_ActivePlayer g]
    \<and> (PlayersWhoCanAct g \<noteq> [] \<longrightarrow> CanAct (g_Players g ! NextActivePlayer g))"
  using assms NextActivePlayer_bound next_turn_queue NextActivePlayer_can_act by blast

theorem NextActivePlayer_rotates_turns_witness:
  defines "p i s \<equiv> \<lparr>p_ID = i, p_Stack = s, p_HoleCards = (NewCard 2 0, NewCard 3 0),
      p_Status = PlayerStatusActive, p_CurrentBet = 0, p_Position = 0\<rparr>"
  defines "g \<equiv> \<lparr>g_ID = ''h'', g_TableID = ''t'', g_Players = [p ''a'' 5, p ''b'' 0, p ''c'' 7],
      g_Board = [], g_Pots = [], g_Street = StreetPreflop, g_CurrentBet = 0, g_ActivePlayer = 0,
      g_Button = 0, g_EventSequence = 1,
      g_BettingConfig = \<lparr>bc_Structure = BettingFixedLimit, bc_SmallBlind = 1, bc_BigBlind = 2,
        bc_SmallBet = 2, bc_BigBet = 4, bc_MaxRaisesPerStreet = 4\<rparr>,
      g_RaisesThisStreet = 0, g_Deck = None\<rparr>"
  shows "turn_queue (g\<lparr>g_ActivePlayer := NextActivePlayer g\<rparr>) = [p ''c'' 7, p ''a'' 5]"
  using NextActivePlayer_rotates_turns [of g] by (simp add: g_def p_def others_def CanAct_def)

section \<open>Collecting the bets\<close>

abbreviation live :: "Player \<Rightarrow> bool" where
  "live p \<equiv> IsActive p \<or> IsAllIn p"

lemma update_fresh: "k \<notin> fst ` set m \<Longrightarrow> AList.update k v m = m @ [(k, v)]"
  by (induction m) auto

text \<open>With distinct identifiers no contribution overwrites another.\<close>

lemma contributions_distinct:
  assumes "distinct (map p_ID ps)"
  shows "contributions_of ps = map (\<lambda>p. (p_ID p, p_CurrentBet p)) (filter (\<lambda>p. 0 < p_CurrentBet p) ps)"
proof -
  have "foldl (\<lambda>m p. if p_CurrentBet p > 0 then AList.update (p_ID p) (p_CurrentBet p) m else m) m ps
      = m @ map (\<lambda>p. (p_ID p, p_CurrentBet p)) (filter (\<lambda>p. 0 < p_CurrentBet p) ps)"
    if "distinct (map p_ID ps)" "fst ` set m \<inter> p_ID ` set ps = {}" for m
    using that by (induction ps arbitrary: m) (auto simp: update_fresh)
  from this [of "[]"] show ?thesis using assms by (simp add: contributions_of_def)
qed

lemma wf_contributions:
  assumes "distinct (map p_ID ps)"
  shows "wf_gomap (contributions_of ps)"
  using assms by (simp add: contributions_distinct wf_gomap_def comp_def distinct_map_filter)

lemma contributions_pos:
  "distinct (map p_ID ps) \<Longrightarrow> filter (\<lambda>(i, a). 0 < a) (contributions_of ps) = contributions_of ps"
  by (auto simp: contributions_distinct filter_empty_conv intro: filter_True)

lemma bets_contributions:
  assumes "distinct (map p_ID ps)" "\<forall>p \<in> set ps. 0 \<le> p_CurrentBet p"
  shows "gosum (contributions_of ps) = bets ps"
proof -
  have "sum_list (map p_CurrentBet (filter (\<lambda>p. 0 < p_CurrentBet p) ps)) = bets ps"
    using assms(2) by (induction ps) auto
  then show ?thesis using assms(1) by (simp add: contributions_distinct gosum_def comp_def)
qed

text \<open>Whoever put in the most may win every pot made from these bets.\<close>

lemma Calculate_top_eligible:
  assumes "permuting iter" "(i, c) \<in> set m" "0 < c" "\<forall>(j, a) \<in> set m. a \<le> c" "p \<in> set (Calculate iter m)"
  shows "i \<in> set (pot_Eligible p)"
proof -
  have "\<forall>p \<in> set (calculate_loop iter r). i \<in> set (pot_Eligible p)"
    if "all_pos r" "(i, c) \<in> set r" "\<forall>(j, a) \<in> set r. a \<le> c" for r c
    using that
  proof (induction r arbitrary: c rule: calculate_induct)
    case (Peel r)
    let ?m = "Min (snd ` set r)"
    have head: "i \<in> set (iter (map fst r))"
      using Peel.prems(1) permuting_set [OF assms(1)] by force
    have "\<forall>p \<in> set (calculate_loop iter (subtract_min ?m r)). i \<in> set (pot_Eligible p)"
    proof (cases "c = ?m")
      case True
      then have "subtract_min ?m r = []"
        using Peel.prems(2) min_contrib(3) [OF Peel(1,2)]
        by (fastforce simp: subtract_min_def filter_empty_conv)
      then show ?thesis by (simp add: calculate_loop.simps)
    next
      case False
      then show ?thesis
        using Peel.prems by (intro Peel.IH [of "c - ?m"]) (force simp: subtract_min_def)+
    qed
    with head show ?case by (simp add: calculate_loop_step [OF Peel(1,2)])
  qed simp
  moreover have "all_pos (filter (\<lambda>(i, a). a > 0) m)" by (auto simp: all_pos_def)
  ultimately show ?thesis using assms by (fastforce simp: Calculate_def split: if_splits)
qed

lemma Total_mergePots [chips]: "Total (mergePots ps qs) = Total ps + Total qs"
proof (cases qs)
  case Nil
  then show ?thesis by (simp add: mergePots_def)
next
  case (Cons q qs')
  then show ?thesis
    by (cases ps rule: rev_cases) (auto simp: mergePots_def Let_def list_update_append)
qed

lemma eligible_mergePots:
  "pot_Eligible ` set (mergePots ps qs) \<subseteq> pot_Eligible ` set ps \<union> pot_Eligible ` set qs"
proof (cases qs)
  case Nil
  then show ?thesis by (simp add: mergePots_def)
next
  case (Cons q qs')
  then show ?thesis
    by (cases ps rule: rev_cases) (auto simp: mergePots_def Let_def list_update_append)
qed

lemma amounts_mergePots:
  assumes "\<forall>p \<in> set ps \<union> set qs. 0 \<le> pot_Amount p"
  shows "\<forall>p \<in> set (mergePots ps qs). 0 \<le> pot_Amount p"
proof (cases qs)
  case Nil
  then show ?thesis using assms by (simp add: mergePots_def)
next
  case (Cons q qs')
  then show ?thesis
    using assms by (cases ps rule: rev_cases) (auto simp: mergePots_def Let_def list_update_append)
qed

lemma CollectBets_pots:
  "g_Pots (CollectBets iter g) = mergePots (g_Pots g) (Calculate iter (contributions_of (g_Players g)))"
  by (simp add: CollectBets_def Let_def mergePots_def)

lemma CollectBets_players:
  "g_Players (CollectBets iter g) =
    map (\<lambda>p. if 0 < p_CurrentBet p then p\<lparr>p_CurrentBet := 0\<rparr> else p) (g_Players g)"
  by (simp add: CollectBets_def Let_def)

lemma CollectBets_frame [simp]:
  "g_Board (CollectBets iter g) = g_Board g" "g_Deck (CollectBets iter g) = g_Deck g"
  "g_Street (CollectBets iter g) = g_Street g" "g_ActivePlayer (CollectBets iter g) = g_ActivePlayer g"
  "g_Button (CollectBets iter g) = g_Button g" "g_ID (CollectBets iter g) = g_ID g"
  "g_TableID (CollectBets iter g) = g_TableID g" "g_EventSequence (CollectBets iter g) = g_EventSequence g"
  "g_BettingConfig (CollectBets iter g) = g_BettingConfig g" "g_CurrentBet (CollectBets iter g) = g_CurrentBet g"
  "g_RaisesThisStreet (CollectBets iter g) = g_RaisesThisStreet g"
  "length (g_Players (CollectBets iter g)) = length (g_Players g)"
  "map p_ID (g_Players (CollectBets iter g)) = map p_ID (g_Players g)"
  "map p_HoleCards (g_Players (CollectBets iter g)) = map p_HoleCards (g_Players g)"
  "map p_Status (g_Players (CollectBets iter g)) = map p_Status (g_Players g)"
  "map p_Stack (g_Players (CollectBets iter g)) = map p_Stack (g_Players g)"
  by (simp_all add: CollectBets_def Let_def)

lemma CollectBets_stacks [simp]: "stacks (g_Players (CollectBets iter g)) = stacks (g_Players g)"
  by (simp add: stacks_def)

lemma CollectBets_bets:
  "\<forall>p \<in> set (g_Players g). 0 \<le> p_CurrentBet p \<Longrightarrow> \<forall>p \<in> set (g_Players (CollectBets iter g)). p_CurrentBet p = 0"
  by (auto simp: CollectBets_players)

lemma bets_zero: "\<forall>p \<in> set ps. p_CurrentBet p = 0 \<Longrightarrow> bets ps = 0"
  by (induction ps) auto

lemma Total_CollectBets:
  assumes "distinct (map p_ID (g_Players g))" "\<forall>p \<in> set (g_Players g). 0 \<le> p_CurrentBet p"
  shows "Total (g_Pots (CollectBets iter g)) = Total (g_Pots g) + bets (g_Players g)"
  using assms by (simp add: CollectBets_pots Total_mergePots Total_Calculate contributions_pos bets_contributions)

section \<open>The invariant of a hand in progress\<close>

text \<open>The chips and seats are in order, and every pot can be won by whoever can still act.\<close>

definition wf_player :: "int \<Rightarrow> Player \<Rightarrow> bool" where
  "wf_player current p \<longleftrightarrow> 0 \<le> p_Stack p \<and> 0 \<le> p_CurrentBet p \<and> p_CurrentBet p \<le> current
     \<and> (IsActive p \<longrightarrow> 0 < p_Stack p)"

definition wf_pot :: "Player list \<Rightarrow> Pot \<Rightarrow> bool" where
  "wf_pot ps pot \<longleftrightarrow> 0 \<le> pot_Amount pot \<and> distinct (pot_Eligible pot)
     \<and> set (pot_Eligible pot) \<subseteq> p_ID ` set ps
     \<and> (\<forall>p \<in> set ps. CanAct p \<longrightarrow> p_ID p \<in> set (pot_Eligible pot))"

definition wf_config :: "BettingConfig \<Rightarrow> bool" where
  "wf_config c \<longleftrightarrow> 0 < bc_SmallBet c \<and> 0 < bc_BigBet c"

definition wf_hand :: "GameState \<Rightarrow> bool" where
  "wf_hand g \<longleftrightarrow> distinct (map p_ID (g_Players g))
     \<and> g_ActivePlayer g < length (g_Players g) \<and> g_Button g < length (g_Players g)
     \<and> (\<forall>p \<in> set (g_Players g). wf_player (g_CurrentBet g) p)
     \<and> (\<forall>pot \<in> set (g_Pots g). wf_pot (g_Players g) pot)
     \<and> wf_config (g_BettingConfig g) \<and> 0 \<le> g_RaisesThisStreet g"

definition owes :: "GameState \<Rightarrow> Player \<Rightarrow> bool" where
  "owes g p \<longleftrightarrow> p_CurrentBet p < g_CurrentBet g"

text \<open>
  The turn discipline: those who owe chips act before those who do not; somebody still in the
  hand has matched the bet; and unless the street has just begun, somebody owes.
\<close>

definition in_turn :: "GameState \<Rightarrow> bool" where
  "in_turn g \<longleftrightarrow> sorted_wrt (\<lambda>p q. owes g q \<longrightarrow> owes g p) (turn_queue g)
     \<and> (\<exists>p \<in> set (g_Players g). live p \<and> p_CurrentBet p = g_CurrentBet g)
     \<and> (g_CurrentBet g = 0 \<or> \<not> IsBettingRoundOver g)"

definition running :: "GameState \<Rightarrow> bool" where
  "running g \<longleftrightarrow> wf_hand g \<and> in_turn g \<and> 2 \<le> length (turn_queue g) \<and> g_Street g < StreetShowdown"

lemma street_below_showdown:
  "s < StreetShowdown \<longleftrightarrow> s \<in> {StreetPreflop, StreetFlop, StreetTurn, StreetRiver}"
  by (cases s) (auto simp: less_Street_def)

lemma BetSizeForStreet_pos:
  "\<lbrakk>wf_config (g_BettingConfig g); g_Street g < StreetShowdown\<rbrakk> \<Longrightarrow> 0 < BetSizeForStreet g"
  by (auto simp: BetSizeForStreet_def wf_config_def street_below_showdown)

lemma over_iff_nobody_owes: "IsBettingRoundOver g \<longleftrightarrow> (\<forall>p \<in> set (turn_queue g). \<not> owes g p)"
  by (auto simp: IsBettingRoundOver_iff set_turn_queue owes_def)

text \<open>
  What an accepted action leaves: the acting player's seat replaced by \<open>p'\<close>, who either folded,
  matched the bet, went all-in below it, or raised it.
\<close>

lemma ApplyAction_effect:
  assumes "ValidateAction g a = Ok ()" "ApplyAction g a = Ok g1" "wf_hand g" "g_Street g < StreetShowdown"
  obtains p' where
    "g_Players g1 = (g_Players g)[g_ActivePlayer g := p']"
    "p_ID p' = p_ID (g_Players g ! g_ActivePlayer g)"
    "wf_player (g_CurrentBet g1) p'" "CanAct p' \<Longrightarrow> \<not> owes g1 p'"
    "a_Type a = ActionRaise \<and> g_CurrentBet g < g_CurrentBet g1 \<and> live p' \<and> p_CurrentBet p' = g_CurrentBet g1
      \<and> g_RaisesThisStreet g1 = g_RaisesThisStreet g + 1
      \<and> g_RaisesThisStreet g < bc_MaxRaisesPerStreet (g_BettingConfig g)
     \<or> a_Type a \<noteq> ActionRaise \<and> g_CurrentBet g1 = g_CurrentBet g
      \<and> p_CurrentBet (g_Players g ! g_ActivePlayer g) \<le> p_CurrentBet p'
      \<and> g_RaisesThisStreet g1 = g_RaisesThisStreet g \<and> (live p' \<or> IsFolded p')"
  using assms(1)
proof (cases rule: ValidateAction_Ok)
  case (1 p)
  have p: "wf_player (g_CurrentBet g) p" using 1 assms(3) by (auto simp: wf_hand_def)
  have act: "IsActive p" "0 < p_Stack p" using 1 by (auto simp: CanAct_def IsActive_def)
  have bet: "0 < BetSizeForStreet g"
    using assms by (intro BetSizeForStreet_pos) (auto simp: wf_hand_def)
  have at: "g_Players g ! g_ActivePlayer g = p" using 1 by simp
  note defs = ApplyAction_def Let_def wf_player_def owes_def IsActive_def IsAllIn_def IsFolded_def CanAct_def
  from 1(5) consider
    (Fold) "a_Type a = ActionFold" | (Check) "a_Type a = ActionCheck" "g_CurrentBet g \<le> p_CurrentBet p"
    | (Call) "a_Type a = ActionCall" "g_CurrentBet g \<noteq> p_CurrentBet p"
    | (Raise) "a_Type a = ActionRaise" "a_Amount a = g_CurrentBet g + BetSizeForStreet g"
        "a_Amount a \<le> p_Stack p + p_CurrentBet p" "g_RaisesThisStreet g < bc_MaxRaisesPerStreet (g_BettingConfig g)"
    by blast
  then show thesis
  proof cases
    case Fold
    show thesis
      by (rule that [of "p\<lparr>p_Status := PlayerStatusFolded\<rparr>"])
        (use Fold 1 p act assms(2) in \<open>auto simp: defs\<close>)
  next
    case Check
    show thesis
      by (rule that [of p]) (use Check 1 p act assms(2) in \<open>auto simp: defs\<close>)
  next
    case Call
    show thesis
      by (rule that [of "g_Players g1 ! g_ActivePlayer g"])
        (use Call 1(1) p act assms(2) at in \<open>auto simp: defs split: if_splits\<close>)
  next
    case Raise
    show thesis
      by (rule that [of "g_Players g1 ! g_ActivePlayer g"])
        (use Raise 1(1) p act bet assms(2) at in \<open>auto simp: defs split: if_splits\<close>)
  qed
qed

lemma invariant_frame [simp]:
  "turn_queue (g\<lparr>g_EventSequence := n\<rparr>) = turn_queue g"
  "IsBettingRoundOver (g\<lparr>g_EventSequence := n\<rparr>) = IsBettingRoundOver g"
  "IsBettingRoundOver (g\<lparr>g_ActivePlayer := k\<rparr>) = IsBettingRoundOver g"
  "owes (g\<lparr>g_EventSequence := n\<rparr>) = owes g"
  "owes (g\<lparr>g_ActivePlayer := k\<rparr>) = owes g"
  "wf_hand (g\<lparr>g_EventSequence := n\<rparr>) = wf_hand g"
  "in_turn (g\<lparr>g_EventSequence := n\<rparr>) = in_turn g"
  "running (g\<lparr>g_EventSequence := n\<rparr>) = running g"
  "chips_in_play (g\<lparr>g_EventSequence := n\<rparr>) = chips_in_play g"
  "chips_in_play (g\<lparr>g_ActivePlayer := k\<rparr>) = chips_in_play g"
  by (simp_all add: turn_queue_def IsBettingRoundOver_def owes_def fun_eq_iff wf_hand_def in_turn_def
      running_def chips_in_play_def)

lemma wf_hand_ApplyAction:
  assumes "ValidateAction g a = Ok ()" "ApplyAction g a = Ok g1" "wf_hand g" "g_Street g < StreetShowdown"
  shows "wf_hand g1"
proof (rule ApplyAction_effect [OF assms])
  fix p'
  let ?i = "g_ActivePlayer g"
  assume seat: "g_Players g1 = (g_Players g)[?i := p']" "p_ID p' = p_ID (g_Players g ! ?i)"
    and p': "wf_player (g_CurrentBet g1) p'"
    and eff: "a_Type a = ActionRaise \<and> g_CurrentBet g < g_CurrentBet g1 \<and> live p' \<and> p_CurrentBet p' = g_CurrentBet g1
        \<and> g_RaisesThisStreet g1 = g_RaisesThisStreet g + 1
        \<and> g_RaisesThisStreet g < bc_MaxRaisesPerStreet (g_BettingConfig g)
      \<or> a_Type a \<noteq> ActionRaise \<and> g_CurrentBet g1 = g_CurrentBet g
        \<and> p_CurrentBet (g_Players g ! ?i) \<le> p_CurrentBet p'
        \<and> g_RaisesThisStreet g1 = g_RaisesThisStreet g \<and> (live p' \<or> IsFolded p')"
  note frame = ApplyAction_frame [OF assms(2)]
  have can: "CanAct (g_Players g ! ?i)" using assms(1) by (auto elim: ValidateAction_Ok)
  have ids: "map p_ID (g_Players g1) = map p_ID (g_Players g)" using assms(2) by (rule ApplyAction_ids)
  then have idset: "p_ID ` set (g_Players g1) = p_ID ` set (g_Players g)" by (metis set_map)
  have sub: "set (g_Players g1) \<subseteq> insert p' (set (g_Players g))" by (simp add: seat set_update_subset_insert)
  have "wf_player (g_CurrentBet g1) q" if "q \<in> set (g_Players g)" for q
    using that assms(3) eff by (auto simp: wf_hand_def wf_player_def)
  moreover have "wf_pot (g_Players g1) pot" if "pot \<in> set (g_Pots g)" for pot
  proof -
    have old: "wf_pot (g_Players g) pot" using that assms(3) by (simp add: wf_hand_def)
    moreover have "g_Players g ! ?i \<in> set (g_Players g)" using frame(12) by simp
    ultimately have "p_ID p' \<in> set (pot_Eligible pot)"
      using can seat(2) unfolding wf_pot_def by metis
    then show ?thesis using old sub idset unfolding wf_pot_def by auto
  qed
  ultimately show ?thesis
    using assms(3) sub p' ids frame ApplyAction_length [OF assms(2)] eff unfolding wf_hand_def by auto
qed

lemma in_turn_head_free:
  assumes "running g" "CanAct (g_Players g ! g_ActivePlayer g)" "\<not> owes g (g_Players g ! g_ActivePlayer g)"
  shows "g_CurrentBet g = 0"
proof -
  have "g_ActivePlayer g < length (g_Players g)" using assms(1) by (simp add: running_def wf_hand_def)
  then have "turn_queue g = g_Players g ! g_ActivePlayer g # filter CanAct (others (g_ActivePlayer g) (g_Players g))"
    using assms(2) by (simp add: turn_queue_split)
  then have "IsBettingRoundOver g"
    using assms unfolding running_def in_turn_def over_iff_nobody_owes by auto
  then show ?thesis using assms(1) by (simp add: running_def in_turn_def)
qed

lemma live_matched_ApplyAction:
  assumes run: "running g" and val: "ValidateAction g a = Ok ()" and app: "ApplyAction g a = Ok g1"
  shows "\<exists>p \<in> set (g_Players g1). live p \<and> p_CurrentBet p = g_CurrentBet g1"
proof -
  let ?i = "g_ActivePlayer g" and ?ps = "g_Players g"
  have wf: "wf_hand g" "g_Street g < StreetShowdown" using run by (auto simp: running_def)
  have i: "?i < length ?ps" using wf by (simp add: wf_hand_def)
  have can: "CanAct (?ps ! ?i)" using val by (auto elim: ValidateAction_Ok)
  obtain p' where seat: "g_Players g1 = ?ps[?i := p']"
    and eff: "live p' \<and> p_CurrentBet p' = g_CurrentBet g1 \<or> g_CurrentBet g1 = g_CurrentBet g"
    by (rule ApplyAction_effect [OF val app wf]) blast
  have set1: "set (g_Players g1) = insert p' (set (others ?i ?ps))"
    using i set_others [of ?i "?ps[?i := p']"] by (simp add: seat)
  show ?thesis
  proof (cases "live p' \<and> p_CurrentBet p' = g_CurrentBet g1")
    case True
    then show ?thesis using set1 by auto
  next
    case False
    then have cb: "g_CurrentBet g1 = g_CurrentBet g" using eff by blast
    obtain q where q: "q \<in> set ?ps" "live q" "p_CurrentBet q = g_CurrentBet g"
      using run by (auto simp: running_def in_turn_def)
    show ?thesis
    proof (cases "q \<in> set (others ?i ?ps)")
      case True
      then show ?thesis using q cb set1 by auto
    next
      case False
      then have "q = ?ps ! ?i" using q(1) set_others [OF i] by auto
      then have cb0: "g_CurrentBet g = 0"
        using in_turn_head_free [OF run can] q(3) by (simp add: owes_def)
      have "2 \<le> length (turn_queue g)" using run by (simp add: running_def)
      then obtain r where "r \<in> set (others ?i ?ps)" "CanAct r"
        using can by (auto simp: turn_queue_split [OF i] Suc_le_eq filter_empty_conv)
      moreover from this have "wf_player 0 r"
        using wf(1) cb0 set_others [OF i] by (auto simp: wf_hand_def)
      ultimately show ?thesis
        using cb cb0 set1 by (intro bexI [of _ r]) (auto simp: wf_player_def CanAct_IsActive)
    qed
  qed
qed

lemma turn_queue_ApplyAction:
  assumes run: "running g" and val: "ValidateAction g a = Ok ()" and app: "ApplyAction g a = Ok g1"
  shows "1 \<le> length (turn_queue g1)"
    and "2 \<le> length (turn_queue g1) \<Longrightarrow> \<not> IsBettingRoundOver g1 \<Longrightarrow>
      running (g1\<lparr>g_ActivePlayer := NextActivePlayer g1\<rparr>)"
proof -
  let ?i = "g_ActivePlayer g" and ?ps = "g_Players g"
  let ?rest = "filter CanAct (others ?i ?ps)"
  have wf: "wf_hand g" "g_Street g < StreetShowdown" using run by (auto simp: running_def)
  have i: "?i < length ?ps" using wf by (simp add: wf_hand_def)
  have can: "CanAct (?ps ! ?i)" using val by (auto elim: ValidateAction_Ok)
  note frame = ApplyAction_frame [OF app]
  obtain p' where seat: "g_Players g1 = ?ps[?i := p']" and p': "CanAct p' \<Longrightarrow> \<not> owes g1 p'"
    and cb: "g_CurrentBet g < g_CurrentBet g1 \<or> g_CurrentBet g1 = g_CurrentBet g"
    by (rule ApplyAction_effect [OF val app wf]) blast
  have i1: "g_ActivePlayer g1 = ?i" "?i < length (g_Players g1)" using frame i by (auto simp: seat)
  have q: "turn_queue g = ?ps ! ?i # ?rest" using can by (simp add: turn_queue_split [OF i])
  have q1: "turn_queue g1 = filter CanAct [p'] @ ?rest"
    using i i1 by (simp add: turn_queue_split seat del: filter.simps)
  show "1 \<le> length (turn_queue g1)"
    using run q q1 by (simp add: running_def)
  assume two: "2 \<le> length (turn_queue g1)" and go: "\<not> IsBettingRoundOver g1"
  let ?g2 = "g1\<lparr>g_ActivePlayer := NextActivePlayer g1\<rparr>"
  have i1': "g_ActivePlayer g1 < length (g_Players g1)" using i1 by simp
  have q2: "turn_queue ?g2 = ?rest @ filter CanAct [p']"
    using next_turn_queue [OF i1'] i1 i by (simp add: seat del: filter.simps)
  have all_owe: "owes g1 r" if "r \<in> set ?rest" "g_CurrentBet g < g_CurrentBet g1" for r
    using that wf(1) set_others [OF i] by (auto simp: wf_hand_def wf_player_def owes_def)
  have "sorted_wrt (\<lambda>p q. owes g1 q \<longrightarrow> owes g1 p) ?rest"
  proof (cases "g_CurrentBet g < g_CurrentBet g1")
    case True
    then show ?thesis
      unfolding sorted_wrt_iff_nth_less by (metis all_owe nth_mem order.strict_trans)
  next
    case False
    then have "owes g1 = owes g" using cb by (auto simp: owes_def)
    then show ?thesis using run q by (simp add: running_def in_turn_def)
  qed
  then have "sorted_wrt (\<lambda>p q. owes g1 q \<longrightarrow> owes g1 p) (turn_queue ?g2)"
    unfolding q2 using p' by (auto simp: sorted_wrt_append)
  moreover have "wf_hand ?g2"
    using wf_hand_ApplyAction [OF val app wf] NextActivePlayer_bound [OF i1'] by (simp add: wf_hand_def)
  moreover have "length (turn_queue ?g2) = length (turn_queue g1)" by (simp add: q1 q2)
  ultimately show "running ?g2"
    using live_matched_ApplyAction [OF run val app] two go wf(2) frame
    by (simp add: running_def in_turn_def)
qed

end
