(* ===== verification/Evaluator.thy ===== *)
theory Evaluator
  imports Game "HOL-Library.Sublist"
begin

text \<open>
  The hand evaluator (\<open>infrastructure/evaluator\<close>): the 5-card combinations, the rank of five
  cards, the comparison of results and the choice of the best hand. A Go array \<open>[5]Card\<close> is a
  list of length five; \<open>HandRank\<close> is a Go byte, whose zero value (no hand) the code uses.
\<close>

section \<open>Hand ranks and results\<close>

type_synonym HandRank = nat

abbreviation (input) HighCard :: HandRank where "HighCard \<equiv> 1"
abbreviation (input) OnePair :: HandRank where "OnePair \<equiv> 2"
abbreviation (input) TwoPair :: HandRank where "TwoPair \<equiv> 3"
abbreviation (input) ThreeOfAKind :: HandRank where "ThreeOfAKind \<equiv> 4"
abbreviation (input) Straight :: HandRank where "Straight \<equiv> 5"
abbreviation (input) Flush :: HandRank where "Flush \<equiv> 6"
abbreviation (input) FullHouse :: HandRank where "FullHouse \<equiv> 7"
abbreviation (input) FourOfAKind :: HandRank where "FourOfAKind \<equiv> 8"
abbreviation (input) StraightFlush :: HandRank where "StraightFlush \<equiv> 9"
abbreviation (input) RoyalFlush :: HandRank where "RoyalFlush \<equiv> 10"

definition HandRank_String :: "HandRank \<Rightarrow> string" where
  "HandRank_String h =
     (if h = HighCard then ''High Card'' else if h = OnePair then ''One Pair''
      else if h = TwoPair then ''Two Pair'' else if h = ThreeOfAKind then ''Three of a Kind''
      else if h = Straight then ''Straight'' else if h = Flush then ''Flush''
      else if h = FullHouse then ''Full House'' else if h = FourOfAKind then ''Four of a Kind''
      else if h = StraightFlush then ''Straight Flush'' else if h = RoyalFlush then ''Royal Flush''
      else ''Unknown'')"

record HandResult =
  hr_PlayerID :: PlayerID
  hr_Rank :: HandRank
  hr_Cards :: "Card list"

section \<open>Combinations\<close>

text \<open>The loop bounds \<open>n-4\<close> to \<open>n-1\<close> are at most zero, and the loops empty, when the subtraction truncates.\<close>

definition combinations :: "Card list \<Rightarrow> Card list list" where
  "combinations cards =
     (let n = length cards
      in [[cards ! i, cards ! j, cards ! k, cards ! l, cards ! m].
            i \<leftarrow> [0..<n - 4], j \<leftarrow> [i + 1..<n - 3], k \<leftarrow> [j + 1..<n - 2],
            l \<leftarrow> [k + 1..<n - 1], m \<leftarrow> [l + 1..<n]])"

section \<open>Ranking five cards\<close>

definition rankCounts :: "Card list \<Rightarrow> (Rank, int) gomap" where
  "rankCounts cards =
     foldl (\<lambda>counts c. AList.update (c_Rank c) (get0 counts (c_Rank c) + 1) counts) [] cards"

definition sortedRanks :: "Card list \<Rightarrow> int list" where
  "sortedRanks cards = sort (map (\<lambda>c. int (c_Rank c)) cards)"

definition uniqueCount :: "int list \<Rightarrow> nat" where
  "uniqueCount ranks = length (foldl (\<lambda>seen r. AList.update r True seen) [] ranks)"

definition isFlush :: "Card list \<Rightarrow> bool" where
  "isFlush cards = (let suit = c_Suit (cards ! 0) in list_all (\<lambda>c. c_Suit c = suit) (drop 1 cards))"

definition isStraight :: "Card list \<Rightarrow> bool" where
  "isStraight cards =
     (let ranks = sortedRanks cards
      in if ranks ! 4 - ranks ! 0 = 4 \<and> uniqueCount ranks = 5 then True
         else if ranks ! 4 = int Ace \<and> ranks ! 0 = int Two \<and> ranks ! 1 = int Three
           \<and> ranks ! 2 = int Four \<and> ranks ! 3 = int Five then True
         else False)"

definition isRoyalFlush :: "Card list \<Rightarrow> bool" where
  "isRoyalFlush cards \<longleftrightarrow> isFlush cards \<and> isStraight cards
     \<and> sortedRanks cards ! 4 = int Ace \<and> sortedRanks cards ! 0 = int Ten"

definition isStraightFlush :: "Card list \<Rightarrow> bool" where
  "isStraightFlush cards \<longleftrightarrow> isFlush cards \<and> isStraight cards"

definition isFourOfAKind :: "Card list \<Rightarrow> bool" where
  "isFourOfAKind cards = list_ex (\<lambda>c. c = 4) (map snd (rankCounts cards))"

definition isFullHouse :: "Card list \<Rightarrow> bool" where
  "isFullHouse cards =
     (let (hasThree, hasTwo) =
        foldl (\<lambda>(h3, h2) c. (h3 \<or> c = 3, h2 \<or> c = 2)) (False, False) (map snd (rankCounts cards))
      in hasThree \<and> hasTwo)"

definition isThreeOfAKind :: "Card list \<Rightarrow> bool" where
  "isThreeOfAKind cards = list_ex (\<lambda>c. c = 3) (map snd (rankCounts cards))"

definition isTwoPair :: "Card list \<Rightarrow> bool" where
  "isTwoPair cards =
     (foldl (\<lambda>pairs c. if c = 2 then pairs + 1 else pairs) (0::nat) (map snd (rankCounts cards)) = 2)"

definition isOnePair :: "Card list \<Rightarrow> bool" where
  "isOnePair cards = list_ex (\<lambda>c. c = 2) (map snd (rankCounts cards))"

definition rankHand :: "Card list \<Rightarrow> HandRank" where
  "rankHand cards =
     (if isRoyalFlush cards then RoyalFlush
      else if isStraightFlush cards then StraightFlush
      else if isFourOfAKind cards then FourOfAKind
      else if isFullHouse cards then FullHouse
      else if isFlush cards then Flush
      else if isStraight cards then Straight
      else if isThreeOfAKind cards then ThreeOfAKind
      else if isTwoPair cards then TwoPair
      else if isOnePair cards then OnePair
      else HighCard)"

definition sortedRanksDesc :: "Card list \<Rightarrow> int list" where
  "sortedRanksDesc cards = rev (sortedRanks cards)"

text \<open>The comparison loop; both slices have five elements, an index past the second one would panic.\<close>

fun compare_ranks :: "int list \<Rightarrow> int list \<Rightarrow> int" where
  "compare_ranks (a # as) (b # bs) = (if a > b then 1 else if a < b then -1 else compare_ranks as bs)"
| "compare_ranks as bs = 0"

definition compareCards :: "Card list \<Rightarrow> Card list \<Rightarrow> int" where
  "compareCards a b = compare_ranks (sortedRanksDesc a) (sortedRanksDesc b)"

section \<open>The evaluator\<close>

fun best_loop :: "Card list list \<Rightarrow> HandRank \<times> Card list \<Rightarrow> HandRank \<times> Card list" where
  "best_loop [] best = best"
| "best_loop (combo # combos) (bestRank, bestCards) =
     (let rank = rankHand combo
      in best_loop combos
        (if rank > bestRank then (rank, combo)
         else if rank = bestRank
           then if compareCards combo bestCards > 0 then (bestRank, combo) else (bestRank, bestCards)
         else (bestRank, bestCards)))"

definition Best :: "PlayerID \<Rightarrow> Card \<times> Card \<Rightarrow> Card list \<Rightarrow> HandResult" where
  "Best playerID hole board =
     (let all = fst hole # snd hole # board;
          (bestRank, bestCards) = best_loop (combinations all) (0, replicate 5 (NewCard 0 0))
      in \<lparr>hr_PlayerID = playerID, hr_Rank = bestRank, hr_Cards = bestCards\<rparr>)"

definition Compare :: "HandResult \<Rightarrow> HandResult \<Rightarrow> int" where
  "Compare a b =
     (if hr_Rank a > hr_Rank b then 1
      else if hr_Rank a < hr_Rank b then -1
      else compareCards (hr_Cards a) (hr_Cards b))"

section \<open>Lemmas on combinations\<close>

text \<open>A subsequence is a selection at strictly increasing positions.\<close>

lemma increasing_Suc:
  assumes "sorted_wrt (<) is" "0 \<notin> set is"
  shows "\<exists>js. is = map Suc js \<and> sorted_wrt (<) js"
proof -
  have "is = map Suc (map (\<lambda>i. i - 1) is)"
    using assms(2) by (induction "is") auto
  moreover have "sorted_wrt (<) (map (\<lambda>i. i - 1) is)"
    using assms by (induction "is") fastforce+
  ultimately show ?thesis by blast
qed

lemma subseq_positions:
  "subseq ys xs \<longleftrightarrow>
    (\<exists>is. sorted_wrt (<) is \<and> set is \<subseteq> {..<length xs} \<and> ys = map ((!) xs) is)"
proof
  assume "subseq ys xs"
  then show "\<exists>is. sorted_wrt (<) is \<and> set is \<subseteq> {..<length xs} \<and> ys = map ((!) xs) is"
  proof (induction rule: list_emb.induct)
    case (list_emb_Nil ys)
    then show ?case by (intro exI [of _ "[]"]) simp
  next
    case (list_emb_Cons ys xs x)
    then obtain "is" where "sorted_wrt (<) is" "set is \<subseteq> {..<length xs}" "ys = map ((!) xs) is" by blast
    then show ?case by (intro exI [of _ "map Suc is"]) (auto simp: sorted_wrt_map)
  next
    case (list_emb_Cons2 y x ys xs)
    then obtain "is" where "sorted_wrt (<) is" "set is \<subseteq> {..<length xs}" "ys = map ((!) xs) is" by blast
    then show ?case
      using list_emb_Cons2.hyps by (intro exI [of _ "0 # map Suc is"]) (auto simp: sorted_wrt_map)
  qed
next
  show "subseq ys xs"
    if "\<exists>is. sorted_wrt (<) is \<and> set is \<subseteq> {..<length xs} \<and> ys = map ((!) xs) is"
    using that
  proof (induction xs arbitrary: ys)
    case (Cons x xs)
    then obtain "is" where i: "sorted_wrt (<) is" "set is \<subseteq> {..<Suc (length xs)}" "ys = map ((!) (x # xs)) is"
      by auto
    show ?case
    proof (cases "0 \<in> set is")
      case False
      then obtain js where "is = map Suc js" "sorted_wrt (<) js" using increasing_Suc i by blast
      then have "subseq ys xs" using i by (intro Cons.IH exI [of _ js]) (auto simp: comp_def)
      then show ?thesis by auto
    next
      case True
      then obtain ks where ks: "is = 0 # ks" "0 \<notin> set ks"
        using i(1) by (cases "is") auto
      have "sorted_wrt (<) ks" using i(1) ks(1) by simp
      then obtain js where "ks = map Suc js" "sorted_wrt (<) js" using increasing_Suc ks(2) by blast
      then have "subseq (tl ys) xs" using i ks by (intro Cons.IH exI [of _ js]) (auto simp: comp_def)
      then show ?thesis using i ks by auto
    qed
  qed simp
qed

lemma concat_mapI: "\<lbrakk>x \<in> set xs; y \<in> set (f x)\<rbrakk> \<Longrightarrow> y \<in> set (concat (map f xs))"
  by auto

lemma set_combinations_positions:
  "set (combinations cards) =
    {map ((!) cards) [i, j, k, l, m] | i j k l m. i < j \<and> j < k \<and> k < l \<and> l < m \<and> m < length cards}"
proof (intro equalityI subsetI)
  show "ys \<in> {map ((!) cards) [i, j, k, l, m] | i j k l m.
      i < j \<and> j < k \<and> k < l \<and> l < m \<and> m < length cards}" if "ys \<in> set (combinations cards)" for ys
    using that by (auto simp: combinations_def Let_def) force
next
  fix ys
  assume "ys \<in> {map ((!) cards) [i, j, k, l, m] | i j k l m.
      i < j \<and> j < k \<and> k < l \<and> l < m \<and> m < length cards}"
  then obtain i j k l m where ys: "ys = [cards ! i, cards ! j, cards ! k, cards ! l, cards ! m]"
    and "i < j" "j < k" "k < l" "l < m" "m < length cards" by auto
  then have pos: "i \<in> {0..<length cards - 4}" "j \<in> {i + 1..<length cards - 3}" "k \<in> {j + 1..<length cards - 2}"
    "l \<in> {k + 1..<length cards - 1}" "m \<in> {l + 1..<length cards}" by auto
  show "ys \<in> set (combinations cards)"
    unfolding combinations_def Let_def ys
    by (rule concat_mapI [of i], use pos(1) in simp, rule concat_mapI [of j], use pos(2) in simp,
        rule concat_mapI [of k], use pos(3) in simp, rule concat_mapI [of l], use pos(4) in simp,
        use pos(5) in simp)
qed

lemma set_combinations: "set (combinations cards) = {ys. subseq ys cards \<and> length ys = 5}"
proof -
  have five: "length is = 5 \<longleftrightarrow> (\<exists>i j k l m. is = [i, j, k, l, m])" for "is" :: "nat list"
    by (auto simp: length_Suc_conv eval_nat_numeral)
  show ?thesis
    unfolding set_combinations_positions subseq_positions
  proof (intro equalityI subsetI; clarsimp simp: five)
    show "\<exists>is. sorted_wrt (<) is \<and> set is \<subseteq> {..<length cards} \<and>
        [cards ! i, cards ! j, cards ! k, cards ! l, cards ! m] = map ((!) cards) is"
      if "i < j" "j < k" "k < l" "l < m" "m < length cards" for i j k l m
      using that by (intro exI [of _ "[i, j, k, l, m]"]) auto
  qed blast
qed

section \<open>Lemmas on ranks\<close>

definition rank_count :: "Card list \<Rightarrow> Rank \<Rightarrow> nat" where
  "rank_count cards r = count_list (map c_Rank cards) r"

lemma rankCounts_fold:
  fixes m :: "(Rank, int) gomap"
  defines "step \<equiv> \<lambda>counts c. AList.update (c_Rank c) (get0 counts (c_Rank c) + 1) counts"
  assumes "wf_gomap m"
  shows "wf_gomap (foldl step m cards)"
    and "get0 (foldl step m cards) r = get0 m r + int (rank_count cards r)"
    and "fst ` set (foldl step m cards) = fst ` set m \<union> c_Rank ` set cards"
  using assms(2) unfolding step_def
  by (induction cards arbitrary: m) (auto simp: rank_count_def get0_update keys_update)

lemma wf_rankCounts: "wf_gomap (rankCounts cards)"
  and get0_rankCounts: "get0 (rankCounts cards) r = int (rank_count cards r)"
  and keys_rankCounts: "fst ` set (rankCounts cards) = c_Rank ` set cards"
  using rankCounts_fold [of "[]" cards] by (auto simp: rankCounts_def get0_def)

lemma in_rankCounts:
  "(r, n) \<in> set (rankCounts cards) \<longleftrightarrow> n = int (rank_count cards r) \<and> n \<noteq> 0"
proof
  assume a: "(r, n) \<in> set (rankCounts cards)"
  then have "map_of (rankCounts cards) r = Some n"
    using wf_rankCounts [of cards] by (simp add: wf_gomap_def)
  moreover have "r \<in> c_Rank ` set cards"
    using a keys_rankCounts [of cards] by (metis fst_conv image_eqI)
  ultimately show "n = int (rank_count cards r) \<and> n \<noteq> 0"
    using get0_rankCounts [of cards r] by (simp add: get0_def rank_count_def count_list_0_iff)
next
  assume a: "n = int (rank_count cards r) \<and> n \<noteq> 0"
  then show "(r, n) \<in> set (rankCounts cards)"
    using get0_rankCounts [of cards r] by (auto simp: get0_def split: option.splits dest: map_of_SomeD)
qed

lemma ex_rankCounts:
  assumes "0 < n"
  shows "list_ex (\<lambda>c. c = int n) (map snd (rankCounts cards)) \<longleftrightarrow> (\<exists>r. rank_count cards r = n)"
proof -
  have "list_ex (\<lambda>c. c = int n) (map snd (rankCounts cards)) \<longleftrightarrow> (\<exists>r. (r, int n) \<in> set (rankCounts cards))"
    by (force simp: list_ex_iff)
  then show ?thesis using assms by (auto simp: in_rankCounts)
qed

lemma foldl_two_flags:
  "foldl (\<lambda>(h3, h2) c. (h3 \<or> P c, h2 \<or> Q c)) (a, b) xs = (a \<or> list_ex P xs, b \<or> list_ex Q xs)"
  by (induction xs arbitrary: a b) auto

lemma foldl_counter:
  "foldl (\<lambda>n c. if P c then n + 1 else n) (k::nat) xs = k + length (filter P xs)"
  by (induction xs arbitrary: k) auto

lemma pairs_rankCounts:
  "length (filter (\<lambda>c. c = 2) (map snd (rankCounts cards))) = card {r. rank_count cards r = 2}"
proof -
  let ?ps = "filter (\<lambda>p. snd p = 2) (rankCounts cards)"
  have "distinct (map fst ?ps)"
    using wf_rankCounts [of cards] by (simp add: wf_gomap_def distinct_map_filter)
  then have "length ?ps = card (fst ` set ?ps)"
    by (metis distinct_card length_map set_map)
  also have "fst ` set ?ps = {r. rank_count cards r = 2}"
  proof -
    have "fst ` set ?ps = {r. (r, 2) \<in> set (rankCounts cards)}" by force
    then show ?thesis by (auto simp: in_rankCounts)
  qed
  finally show ?thesis by (simp add: filter_map comp_def)
qed

lemma uniqueCount_card: "uniqueCount ranks = card (set ranks)"
proof -
  have "wf_gomap (foldl (\<lambda>seen r. AList.update r True seen) m ranks)
      \<and> fst ` set (foldl (\<lambda>seen r. AList.update r True seen) m ranks) = fst ` set m \<union> set ranks"
    if "wf_gomap m" for m
    using that by (induction ranks arbitrary: m) (auto simp: keys_update)
  from this [of "[]"] have "distinct (map fst (foldl (\<lambda>seen r. AList.update r True seen) [] ranks))"
    "set (map fst (foldl (\<lambda>seen r. AList.update r True seen) [] ranks)) = set ranks"
    by (simp_all add: wf_gomap_def)
  then show ?thesis
    unfolding uniqueCount_def by (metis distinct_card length_map)
qed

lemma sortedRanks_basic [simp]:
  "sorted (sortedRanks cards)" "length (sortedRanks cards) = length cards"
  "set (sortedRanks cards) = int ` c_Rank ` set cards"
  by (auto simp: sortedRanks_def)

lemma sorted_hd_last:
  assumes "sorted xs" "length xs = 5" "x \<in> set xs"
  shows "xs ! 0 \<le> x" "x \<le> xs ! 4"
proof -
  obtain i where "i < 5" "x = xs ! i" using assms by (metis in_set_conv_nth)
  then show "xs ! 0 \<le> x" "x \<le> xs ! 4"
    using assms(1,2) by (auto intro!: sorted_nth_mono)
qed

lemma sorted_five_unique:
  assumes "sorted xs" "sorted ys" "distinct ys" "length xs = length ys"
  shows "xs = ys \<longleftrightarrow> set xs = set (ys :: int list)"
  using assms by (metis card_distinct distinct_card sorted_distinct_set_unique)

lemma isStraight_iff:
  assumes "length cards = 5"
  shows "isStraight cards \<longleftrightarrow>
    (\<exists>r. c_Rank ` set cards = {r..r + 4}) \<or> c_Rank ` set cards = {Two, Three, Four, Five, Ace}"
proof -
  let ?s = "sortedRanks cards" and ?R = "c_Rank ` set cards"
  have len: "length ?s = 5" using assms by simp
  have run: "?s ! 4 - ?s ! 0 = 4 \<and> uniqueCount ?s = 5 \<longleftrightarrow> (\<exists>r. ?R = {r..r + 4})"
  proof
    assume a: "?s ! 4 - ?s ! 0 = 4 \<and> uniqueCount ?s = 5"
    have "?s ! 0 \<in> set ?s" using len by (metis nth_mem zero_less_numeral)
    then obtain r where r: "?s ! 0 = int r" by auto
    have "?R \<subseteq> {r..r + 4}"
      using sorted_hd_last [of ?s] len a r by fastforce
    moreover have "card ?R = 5" using a by (simp add: uniqueCount_card card_image)
    ultimately have "?R = {r..r + 4}" by (intro card_subset_eq) auto
    then show "\<exists>r. ?R = {r..r + 4}" by blast
  next
    assume "\<exists>r. ?R = {r..r + 4}"
    then obtain r where r: "?R = {r..r + 4}" by blast
    then have s: "set ?s = int ` {r..r + 4}" by simp
    have "uniqueCount ?s = 5" unfolding uniqueCount_card s by (simp add: card_image)
    moreover have "?s ! 0 \<in> set ?s" "?s ! 4 \<in> set ?s" using len by (simp_all del: sortedRanks_basic(3))
    then have "int r \<le> ?s ! 0" "?s ! 4 \<le> int (r + 4)" unfolding s by auto
    moreover have "int r \<in> set ?s" "int (r + 4) \<in> set ?s" unfolding s by (rule imageI, simp)+
    then have "?s ! 0 \<le> int r" "int (r + 4) \<le> ?s ! 4"
      using sorted_hd_last [of ?s] len by (simp_all del: sortedRanks_basic(3))
    ultimately show "?s ! 4 - ?s ! 0 = 4 \<and> uniqueCount ?s = 5" by simp
  qed
  have "?s ! 4 = 14 \<and> ?s ! 0 = 2 \<and> ?s ! 1 = 3 \<and> ?s ! 2 = 4 \<and> ?s ! 3 = 5 \<longleftrightarrow> ?s = [2, 3, 4, 5, 14]"
    using len by (auto simp: list_eq_iff_nth_eq nth_Cons less_Suc_eq numeral_eq_Suc split: nat.splits)
  also have "\<dots> \<longleftrightarrow> set ?s = {2, 3, 4, 5, 14}"
    using len by (subst sorted_five_unique) auto
  also have "\<dots> \<longleftrightarrow> int ` ?R = int ` {2, 3, 4, 5, 14}" by simp
  also have "\<dots> \<longleftrightarrow> ?R = {2, 3, 4, 5, 14}" by (rule inj_image_eq_iff) simp
  finally show ?thesis
    using run by (auto simp: isStraight_def Let_def)
qed

lemma isFlush_iff: "cards \<noteq> [] \<Longrightarrow> isFlush cards \<longleftrightarrow> (\<exists>s. \<forall>c \<in> set cards. c_Suit c = s)"
  by (cases cards) (auto simp: isFlush_def list_all_iff)

lemma isRoyalFlush_iff:
  assumes "length cards = 5"
  shows "isRoyalFlush cards \<longleftrightarrow> isFlush cards \<and> c_Rank ` set cards = {Ten..Ace}"
proof -
  let ?s = "sortedRanks cards" and ?R = "c_Rank ` set cards"
  have len: "length ?s = 5" using assms by simp
  have ends: "?s ! 0 \<in> int ` ?R" "?s ! 4 \<in> int ` ?R"
    unfolding sortedRanks_basic(3) [symmetric] using len by (simp_all del: sortedRanks_basic(3))
  have bounds: "\<forall>r \<in> ?R. ?s ! 0 \<le> int r \<and> int r \<le> ?s ! 4"
    using sorted_hd_last [of ?s] len by auto
  have "isStraight cards \<and> ?s ! 4 = 14 \<and> ?s ! 0 = 10 \<longleftrightarrow> ?R = {10..14}"
  proof
    assume a: "isStraight cards \<and> ?s ! 4 = 14 \<and> ?s ! 0 = 10"
    then have R: "10 \<in> ?R" "14 \<in> ?R" "\<forall>r \<in> ?R. 10 \<le> r \<and> r \<le> 14" using ends bounds by fastforce+
    then have "2 \<notin> ?R" by fastforce
    with a isStraight_iff [OF assms] obtain r where "?R = {r..r + 4}" by (metis insertI1)
    moreover have "r \<in> {r..r + 4}" by simp
    ultimately have "10 \<le> r" using R(3) by blast
    moreover have "r \<le> 10" using R(1) \<open>?R = {r..r + 4}\<close> by simp
    ultimately show "?R = {10..14}" using \<open>?R = {r..r + 4}\<close> by simp
  next
    assume R: "?R = {10..14}"
    then have "isStraight cards" using isStraight_iff [OF assms] by (auto intro: exI [of _ 10])
    moreover have "10 \<in> ?R" "14 \<in> ?R" unfolding R by auto
    then have "?s ! 0 \<le> 10" "14 \<le> ?s ! 4" using bounds by fastforce+
    moreover have "10 \<le> ?s ! 0" "?s ! 4 \<le> 14" using ends unfolding R by auto
    ultimately show "isStraight cards \<and> ?s ! 4 = 14 \<and> ?s ! 0 = 10" by auto
  qed
  then show ?thesis by (auto simp: isRoyalFlush_def)
qed

text \<open>The categories of poker hands, by the set of ranks, their multiplicities and the suits.\<close>

definition one_suit :: "Card list \<Rightarrow> bool" where
  "one_suit cards \<longleftrightarrow> (\<exists>s. \<forall>c \<in> set cards. c_Suit c = s)"

definition consecutive :: "Card list \<Rightarrow> bool" where
  "consecutive cards \<longleftrightarrow>
     (\<exists>r. c_Rank ` set cards = {r..r + 4}) \<or> c_Rank ` set cards = {Two, Three, Four, Five, Ace}"

definition hand_category :: "Card list \<Rightarrow> HandRank" where
  "hand_category cards =
     (if one_suit cards \<and> c_Rank ` set cards = {Ten..Ace} then RoyalFlush
      else if one_suit cards \<and> consecutive cards then StraightFlush
      else if \<exists>r. rank_count cards r = 4 then FourOfAKind
      else if (\<exists>r. rank_count cards r = 3) \<and> (\<exists>r. rank_count cards r = 2) then FullHouse
      else if one_suit cards then Flush
      else if consecutive cards then Straight
      else if \<exists>r. rank_count cards r = 3 then ThreeOfAKind
      else if card {r. rank_count cards r = 2} = 2 then TwoPair
      else if \<exists>r. rank_count cards r = 2 then OnePair
      else HighCard)"

text \<open>
  C12: Five cards are ranked by the rules of poker: \<open>rankHand\<close> (sorting, counting in Go maps)
  gives the category determined by the set of ranks, their multiplicities and the suits, the
  ace-to-five straight included.
\<close>

theorem rankHand_is_poker_category:
  assumes "length cards = 5"
  shows "rankHand cards = hand_category cards"
proof -
  have ne: "cards \<noteq> []" using assms by auto
  have counts: "isFourOfAKind cards \<longleftrightarrow> (\<exists>r. rank_count cards r = 4)"
    "isThreeOfAKind cards \<longleftrightarrow> (\<exists>r. rank_count cards r = 3)"
    "isOnePair cards \<longleftrightarrow> (\<exists>r. rank_count cards r = 2)"
    using ex_rankCounts [of 4 cards] ex_rankCounts [of 3 cards] ex_rankCounts [of 2 cards]
    by (simp_all add: isFourOfAKind_def isThreeOfAKind_def isOnePair_def)
  have full: "isFullHouse cards \<longleftrightarrow> isThreeOfAKind cards \<and> isOnePair cards"
    by (simp add: isFullHouse_def isThreeOfAKind_def isOnePair_def foldl_two_flags)
  have two: "isTwoPair cards \<longleftrightarrow> card {r. rank_count cards r = 2} = 2"
    unfolding isTwoPair_def foldl_counter pairs_rankCounts by simp
  have suits: "isFlush cards \<longleftrightarrow> one_suit cards" "isStraight cards \<longleftrightarrow> consecutive cards"
    by (simp_all add: isFlush_iff [OF ne] one_suit_def isStraight_iff [OF assms] consecutive_def)
  show ?thesis
    by (simp only: rankHand_def hand_category_def isRoyalFlush_iff [OF assms] isStraightFlush_def full
        counts two suits)
qed

theorem rankHand_is_poker_category_witness:
  "hand_category [NewCard Ace 0, NewCard Two 1, NewCard Three 2, NewCard Four 3, NewCard Five 0] = Straight"
  using rankHand_is_poker_category
    [of "[NewCard Ace 0, NewCard Two 1, NewCard Three 2, NewCard Four 3, NewCard Five 0]"]
  by (simp add: rankHand_def isRoyalFlush_def isStraightFlush_def isFourOfAKind_def isFullHouse_def
      isFlush_def isStraight_def rankCounts_def sortedRanks_def uniqueCount_def NewCard_def get0_def)

section \<open>Lemmas on the comparison\<close>

lemma compare_ranks_antisym: "compare_ranks a b = - compare_ranks b a"
  by (induction a b rule: compare_ranks.induct) auto

lemma compare_ranks_trans:
  "\<lbrakk>length a = length b; length b = length c; 0 \<le> compare_ranks a b; 0 \<le> compare_ranks b c\<rbrakk>
    \<Longrightarrow> 0 \<le> compare_ranks a c"
  by (induction a b c rule: list_induct3) (auto split: if_splits)

lemma compare_ranks_zero: "\<lbrakk>length a = length b; compare_ranks a b = 0\<rbrakk> \<Longrightarrow> a = b"
  by (induction a b rule: compare_ranks.induct) (auto split: if_splits)

lemma compare_ranks_refl [simp]: "compare_ranks a a = 0"
  by (induction a) auto

lemma compareCards_antisym: "compareCards a b = - compareCards b a"
  unfolding compareCards_def by (rule compare_ranks_antisym)

lemma compareCards_trans:
  "\<lbrakk>length a = length b; length b = length c; 0 \<le> compareCards a b; 0 \<le> compareCards b c\<rbrakk>
    \<Longrightarrow> 0 \<le> compareCards a c"
  by (auto simp: compareCards_def sortedRanksDesc_def elim: compare_ranks_trans [rotated 2])

definition five_cards :: "HandResult \<Rightarrow> bool" where
  "five_cards r \<longleftrightarrow> length (hr_Cards r) = 5"

lemma Compare_antisym: "Compare a b = - Compare b a"
  using compareCards_antisym [of "hr_Cards a" "hr_Cards b"] by (simp add: Compare_def)

lemma Compare_trans:
  "\<lbrakk>five_cards a; five_cards b; five_cards c; 0 \<le> Compare a b; 0 \<le> Compare b c\<rbrakk> \<Longrightarrow> 0 \<le> Compare a c"
  using compareCards_trans [of "hr_Cards a" "hr_Cards b" "hr_Cards c"]
  by (auto simp: Compare_def five_cards_def split: if_splits)

section \<open>The best hand\<close>

lemma rankHand_pos: "0 < rankHand cards"
  by (simp add: rankHand_def)

lemma length_combinations: "combo \<in> set (combinations cards) \<Longrightarrow> length combo = 5"
  by (simp add: set_combinations)

lemma compareCards_refl [simp]: "compareCards a a = 0"
  by (simp add: compareCards_def)

text \<open>The candidate a loop iteration compares with the best so far, as a result of the evaluator.\<close>

abbreviation result_of :: "HandRank \<times> Card list \<Rightarrow> HandResult" where
  "result_of rc \<equiv> \<lparr>hr_PlayerID = [], hr_Rank = fst rc, hr_Cards = snd rc\<rparr>"

lemma best_loop_step:
  "best_loop (combo # combos) best = best_loop combos
    (if 0 < Compare (result_of (rankHand combo, combo)) (result_of best) then (rankHand combo, combo) else best)"
  by (cases best) (auto simp: Compare_def Let_def)

lemma best_loop_spec:
  assumes "\<forall>c \<in> set combos. length c = 5" "length (snd best) = 5"
  defines "ranked c \<equiv> (rankHand c, c)"
  shows "best_loop combos best \<in> insert best (ranked ` set combos)"
    and "\<forall>b \<in> insert best (ranked ` set combos).
      0 \<le> Compare (result_of (best_loop combos best)) (result_of b)"
proof -
  have "best_loop combos best \<in> insert best (ranked ` set combos) \<and>
    (\<forall>b \<in> insert best (ranked ` set combos).
      0 \<le> Compare (result_of (best_loop combos best)) (result_of b))"
    using assms(1,2)
  proof (induction combos arbitrary: best)
    case Nil
    then show ?case by (simp add: Compare_def)
  next
    case (Cons c combos)
    define better where "better =
      (if 0 < Compare (result_of (ranked c)) (result_of best) then ranked c else best)"
    have loop: "best_loop (c # combos) best = best_loop combos better"
      unfolding best_loop_step better_def ranked_def by simp
    have len: "length (snd better) = 5" "length (snd (ranked c)) = 5"
      using Cons.prems by (auto simp: better_def ranked_def)
    note IH = Cons.IH [OF _ len(1)]
    have in_final: "length (snd (best_loop combos better)) = 5"
      using IH Cons.prems len by (auto simp: ranked_def)
    have "0 \<le> Compare (result_of better) (result_of best) \<and> 0 \<le> Compare (result_of better) (result_of (ranked c))"
      using Compare_antisym [of "result_of best" "result_of (ranked c)"]
      by (auto simp: better_def Compare_def [of x x for x])
    then have "0 \<le> Compare (result_of (best_loop combos better)) (result_of best)"
      "0 \<le> Compare (result_of (best_loop combos better)) (result_of (ranked c))"
      using IH Cons.prems len in_final
      by (auto intro!: Compare_trans [of "result_of (best_loop combos better)" "result_of better"]
          simp: five_cards_def)
    then show ?case
      using IH Cons.prems unfolding loop by (auto simp: better_def)
  qed
  then show "best_loop combos best \<in> insert best (ranked ` set combos)"
    and "\<forall>b \<in> insert best (ranked ` set combos).
      0 \<le> Compare (result_of (best_loop combos best)) (result_of b)" by auto
qed

lemma Best_five_cards: "five_cards (Best i hole board)"
  using best_loop_spec(1) [of "combinations (fst hole # snd hole # board)" "(0, replicate 5 (NewCard 0 0))"]
  by (auto simp: Best_def five_cards_def set_combinations split: prod.splits)

lemma Best_PlayerID [simp]: "hr_PlayerID (Best i hole board) = i"
  by (simp add: Best_def split: prod.splits)

lemma Compare_ids [simp]:
  "Compare (a\<lparr>hr_PlayerID := i\<rparr>) b = Compare a b" "Compare a (b\<lparr>hr_PlayerID := i\<rparr>) = Compare a b"
  by (simp_all add: Compare_def)

lemma Best_result_of:
  "Best i hole board = (result_of (best_loop (combinations (fst hole # snd hole # board))
    (0, replicate 5 (NewCard 0 0))))\<lparr>hr_PlayerID := i\<rparr>"
  by (simp add: Best_def split: prod.splits)

text \<open>
  C21: The evaluator picks the best hand: with at least a flop on the board, \<open>Best\<close> returns five of
  the player's cards with their rank, and no other five of them compare higher.
\<close>

theorem Best_is_maximal:
  assumes "3 \<le> length board"
  shows "subseq (hr_Cards (Best i hole board)) (fst hole # snd hole # board)
    \<and> length (hr_Cards (Best i hole board)) = 5
    \<and> hr_Rank (Best i hole board) = rankHand (hr_Cards (Best i hole board))
    \<and> (\<forall>five. subseq five (fst hole # snd hole # board) \<and> length five = 5 \<longrightarrow>
        0 \<le> Compare (Best i hole board) \<lparr>hr_PlayerID = i, hr_Rank = rankHand five, hr_Cards = five\<rparr>)"
proof -
  let ?all = "fst hole # snd hole # board" and ?none = "(0, replicate 5 (NewCard 0 0))"
  let ?best = "best_loop (combinations ?all) ?none"
  have five: "\<forall>c \<in> set (combinations ?all). length c = 5" by (simp add: length_combinations)
  note spec = best_loop_spec [OF five, of ?none, simplified]
  have "take 5 ?all \<in> set (combinations ?all)"
    using assms by (auto simp: set_combinations simp del: take_Suc_Cons intro: prefix_imp_subseq take_is_prefix)
  moreover from this have "?best \<noteq> ?none"
    using spec(2) rankHand_pos by (force simp: Compare_def)
  ultimately show ?thesis
    using spec unfolding Best_result_of by (auto simp: set_combinations Compare_def)
qed

theorem Best_is_maximal_witness:
  "0 \<le> Compare (Best ''p'' (NewCard Ace 0, NewCard Two 1) [NewCard Ace 2, NewCard Nine 3, NewCard Four 0])
    \<lparr>hr_PlayerID = ''p'',
     hr_Rank = rankHand [NewCard Ace 0, NewCard Two 1, NewCard Ace 2, NewCard Nine 3, NewCard Four 0],
     hr_Cards = [NewCard Ace 0, NewCard Two 1, NewCard Ace 2, NewCard Nine 3, NewCard Four 0]\<rparr>"
  using Best_is_maximal [of "[NewCard Ace 2, NewCard Nine 3, NewCard Four 0]" "''p''"
      "(NewCard Ace 0, NewCard Two 1)"] by simp

text \<open>
  Without a flop there is nothing to compare: a board of fewer than three cards gives every
  player the empty hand, and any two players tie whatever their hole cards. (A hand that ends
  with everyone all-in before the flop is settled on such a board.)
\<close>

theorem Best_before_flop_always_ties:
  assumes "length board < 3"
  shows "hr_Rank (Best i hole board) = 0 \<and> Compare (Best i hole board) (Best j hole' board) = 0"
proof -
  have none: "combinations (fst h # snd h # board) = []" for h :: "Card \<times> Card"
    using assms by (simp add: combinations_def)
  show ?thesis by (simp add: Best_def none Compare_def)
qed

theorem Best_before_flop_always_ties_witness:
  "Compare (Best ''a'' (NewCard Ace 0, NewCard Ace 1) []) (Best ''b'' (NewCard Two 0, NewCard Seven 1) []) = 0"
  using Best_before_flop_always_ties [of "[]" "''a''" "(NewCard Ace 0, NewCard Ace 1)" "''b''"
      "(NewCard Two 0, NewCard Seven 1)"] by simp

lemma sortedRanksDesc_first:
  assumes "length cards = 5"
  shows "\<exists>rest. sortedRanksDesc cards = int (Max (c_Rank ` set cards)) # rest"
proof -
  let ?s = "sortedRanks cards"
  have len: "length ?s = 5" using assms by simp
  then have "?s ! 4 \<in> int ` c_Rank ` set cards"
    unfolding sortedRanks_basic(3) [symmetric] by (simp del: sortedRanks_basic(3))
  then obtain r where r: "?s ! 4 = int r" "r \<in> c_Rank ` set cards" by auto
  moreover have "\<forall>q \<in> c_Rank ` set cards. q \<le> r"
    using sorted_hd_last(2) [OF sortedRanks_basic(1) len] r(1) by fastforce
  ultimately have "Max (c_Rank ` set cards) = r" by (intro Max_eqI) auto
  with r have "?s ! 4 = int (Max (c_Rank ` set cards))" by simp
  moreover obtain v w x y z where "?s = [v, w, x, y, z]"
    using len by (auto simp: length_Suc_conv eval_nat_numeral simp del: sortedRanks_basic)
  ultimately show ?thesis by (simp add: sortedRanksDesc_def)
qed

text \<open>
  C38: Between two hands of the same category the highest single card decides, whatever the pair,
  the trips or the straight is: a pair of twos with an ace beats a pair of kings without one.
\<close>

theorem same_category_decided_by_highest_card:
  assumes "length a = 5" "length b = 5" "rankHand a = rankHand b"
    and "Max (c_Rank ` set b) < Max (c_Rank ` set a)"
  shows "Compare \<lparr>hr_PlayerID = i, hr_Rank = rankHand a, hr_Cards = a\<rparr>
    \<lparr>hr_PlayerID = j, hr_Rank = rankHand b, hr_Cards = b\<rparr> = 1"
  using sortedRanksDesc_first [OF assms(1)] sortedRanksDesc_first [OF assms(2)] assms(3,4)
  by (auto simp: Compare_def compareCards_def)

theorem same_category_decided_by_highest_card_witness:
  defines "twos \<equiv> [NewCard Two 0, NewCard Two 1, NewCard Ace 0, NewCard Queen 1, NewCard Jack 2]"
    and "kings \<equiv> [NewCard King 0, NewCard King 1, NewCard Queen 0, NewCard Jack 1, NewCard Ten 2]"
  shows "rankHand twos = OnePair \<and> rankHand kings = OnePair
    \<and> Compare \<lparr>hr_PlayerID = ''a'', hr_Rank = rankHand twos, hr_Cards = twos\<rparr>
      \<lparr>hr_PlayerID = ''b'', hr_Rank = rankHand kings, hr_Cards = kings\<rparr> = 1"
proof -
  have r: "rankHand twos = OnePair" "rankHand kings = OnePair"
    unfolding twos_def kings_def rankHand_def isRoyalFlush_def isStraightFlush_def isFourOfAKind_def
      isFullHouse_def isFlush_def isStraight_def isThreeOfAKind_def isTwoPair_def isOnePair_def
      rankCounts_def sortedRanks_def uniqueCount_def NewCard_def
    by (simp_all add: get0_def)
  then show ?thesis
    using same_category_decided_by_highest_card [of twos kings "''a''" "''b''"]
    by (simp add: twos_def kings_def NewCard_def)
qed

section \<open>The evaluator as an interface\<close>

text \<open>
  What the settlement of a hand needs of an evaluator: its results are comparable, and the
  comparison is antisymmetric and transitive on them.
\<close>

locale hand_evaluator =
  fixes best :: "PlayerID \<Rightarrow> Card \<times> Card \<Rightarrow> Card list \<Rightarrow> 'r"
    and cmp :: "'r \<Rightarrow> 'r \<Rightarrow> int"
    and comparable :: "'r \<Rightarrow> bool"
  assumes best_comparable: "comparable (best i hole board)"
    and cmp_antisym: "cmp a b = - cmp b a"
    and cmp_trans: "\<lbrakk>comparable a; comparable b; comparable c; 0 \<le> cmp a b; 0 \<le> cmp b c\<rbrakk> \<Longrightarrow> 0 \<le> cmp a c"
begin

lemma cmp_refl: "cmp a a = 0"
  using cmp_antisym [of a a] by simp

lemma cmp_total: "0 \<le> cmp a b \<or> 0 \<le> cmp b a"
  using cmp_antisym [of a b] by linarith

end

interpretation evaluator: hand_evaluator Best Compare five_cards
  by unfold_locales (auto intro: Best_five_cards Compare_antisym Compare_trans)

end
