(* ===== verification/FinishHand.thy ===== *)
theory FinishHand
  imports Betting Evaluator
begin

text \<open>
  The engine's use cases share one world: the hand repository, the events published so far and
  the metrics. This theory defines that world and models the settlement of a hand
  (\<open>application/finish_hand.go\<close>): collecting the bets, taking the rake, finding the best hand of
  each pot and paying it out.

  The dependencies injected into the use cases are a record of functions, as the Go structs hold
  interfaces: the repository, the publisher, the evaluator, the shuffle and the rake
  configuration, together with the clock, the map iteration order and float rounding.
\<close>

section \<open>The engine's world\<close>

record Metrics =
  m_HandsStarted :: int
  m_HandsEnded :: int
  m_ActiveGames :: int
  m_ActionsTotal :: "string list"
  m_ShowdownsTotal :: int
  m_PotSize :: "int list"
  m_RakeCollected :: "int list"
  m_PlayersPerHand :: "int list"

record 'db World =
  w_db :: 'db
  w_events :: "EngineEvent list"
  w_metrics :: Metrics

record 'db Deps =
  dp_FindByID :: "'db \<Rightarrow> HandID \<Rightarrow> (engine_err, GameState) outcome"
  dp_Save :: "'db \<Rightarrow> GameState \<Rightarrow> (engine_err, 'db) outcome"
  dp_answer_lost :: "GameState \<Rightarrow> engine_err option"
  dp_publish_err :: "EngineEvent list \<Rightarrow> EngineEvent \<Rightarrow> engine_err option"
  dp_shuffle :: ShuffleFunc
  dp_rakeConfig :: RakeConfig
  dp_iter :: "PlayerID list \<Rightarrow> PlayerID list"
  dp_fl :: "rat \<Rightarrow> rat"
  dp_Now :: int
  dp_UnixNano :: int

text \<open>
  Saving and publishing: a failed publish leaves the events, a failed save the database, except
  where only the answer to its commit is lost: then the caller sees an error, and the hand is saved.
\<close>

definition save_state :: "'db Deps \<Rightarrow> GameState \<Rightarrow> 'db World \<Rightarrow> (engine_err, unit) outcome \<times> 'db World" where
  "save_state d g w =
     (case dp_Save d (w_db w) g of
        Ok db \<Rightarrow> (case dp_answer_lost d g of None \<Rightarrow> Ok () | Some e \<Rightarrow> Err e, w\<lparr>w_db := db\<rparr>)
      | Err e \<Rightarrow> (Err e, w)
      | Panic m \<Rightarrow> (Panic m, w))"

definition publish :: "'db Deps \<Rightarrow> EngineEvent \<Rightarrow> 'db World \<Rightarrow> (engine_err, unit) outcome \<times> 'db World" where
  "publish d e w =
     (case dp_publish_err d (w_events w) e of
        None \<Rightarrow> (Ok (), w\<lparr>w_events := w_events w @ [e]\<rparr>)
      | Some err \<Rightarrow> (Err err, w))"

definition event_id :: "HandID \<Rightarrow> int \<Rightarrow> string" where
  "event_id i n = i @ '':'' @ show_int n"

section \<open>Winners\<close>

fun best_hands_loop ::
    "('r \<Rightarrow> 'r \<Rightarrow> int) \<Rightarrow> (PlayerID, 'r) gomap \<Rightarrow> PlayerID list \<Rightarrow> PlayerID list \<Rightarrow> PlayerID list" where
  "best_hands_loop cmp results [] best = best"
| "best_hands_loop cmp results (i # eligible) best =
     (case map_of results i of
        None \<Rightarrow> best_hands_loop cmp results eligible best
      | Some result \<Rightarrow>
          if length best = 0 then best_hands_loop cmp results eligible [i]
          else let c = cmp result (the (map_of results (best ! 0)))
               in if c > 0 then best_hands_loop cmp results eligible [i]
                  else if c = 0 then best_hands_loop cmp results eligible (best @ [i])
                  else best_hands_loop cmp results eligible best)"

definition bestHandsInPot ::
    "('r \<Rightarrow> 'r \<Rightarrow> int) \<Rightarrow> PlayerID list \<Rightarrow> (PlayerID, 'r) gomap \<Rightarrow> PlayerID list" where
  "bestHandsInPot cmp eligible results = best_hands_loop cmp results eligible []"

definition pay_pot :: "(PlayerID, int) gomap \<Rightarrow> Pot \<Rightarrow> PlayerID list \<Rightarrow> (PlayerID, int) gomap" where
  "pay_pot result pot winners =
     (if length winners = 0 then result
      else let share = pot_Amount pot sdiv int (length winners);
               remainder = pot_Amount pot smod int (length winners)
           in foldl (\<lambda>result (j, i).
                let result = AList.update i (get0 result i + share) result
                in if int j < remainder then AList.update i (get0 result i + 1) result else result)
              result (enumerate 0 winners))"

text \<open>The loop stops at the shorter of the two slices, as \<^const>\<open>zip\<close> does.\<close>

definition winnersToMap :: "Pot list \<Rightarrow> PlayerID list list \<Rightarrow> (PlayerID, int) gomap" where
  "winnersToMap pots winnersByPot =
     foldl (\<lambda>result (pot, winners). pay_pot result pot winners) [] (zip pots winnersByPot)"

definition award :: "GameState \<Rightarrow> (PlayerID, int) gomap \<Rightarrow> GameState" where
  "award state winners =
     state\<lparr>g_Players := map (\<lambda>p. case map_of winners (p_ID p) of
        Some amount \<Rightarrow> p\<lparr>p_Stack := p_Stack p + amount\<rparr>
      | None \<Rightarrow> p) (g_Players state)\<rparr>"

definition singleWinner :: "GameState \<Rightarrow> PlayerID \<Rightarrow> (PlayerID, int) gomap \<times> GameState" where
  "singleWinner state playerID =
     (let total = Total (g_Pots state); result = [(playerID, total)]
      in (result, award state result))"

definition showdown_results :: "GameState \<Rightarrow> Player list \<Rightarrow> (PlayerID, HandResult) gomap" where
  "showdown_results state activePlayers =
     foldl (\<lambda>results p. AList.update (p_ID p) (Best (p_ID p) (p_HoleCards p) (g_Board state)) results)
       [] activePlayers"

definition showdown :: "GameState \<Rightarrow> Player list \<Rightarrow> (PlayerID, int) gomap \<times> GameState" where
  "showdown state activePlayers =
     (let results = showdown_results state activePlayers;
          winnersByPot = map (\<lambda>pot. bestHandsInPot Compare (pot_Eligible pot) results) (g_Pots state);
          winners = winnersToMap (g_Pots state) winnersByPot
      in (winners, award state winners))"

definition determineWinners :: "GameState \<Rightarrow> (PlayerID, int) gomap \<times> GameState" where
  "determineWinners state =
     (let activePlayers = ActivePlayers state
      in if length activePlayers = 1 then singleWinner state (p_ID (activePlayers ! 0))
         else showdown state activePlayers)"

section \<open>Finishing a hand\<close>

definition count_finish :: "bool \<Rightarrow> int \<Rightarrow> int \<Rightarrow> Metrics \<Rightarrow> Metrics" where
  "count_finish shown netPot rake m =
     m\<lparr>m_ShowdownsTotal := m_ShowdownsTotal m + (if shown then 1 else 0),
       m_HandsEnded := m_HandsEnded m + 1,
       m_ActiveGames := m_ActiveGames m - 1,
       m_PotSize := m_PotSize m @ [netPot],
       m_RakeCollected := m_RakeCollected m @ [rake]\<rparr>"

definition FinishHand_Execute ::
    "'db Deps \<Rightarrow> GameState \<Rightarrow> 'db World \<Rightarrow> (engine_err, GameState) outcome \<times> 'db World" where
  "FinishHand_Execute d state w =
     (let state = CollectBets (dp_iter d) state;
          occurredAt = dp_Now d;
          shown = (g_Street state = StreetShowdown);
          grossPot = Total (g_Pots state);
          rake = CalculateRake (dp_fl d) (g_Pots state) (g_Street state) (dp_rakeConfig d);
          state = state\<lparr>g_Pots := ApplyRake (g_Pots state) rake\<rparr>;
          netPot = Total (g_Pots state);
          (state, sequenceNumber) = AdvanceEventSequence state;
          (winners, state) = determineWinners state;
          state = state\<lparr>g_Street := StreetShowdown\<rparr>;
          w = w\<lparr>w_metrics := count_finish shown netPot rake (w_metrics w)\<rparr>;
          (saved, w) = save_state d state w
      in case saved of
          Err e \<Rightarrow> (Err (Wrapped ''finish hand: save state'' e), w)
        | Panic m \<Rightarrow> (Panic m, w)
        | Ok _ \<Rightarrow>
            (let (published, w) = publish d (EvHandEnded
                   \<lparr>he_EventID = event_id (g_ID state) sequenceNumber,
                    he_EventVersion = 1,
                    he_HandID = g_ID state,
                    he_TableID = g_TableID state,
                    he_SequenceNumber = sequenceNumber,
                    he_PlayerCount = int (length (g_Players state)),
                    he_Button = int (g_Button state),
                    he_SmallBlind = bc_SmallBlind (g_BettingConfig state),
                    he_BigBlind = bc_BigBlind (g_BettingConfig state),
                    he_Showdown = shown,
                    he_GrossPot = grossPot,
                    he_NetPot = netPot,
                    he_Winners = winners,
                    he_Rake = rake,
                    he_Board = g_Board state,
                    he_OccurredAt = occurredAt\<rparr>) w
             in case published of
                 Ok _ \<Rightarrow> (Ok state, w)
               | Err e \<Rightarrow> (Err (Wrapped ''finish hand: publish event'' e), w)
               | Panic m \<Rightarrow> (Panic m, w)))"

section \<open>Lemmas on the choice of winners\<close>

context hand_evaluator
begin

text \<open>The players of a pot with a result, and the winners among them: nobody compares higher.\<close>

definition contenders :: "(PlayerID, 'r) gomap \<Rightarrow> PlayerID list \<Rightarrow> PlayerID list" where
  "contenders results eligible = filter (\<lambda>i. map_of results i \<noteq> None) eligible"

definition top :: "(PlayerID, 'r) gomap \<Rightarrow> PlayerID list \<Rightarrow> PlayerID list" where
  "top results ids =
     filter (\<lambda>i. \<forall>j \<in> set ids. 0 \<le> cmp (the (map_of results i)) (the (map_of results j))) ids"

lemma comparable_lookup:
  "\<lbrakk>\<forall>(i, r) \<in> set results. comparable r; map_of results j = Some r\<rbrakk> \<Longrightarrow> comparable r"
  by (drule map_of_SomeD) auto

lemma top_step:
  assumes ok: "\<forall>j \<in> set (ids @ [i]). comparable (the (map_of results j))"
    and b: "b \<in> set (top results ids)"
  shows "top results (ids @ [i]) =
    (let c = cmp (the (map_of results i)) (the (map_of results b))
     in if c > 0 then [i] else if c = 0 then top results ids @ [i] else top results ids)"
proof -
  let ?v = "\<lambda>j. the (map_of results j)"
  have bmax: "\<forall>j \<in> set ids. 0 \<le> cmp (?v b) (?v j)" and bin: "b \<in> set ids"
    using b by (auto simp: top_def)
  have trans: "0 \<le> cmp (?v x) (?v z)" if "0 \<le> cmp (?v x) (?v y)" "0 \<le> cmp (?v y) (?v z)"
    "{x, y, z} \<subseteq> set (ids @ [i])" for x y z
    using that ok by (intro cmp_trans [of "?v x" "?v y" "?v z"]) auto
  have ib: "cmp (?v b) (?v i) = - cmp (?v i) (?v b)" by (rule cmp_antisym)
  have i_top: "(\<forall>j \<in> set ids. 0 \<le> cmp (?v i) (?v j)) \<longleftrightarrow> 0 \<le> cmp (?v i) (?v b)"
    using bin bmax trans [of i b] by auto
  have old_vs_i: "0 \<le> cmp (?v j) (?v i) \<longleftrightarrow> 0 \<le> cmp (?v b) (?v i)" if "j \<in> set (top results ids)" for j
    using that bin bmax trans [of j b i] trans [of b j i] by (auto simp: top_def)
  have new: "filter (\<lambda>j. 0 \<le> cmp (?v j) (?v i) \<and> (\<forall>k \<in> set ids. 0 \<le> cmp (?v j) (?v k))) ids
      = (if 0 \<le> cmp (?v b) (?v i) then top results ids else [])"
    using old_vs_i unfolding top_def by (auto simp: filter_empty_conv intro!: filter_cong)
  show ?thesis
    using i_top ib by (auto simp: top_def [of results "ids @ [i]"] new cmp_refl Let_def)
qed

lemma top_nonempty:
  "\<lbrakk>ids \<noteq> []; \<forall>j \<in> set ids. comparable (the (map_of results j))\<rbrakk> \<Longrightarrow> top results ids \<noteq> []"
proof (induction ids rule: rev_induct)
  case (snoc i ids)
  show ?case
  proof (cases "ids = []")
    case True
    then show ?thesis by (simp add: top_def cmp_refl)
  next
    case False
    then obtain b where "b \<in> set (top results ids)"
      using snoc by (metis append_is_Nil_conv hd_in_set set_append UnI1)
    then show ?thesis
      using top_step [OF snoc.prems(2)] by (auto simp: Let_def dest: arg_cong [where f = set])
  qed
qed simp

lemma best_hands_loop_top:
  assumes "\<forall>(i, r) \<in> set results. comparable r" "\<forall>j \<in> set seen. map_of results j \<noteq> None"
  shows "best_hands_loop cmp results eligible (top results seen)
    = top results (seen @ contenders results eligible)"
  using assms(2)
proof (induction eligible arbitrary: seen)
  case Nil
  then show ?case by (simp add: contenders_def)
next
  case (Cons i eligible)
  have ok: "comparable (the (map_of results j))" if "map_of results j \<noteq> None" for j
    using that comparable_lookup [OF assms(1)] by auto
  show ?case
  proof (cases "map_of results i")
    case None
    then show ?thesis using Cons by (simp add: contenders_def)
  next
    case (Some r)
    have IH: "best_hands_loop cmp results eligible (top results (seen @ [i]))
        = top results (seen @ contenders results (i # eligible))"
      using Cons.IH [of "seen @ [i]"] Cons.prems Some by (simp add: contenders_def)
    show ?thesis
    proof (cases "seen = []")
      case True
      then show ?thesis using Some IH by (simp add: top_def cmp_refl)
    next
      case False
      have comp: "\<forall>j \<in> set (seen @ [i]). comparable (the (map_of results j))"
        using ok [of i] ok Cons.prems Some by auto
      then have ne: "top results seen \<noteq> []" using False by (intro top_nonempty) auto
      then have "top results seen ! 0 \<in> set (top results seen)" by (simp add: nth_mem)
      from top_step [OF comp this] show ?thesis using Some IH ne by (simp add: Let_def split: if_splits)
    qed
  qed
qed

lemma bestHandsInPot_top:
  assumes "\<forall>(i, r) \<in> set results. comparable r"
  shows "bestHandsInPot cmp eligible results = top results (contenders results eligible)"
  using best_hands_loop_top [OF assms, of "[]"] by (simp add: bestHandsInPot_def top_def [of _ "[]"])

lemma bestHandsInPot_nonempty:
  assumes "\<forall>(i, r) \<in> set results. comparable r" "i \<in> set eligible" "map_of results i \<noteq> None"
  shows "bestHandsInPot cmp eligible results \<noteq> []"
  unfolding bestHandsInPot_top [OF assms(1)]
proof (rule top_nonempty)
  show "contenders results eligible \<noteq> []" using assms(2,3) by (auto simp: contenders_def filter_empty_conv)
  show "\<forall>j \<in> set (contenders results eligible). comparable (the (map_of results j))"
    using comparable_lookup [OF assms(1)] by (auto simp: contenders_def)
qed

end

section \<open>Lemmas on paying out\<close>

lemma get0_nonneg_fold [simp]: "get0 [] k = 0"
  by (simp add: get0_def)

lemma pay_fold_spec:
  fixes share r :: int
  defines "step \<equiv> \<lambda>result (j, i). let result = AList.update i (get0 result i + share) result
      in if int j < r then AList.update i (get0 result i + 1) result else result"
  assumes "wf_gomap m"
  shows "wf_gomap (foldl step m (enumerate k ws))"
    and "fst ` set (foldl step m (enumerate k ws)) = fst ` set m \<union> set ws"
    and "gosum (foldl step m (enumerate k ws))
      = gosum m + share * int (length ws) + (max (min r (int (k + length ws))) (int k) - int k)"
proof -
  have "wf_gomap (foldl step m (enumerate k ws))
    \<and> fst ` set (foldl step m (enumerate k ws)) = fst ` set m \<union> set ws
    \<and> gosum (foldl step m (enumerate k ws))
      = gosum m + share * int (length ws) + (max (min r (int (k + length ws))) (int k) - int k)"
    using assms(2)
  proof (induction ws arbitrary: m k)
    case Nil
    then show ?case by simp
  next
    case (Cons i ws)
    have wf: "wf_gomap (step m (k, i))" using Cons.prems by (simp add: step_def Let_def)
    have keys: "fst ` set (step m (k, i)) = insert i (fst ` set m)"
      by (auto simp: step_def Let_def keys_update)
    have sum: "gosum (step m (k, i)) = gosum m + share + (if int k < r then 1 else 0)"
      using Cons.prems by (simp add: step_def Let_def gosum_update get0_update)
    from Cons.IH [OF wf, of "Suc k"] show ?case
      using keys sum by (auto simp: algebra_simps) (simp_all add: max_def min_def split: if_splits)
  qed
  then show "wf_gomap (foldl step m (enumerate k ws))"
    and "fst ` set (foldl step m (enumerate k ws)) = fst ` set m \<union> set ws"
    and "gosum (foldl step m (enumerate k ws))
      = gosum m + share * int (length ws) + (max (min r (int (k + length ws))) (int k) - int k)" by auto
qed

lemma sdiv_smod_pos:
  fixes a n :: int
  assumes "0 \<le> a" "0 < n"
  shows "a sdiv n = a div n" "a smod n = a mod n"
  using assms by (simp_all add: signed_divide_int_def signed_modulo_int_def sgn_if)

lemma pay_pot_spec:
  assumes "wf_gomap m" "0 \<le> pot_Amount pot"
  shows "wf_gomap (pay_pot m pot ws)"
    and "fst ` set (pay_pot m pot ws) = fst ` set m \<union> set ws"
    and "gosum (pay_pot m pot ws) = gosum m + (if ws = [] then 0 else pot_Amount pot)"
proof -
  let ?n = "int (length ws)"
  have "0 < ?n \<Longrightarrow> 0 \<le> pot_Amount pot mod ?n \<and> pot_Amount pot mod ?n < ?n"
    by simp
  moreover have "pot_Amount pot div ?n * ?n + pot_Amount pot mod ?n = pot_Amount pot" by simp
  ultimately show "wf_gomap (pay_pot m pot ws)"
    "fst ` set (pay_pot m pot ws) = fst ` set m \<union> set ws"
    "gosum (pay_pot m pot ws) = gosum m + (if ws = [] then 0 else pot_Amount pot)"
    using pay_fold_spec [OF assms(1), where k = 0 and ws = ws] assms
    by (auto simp: pay_pot_def sdiv_smod_pos Let_def)
qed

lemma winnersToMap_spec:
  assumes "length ws = length pots" "\<forall>pot \<in> set pots. 0 \<le> pot_Amount pot"
  shows "wf_gomap (winnersToMap pots ws)"
    and "fst ` set (winnersToMap pots ws) = \<Union> (set ` set ws)"
    and "\<forall>w \<in> set ws. w \<noteq> [] \<Longrightarrow> gosum (winnersToMap pots ws) = Total pots"
proof -
  have "wf_gomap (foldl (\<lambda>result (pot, winners). pay_pot result pot winners) m (zip pots ws))
    \<and> fst ` set (foldl (\<lambda>result (pot, winners). pay_pot result pot winners) m (zip pots ws))
      = fst ` set m \<union> \<Union> (set ` set ws)
    \<and> ((\<forall>w \<in> set ws. w \<noteq> []) \<longrightarrow>
      gosum (foldl (\<lambda>result (pot, winners). pay_pot result pot winners) m (zip pots ws)) = gosum m + Total pots)"
    if "wf_gomap m" for m
    using assms that
    by (induction pots ws arbitrary: m rule: list_induct2') (auto simp: pay_pot_spec)
  from this [of "[]"] show "wf_gomap (winnersToMap pots ws)"
    "fst ` set (winnersToMap pots ws) = \<Union> (set ` set ws)"
    "\<forall>w \<in> set ws. w \<noteq> [] \<Longrightarrow> gosum (winnersToMap pots ws) = Total pots"
    by (auto simp: winnersToMap_def gosum_def)
qed

lemma gosum_over_ids:
  assumes "wf_gomap m" "distinct is" "fst ` set m \<subseteq> set is"
  shows "sum_list (map (get0 m) is) = gosum m"
proof -
  have "gosum m = sum (get0 m) (fst ` set m)"
    using assms(1) by (metis gosum_keys image_set sum_list_distinct_conv_sum_set wf_gomap_def)
  also have "\<dots> = sum (get0 m) (set is)"
    using assms(3) by (intro sum.mono_neutral_left)
      (auto simp: get0_def map_of_eq_None_iff [THEN iffD2] split: option.splits
        dest!: map_of_SomeD intro: rev_image_eqI)
  finally show ?thesis using assms(2) by (simp add: sum_list_distinct_conv_sum_set)
qed

lemma award_frame [simp]:
  "g_Pots (award g w) = g_Pots g" "g_Board (award g w) = g_Board g" "g_Street (award g w) = g_Street g"
  "g_ID (award g w) = g_ID g" "g_TableID (award g w) = g_TableID g" "g_Button (award g w) = g_Button g"
  "g_BettingConfig (award g w) = g_BettingConfig g" "g_EventSequence (award g w) = g_EventSequence g"
  "g_Deck (award g w) = g_Deck g" "g_ActivePlayer (award g w) = g_ActivePlayer g"
  "g_CurrentBet (award g w) = g_CurrentBet g" "g_RaisesThisStreet (award g w) = g_RaisesThisStreet g"
  by (simp_all add: award_def)

lemma award_players:
  "g_Players (award g w) = map (\<lambda>p. p\<lparr>p_Stack := p_Stack p + get0 w (p_ID p)\<rparr>) (g_Players g)"
  by (auto simp: award_def get0_def split: option.splits)

lemma award_maps [simp]:
  "map p_ID (g_Players (award g w)) = map p_ID (g_Players g)"
  "map p_Status (g_Players (award g w)) = map p_Status (g_Players g)"
  "map p_HoleCards (g_Players (award g w)) = map p_HoleCards (g_Players g)"
  "map p_CurrentBet (g_Players (award g w)) = map p_CurrentBet (g_Players g)"
  by (simp_all add: award_players)

lemma stacks_award:
  assumes "distinct (map p_ID (g_Players g))" "wf_gomap w" "fst ` set w \<subseteq> p_ID ` set (g_Players g)"
  shows "stacks (g_Players (award g w)) = stacks (g_Players g) + gosum w"
proof -
  have "stacks (g_Players (award g w)) = stacks (g_Players g) + sum_list (map (get0 w) (map p_ID (g_Players g)))"
    unfolding award_players stacks_def by (simp add: comp_def sum_list_addf)
  then show ?thesis using gosum_over_ids [OF assms(2,1)] assms(3) by simp
qed

lemma showdown_results_spec:
  "map_of (showdown_results g ps) i \<noteq> None \<longleftrightarrow> i \<in> p_ID ` set ps"
  "\<forall>(i, r) \<in> set (showdown_results g ps). five_cards r"
proof -
  let ?f = "\<lambda>results p. AList.update (p_ID p) (Best (p_ID p) (p_HoleCards p) (g_Board g)) results"
  have "(map_of (foldl ?f m ps) i \<noteq> None \<longleftrightarrow> map_of m i \<noteq> None \<or> i \<in> p_ID ` set ps)
    \<and> ((\<forall>(i, r) \<in> set m. five_cards r) \<longrightarrow> (\<forall>(i, r) \<in> set (foldl ?f m ps). five_cards r))" for m
  proof (induction ps arbitrary: m)
    case (Cons p ps)
    have "(\<forall>(i, r) \<in> set m. five_cards r) \<Longrightarrow> \<forall>(i, r) \<in> set (?f m p). five_cards r"
      using Best_five_cards by (induction m) auto
    then have r: "(\<forall>(i, r) \<in> set m. five_cards r) \<longrightarrow> (\<forall>(i, r) \<in> set (foldl ?f (?f m p) ps). five_cards r)"
      using conjunct2 [OF Cons [of "?f m p"]] by blast
    have "map_of (?f m p) i \<noteq> None \<longleftrightarrow> map_of m i \<noteq> None \<or> i = p_ID p" by (simp add: map_of_update)
    then have "map_of (foldl ?f (?f m p) ps) i \<noteq> None \<longleftrightarrow> map_of m i \<noteq> None \<or> i \<in> p_ID ` set (p # ps)"
      using conjunct1 [OF Cons [of "?f m p"]] by (simp only: list.set image_insert insert_iff) blast
    with r show ?case unfolding foldl_Cons by blast
  qed simp
  from this [of "[]"] show "map_of (showdown_results g ps) i \<noteq> None \<longleftrightarrow> i \<in> p_ID ` set ps"
    "\<forall>(i, r) \<in> set (showdown_results g ps). five_cards r"
    by (simp_all add: showdown_results_def)
qed

text \<open>Every pot can be paid out: one player is left, or each pot lists somebody still in the hand.\<close>

definition payable :: "GameState \<Rightarrow> bool" where
  "payable g \<longleftrightarrow> length (ActivePlayers g) = 1
     \<or> (\<forall>pot \<in> set (g_Pots g). \<exists>p \<in> set (g_Players g). live p \<and> p_ID p \<in> set (pot_Eligible pot))"

lemma determineWinners_spec:
  assumes ids: "distinct (map p_ID (g_Players g))"
    and pots: "\<forall>pot \<in> set (g_Pots g). 0 \<le> pot_Amount pot"
    and pay: "payable g" and win: "determineWinners g = (winners, g')"
  shows "g' = award g winners" "wf_gomap winners" "fst ` set winners \<subseteq> p_ID ` set (g_Players g)"
    "gosum winners = Total (g_Pots g)"
proof -
  have "g' = award g winners \<and> wf_gomap winners \<and> fst ` set winners \<subseteq> p_ID ` set (g_Players g)
      \<and> gosum winners = Total (g_Pots g)"
  proof (cases "length (ActivePlayers g) = 1")
    case True
    then have "ActivePlayers g ! 0 \<in> set (ActivePlayers g)" by simp
    then have "ActivePlayers g ! 0 \<in> set (g_Players g)" by (simp add: ActivePlayers_def)
    then show ?thesis
      using win True by (auto simp: determineWinners_def singleWinner_def Let_def wf_gomap_def gosum_def)
  next
    case False
    let ?r = "showdown_results g (ActivePlayers g)"
    let ?ws = "map (\<lambda>pot. bestHandsInPot Compare (pot_Eligible pot) ?r) (g_Pots g)"
    note results = showdown_results_spec [of g "ActivePlayers g"]
    have w: "winners = winnersToMap (g_Pots g) ?ws" "g' = award g winners"
      using win False by (auto simp: determineWinners_def showdown_def Let_def)
    have ne: "\<forall>ws \<in> set ?ws. ws \<noteq> []"
    proof
      fix ws assume "ws \<in> set ?ws"
      then obtain pot where pot: "pot \<in> set (g_Pots g)" "ws = bestHandsInPot Compare (pot_Eligible pot) ?r" by auto
      then obtain p where p: "p \<in> set (ActivePlayers g)" "p_ID p \<in> set (pot_Eligible pot)"
        using pay False by (auto simp: payable_def ActivePlayers_def)
      have "map_of ?r (p_ID p) \<noteq> None" unfolding results(1) using p(1) by (rule imageI)
      then show "ws \<noteq> []"
        unfolding pot(2) using evaluator.bestHandsInPot_nonempty [OF results(2) p(2)] by simp
    qed
    have sub: "set ws \<subseteq> p_ID ` set (g_Players g)" if "ws \<in> set ?ws" for ws
    proof
      fix i assume "i \<in> set ws"
      then have "map_of ?r i \<noteq> None"
        using that by (auto simp: evaluator.bestHandsInPot_top [OF results(2)] evaluator.top_def evaluator.contenders_def)
      then show "i \<in> p_ID ` set (g_Players g)" using results(1) by (auto simp: ActivePlayers_def)
    qed
    have len: "length ?ws = length (g_Pots g)" by simp
    note paid = winnersToMap_spec [OF len pots]
    have "fst ` set winners \<subseteq> p_ID ` set (g_Players g)" unfolding w(1) paid(2) using sub by blast
    then show ?thesis using w paid(1) paid(3) [OF ne] by simp
  qed
  then show "g' = award g winners" "wf_gomap winners" "fst ` set winners \<subseteq> p_ID ` set (g_Players g)"
    "gosum winners = Total (g_Pots g)" by auto
qed

lemma payable_cong:
  "\<lbrakk>g_Players g = g_Players h; map pot_Eligible (g_Pots g) = map pot_Eligible (g_Pots h)\<rbrakk>
    \<Longrightarrow> payable g = payable h"
proof -
  assume a: "g_Players g = g_Players h" "map pot_Eligible (g_Pots g) = map pot_Eligible (g_Pots h)"
  have *: "(\<forall>pot \<in> set pots. \<exists>p \<in> set ps. live p \<and> p_ID p \<in> set (pot_Eligible pot))
      \<longleftrightarrow> (\<forall>E \<in> set (map pot_Eligible pots). \<exists>p \<in> set ps. live p \<and> p_ID p \<in> set E)" for pots ps
    by simp
  show "payable g = payable h" using a unfolding payable_def ActivePlayers_def * by simp
qed

lemma save_state_cases:
  assumes "save_state d g w = (r, w')"
  shows "w_events w' = w_events w" "w_metrics w' = w_metrics w"
    "r = Ok u \<Longrightarrow> dp_Save d (w_db w) g = Ok (w_db w')"
  using assms by (auto simp: save_state_def split: outcome.splits option.splits)

lemma publish_cases:
  assumes "publish d e w = (r, w')"
  shows "w_db w' = w_db w" "w_metrics w' = w_metrics w"
    "r = Ok u \<Longrightarrow> w_events w' = w_events w @ [e]" "r \<noteq> Ok () \<Longrightarrow> w_events w' = w_events w"
  using assms by (auto simp: publish_def split: option.splits)

text \<open>What a hand needs to be settled without losing a chip.\<close>

definition settleable :: "'db Deps \<Rightarrow> GameState \<Rightarrow> bool" where
  "settleable d g \<longleftrightarrow> distinct (map p_ID (g_Players g))
     \<and> (\<forall>p \<in> set (g_Players g). 0 \<le> p_CurrentBet p)
     \<and> (\<forall>pot \<in> set (g_Pots g). 0 \<le> pot_Amount pot)
     \<and> payable (CollectBets (dp_iter d) g)
     \<and> Total (g_Pots g) + bets (g_Players g) \<le> 2 ^ 53"

definition sound_deps :: "'db Deps \<Rightarrow> bool" where
  "sound_deps d \<longleftrightarrow> permuting (dp_iter d) \<and> float64_rounding (dp_fl d) \<and> wf_rake (dp_rakeConfig d)"

text \<open>The state of a finished hand and the event that reports it, without the effects.\<close>

definition settled :: "'db Deps \<Rightarrow> GameState \<Rightarrow> int \<times> (PlayerID, int) gomap \<times> GameState" where
  "settled d g =
     (let c = CollectBets (dp_iter d) g;
          rake = CalculateRake (dp_fl d) (g_Pots c) (g_Street c) (dp_rakeConfig d);
          (winners, g') = determineWinners
            (c\<lparr>g_Pots := ApplyRake (g_Pots c) rake, g_EventSequence := g_EventSequence c + 1\<rparr>)
      in (rake, winners, g'\<lparr>g_Street := StreetShowdown\<rparr>))"

lemma settled_spec:
  assumes d: "sound_deps d" and s: "settleable d g" and r: "settled d g = (rake, winners, g')"
  shows "0 \<le> rake" "wf_gomap winners" "fst ` set winners \<subseteq> p_ID ` set (g_Players g)"
    "gosum winners = Total (g_Pots g) + bets (g_Players g) - rake"
    "gosum winners = Total (g_Pots g')"
    "g_Players g' = map (\<lambda>p. p\<lparr>p_CurrentBet := 0, p_Stack := p_Stack p + get0 winners (p_ID p)\<rparr>) (g_Players g)"
    "stacks (g_Players g') + rake = chips_in_play g"
    "g_Street g' = StreetShowdown" "g_ID g' = g_ID g" "g_TableID g' = g_TableID g"
    "g_Button g' = g_Button g" "g_BettingConfig g' = g_BettingConfig g" "g_Board g' = g_Board g"
    "g_Deck g' = g_Deck g" "g_EventSequence g' = g_EventSequence g + 1"
proof -
  let ?c = "CollectBets (dp_iter d) g"
  let ?k = "?c\<lparr>g_Pots := ApplyRake (g_Pots ?c) rake, g_EventSequence := g_EventSequence ?c + 1\<rparr>"
  have ids: "distinct (map p_ID (g_Players g))" and bet0: "\<forall>p \<in> set (g_Players g). 0 \<le> p_CurrentBet p"
    and pot0: "\<forall>pot \<in> set (g_Pots g). 0 \<le> pot_Amount pot" and pay: "payable ?c"
    and big: "Total (g_Pots g) + bets (g_Players g) \<le> 2 ^ 53"
    using s by (auto simp: settleable_def)
  have rake: "rake = CalculateRake (dp_fl d) (g_Pots ?c) (g_Street ?c) (dp_rakeConfig d)"
    and win: "\<exists>h. determineWinners ?k = (winners, h) \<and> g' = h\<lparr>g_Street := StreetShowdown\<rparr>"
    using r by (auto simp: settled_def Let_def split: prod.splits)
  have tot: "Total (g_Pots ?c) = Total (g_Pots g) + bets (g_Players g)"
    by (rule Total_CollectBets [OF ids bet0])
  have c0: "\<forall>pot \<in> set (g_Pots ?c). 0 \<le> pot_Amount pot"
    unfolding CollectBets_pots
    by (rule amounts_mergePots) (use pot0 Calculate_amounts_pos [OF wf_contributions [OF ids]] in \<open>auto intro: less_imp_le\<close>)
  have t0: "0 \<le> Total (g_Pots ?c)" using c0 by (rule Total_nonneg)
  have fl: "float64_rounding (dp_fl d)" "wf_rake (dp_rakeConfig d)" using d by (simp_all add: sound_deps_def)
  have r0: "0 \<le> rake" and r1: "rake \<le> Total (g_Pots ?c)"
    using CalculateRake_bounds(1,2) [OF fl t0] big tot unfolding rake by auto
  note raked = ApplyRake_spec [OF c0 r0 r1]
  obtain h where h: "determineWinners ?k = (winners, h)" "g' = h\<lparr>g_Street := StreetShowdown\<rparr>" using win by blast
  have payk: "payable ?k" using pay payable_cong [of ?k ?c] by simp
  have idk: "distinct (map p_ID (g_Players ?k))" using ids by simp
  have potk: "\<forall>pot \<in> set (g_Pots ?k). 0 \<le> pot_Amount pot" using raked(2) by simp
  note w = determineWinners_spec [OF idk potk payk h(1)]
  have keys: "fst ` set winners \<subseteq> p_ID ` set (g_Players ?k)" using w(3) .
  have idset: "p_ID ` set (g_Players ?c) = p_ID ` set (g_Players g)"
    by (metis CollectBets_frame(13) set_map)
  have "stacks (g_Players h) = stacks (g_Players g) + gosum winners"
    using stacks_award [OF idk w(2) keys] w(1) by simp
  then show "stacks (g_Players g') + rake = chips_in_play g"
    using h(2) w(4) raked(1) tot by (simp add: chips_in_play_def)
  show "g_Players g' = map (\<lambda>p. p\<lparr>p_CurrentBet := 0, p_Stack := p_Stack p + get0 winners (p_ID p)\<rparr>) (g_Players g)"
    using h(2) w(1) bet0 by (auto simp: award_players CollectBets_players)
  show "gosum winners = Total (g_Pots g) + bets (g_Players g) - rake" using w(4) raked(1) tot by simp
  show "gosum winners = Total (g_Pots g')" using w h(2) by simp
  show "fst ` set winners \<subseteq> p_ID ` set (g_Players g)" using keys idset by simp
  show "0 \<le> rake" "wf_gomap winners" using r0 w(2) by simp_all
  show "g_Street g' = StreetShowdown" "g_ID g' = g_ID g" "g_TableID g' = g_TableID g"
    "g_Button g' = g_Button g" "g_BettingConfig g' = g_BettingConfig g" "g_Board g' = g_Board g"
    "g_Deck g' = g_Deck g" "g_EventSequence g' = g_EventSequence g + 1"
    using h(2) w(1) by simp_all
qed

text \<open>The event that reports a settled hand.\<close>

definition ended_event :: "'db Deps \<Rightarrow> GameState \<Rightarrow> HandEndedEvent" where
  "ended_event d g =
     (let (rake, winners, g') = settled d g; c = CollectBets (dp_iter d) g
      in \<lparr>he_EventID = event_id (g_ID g') (g_EventSequence g'), he_EventVersion = 1,
          he_HandID = g_ID g', he_TableID = g_TableID g', he_SequenceNumber = g_EventSequence g + 1,
          he_PlayerCount = int (length (g_Players g')), he_Button = int (g_Button g'),
          he_SmallBlind = bc_SmallBlind (g_BettingConfig g'), he_BigBlind = bc_BigBlind (g_BettingConfig g'),
          he_Showdown = (g_Street g = StreetShowdown), he_GrossPot = Total (g_Pots c),
          he_NetPot = Total (ApplyRake (g_Pots c) rake), he_Winners = winners, he_Rake = rake,
          he_Board = g_Board g', he_OccurredAt = dp_Now d\<rparr>)"

lemma determineWinners_award: "\<exists>w. determineWinners g = (w, award g w)"
  by (simp add: determineWinners_def singleWinner_def showdown_def Let_def)

lemma settled_award:
  assumes "settled d g = (rake, winners, g')"
  shows "g' = (award ((CollectBets (dp_iter d) g)\<lparr>g_Pots := ApplyRake (g_Pots (CollectBets (dp_iter d) g)) rake,
    g_EventSequence := g_EventSequence g + 1\<rparr>) winners)\<lparr>g_Street := StreetShowdown\<rparr>"
proof -
  let ?c = "CollectBets (dp_iter d) g"
  let ?k = "?c\<lparr>g_Pots := ApplyRake (g_Pots ?c) (CalculateRake (dp_fl d) (g_Pots ?c) (g_Street ?c)
    (dp_rakeConfig d)), g_EventSequence := g_EventSequence ?c + 1\<rparr>"
  obtain ws where "determineWinners ?k = (ws, award ?k ws)" using determineWinners_award by blast
  then show ?thesis using assms by (auto simp: settled_def Let_def)
qed

lemma settled_frame:
  assumes "settled d g = (rake, winners, g')"
  shows "g_Street g' = StreetShowdown" "g_ID g' = g_ID g" "g_TableID g' = g_TableID g"
    "g_Button g' = g_Button g" "g_BettingConfig g' = g_BettingConfig g" "g_Board g' = g_Board g"
    "g_Deck g' = g_Deck g" "g_EventSequence g' = g_EventSequence g + 1"
    "g_ActivePlayer g' = g_ActivePlayer g" "map p_ID (g_Players g') = map p_ID (g_Players g)"
    "map p_HoleCards (g_Players g') = map p_HoleCards (g_Players g)"
    "g_Pots g' = ApplyRake (g_Pots (CollectBets (dp_iter d) g)) rake"
  unfolding settled_award [OF assms] by simp_all

lemma FinishHand_Execute_settled:
  "FinishHand_Execute d g w =
    (let (rake, winners, g') = settled d g;
         c = CollectBets (dp_iter d) g;
         w1 = w\<lparr>w_metrics := count_finish (g_Street g = StreetShowdown)
           (Total (ApplyRake (g_Pots c) rake)) rake (w_metrics w)\<rparr>;
         (saved, w2) = save_state d g' w1
     in case saved of
          Err e \<Rightarrow> (Err (Wrapped ''finish hand: save state'' e), w2)
        | Panic m \<Rightarrow> (Panic m, w2)
        | Ok _ \<Rightarrow>
            (let (published, w3) = publish d (EvHandEnded (ended_event d g)) w2
             in case published of
                 Ok _ \<Rightarrow> (Ok g', w3)
               | Err e \<Rightarrow> (Err (Wrapped ''finish hand: publish event'' e), w3)
               | Panic m \<Rightarrow> (Panic m, w3)))"
proof -
  let ?c = "CollectBets (dp_iter d) g"
  let ?rake = "CalculateRake (dp_fl d) (g_Pots ?c) (g_Street ?c) (dp_rakeConfig d)"
  obtain ws where ws: "determineWinners (?c\<lparr>g_Pots := ApplyRake (g_Pots ?c) ?rake,
      g_EventSequence := g_EventSequence ?c + 1\<rparr>) = (ws, award (?c\<lparr>g_Pots := ApplyRake (g_Pots ?c) ?rake,
      g_EventSequence := g_EventSequence ?c + 1\<rparr>) ws)"
    using determineWinners_award by blast
  show ?thesis
    using ws
    by (simp add: FinishHand_Execute_def settled_def ended_event_def Let_def AdvanceEventSequence_def
        split: prod.split outcome.split)
qed

lemma FinishHand_Execute_Ok:
  assumes "FinishHand_Execute d g w = (Ok g', w')"
  shows "snd (snd (settled d g)) = g'" "w_events w' = w_events w @ [EvHandEnded (ended_event d g)]"
    "dp_Save d (w_db w) g' = Ok (w_db w')"
proof -
  obtain rake ws g1 where s: "settled d g = (rake, ws, g1)" by (metis prod_cases3)
  show "snd (snd (settled d g)) = g'" "w_events w' = w_events w @ [EvHandEnded (ended_event d g)]"
    "dp_Save d (w_db w) g' = Ok (w_db w')"
    using assms unfolding FinishHand_Execute_settled s
    by (auto simp: Let_def save_state_def publish_def split: prod.splits outcome.splits option.splits)
qed

lemma FinishHand_Execute_spec:
  assumes "sound_deps d" "settleable d g" and run: "FinishHand_Execute d g w = (Ok g', w')"
  shows "\<exists>e. w_events w' = w_events w @ [EvHandEnded e]
    \<and> stacks (g_Players g') + he_Rake e = chips_in_play g \<and> 0 \<le> he_Rake e
    \<and> g_Players g' = map (\<lambda>p. p\<lparr>p_CurrentBet := 0, p_Stack := p_Stack p + get0 (he_Winners e) (p_ID p)\<rparr>)
        (g_Players g)
    \<and> gosum (he_Winners e) = he_NetPot e \<and> he_NetPot e = he_GrossPot e - he_Rake e
    \<and> he_SequenceNumber e = g_EventSequence g + 1
    \<and> g_Street g' = StreetShowdown \<and> dp_Save d (w_db w) g' = Ok (w_db w')"
proof -
  obtain rake ws g1 where s: "settled d g = (rake, ws, g1)" by (metis prod_cases3)
  note ok = FinishHand_Execute_Ok [OF run]
  have g1: "g1 = g'" using ok(1) s by simp
  note spec = settled_spec [OF assms(1,2) s]
  have "Total (g_Pots g1) = Total (ApplyRake (g_Pots (CollectBets (dp_iter d) g)) rake)"
    by (simp add: settled_frame(12) [OF s])
  moreover have "Total (g_Pots (CollectBets (dp_iter d) g)) = Total (g_Pots g) + bets (g_Players g)"
    using assms(2) by (intro Total_CollectBets) (auto simp: settleable_def)
  ultimately show ?thesis
    using ok spec g1 by (intro exI [of _ "ended_event d g"]) (simp add: ended_event_def s Let_def)
qed


lemma FinishHand_Execute_total:
  assumes "settled d g = (rake, winners, g')" "dp_Save d (w_db w) g' = Ok db" "dp_answer_lost d g' = None"
    "\<And>log. dp_publish_err d log (EvHandEnded (ended_event d g)) = None"
  shows "\<exists>w'. FinishHand_Execute d g w = (Ok g', w')"
  using assms by (simp add: FinishHand_Execute_settled save_state_def publish_def Let_def)

text \<open>A small table for concrete instances: an in-memory repository, a publisher that never fails.\<close>

definition mem_deps :: "(HandID \<Rightarrow> GameState option) Deps" where
  "mem_deps =
     \<lparr>dp_FindByID = (\<lambda>db i. case db i of Some g \<Rightarrow> Ok g | None \<Rightarrow> Err ErrGameNotFound),
      dp_Save = (\<lambda>db g. Ok (db(g_ID g \<mapsto> g))),
      dp_answer_lost = (\<lambda>g. None), dp_publish_err = (\<lambda>log e. None), dp_shuffle = (\<lambda>cs. Ok cs),
      dp_rakeConfig = \<lparr>rc_Percent = 1/20, rc_Cap = 3, rc_NoFlopNoDrop = True\<rparr>,
      dp_iter = (\<lambda>xs. xs), dp_fl = (\<lambda>x. x), dp_Now = 0, dp_UnixNano = 7\<rparr>"

definition mem_world :: "(HandID \<Rightarrow> GameState option) World" where
  "mem_world =
     \<lparr>w_db = (\<lambda>i. None), w_events = [],
      w_metrics = \<lparr>m_HandsStarted = 0, m_HandsEnded = 0, m_ActiveGames = 0, m_ActionsTotal = [],
        m_ShowdownsTotal = 0, m_PotSize = [], m_RakeCollected = [], m_PlayersPerHand = []\<rparr>\<rparr>"

definition ex_player :: "PlayerID \<Rightarrow> int \<Rightarrow> int \<Rightarrow> PlayerStatus \<Rightarrow> Player" where
  "ex_player i stack bet status =
     \<lparr>p_ID = i, p_Stack = stack, p_HoleCards = (NewCard Ace 0, NewCard King 0),
      p_Status = status, p_CurrentBet = bet, p_Position = 0\<rparr>"

definition ex_hand :: "Player list \<Rightarrow> Pot list \<Rightarrow> Street \<Rightarrow> int \<Rightarrow> GameState" where
  "ex_hand players pots street bet =
     \<lparr>g_ID = ''h'', g_TableID = ''t'', g_Players = players, g_Board = [], g_Pots = pots,
      g_Street = street, g_CurrentBet = bet, g_ActivePlayer = 0, g_Button = 0, g_EventSequence = 1,
      g_BettingConfig = \<lparr>bc_Structure = BettingFixedLimit, bc_SmallBlind = 10, bc_BigBlind = 20,
        bc_SmallBet = 20, bc_BigBet = 40, bc_MaxRaisesPerStreet = 4\<rparr>,
      g_RaisesThisStreet = 0, g_Deck = Some (NewDeck (\<lambda>cs. Ok cs))\<rparr>"

lemma sound_mem_deps [simp]: "sound_deps mem_deps"
  by (simp add: sound_deps_def mem_deps_def wf_rake_def)

lemma mem_deps_simps [simp]:
  "dp_iter mem_deps = (\<lambda>xs. xs)" "dp_Save mem_deps db g = Ok (db(g_ID g \<mapsto> g))"
  "dp_answer_lost mem_deps g = None" "dp_publish_err mem_deps evs e = None"
  by (simp_all add: mem_deps_def)


section \<open>Who wins a pot\<close>

lemma showdown_results_lookup:
  assumes "distinct (map p_ID ps)" "p \<in> set ps"
  shows "map_of (showdown_results g ps) (p_ID p) = Some (Best (p_ID p) (p_HoleCards p) (g_Board g))"
proof -
  let ?f = "\<lambda>results p. AList.update (p_ID p) (Best (p_ID p) (p_HoleCards p) (g_Board g)) results"
  have keep: "map_of (foldl ?f m qs) i = map_of m i" if "i \<notin> p_ID ` set qs" for m qs i
    using that by (induction qs arbitrary: m) auto
  have "map_of (foldl ?f m ps) (p_ID p) = Some (Best (p_ID p) (p_HoleCards p) (g_Board g))" for m
    using assms
  proof (induction ps arbitrary: m)
    case (Cons q qs)
    then show ?case by (cases "p = q") (auto simp: keep image_iff)
  qed simp
  then show ?thesis by (simp add: showdown_results_def)
qed

text \<open>
  C11: At showdown a pot goes to the best hands and to nobody else: of the players still in the
  hand, one is among the winners of a pot exactly if the pot lists him and no other listed
  player still in the hand holds a better hand.
\<close>

theorem showdown_winners_are_best:
  assumes ids: "distinct (map p_ID (g_Players g))" and p: "p \<in> set (ActivePlayers g)"
  shows "p_ID p \<in> set (bestHandsInPot Compare eligible (showdown_results g (ActivePlayers g)))
    \<longleftrightarrow> p_ID p \<in> set eligible
      \<and> (\<forall>q \<in> set (ActivePlayers g). p_ID q \<in> set eligible \<longrightarrow>
          0 \<le> Compare (Best (p_ID p) (p_HoleCards p) (g_Board g)) (Best (p_ID q) (p_HoleCards q) (g_Board g)))"
proof -
  let ?r = "showdown_results g (ActivePlayers g)"
  have d: "distinct (map p_ID (ActivePlayers g))"
    using ids by (simp add: ActivePlayers_def distinct_map_filter)
  note results = showdown_results_spec [of g "ActivePlayers g"]
  have lookup: "the (map_of ?r (p_ID q)) = Best (p_ID q) (p_HoleCards q) (g_Board g)"
    if "q \<in> set (ActivePlayers g)" for q
    using showdown_results_lookup [OF d that] by simp
  have "set (evaluator.contenders ?r eligible) = {p_ID q | q. q \<in> set (ActivePlayers g) \<and> p_ID q \<in> set eligible}"
    unfolding evaluator.contenders_def using results(1) by auto
  then show ?thesis
    unfolding evaluator.bestHandsInPot_top [OF results(2)] evaluator.top_def
    using p lookup by (auto 4 4)
qed

theorem showdown_winners_are_best_witness:
  defines "g \<equiv> ex_hand [ex_player ''a'' 60 0 PlayerStatusActive, ex_player ''b'' 80 0 PlayerStatusAllIn]
    [] StreetPreflop 0"
  shows "''b'' \<in> set (bestHandsInPot Compare [''a'', ''b''] (showdown_results g (ActivePlayers g)))"
  using showdown_winners_are_best [of g "ex_player ''b'' 80 0 PlayerStatusAllIn" "[''a'', ''b'']"]
  by (simp add: g_def ex_hand_def ex_player_def ActivePlayers_def IsActive_def IsAllIn_def
      Best_def combinations_def Compare_def)

end
