(* ===== verification/StartHand.thy ===== *)
theory StartHand
  imports FinishHand
begin

text \<open>
  Starting a hand (\<open>application/start_hand.go\<close>): validation of the input, the shuffled deck, the
  hole cards, the blinds and the first player to act. The Go code mutates the players it is
  given; here the updated players are returned.
\<close>

section \<open>The use case\<close>

record StartHandInput =
  sh_TableID :: TableID
  sh_Players :: "Player list"
  sh_Button :: int
  sh_BettingConfig :: BettingConfig

definition validateStartHandInput :: "StartHandInput \<Rightarrow> (engine_err, unit) outcome" where
  "validateStartHandInput input =
     (let c = sh_BettingConfig input
      in if length (sh_Players input) < 2 then Err ErrNotEnoughPlayers
      else if bc_Structure c \<noteq> BettingFixedLimit then Err (ErrText ''unsupported betting structure'')
      else if bc_SmallBlind c \<le> 0 \<or> bc_BigBlind c \<le> 0 then Err (ErrText ''blinds must be positive'')
      else if bc_SmallBet c \<le> 0 \<or> bc_BigBet c \<le> 0 then Err (ErrText ''bet sizes must be positive'')
      else if bc_BigBlind c \<noteq> bc_SmallBlind c * 2
        then Err (ErrText ''big blind must be twice the small blind'')
      else if bc_SmallBet c < bc_BigBlind c
        then Err (ErrText ''small bet must be greater than or equal to big blind'')
      else if bc_BigBet c < bc_SmallBet c
        then Err (ErrText ''big bet must be greater than or equal to small bet'')
      else if bc_MaxRaisesPerStreet c \<le> 0
        then Err (ErrText ''max raises per street must be positive'')
      else if sh_Button input < 0 \<or> sh_Button input \<ge> int (length (sh_Players input))
        then Err (ErrText ''invalid button position'')
      else Ok ())"

fun dealHoleCards :: "Deck \<Rightarrow> Player list \<Rightarrow> (engine_err, Deck \<times> Player list) outcome" where
  "dealHoleCards deck [] = Ok (deck, [])"
| "dealHoleCards deck (p # ps) =
     (case Deal deck 2 of
        Err e \<Rightarrow> Err (Wrapped ''deal hole cards'' e)
      | Panic m \<Rightarrow> Panic m
      | Ok (cards, deck) \<Rightarrow>
          bind_outcome (dealHoleCards deck ps) (\<lambda>(deck, ps).
            Ok (deck, p\<lparr>p_HoleCards := (cards ! 0, cards ! 1), p_Status := PlayerStatusActive,
                        p_CurrentBet := 0\<rparr> # ps)))"

definition blindIndexes :: "nat \<Rightarrow> nat \<Rightarrow> nat \<times> nat" where
  "blindIndexes button playersCount =
     (if playersCount = 2 then (button, (button + 1) mod playersCount)
      else ((button + 1) mod playersCount, (button + 2) mod playersCount))"

definition postBlinds ::
    "Player list \<Rightarrow> nat \<Rightarrow> nat \<Rightarrow> int \<Rightarrow> int \<Rightarrow> (engine_err, Player list) outcome" where
  "postBlinds players sbIndex bbIndex sb bb =
     (if sbIndex \<ge> length players then Panic ''index out of range''
      else let sbPlayer = players ! sbIndex
      in if p_Stack sbPlayer < sb then Err ErrInsufficientStack
      else let players = players[sbIndex := sbPlayer\<lparr>p_Stack := p_Stack sbPlayer - sb, p_CurrentBet := sb\<rparr>]
      in if bbIndex \<ge> length players then Panic ''index out of range''
      else let bbPlayer = players ! bbIndex
      in if p_Stack bbPlayer < bb then Err ErrInsufficientStack
      else Ok (players[bbIndex := bbPlayer\<lparr>p_Stack := p_Stack bbPlayer - bb, p_CurrentBet := bb\<rparr>]))"

definition nextActiveIndex :: "nat \<Rightarrow> Player list \<Rightarrow> nat" where
  "nextActiveIndex bbIndex players =
     (let n = length players
      in case find (\<lambda>i. CanAct (players ! ((bbIndex + i) mod n))) [1..<n + 1] of
          Some i \<Rightarrow> (bbIndex + i) mod n
        | None \<Rightarrow> bbIndex)"

definition count_start :: "int \<Rightarrow> Metrics \<Rightarrow> Metrics" where
  "count_start players m =
     m\<lparr>m_HandsStarted := m_HandsStarted m + 1,
       m_ActiveGames := m_ActiveGames m + 1,
       m_PlayersPerHand := m_PlayersPerHand m @ [players]\<rparr>"

definition StartHand_Execute ::
    "'db Deps \<Rightarrow> StartHandInput \<Rightarrow> 'db World \<Rightarrow> (engine_err, GameState) outcome \<times> 'db World" where
  "StartHand_Execute d input w =
     (let c = sh_BettingConfig input; occurredAt = dp_Now d;
          prepared =
            bind_outcome (validateStartHandInput input) (\<lambda>_.
            bind_outcome (Deck_Shuffle (NewDeck (dp_shuffle d))) (\<lambda>deck.
            bind_outcome (dealHoleCards deck (sh_Players input)) (\<lambda>(deck, players).
            let button = nat (sh_Button input);
                (sbIndex, bbIndex) = blindIndexes button (length players)
            in bind_outcome (postBlinds players sbIndex bbIndex (bc_SmallBlind c) (bc_BigBlind c)) (\<lambda>players.
            Ok \<lparr>g_ID = show_int (dp_UnixNano d),
                g_TableID = sh_TableID input,
                g_Players = players,
                g_Board = [],
                g_Pots = [],
                g_Street = StreetPreflop,
                g_CurrentBet = bc_BigBlind c,
                g_ActivePlayer = nextActiveIndex bbIndex players,
                g_Button = button,
                g_EventSequence = 1,
                g_BettingConfig = c,
                g_RaisesThisStreet = 0,
                g_Deck = Some deck\<rparr>))))
      in case prepared of
          Err e \<Rightarrow> (Err e, w)
        | Panic m \<Rightarrow> (Panic m, w)
        | Ok state \<Rightarrow>
            (let (saved, w) = save_state d state w
             in case saved of
                 Err e \<Rightarrow> (Err (Wrapped ''start hand: save state'' e), w)
               | Panic m \<Rightarrow> (Panic m, w)
               | Ok _ \<Rightarrow>
                   (let (published, w) = publish d (EvHandStarted
                          \<lparr>hs_EventID = event_id (g_ID state) (g_EventSequence state),
                           hs_EventVersion = 1,
                           hs_HandID = g_ID state,
                           hs_TableID = g_TableID state,
                           hs_SequenceNumber = g_EventSequence state,
                           hs_Players = map p_ID (g_Players state),
                           hs_PlayerCount = int (length (g_Players state)),
                           hs_Button = sh_Button input,
                           hs_BettingStructure = BettingStructure_EventValue (bc_Structure c),
                           hs_SmallBlind = bc_SmallBlind c,
                           hs_BigBlind = bc_BigBlind c,
                           hs_OccurredAt = occurredAt\<rparr>) w
                    in case published of
                        Err e \<Rightarrow> (Err (Wrapped ''start hand: publish event'' e), w)
                      | Panic m \<Rightarrow> (Panic m, w)
                      | Ok _ \<Rightarrow>
                          (Ok state, w\<lparr>w_metrics := count_start (int (length (g_Players state))) (w_metrics w)\<rparr>))))"

section \<open>Lemmas on the preparation of a hand\<close>

lemma validateStartHandInput_Ok:
  "validateStartHandInput input = Ok () \<longleftrightarrow>
    2 \<le> length (sh_Players input) \<and> bc_Structure (sh_BettingConfig input) = BettingFixedLimit
    \<and> 0 < bc_SmallBlind (sh_BettingConfig input)
    \<and> bc_BigBlind (sh_BettingConfig input) = 2 * bc_SmallBlind (sh_BettingConfig input)
    \<and> bc_BigBlind (sh_BettingConfig input) \<le> bc_SmallBet (sh_BettingConfig input)
    \<and> bc_SmallBet (sh_BettingConfig input) \<le> bc_BigBet (sh_BettingConfig input)
    \<and> 0 < bc_MaxRaisesPerStreet (sh_BettingConfig input)
    \<and> 0 \<le> sh_Button input \<and> sh_Button input < int (length (sh_Players input))"
  by (auto simp: validateStartHandInput_def Let_def)

definition hole_cards :: "Player list \<Rightarrow> Card list" where
  "hole_cards ps = concat (map (\<lambda>p. [fst (p_HoleCards p), snd (p_HoleCards p)]) ps)"

lemma hole_cards_cong: "map p_HoleCards ps = map p_HoleCards qs \<Longrightarrow> hole_cards ps = hole_cards qs"
proof -
  have "hole_cards rs = concat (map (\<lambda>h. [fst h, snd h]) (map p_HoleCards rs))" for rs
    by (simp add: hole_cards_def comp_def)
  then show "map p_HoleCards ps = map p_HoleCards qs \<Longrightarrow> hole_cards ps = hole_cards qs" by metis
qed

lemma dealHoleCards_Ok:
  assumes "dealHoleCards deck ps = Ok (deck', qs)"
  shows "d_cards deck = hole_cards qs @ d_cards deck'"
    and "map p_ID qs = map p_ID ps" "map p_Stack qs = map p_Stack ps"
    and "\<forall>q \<in> set qs. p_Status q = PlayerStatusActive \<and> p_CurrentBet q = 0"
proof -
  have "d_cards deck = hole_cards qs @ d_cards deck' \<and> map p_ID qs = map p_ID ps
    \<and> map p_Stack qs = map p_Stack ps \<and> (\<forall>q \<in> set qs. p_Status q = PlayerStatusActive \<and> p_CurrentBet q = 0)"
    using assms
  proof (induction deck ps arbitrary: qs rule: dealHoleCards.induct)
    case (1 deck)
    then show ?case by (simp add: hole_cards_def)
  next
    case (2 deck p ps)
    then obtain cards deck1 where deal: "Deal deck 2 = Ok (cards, deck1)"
      by (auto split: outcome.splits)
    then have cs: "cards = take 2 (d_cards deck)" "d_cards deck1 = drop 2 (d_cards deck)"
      "2 \<le> length (d_cards deck)" by (auto simp: Deal_def split: if_splits)
    then have two: "[cards ! 0, cards ! 1] @ d_cards deck1 = d_cards deck"
      by (cases "d_cards deck" rule: remdups_adj.cases) (auto simp: numeral_2_eq_2)
    from 2(2) deal obtain qs' where rest: "dealHoleCards deck1 ps = Ok (deck', qs')"
      and qs: "qs = p\<lparr>p_HoleCards := (cards ! 0, cards ! 1), p_Status := PlayerStatusActive, p_CurrentBet := 0\<rparr> # qs'"
      by auto
    from 2(1) [OF deal refl rest] show ?case
      using two qs by (auto simp: hole_cards_def)
  qed
  then show "d_cards deck = hole_cards qs @ d_cards deck'" "map p_ID qs = map p_ID ps"
    "map p_Stack qs = map p_Stack ps"
    "\<forall>q \<in> set qs. p_Status q = PlayerStatusActive \<and> p_CurrentBet q = 0" by auto
qed

lemma dealHoleCards_enough:
  "2 * length ps \<le> length (d_cards deck) \<Longrightarrow> \<exists>r. dealHoleCards deck ps = Ok r"
proof (induction ps arbitrary: deck)
  case (Cons p ps)
  have "Deal deck 2 = Ok (take 2 (d_cards deck), deck\<lparr>d_cards := drop 2 (d_cards deck)\<rparr>)"
    using Cons.prems by (auto simp: Deal_def)
  moreover have "2 * length ps \<le> length (d_cards (deck\<lparr>d_cards := drop 2 (d_cards deck)\<rparr>))"
    using Cons.prems by simp
  then obtain r where "dealHoleCards (deck\<lparr>d_cards := drop 2 (d_cards deck)\<rparr>) ps = Ok r"
    using Cons.IH by blast
  ultimately show ?case by (cases r) simp
qed simp

lemma blindIndexes_bounds:
  assumes "2 \<le> n" "b < n" "blindIndexes b n = (sb, bb)"
  shows "sb < n" "bb < n" "sb \<noteq> bb"
proof -
  show "sb < n" "bb < n" using assms by (auto simp: blindIndexes_def split: if_splits)
  show "sb \<noteq> bb"
  proof (cases "n = 2")
    case True
    then have "b = 0 \<or> b = 1" using assms(2) by auto
    then show ?thesis using assms True by (auto simp: blindIndexes_def)
  next
    case False
    have "(b + 1) mod n = (if b + 1 < n then b + 1 else 0)"
      "(b + 2) mod n = (if b + 2 < n then b + 2 else b + 2 - n)"
      using assms(1,2) False by (auto simp: mod_if not_less)
    then show ?thesis using assms False by (auto simp: blindIndexes_def split: if_splits)
  qed
qed

lemma postBlinds_Ok:
  assumes "postBlinds ps sbi bbi sb bb = Ok qs" "sbi \<noteq> bbi"
  shows "sbi < length ps" "bbi < length ps" "sb \<le> p_Stack (ps ! sbi)" "bb \<le> p_Stack (ps ! bbi)"
    "qs = ps[sbi := (ps ! sbi)\<lparr>p_Stack := p_Stack (ps ! sbi) - sb, p_CurrentBet := sb\<rparr>,
             bbi := (ps ! bbi)\<lparr>p_Stack := p_Stack (ps ! bbi) - bb, p_CurrentBet := bb\<rparr>]"
  using assms by (auto simp: postBlinds_def Let_def split: if_splits)

lemma postBlinds_frame:
  assumes "postBlinds ps sbi bbi sb bb = Ok qs" "sbi \<noteq> bbi"
  shows "map p_ID qs = map p_ID ps" "map p_HoleCards qs = map p_HoleCards ps"
    "map p_Status qs = map p_Status ps"
  using postBlinds_Ok [OF assms] assms(2)
  by (simp_all add: map_update)

lemma nextActiveIndex_Next:
  "nextActiveIndex bb (g_Players g) = NextActivePlayer (g\<lparr>g_ActivePlayer := bb\<rparr>)"
  by (simp add: nextActiveIndex_def NextActivePlayer_def Let_def split: option.split)

text \<open>The anatomy of a successful start.\<close>

lemma StartHand_Execute_Ok:
  assumes "StartHand_Execute d input w = (Ok g, w')"
  obtains deck deck' dealt sbi bbi where
    "validateStartHandInput input = Ok ()"
    "Deck_Shuffle (NewDeck (dp_shuffle d)) = Ok deck"
    "dealHoleCards deck (sh_Players input) = Ok (deck', dealt)"
    "blindIndexes (nat (sh_Button input)) (length dealt) = (sbi, bbi)"
    "postBlinds dealt sbi bbi (bc_SmallBlind (sh_BettingConfig input)) (bc_BigBlind (sh_BettingConfig input))
      = Ok (g_Players g)"
    "g = \<lparr>g_ID = show_int (dp_UnixNano d), g_TableID = sh_TableID input, g_Players = g_Players g,
      g_Board = [], g_Pots = [], g_Street = StreetPreflop,
      g_CurrentBet = bc_BigBlind (sh_BettingConfig input),
      g_ActivePlayer = nextActiveIndex bbi (g_Players g), g_Button = nat (sh_Button input),
      g_EventSequence = 1, g_BettingConfig = sh_BettingConfig input, g_RaisesThisStreet = 0,
      g_Deck = Some deck'\<rparr>"
    "dp_Save d (w_db w) g = Ok (w_db w')"
    "\<exists>e. w_events w' = w_events w @ [EvHandStarted e] \<and> hs_SequenceNumber e = 1 \<and> hs_HandID e = g_ID g"
proof -
  show thesis
    using assms unfolding StartHand_Execute_def Let_def
    by (auto split: outcome.splits prod.splits simp: save_state_def publish_def
        split: option.splits intro!: that)
qed

section \<open>The first state of a hand\<close>

text \<open>All the cards of a hand: in the players' hands, on the board and left in the deck.\<close>

definition cards_of :: "GameState \<Rightarrow> Card list" where
  "cards_of g = hole_cards (g_Players g) @ g_Board g @ (case g_Deck g of Some d \<Rightarrow> d_cards d | None \<Rightarrow> [])"

lemma stacks_cong: "map p_Stack ps = map p_Stack qs \<Longrightarrow> stacks ps = stacks qs"
  by (simp add: stacks_def)

lemma bets_cong: "map p_CurrentBet ps = map p_CurrentBet qs \<Longrightarrow> bets ps = bets qs"
  by (simp add: bets_def)

lemma StartHand_chips:
  assumes "StartHand_Execute d input w = (Ok g, w')"
  shows "stacks (g_Players g) + bets (g_Players g) = stacks (sh_Players input)"
    "bets (g_Players g) = bc_SmallBlind (sh_BettingConfig input) + bc_BigBlind (sh_BettingConfig input)"
    "map p_ID (g_Players g) = map p_ID (sh_Players input)"
proof -
  obtain deck deck' dealt sbi bbi where v: "validateStartHandInput input = Ok ()"
    and deal: "dealHoleCards deck (sh_Players input) = Ok (deck', dealt)"
    and bl: "blindIndexes (nat (sh_Button input)) (length dealt) = (sbi, bbi)"
    and post: "postBlinds dealt sbi bbi (bc_SmallBlind (sh_BettingConfig input))
      (bc_BigBlind (sh_BettingConfig input)) = Ok (g_Players g)"
    using assms by (rule StartHand_Execute_Ok) blast
  note dealt = dealHoleCards_Ok [OF deal]
  have len: "length dealt = length (sh_Players input)" using dealt(2) by (metis length_map)
  have "2 \<le> length dealt" "nat (sh_Button input) < length dealt"
    using v len by (auto simp: validateStartHandInput_Ok)
  then have neq: "sbi \<noteq> bbi" by (rule blindIndexes_bounds(3) [OF _ _ bl])
  note p = postBlinds_Ok [OF post neq]
  have b0: "bets dealt = 0" using dealt(4) by (intro bets_zero) auto
  have z: "p_CurrentBet (dealt ! sbi) = 0" "p_CurrentBet (dealt ! bbi) = 0" using dealt(4) p(1,2) by auto
  show "stacks (g_Players g) + bets (g_Players g) = stacks (sh_Players input)"
    "bets (g_Players g) = bc_SmallBlind (sh_BettingConfig input) + bc_BigBlind (sh_BettingConfig input)"
    using p neq b0 z stacks_cong [OF dealt(3)] by (simp_all add: p(5) stacks_update bets_update)
  show "map p_ID (g_Players g) = map p_ID (sh_Players input)"
    using postBlinds_frame(1) [OF post neq] dealt(2) by simp
qed

lemma StartHand_cards:
  assumes run: "StartHand_Execute d input w = (Ok g, w')"
    and sh: "\<And>cs cs'. dp_shuffle d cs = Ok cs' \<Longrightarrow> mset cs' = mset cs"
  shows "mset (cards_of g) = mset (d_cards (NewDeck s))"
proof -
  obtain deck deck' dealt sbi bbi where v: "validateStartHandInput input = Ok ()"
    and shuf: "Deck_Shuffle (NewDeck (dp_shuffle d)) = Ok deck"
    and deal: "dealHoleCards deck (sh_Players input) = Ok (deck', dealt)"
    and bl: "blindIndexes (nat (sh_Button input)) (length dealt) = (sbi, bbi)"
    and post: "postBlinds dealt sbi bbi (bc_SmallBlind (sh_BettingConfig input))
      (bc_BigBlind (sh_BettingConfig input)) = Ok (g_Players g)"
    and g: "g_Board g = []" "g_Deck g = Some deck'"
    by (rule StartHand_Execute_Ok [OF run]) (metis GameState.select_convs)
  note dealt = dealHoleCards_Ok [OF deal]
  have "length dealt = length (sh_Players input)" using dealt(2) by (metis length_map)
  then have "2 \<le> length dealt" "nat (sh_Button input) < length dealt"
    using v by (auto simp: validateStartHandInput_Ok)
  then have neq: "sbi \<noteq> bbi" by (rule blindIndexes_bounds(3) [OF _ _ bl])
  have "cards_of g = d_cards deck"
    using dealt(1) g hole_cards_cong [OF postBlinds_frame(2) [OF post neq]] by (simp add: cards_of_def)
  moreover have "mset (d_cards deck) = mset (d_cards (NewDeck (dp_shuffle d)))"
    using shuf sh by (auto simp: Deck_Shuffle_def split: option.splits)
  ultimately show ?thesis by (simp add: NewDeck_def)
qed

lemma in_others: "x \<in> set (others i ps) \<Longrightarrow> \<exists>k < length ps. k \<noteq> i \<and> x = ps ! k"
proof -
  assume "x \<in> set (others i ps)"
  then consider "x \<in> set (drop (Suc i) ps)" | "x \<in> set (take i ps)" by (auto simp: others_def)
  then show "\<exists>k < length ps. k \<noteq> i \<and> x = ps ! k"
  proof cases
    case 1
    then obtain j where j: "j < length ps - Suc i" "x = drop (Suc i) ps ! j" by (auto simp: in_set_conv_nth)
    then show ?thesis by (intro exI [of _ "Suc i + j"]) auto
  next
    case 2
    then obtain j where "j < i" "j < length ps" "x = ps ! j" by (auto simp: in_set_conv_nth)
    then show ?thesis by (intro exI [of _ j]) auto
  qed
qed

text \<open>Once the blinds are posted and everyone has chips behind, betting can begin.\<close>

lemma blinds_running:
  assumes ps: "\<forall>q \<in> set (g_Players g). CanAct q \<and> wf_player (g_CurrentBet g) q"
    and bb: "bbi < length (g_Players g)" "p_CurrentBet (g_Players g ! bbi) = g_CurrentBet g"
    and rest: "\<forall>q \<in> set (others bbi (g_Players g)). p_CurrentBet q < g_CurrentBet g"
    and two: "2 \<le> length (g_Players g)" and ids: "distinct (map p_ID (g_Players g))"
    and g: "g_Pots g = []" "g_Street g = StreetPreflop" "g_ActivePlayer g = nextActiveIndex bbi (g_Players g)"
      "g_Button g < length (g_Players g)" "wf_config (g_BettingConfig g)" "g_RaisesThisStreet g = 0"
  shows "running g"
proof -
  let ?ps = "g_Players g"
  let ?b = "g\<lparr>g_ActivePlayer := bbi\<rparr>"
  have act: "g_ActivePlayer g = NextActivePlayer ?b" using g(3) by (simp add: nextActiveIndex_Next)
  have b: "g_ActivePlayer ?b < length (g_Players ?b)" using bb by simp
  have all: "filter CanAct xs = xs" if "set xs \<subseteq> set ?ps" for xs using that ps by (auto intro!: filter_True)
  have sub: "set (others bbi ?ps) \<subseteq> set ?ps" using set_others [OF bb(1)] by auto
  have "turn_queue g = turn_queue (?b\<lparr>g_ActivePlayer := NextActivePlayer ?b\<rparr>)"
    by (simp add: turn_queue_def act)
  also have "\<dots> = others bbi ?ps @ [?ps ! bbi]"
    using next_turn_queue [OF b] all [OF sub] all [of "[?ps ! bbi]"] bb(1) by simp
  finally have q: "turn_queue g = others bbi ?ps @ [?ps ! bbi]" .
  have ne: "others bbi ?ps \<noteq> []" using two bb(1) by (auto simp: others_def)
  then obtain r where r: "r \<in> set (others bbi ?ps)" using hd_in_set by blast
  have owe: "owes g x" if "x \<in> set (others bbi ?ps)" for x using that rest by (simp add: owes_def)
  have "sorted_wrt (\<lambda>p q. owes g q \<longrightarrow> owes g p) (others bbi ?ps)"
    unfolding sorted_wrt_iff_nth_less by (metis owe nth_mem order.strict_trans)
  then have sorted: "sorted_wrt (\<lambda>p q. owes g q \<longrightarrow> owes g p) (turn_queue g)"
    unfolding q using owe by (simp add: sorted_wrt_append)
  have "\<not> IsBettingRoundOver g" using owe [OF r] q r by (auto simp: over_iff_nobody_owes)
  moreover have "live (?ps ! bbi)" using ps bb(1) by (simp add: CanAct_IsActive)
  ultimately have "in_turn g" using sorted bb by (auto simp: in_turn_def)
  moreover have "wf_hand g"
    using ps ids g act NextActivePlayer_bound [OF b] by (auto simp: wf_hand_def)
  moreover have "2 \<le> length (turn_queue g)" using two bb(1) by (simp add: q length_others)
  ultimately show ?thesis using g(2) by (simp add: running_def less_Street_def)
qed

lemma StartHand_running:
  assumes run: "StartHand_Execute d input w = (Ok g, w')"
    and ids: "distinct (map p_ID (sh_Players input))"
    and deep: "\<forall>p \<in> set (sh_Players input). bc_BigBlind (sh_BettingConfig input) < p_Stack p"
  shows "running g"
proof -
  let ?c = "sh_BettingConfig input" and ?ps = "g_Players g"
  obtain deck deck' dealt sbi bbi where v: "validateStartHandInput input = Ok ()"
    and deal: "dealHoleCards deck (sh_Players input) = Ok (deck', dealt)"
    and bl: "blindIndexes (nat (sh_Button input)) (length dealt) = (sbi, bbi)"
    and post: "postBlinds dealt sbi bbi (bc_SmallBlind ?c) (bc_BigBlind ?c) = Ok ?ps"
    and g: "g_Pots g = []" "g_Street g = StreetPreflop" "g_CurrentBet g = bc_BigBlind ?c"
      "g_ActivePlayer g = nextActiveIndex bbi ?ps" "g_Button g = nat (sh_Button input)"
      "g_BettingConfig g = ?c" "g_RaisesThisStreet g = 0"
    by (rule StartHand_Execute_Ok [OF run]) (metis GameState.select_convs)
  note dealt = dealHoleCards_Ok [OF deal] and ok = v [unfolded validateStartHandInput_Ok]
  have len: "length dealt = length (sh_Players input)" using dealt(2) by (metis length_map)
  then have n: "2 \<le> length dealt" "nat (sh_Button input) < length dealt" using ok by auto
  note bi = blindIndexes_bounds [OF n bl]
  note p = postBlinds_Ok [OF post bi(3)]
  have lenp: "length ?ps = length dealt" by (simp add: p(5))
  have stack: "bc_BigBlind ?c < p_Stack (dealt ! k)" if "k < length dealt" for k
    using that deep dealt(3) len by (metis nth_map nth_mem)
  have fresh: "p_Status (dealt ! k) = PlayerStatusActive" "p_CurrentBet (dealt ! k) = 0" if "k < length dealt" for k
    using that dealt(4) by auto
  have blinds: "0 < bc_SmallBlind ?c" "bc_SmallBlind ?c < bc_BigBlind ?c" using ok by auto
  have player: "CanAct (?ps ! k) \<and> wf_player (bc_BigBlind ?c) (?ps ! k)" if "k < length dealt" for k
    using that bi stack [OF that] fresh [OF that] blinds
    by (auto simp: p(5) nth_list_update CanAct_def wf_player_def)
  have bet: "p_CurrentBet (?ps ! k) < bc_BigBlind ?c" if "k < length dealt" "k \<noteq> bbi" for k
    using that bi fresh [OF that(1)] blinds by (auto simp: p(5) nth_list_update)
  have "map p_ID ?ps = map p_ID (sh_Players input)"
    using postBlinds_frame(1) [OF post bi(3)] dealt(2) by simp
  then show ?thesis
    using player bet bi n ids ok lenp g
    by (intro blinds_running [of g bbi])
      (auto simp: in_set_conv_nth wf_config_def p(5) [THEN arg_cong [where f = "\<lambda>xs. xs ! bbi"]] dest!: in_others)
qed

text \<open>
  C4: A started hand is in order. If \<open>StartHand.Execute\<close> succeeds for players with distinct
  identifiers, each with more chips than the big blind, then the blinds are posted and the
  state satisfies the invariant of a hand in progress (so the turn order, the pots and the bets
  are consistent), the players' chips are all still in play, and one hand-started event with
  sequence number 1 is published.
\<close>

theorem StartHand_establishes_invariant:
  assumes "StartHand_Execute d input w = (Ok g, w')" "distinct (map p_ID (sh_Players input))"
    and "\<forall>p \<in> set (sh_Players input). bc_BigBlind (sh_BettingConfig input) < p_Stack p"
  shows "running g \<and> chips_in_play g = stacks (sh_Players input)
    \<and> bets (g_Players g) = bc_SmallBlind (sh_BettingConfig input) + bc_BigBlind (sh_BettingConfig input)
    \<and> (\<exists>e. w_events w' = w_events w @ [EvHandStarted e] \<and> hs_SequenceNumber e = 1 \<and> hs_HandID e = g_ID g)"
proof -
  have "g_Pots g = []" by (rule StartHand_Execute_Ok [OF assms(1)]) (metis GameState.select_convs(5))
  moreover have "\<exists>e. w_events w' = w_events w @ [EvHandStarted e] \<and> hs_SequenceNumber e = 1 \<and> hs_HandID e = g_ID g"
    by (rule StartHand_Execute_Ok [OF assms(1)])
  ultimately show ?thesis
    using StartHand_running [OF assms] StartHand_chips [OF assms(1)] by (simp add: chips_in_play_def)
qed

text \<open>When the start succeeds.\<close>

lemma StartHand_succeeds:
  assumes v: "validateStartHandInput input = Ok ()"
    and seats: "length (sh_Players input) \<le> 26"
    and shuffle: "dp_shuffle d (d_cards (NewDeck (dp_shuffle d))) = Ok cs" "length cs = 52"
    and deep: "\<forall>p \<in> set (sh_Players input). bc_BigBlind (sh_BettingConfig input) \<le> p_Stack p"
    and save: "\<And>g. \<exists>db. dp_Save d (w_db w) g = Ok db" "\<And>g. dp_answer_lost d g = None" and pub: "\<And>evs e. dp_publish_err d evs e = None"
  shows "\<exists>g w'. StartHand_Execute d input w = (Ok g, w')"
proof -
  let ?c = "sh_BettingConfig input"
  define deck where "deck = (NewDeck (dp_shuffle d))\<lparr>d_cards := cs\<rparr>"
  have sh: "Deck_Shuffle (NewDeck (dp_shuffle d)) = Ok deck"
    using shuffle(1) by (simp add: Deck_Shuffle_def deck_def NewDeck_def)
  have "2 * length (sh_Players input) \<le> length (d_cards deck)" using seats shuffle(2) by (simp add: deck_def)
  then obtain deck' dealt where deal: "dealHoleCards deck (sh_Players input) = Ok (deck', dealt)"
    using dealHoleCards_enough by (metis surj_pair)
  note dealt = dealHoleCards_Ok [OF deal] and ok = v [unfolded validateStartHandInput_Ok]
  have len: "length dealt = length (sh_Players input)" using dealt(2) by (metis length_map)
  then have n: "2 \<le> length dealt" "nat (sh_Button input) < length dealt" using ok by auto
  obtain sbi bbi where bl: "blindIndexes (nat (sh_Button input)) (length dealt) = (sbi, bbi)" by fastforce
  note bi = blindIndexes_bounds [OF n bl]
  have stack: "bc_BigBlind ?c \<le> p_Stack (dealt ! k)" if "k < length dealt" for k
    using that deep dealt(3) len by (metis nth_map nth_mem)
  have "\<exists>qs. postBlinds dealt sbi bbi (bc_SmallBlind ?c) (bc_BigBlind ?c) = Ok qs"
    using bi stack [OF bi(1)] stack [OF bi(2)] ok by (auto simp: postBlinds_def Let_def)
  then obtain qs where post: "postBlinds dealt sbi bbi (bc_SmallBlind ?c) (bc_BigBlind ?c) = Ok qs" by blast
  obtain saved where "dp_Save d (w_db w) \<lparr>g_ID = show_int (dp_UnixNano d), g_TableID = sh_TableID input,
      g_Players = qs, g_Board = [], g_Pots = [], g_Street = StreetPreflop, g_CurrentBet = bc_BigBlind ?c,
      g_ActivePlayer = nextActiveIndex bbi qs, g_Button = nat (sh_Button input), g_EventSequence = 1,
      g_BettingConfig = ?c, g_RaisesThisStreet = 0, g_Deck = Some deck'\<rparr> = Ok saved"
    using save(1) by blast
  then show ?thesis
    using v sh deal bl post pub save(2) by (simp add: StartHand_Execute_def Let_def save_state_def publish_def)
qed

definition ex_input :: StartHandInput where
  "ex_input =
     \<lparr>sh_TableID = ''t'',
      sh_Players = [ex_player ''a'' 100 0 PlayerStatusActive, ex_player ''b'' 200 0 PlayerStatusActive,
        ex_player ''c'' 90 0 PlayerStatusActive],
      sh_Button = 0, sh_BettingConfig = g_BettingConfig (ex_hand [] [] StreetPreflop 0)\<rparr>"

lemma ex_input_starts: "\<exists>g w'. StartHand_Execute mem_deps ex_input mem_world = (Ok g, w')"
  by (rule StartHand_succeeds [where cs = "d_cards (NewDeck (dp_shuffle mem_deps))"])
    (auto simp: validateStartHandInput_Ok ex_input_def ex_hand_def ex_player_def mem_deps_def length_NewDeck)

theorem StartHand_establishes_invariant_witness:
  "\<exists>g w'. StartHand_Execute mem_deps ex_input mem_world = (Ok g, w') \<and> running g \<and> chips_in_play g = 390"
proof -
  obtain g w' where run: "StartHand_Execute mem_deps ex_input mem_world = (Ok g, w')"
    using ex_input_starts by blast
  then show ?thesis
    using StartHand_establishes_invariant [OF run] by (simp add: ex_input_def ex_player_def ex_hand_def)
qed

end
