(* ===== verification/PlayHand.thy ===== *)
theory PlayHand
  imports StartHand
begin

text \<open>
  Playing a hand (\<open>application/apply_action.go\<close>): one accepted action, the advance to the next
  street and the settlement when the hand is over; then the hand as a sequence of actions.
\<close>

section \<open>The use case\<close>

record ApplyActionInput =
  ai_HandID :: HandID
  ai_Action :: Action

definition deal_to_board ::
    "string \<Rightarrow> int \<Rightarrow> Street \<Rightarrow> GameState \<Rightarrow> (engine_err, GameState) outcome" where
  "deal_to_board what n street state =
     (case g_Deck state of
        None \<Rightarrow> Panic ''nil deck''
      | Some deck \<Rightarrow>
          (case Deal deck n of
             Err e \<Rightarrow> Err (Wrapped what e)
           | Panic m \<Rightarrow> Panic m
           | Ok (cards, deck) \<Rightarrow>
               Ok (state\<lparr>g_Deck := Some deck, g_Board := g_Board state @ cards, g_Street := street\<rparr>)))"

definition advanceStreet ::
    "(PlayerID list \<Rightarrow> PlayerID list) \<Rightarrow> GameState \<Rightarrow> (engine_err, GameState) outcome" where
  "advanceStreet iter state =
     (let state = CollectBets iter state;
          state = state\<lparr>g_CurrentBet := 0, g_RaisesThisStreet := 0\<rparr>;
          state = state\<lparr>g_ActivePlayer := FirstActiveAfterButton state\<rparr>
      in case g_Street state of
          StreetPreflop \<Rightarrow> deal_to_board ''advance street: deal flop'' 3 StreetFlop state
        | StreetFlop \<Rightarrow> deal_to_board ''advance street: deal turn'' 1 StreetTurn state
        | StreetTurn \<Rightarrow> deal_to_board ''advance street: deal river'' 1 StreetRiver state
        | StreetRiver \<Rightarrow> Ok (state\<lparr>g_Street := StreetShowdown\<rparr>)
        | _ \<Rightarrow> Ok state)"

definition finish_after_action ::
    "'db Deps \<Rightarrow> GameState \<Rightarrow> 'db World \<Rightarrow> (engine_err, GameState) outcome \<times> 'db World" where
  "finish_after_action d state w =
     (let (r, w) = FinishHand_Execute d state w
      in (map_err (Wrapped ''apply action: finish hand'') r, w))"

definition save_after_action ::
    "'db Deps \<Rightarrow> GameState \<Rightarrow> 'db World \<Rightarrow> (engine_err, GameState) outcome \<times> 'db World" where
  "save_after_action d state w =
     (let (saved, w) = save_state d state w
      in case saved of
          Ok _ \<Rightarrow> (Ok state, w)
        | Err e \<Rightarrow> (Err (Wrapped ''apply action: save state'' e), w)
        | Panic m \<Rightarrow> (Panic m, w))"

text \<open>The part of \<open>Execute\<close> after the event is published: finish, advance the street or pass the turn.\<close>

definition continue_hand ::
    "'db Deps \<Rightarrow> GameState \<Rightarrow> 'db World \<Rightarrow> (engine_err, GameState) outcome \<times> 'db World" where
  "continue_hand d state w =
     (if length (PlayersWhoCanAct state) \<le> 1 then finish_after_action d state w
      else if IsBettingRoundOver state then
        (case advanceStreet (dp_iter d) state of
           Err e \<Rightarrow> (Err e, w)
         | Panic m \<Rightarrow> (Panic m, w)
         | Ok state \<Rightarrow>
             if g_Street state = StreetShowdown then finish_after_action d state w
             else save_after_action d state w)
      else save_after_action d (state\<lparr>g_ActivePlayer := NextActivePlayer state\<rparr>) w)"

definition acted_event :: "int \<Rightarrow> Action \<Rightarrow> nat \<Rightarrow> GameState \<Rightarrow> int \<Rightarrow> PlayerActedEvent" where
  "acted_event occurredAt action acting state sequenceNumber =
     \<lparr>pa_EventID = event_id (g_ID state) sequenceNumber,
      pa_EventVersion = 1,
      pa_HandID = g_ID state,
      pa_TableID = g_TableID state,
      pa_SequenceNumber = sequenceNumber,
      pa_PlayerID = a_PlayerID action,
      pa_Street = Street_EventValue (g_Street state),
      pa_PlayerPosition = p_Position (g_Players state ! acting),
      pa_Action = action,
      pa_CurrentBet = g_CurrentBet state,
      pa_PlayerCurrentBet = p_CurrentBet (g_Players state ! acting),
      pa_OccurredAt = occurredAt\<rparr>"

definition ApplyAction_Execute ::
    "'db Deps \<Rightarrow> ApplyActionInput \<Rightarrow> 'db World \<Rightarrow> (engine_err, GameState) outcome \<times> 'db World" where
  "ApplyAction_Execute d input w =
     (let action = ai_Action input;
          loaded =
            bind_outcome (map_err (Wrapped ''apply action: find game'') (dp_FindByID d (w_db w) (ai_HandID input)))
              (\<lambda>state. bind_outcome (map_err (Wrapped ''apply action: validate'') (ValidateAction state action))
              (\<lambda>_. case PlayerByID state (a_PlayerID action) of
                  None \<Rightarrow> Err (Wrapped ''apply action: player not found'' ErrPlayerNotFound)
                | Some acting \<Rightarrow> bind_outcome (ApplyAction state action) (\<lambda>state. Ok (acting, state))))
      in case loaded of
          Err e \<Rightarrow> (Err e, w)
        | Panic m \<Rightarrow> (Panic m, w)
        | Ok (acting, state) \<Rightarrow>
            (let (state, sequenceNumber) = AdvanceEventSequence state;
                 w = w\<lparr>w_metrics := (w_metrics w)
                   \<lparr>m_ActionsTotal := m_ActionsTotal (w_metrics w) @ [ActionType_String (a_Type action)]\<rparr>\<rparr>;
                 (published, w) =
                   publish d (EvPlayerActed (acted_event (dp_Now d) action acting state sequenceNumber)) w
             in case published of
                 Err e \<Rightarrow> (Err (Wrapped ''apply action: publish event'' e), w)
               | Panic m \<Rightarrow> (Panic m, w)
               | Ok _ \<Rightarrow> continue_hand d state w))"

section \<open>Lemmas on the next street\<close>

lemma FirstActiveAfterButton_bound:
  "g_Button g < length (g_Players g) \<Longrightarrow> FirstActiveAfterButton g < length (g_Players g)"
  by (auto simp: FirstActiveAfterButton_def Let_def split: option.splits intro!: mod_less_divisor simp del: upt_Suc)

definition next_street :: "Street \<Rightarrow> Street" where
  "next_street s = (case s of StreetPreflop \<Rightarrow> StreetFlop | StreetFlop \<Rightarrow> StreetTurn
     | StreetTurn \<Rightarrow> StreetRiver | StreetRiver \<Rightarrow> StreetShowdown | _ \<Rightarrow> s)"

lemma advanceStreet_Ok:
  assumes "advanceStreet iter g = Ok g'"
  shows "g_Players g' = g_Players (CollectBets iter g)" "g_Pots g' = g_Pots (CollectBets iter g)"
    "g_CurrentBet g' = 0" "g_RaisesThisStreet g' = 0" "g_Button g' = g_Button g"
    "g_BettingConfig g' = g_BettingConfig g" "g_ID g' = g_ID g" "g_EventSequence g' = g_EventSequence g"
    "g_TableID g' = g_TableID g"
    "g_ActivePlayer g' = FirstActiveAfterButton (CollectBets iter g)"
    "g_Street g' = next_street (g_Street g)"
    "cards_of g' = cards_of (CollectBets iter g)"
  using assms
  by (cases "g_Street g"; auto simp: advanceStreet_def deal_to_board_def Let_def next_street_def cards_of_def Deal_def
      FirstActiveAfterButton_def split: outcome.splits option.splits if_splits)+

lemma cards_of_CollectBets [simp]: "cards_of (CollectBets iter g) = cards_of g"
  by (simp add: cards_of_def hole_cards_cong [OF CollectBets_frame(14)])

lemma advanceStreet_total:
  assumes "g_Deck g = Some deck" "3 \<le> length (d_cards deck)"
  shows "\<exists>g'. advanceStreet iter g = Ok g'"
proof -
  have "\<exists>r. Deal deck n = Ok r" if "n \<in> {1, 3}" for n
    using that assms(2) by (auto simp: Deal_def)
  then obtain a b where "Deal deck 3 = Ok a" "Deal deck 1 = Ok b" by blast
  then show ?thesis
    using assms(1) by (cases a; cases b)
      (auto simp: advanceStreet_def deal_to_board_def Let_def split: Street.splits)
qed

lemma CanAct_CollectBets:
  "p \<in> set (g_Players (CollectBets iter g)) \<Longrightarrow>
    \<exists>q \<in> set (g_Players g). p_ID q = p_ID p \<and> (CanAct q \<longleftrightarrow> CanAct p) \<and> (live q \<longleftrightarrow> live p) \<and> p_Stack q = p_Stack p"
  by (auto simp: CollectBets_players CanAct_def IsActive_def IsAllIn_def)

lemma PlayersWhoCanAct_CollectBets:
  "length (PlayersWhoCanAct (CollectBets iter g)) = length (PlayersWhoCanAct g)"
proof -
  have "(\<lambda>p. CanAct (if 0 < p_CurrentBet p then p\<lparr>p_CurrentBet := 0\<rparr> else p)) = CanAct"
    by (auto simp: CanAct_def)
  then show ?thesis
    by (simp add: PlayersWhoCanAct_def CollectBets_players filter_map comp_def)
qed

section \<open>Pots stay winnable\<close>

text \<open>A pot made from this street's bets lists everyone who has matched the bet.\<close>

lemma new_pot_eligible:
  assumes "wf_hand g" "permuting iter" "p \<in> set (g_Players g)" "p_CurrentBet p = g_CurrentBet g"
    and pot: "pot \<in> set (Calculate iter (contributions_of (g_Players g)))"
  shows "p_ID p \<in> set (pot_Eligible pot)"
proof -
  let ?m = "contributions_of (g_Players g)"
  have ids: "distinct (map p_ID (g_Players g))" using assms(1) by (simp add: wf_hand_def)
  have m: "?m = map (\<lambda>p. (p_ID p, p_CurrentBet p)) (filter (\<lambda>p. 0 < p_CurrentBet p) (g_Players g))"
    by (rule contributions_distinct [OF ids])
  have "?m \<noteq> []" using pot by (auto simp: Calculate_def)
  then obtain q where "q \<in> set (g_Players g)" "0 < p_CurrentBet q"
    unfolding m by (auto simp: filter_empty_conv)
  then have "0 < g_CurrentBet g" using assms(1) by (fastforce simp: wf_hand_def wf_player_def)
  moreover have "\<forall>(j, a) \<in> set ?m. a \<le> g_CurrentBet g"
    using assms(1) by (auto simp: m wf_hand_def wf_player_def)
  moreover have "(p_ID p, g_CurrentBet g) \<in> set ?m"
    using assms(3,4) calculation(1) by (force simp: m)
  ultimately show ?thesis using Calculate_top_eligible [OF assms(2) _ _ _ pot] by blast
qed

lemma collected_pot:
  assumes "wf_hand g" "permuting iter" "pot \<in> set (g_Pots (CollectBets iter g))"
  shows "0 \<le> pot_Amount pot" "distinct (pot_Eligible pot)"
    "set (pot_Eligible pot) \<subseteq> p_ID ` set (g_Players g)"
    "(\<forall>p \<in> set (g_Players g). CanAct p \<longrightarrow> p_ID p \<in> set (pot_Eligible pot))
      \<or> (\<forall>p \<in> set (g_Players g). p_CurrentBet p = g_CurrentBet g \<longrightarrow> p_ID p \<in> set (pot_Eligible pot))"
proof -
  let ?new = "Calculate iter (contributions_of (g_Players g))"
  have ids: "distinct (map p_ID (g_Players g))" using assms(1) by (simp add: wf_hand_def)
  note wfc = wf_contributions [OF ids]
  have keys: "fst ` set (contributions_of (g_Players g)) \<subseteq> p_ID ` set (g_Players g)"
    by (auto simp: contributions_distinct [OF ids])
  have "\<forall>q \<in> set (g_Pots g) \<union> set ?new. 0 \<le> pot_Amount q"
    using assms(1) Calculate_amounts_pos [OF wfc] by (auto simp: wf_hand_def wf_pot_def intro: less_imp_le)
  then show "0 \<le> pot_Amount pot"
    using amounts_mergePots assms(3) unfolding CollectBets_pots by blast
  have "pot_Eligible pot \<in> pot_Eligible ` set (g_Pots g) \<union> pot_Eligible ` set ?new"
    using assms(3) eligible_mergePots unfolding CollectBets_pots by blast
  then consider q where "q \<in> set (g_Pots g)" "pot_Eligible pot = pot_Eligible q"
    | q where "q \<in> set ?new" "pot_Eligible pot = pot_Eligible q" by blast
  then have "distinct (pot_Eligible pot) \<and> set (pot_Eligible pot) \<subseteq> p_ID ` set (g_Players g)
    \<and> ((\<forall>p \<in> set (g_Players g). CanAct p \<longrightarrow> p_ID p \<in> set (pot_Eligible pot))
      \<or> (\<forall>p \<in> set (g_Players g). p_CurrentBet p = g_CurrentBet g \<longrightarrow> p_ID p \<in> set (pot_Eligible pot)))"
  proof cases
    case 1
    then show ?thesis using assms(1) by (auto simp: wf_hand_def wf_pot_def)
  next
    case 2
    then show ?thesis
      using Calculate_eligible [OF assms(2) wfc] keys new_pot_eligible [OF assms(1,2)] by fastforce
  qed
  then show "distinct (pot_Eligible pot)" "set (pot_Eligible pot) \<subseteq> p_ID ` set (g_Players g)"
    "(\<forall>p \<in> set (g_Players g). CanAct p \<longrightarrow> p_ID p \<in> set (pot_Eligible pot))
      \<or> (\<forall>p \<in> set (g_Players g). p_CurrentBet p = g_CurrentBet g \<longrightarrow> p_ID p \<in> set (pot_Eligible pot))"
    by blast+
qed

lemma payable_CollectBets:
  assumes "wf_hand g" "permuting iter" "\<exists>p \<in> set (g_Players g). CanAct p"
    "\<exists>p \<in> set (g_Players g). live p \<and> p_CurrentBet p = g_CurrentBet g"
  shows "payable (CollectBets iter g)"
proof -
  have "\<exists>p \<in> set (g_Players (CollectBets iter g)). live p \<and> p_ID p \<in> set (pot_Eligible pot)"
    if pot: "pot \<in> set (g_Pots (CollectBets iter g))" for pot
  proof -
    obtain q where q: "q \<in> set (g_Players g)" "live q" "p_ID q \<in> set (pot_Eligible pot)"
      using collected_pot(4) [OF assms(1,2) pot] assms(3,4) CanAct_IsActive by blast
    then have "(if 0 < p_CurrentBet q then q\<lparr>p_CurrentBet := 0\<rparr> else q) \<in> set (g_Players (CollectBets iter g))"
      by (simp add: CollectBets_players)
    then show ?thesis using q by (rule_tac bexI) (auto simp: IsActive_def IsAllIn_def)
  qed
  then show ?thesis by (simp add: payable_def)
qed

lemma settleable_hand:
  assumes "wf_hand g" "permuting (dp_iter d)" "\<exists>p \<in> set (g_Players g). CanAct p"
    "\<exists>p \<in> set (g_Players g). live p \<and> p_CurrentBet p = g_CurrentBet g" "chips_in_play g \<le> 2 ^ 53"
  shows "settleable d g"
proof -
  have "0 \<le> stacks (g_Players g)"
    unfolding stacks_def using assms(1) by (intro sum_list_map_nonneg) (auto simp: wf_hand_def wf_player_def)
  then have "Total (g_Pots g) + bets (g_Players g) \<le> 2 ^ 53" using assms(5) by (simp add: chips_in_play_def)
  then show ?thesis
    using assms payable_CollectBets [OF assms(1-4)] by (auto simp: settleable_def wf_hand_def wf_player_def wf_pot_def)
qed

lemma wf_hand_advanceStreet:
  assumes "wf_hand g" "permuting iter" "IsBettingRoundOver g" "advanceStreet iter g = Ok g'"
  shows "wf_hand g'"
proof -
  note adv = advanceStreet_Ok [OF assms(4)]
  have matched: "p_CurrentBet p = g_CurrentBet g" if "p \<in> set (g_Players g)" "CanAct p" for p
    using that assms(1,3) by (fastforce simp: IsBettingRoundOver_iff wf_hand_def wf_player_def)
  have idset: "p_ID ` set (g_Players (CollectBets iter g)) = p_ID ` set (g_Players g)"
    by (metis CollectBets_frame(13) set_map)
  have "wf_pot (g_Players g') pot" if pot: "pot \<in> set (g_Pots g')" for pot
  proof -
    have "pot \<in> set (g_Pots (CollectBets iter g))" using pot adv(2) by simp
    note c = collected_pot [OF assms(1,2) this]
    have "p_ID p \<in> set (pot_Eligible pot)" if p: "p \<in> set (g_Players g')" "CanAct p" for p
    proof -
      have "p \<in> set (g_Players (CollectBets iter g))" using p(1) adv(1) by simp
      from CanAct_CollectBets [OF this]
      obtain q where q: "q \<in> set (g_Players g)" "p_ID q = p_ID p" "CanAct q" using p(2) by blast
      show ?thesis using c(4) q(1,3) matched [OF q(1,3)] unfolding q(2) [symmetric] by blast
    qed
    then show ?thesis using c(1-3) idset unfolding wf_pot_def adv(1) by simp
  qed
  moreover have "wf_player 0 p" if p: "p \<in> set (g_Players g')" for p
  proof -
    obtain q where q: "q \<in> set (g_Players g)" "p = (if 0 < p_CurrentBet q then q\<lparr>p_CurrentBet := 0\<rparr> else q)"
      using p by (auto simp: adv(1) CollectBets_players)
    then have "wf_player (g_CurrentBet g) q" using assms(1) by (simp add: wf_hand_def)
    then show ?thesis using q(2) by (auto simp: wf_player_def IsActive_def)
  qed
  moreover have "FirstActiveAfterButton (CollectBets iter g) < length (g_Players g)"
    using FirstActiveAfterButton_bound [of "CollectBets iter g"] assms(1) by (simp add: wf_hand_def)
  ultimately show ?thesis
    using assms(1) adv by (simp add: wf_hand_def)
qed

lemma running_advanceStreet:
  assumes "wf_hand g" "permuting iter" "IsBettingRoundOver g" "2 \<le> length (PlayersWhoCanAct g)"
    "advanceStreet iter g = Ok g'"
  shows "\<exists>p \<in> set (g_Players g'). CanAct p \<and> live p \<and> p_CurrentBet p = 0"
    and "g_Street g' < StreetShowdown \<Longrightarrow> running g'"
proof -
  note adv = advanceStreet_Ok [OF assms(5)]
  have wf: "wf_hand g'" using wf_hand_advanceStreet [OF assms(1-3,5)] .
  have p0: "p_CurrentBet p = 0" if "p \<in> set (g_Players g')" for p
    using that wf adv(3) by (fastforce simp: wf_hand_def wf_player_def)
  have two: "2 \<le> length (PlayersWhoCanAct g')"
    using assms(4) PlayersWhoCanAct_CollectBets [of iter g] adv(1) by (simp add: PlayersWhoCanAct_def)
  then have "PlayersWhoCanAct g' \<noteq> []" by auto
  then obtain p where p: "p \<in> set (g_Players g')" "CanAct p"
    by (auto simp: PlayersWhoCanAct_def filter_empty_conv)
  then show "\<exists>p \<in> set (g_Players g'). CanAct p \<and> live p \<and> p_CurrentBet p = 0"
    using p0 CanAct_IsActive by blast
  have no: "\<not> owes g' q" if "q \<in> set (turn_queue g')" for q
    using that p0 adv(3) by (auto simp: set_turn_queue owes_def)
  have "sorted_wrt (\<lambda>p q. owes g' q \<longrightarrow> owes g' p) (turn_queue g')"
    unfolding sorted_wrt_iff_nth_less using no nth_mem by blast
  then have "in_turn g'"
    using p p0 adv(3) CanAct_IsActive by (auto simp: in_turn_def)
  then show "running g'" if "g_Street g' < StreetShowdown"
    using that wf two by (simp add: running_def length_turn_queue)
qed

section \<open>One accepted action\<close>

lemma ApplyAction_Execute_Ok:
  assumes "ApplyAction_Execute d input w = (Ok g', w')"
  obtains g g1 w1 e where
    "dp_FindByID d (w_db w) (ai_HandID input) = Ok g"
    "ValidateAction g (ai_Action input) = Ok ()" "ApplyAction g (ai_Action input) = Ok g1"
    "w_events w1 = w_events w @ [EvPlayerActed e]" "pa_SequenceNumber e = g_EventSequence g + 1"
    "pa_Action e = ai_Action input" "w_db w1 = w_db w"
    "continue_hand d (g1\<lparr>g_EventSequence := g_EventSequence g + 1\<rparr>) w1 = (Ok g', w')"
proof -
  let ?a = "ai_Action input"
  obtain g acting g1 where g: "dp_FindByID d (w_db w) (ai_HandID input) = Ok g"
    "ValidateAction g ?a = Ok ()" "PlayerByID g (a_PlayerID ?a) = Some acting" "ApplyAction g ?a = Ok g1"
    using assms unfolding ApplyAction_Execute_def Let_def
    by (auto split: outcome.splits option.splits)
  have seq: "g_EventSequence g1 = g_EventSequence g" using ApplyAction_frame(10) [OF g(4)] .
  let ?s = "g1\<lparr>g_EventSequence := g_EventSequence g + 1\<rparr>"
  let ?e = "acted_event (dp_Now d) ?a acting ?s (g_EventSequence g + 1)"
  let ?w = "w\<lparr>w_metrics := (w_metrics w)
    \<lparr>m_ActionsTotal := m_ActionsTotal (w_metrics w) @ [ActionType_String (a_Type ?a)]\<rparr>\<rparr>"
  obtain r w1 where pub: "publish d (EvPlayerActed ?e) ?w = (r, w1)" by fastforce
  have "r = Ok ()" "continue_hand d ?s w1 = (Ok g', w')"
    using assms g seq pub
    by (auto simp: ApplyAction_Execute_def Let_def AdvanceEventSequence_def split: outcome.splits)
  then show thesis
    using that [of g g1 w1 ?e] g publish_cases [OF pub] by (simp add: acted_event_def)
qed

lemma continue_hand_Ok:
  assumes "continue_hand d s w = (Ok g', w')"
  obtains
    (Finish) "length (PlayersWhoCanAct s) \<le> 1" "FinishHand_Execute d s w = (Ok g', w')"
  | (Showdown) s' where "2 \<le> length (PlayersWhoCanAct s)" "IsBettingRoundOver s"
      "advanceStreet (dp_iter d) s = Ok s'" "g_Street s' = StreetShowdown"
      "FinishHand_Execute d s' w = (Ok g', w')"
  | (Street) "2 \<le> length (PlayersWhoCanAct s)" "IsBettingRoundOver s"
      "advanceStreet (dp_iter d) s = Ok g'" "g_Street g' \<noteq> StreetShowdown"
      "dp_Save d (w_db w) g' = Ok (w_db w')" "w_events w' = w_events w"
  | (Turn) "2 \<le> length (PlayersWhoCanAct s)" "\<not> IsBettingRoundOver s"
      "g' = s\<lparr>g_ActivePlayer := NextActivePlayer s\<rparr>"
      "dp_Save d (w_db w) g' = Ok (w_db w')" "w_events w' = w_events w"
proof -
  have fin: "FinishHand_Execute d x w = (Ok g', w')" if "finish_after_action d x w = (Ok g', w')" for x
    using that by (auto simp: finish_after_action_def split: prod.splits)
  have sav: "g' = x \<and> dp_Save d (w_db w) g' = Ok (w_db w') \<and> w_events w' = w_events w"
    if "save_after_action d x w = (Ok g', w')" for x
    using that by (auto simp: save_after_action_def save_state_def split: prod.splits outcome.splits option.splits)
  show thesis
  proof (cases "length (PlayersWhoCanAct s) \<le> 1")
    case True
    then show thesis using assms Finish fin by (simp add: continue_hand_def)
  next
    case False
    then have two: "2 \<le> length (PlayersWhoCanAct s)" by simp
    show thesis
    proof (cases "IsBettingRoundOver s")
      case over: True
      obtain s' where s': "advanceStreet (dp_iter d) s = Ok s'"
        using assms False over by (auto simp: continue_hand_def split: outcome.splits)
      then show thesis
        using assms False over two fin [of s'] sav [of s'] Showdown Street
        by (cases "g_Street s' = StreetShowdown") (auto simp: continue_hand_def)
    next
      case turn: False
      then show thesis
        using assms False two sav [of "s\<lparr>g_ActivePlayer := NextActivePlayer s\<rparr>"] Turn
        by (auto simp: continue_hand_def)
    qed
  qed
qed

text \<open>How an accepted action leaves a hand: still in progress, or settled.\<close>

definition in_progress :: "GameState \<Rightarrow> GameState \<Rightarrow> bool" where
  "in_progress g g' \<longleftrightarrow> running g' \<and> chips_in_play g' = chips_in_play g \<and> g_Street g \<le> g_Street g'"

lemma next_street_le: "s \<le> next_street s"
  by (cases s) (auto simp: next_street_def less_eq_Street_def)

lemma chips_advanceStreet:
  assumes "wf_hand g" "advanceStreet iter g = Ok g'"
  shows "chips_in_play g' = chips_in_play g"
proof -
  note adv = advanceStreet_Ok [OF assms(2)]
  have ids: "distinct (map p_ID (g_Players g))" and b0: "\<forall>p \<in> set (g_Players g). 0 \<le> p_CurrentBet p"
    using assms(1) by (auto simp: wf_hand_def wf_player_def)
  then show ?thesis
    using Total_CollectBets [OF ids b0] bets_zero [OF CollectBets_bets [OF b0]] adv(1,2)
    by (simp add: chips_in_play_def)
qed

lemma continue_hand_spec:
  assumes run: "running g" and val: "ValidateAction g a = Ok ()" and app: "ApplyAction g a = Ok g1"
    and d: "sound_deps d" and big: "chips_in_play g \<le> 2 ^ 53"
    and cont: "continue_hand d (g1\<lparr>g_EventSequence := n\<rparr>) w = (Ok g', w')"
  shows "dp_Save d (w_db w) g' = Ok (w_db w')"
    and "in_progress g g' \<and> w_events w' = w_events w \<and> g_EventSequence g' = n
      \<or> g_Street g' = StreetShowdown \<and> g_EventSequence g' = n + 1
        \<and> (\<exists>e. w_events w' = w_events w @ [EvHandEnded e] \<and> he_SequenceNumber e = n + 1
          \<and> stacks (g_Players g') + he_Rake e = chips_in_play g)"
proof -
  let ?s = "g1\<lparr>g_EventSequence := n\<rparr>"
  have perm: "permuting (dp_iter d)" using d by (simp add: sound_deps_def)
  have wf0: "wf_hand g" "g_Street g < StreetShowdown" using run by (auto simp: running_def)
  have wf: "wf_hand ?s" using wf_hand_ApplyAction [OF val app wf0] by simp
  have chips: "chips_in_play ?s = chips_in_play g" using ApplyAction_chips [OF app] by simp
  have street: "g_Street ?s = g_Street g" using ApplyAction_frame(5) [OF app] by simp
  note live = live_matched_ApplyAction [OF run val app]
  note queue = turn_queue_ApplyAction [OF run val app]
  have "turn_queue g1 \<noteq> []" using queue(1) by auto
  then obtain p where "p \<in> set (turn_queue g1)" using hd_in_set by blast
  then have can: "\<exists>p \<in> set (g_Players ?s). CanAct p" by (auto simp: set_turn_queue)
  have fin: "dp_Save d (w_db w) g' = Ok (w_db w') \<and> g_Street g' = StreetShowdown \<and> g_EventSequence g' = n + 1
      \<and> (\<exists>e. w_events w' = w_events w @ [EvHandEnded e] \<and> he_SequenceNumber e = n + 1
        \<and> stacks (g_Players g') + he_Rake e = chips_in_play g)"
    if f: "FinishHand_Execute d t w = (Ok g', w')" and t: "settleable d t" "g_EventSequence t = n"
      "chips_in_play t = chips_in_play g" for t
  proof -
    obtain rake ws where "settled d t = (rake, ws, g')"
      using FinishHand_Execute_Ok(1) [OF f] by (metis prod.collapse)
    then have "g_EventSequence g' = n + 1" using settled_frame(8) t(2) by metis
    then show ?thesis using FinishHand_Execute_spec [OF d t(1) f] t by auto
  qed
  have "dp_Save d (w_db w) g' = Ok (w_db w') \<and>
      (in_progress g g' \<and> w_events w' = w_events w \<and> g_EventSequence g' = n
      \<or> g_Street g' = StreetShowdown \<and> g_EventSequence g' = n + 1
        \<and> (\<exists>e. w_events w' = w_events w @ [EvHandEnded e] \<and> he_SequenceNumber e = n + 1
          \<and> stacks (g_Players g') + he_Rake e = chips_in_play g))"
    using cont
  proof (cases rule: continue_hand_Ok)
    case Finish
    have "settleable d ?s" using settleable_hand [OF wf perm can] live chips big by simp
    then show ?thesis using fin [OF Finish(2)] chips by simp
  next
    case (Showdown s')
    note adv = advanceStreet_Ok [OF Showdown(3)]
    have wf': "wf_hand s'" by (rule wf_hand_advanceStreet [OF wf perm Showdown(2,3)])
    have c': "chips_in_play s' = chips_in_play g" using chips_advanceStreet [OF wf Showdown(3)] chips by simp
    have "settleable d s'"
      using settleable_hand [OF wf' perm] running_advanceStreet(1) [OF wf perm Showdown(2,1,3)] adv(3) c' big by auto
    then show ?thesis using fin [OF Showdown(5)] c' adv(8) by simp
  next
    case Street
    note adv = advanceStreet_Ok [OF Street(3)]
    have "g_Street g' < StreetShowdown"
      using Street(4) adv(11) wf0(2) street
      by (auto simp: next_street_def street_below_showdown)
    then have "running g'" by (rule running_advanceStreet(2) [OF wf perm Street(2,1,3)])
    then show ?thesis
      using Street adv chips_advanceStreet [OF wf Street(3)] chips street next_street_le [of "g_Street g"]
      by (simp add: in_progress_def)
  next
    case Turn
    have n: "NextActivePlayer ?s = NextActivePlayer g1" by (simp add: NextActivePlayer_def Let_def split: option.split)
    have "running (g1\<lparr>g_ActivePlayer := NextActivePlayer g1\<rparr>)"
      using queue(2) Turn(1,2) by (simp add: length_turn_queue PlayersWhoCanAct_def)
    moreover have "g' = (g1\<lparr>g_ActivePlayer := NextActivePlayer g1\<rparr>)\<lparr>g_EventSequence := n\<rparr>"
      using Turn(3) n by simp
    ultimately show ?thesis using Turn chips street by (simp add: in_progress_def)
  qed
  then show "dp_Save d (w_db w) g' = Ok (w_db w')"
    and "in_progress g g' \<and> w_events w' = w_events w \<and> g_EventSequence g' = n
      \<or> g_Street g' = StreetShowdown \<and> g_EventSequence g' = n + 1
        \<and> (\<exists>e. w_events w' = w_events w @ [EvHandEnded e] \<and> he_SequenceNumber e = n + 1
          \<and> stacks (g_Players g') + he_Rake e = chips_in_play g)" by auto
qed

lemma cards_of_ApplyAction: "ApplyAction g a = Ok g1 \<Longrightarrow> cards_of g1 = cards_of g"
proof -
  assume app: "ApplyAction g a = Ok g1"
  obtain p where "g_Players g1 = (g_Players g)[g_ActivePlayer g := p]"
    "p_HoleCards p = p_HoleCards (g_Players g ! g_ActivePlayer g)"
    using ApplyAction_frame(1) [OF app] by blast
  then have "map p_HoleCards (g_Players g1) = map p_HoleCards (g_Players g)"
    by (simp add: map_update)
  from hole_cards_cong [OF this] show ?thesis
    using ApplyAction_frame(3,4) [OF app] by (simp add: cards_of_def)
qed

lemma cards_of_continue_hand:
  assumes "continue_hand d s w = (Ok g', w')"
  shows "cards_of g' = cards_of s"
proof -
  have fin: "cards_of g' = cards_of t" if f: "FinishHand_Execute d t w = (Ok g', w')" for t
  proof -
    obtain rake ws where "settled d t = (rake, ws, g')"
      using FinishHand_Execute_Ok(1) [OF f] by (metis prod.collapse)
    note frame = settled_frame [OF this]
    from hole_cards_cong [OF frame(11)] show ?thesis using frame(6,7) by (simp add: cards_of_def)
  qed
  show ?thesis
    using assms
  proof (cases rule: continue_hand_Ok)
    case Finish
    then show ?thesis using fin by blast
  next
    case (Showdown s')
    then show ?thesis using fin [OF Showdown(5)] advanceStreet_Ok(12) [OF Showdown(3)] by simp
  next
    case Street
    then show ?thesis using advanceStreet_Ok(12) [OF Street(3)] by simp
  next
    case Turn
    then show ?thesis by (simp add: cards_of_def)
  qed
qed

section \<open>Every valid action is accepted\<close>

text \<open>The board matches the street and the deck can complete it.\<close>

fun board_size :: "Street \<Rightarrow> nat" where
  "board_size StreetPreflop = 0"
| "board_size StreetFlop = 3"
| "board_size StreetTurn = 4"
| "board_size s = 5"

definition deck_ok :: "GameState \<Rightarrow> bool" where
  "deck_ok g \<longleftrightarrow> (case g_Deck g of None \<Rightarrow> False
     | Some deck \<Rightarrow> length (g_Board g) = board_size (g_Street g) \<and> 5 \<le> length (g_Board g) + length (d_cards deck))"

lemma deck_ok_advanceStreet:
  assumes "deck_ok g" "g_Street g < StreetShowdown"
  shows "\<exists>g'. advanceStreet iter g = Ok g' \<and> deck_ok g'"
proof -
  obtain deck where deck: "g_Deck g = Some deck" "length (g_Board g) = board_size (g_Street g)"
    "5 \<le> length (g_Board g) + length (d_cards deck)"
    using assms(1) by (auto simp: deck_ok_def split: option.splits)
  then have "\<exists>g'. advanceStreet iter g = Ok g'"
    using assms(2)
    by (auto simp: advanceStreet_def deal_to_board_def Deal_def Let_def street_below_showdown)
  then obtain g' where adv: "advanceStreet iter g = Ok g'" by blast
  then have "deck_ok g'"
    using deck assms(2)
    by (auto simp: advanceStreet_def deal_to_board_def Deal_def Let_def street_below_showdown deck_ok_def
        split: outcome.splits if_splits)
  with adv show ?thesis by blast
qed

lemma deck_ok_frame [simp]:
  "deck_ok (g\<lparr>g_EventSequence := n\<rparr>) = deck_ok g" "deck_ok (g\<lparr>g_ActivePlayer := k\<rparr>) = deck_ok g"
  by (simp_all add: deck_ok_def split: option.split)

definition never_fails :: "'db Deps \<Rightarrow> bool" where
  "never_fails d \<longleftrightarrow> (\<forall>db g. dp_answer_lost d g = None \<and> (\<exists>db'. dp_Save d db g = Ok db')) \<and> (\<forall>evs e. dp_publish_err d evs e = None)"

lemma FinishHand_never_fails: "never_fails d \<Longrightarrow> \<exists>g' w'. FinishHand_Execute d g w = (Ok g', w')"
proof -
  assume nf: "never_fails d"
  obtain rake ws g' where s: "settled d g = (rake, ws, g')" by (metis prod_cases3)
  obtain db where "dp_Save d (w_db w) g' = Ok db" using nf unfolding never_fails_def by blast
  then show ?thesis using FinishHand_Execute_total [OF s] nf by (fastforce simp: never_fails_def)
qed

text \<open>The streets can still be dealt, or there is none left to deal.\<close>

definition dealable :: "GameState \<Rightarrow> bool" where
  "dealable g \<longleftrightarrow> g_Street g < StreetShowdown \<and> deck_ok g \<or> g_Street g = StreetShowdown"

lemma dealable_advanceStreet: "dealable g \<Longrightarrow> \<exists>g'. advanceStreet iter g = Ok g'"
  using deck_ok_advanceStreet by (fastforce simp: dealable_def advanceStreet_def Let_def)

lemma continue_hand_never_fails:
  assumes "never_fails d" "dealable s"
  shows "\<exists>g' w'. continue_hand d s w = (Ok g', w')"
proof -
  have fin: "\<exists>g' w'. finish_after_action d t w = (Ok g', w')" for t
    using FinishHand_never_fails [OF assms(1), of t w] by (auto simp: finish_after_action_def)
  have sav: "\<exists>g' w'. save_after_action d t w = (Ok g', w')" for t
  proof -
    obtain db where "dp_Save d (w_db w) t = Ok db" using assms(1) unfolding never_fails_def by blast
    then show ?thesis using assms(1) by (simp add: save_after_action_def save_state_def never_fails_def)
  qed
  obtain s' where "advanceStreet (dp_iter d) s = Ok s'" using dealable_advanceStreet [OF assms(2)] by blast
  then show ?thesis using fin sav by (simp add: continue_hand_def)
qed

lemma ApplyAction_Execute_accepts:
  assumes nf: "never_fails d" and find: "dp_FindByID d (w_db w) (ai_HandID input) = Ok g"
    and "dealable g" and val: "ValidateAction g (ai_Action input) = Ok ()"
  shows "\<exists>g' w'. ApplyAction_Execute d input w = (Ok g', w')"
proof -
  let ?a = "ai_Action input"
  obtain p where p: "g_ActivePlayer g < length (g_Players g)" "p_ID (g_Players g ! g_ActivePlayer g) = a_PlayerID ?a"
    using val by (auto elim: ValidateAction_Ok)
  then have "PlayerByID g (a_PlayerID ?a) \<noteq> None"
    by (auto simp: PlayerByID_def find_player_None intro: rev_image_eqI nth_mem)
  then obtain k where k: "PlayerByID g (a_PlayerID ?a) = Some k" by blast
  obtain g1 where g1: "ApplyAction g ?a = Ok g1" using ApplyAction_total [OF val] by blast
  let ?s = "g1\<lparr>g_EventSequence := g_EventSequence g1 + 1\<rparr>"
  have "dealable ?s"
    using assms(3) ApplyAction_frame(3-5) [OF g1] by (auto simp: dealable_def deck_ok_def split: option.splits)
  then have "\<exists>g' w'. continue_hand d ?s v = (Ok g', w')" for v
    by (rule continue_hand_never_fails [OF nf])
  then show ?thesis
    using find val k g1 nf
    by (simp add: ApplyAction_Execute_def Let_def AdvanceEventSequence_def publish_def never_fails_def)
qed

text \<open>
  C30: The engine accepts an action exactly if the rules allow it: with a
  working database and broker, \<open>ApplyAction.Execute\<close> succeeds if and only if \<open>ValidateAction\<close> does,
  and a refused action changes neither the database nor the event log.
\<close>

theorem action_accepted_iff_valid:
  assumes "never_fails d" "dp_FindByID d (w_db w) (ai_HandID input) = Ok g" "dealable g"
    and "ApplyAction_Execute d input w = (r, w')"
  shows "(is_ok r \<longleftrightarrow> ValidateAction g (ai_Action input) = Ok ())
    \<and> (\<not> is_ok r \<longrightarrow> w_db w' = w_db w \<and> w_events w' = w_events w)"
proof (cases "ValidateAction g (ai_Action input)")
  case (Ok u)
  then obtain g' v where "ApplyAction_Execute d input w = (Ok g', v)"
    using ApplyAction_Execute_accepts [OF assms(1-3)] by auto
  then show ?thesis using assms(4) Ok by simp
next
  case (Err e)
  then have "ApplyAction_Execute d input w = (Err (Wrapped ''apply action: validate'' e), w)"
    using assms(2) by (simp add: ApplyAction_Execute_def)
  then show ?thesis using assms(4) Err by auto
next
  case (Panic m)
  then have "ApplyAction_Execute d input w = (Panic m, w)"
    using assms(2) by (simp add: ApplyAction_Execute_def)
  then show ?thesis using assms(4) Panic by auto
qed


section \<open>A hand ends\<close>

text \<open>
  A bound on the actions still to come: the streets left, the raises left on this street, and
  the players who still owe chips.
\<close>

definition remaining_actions :: "GameState \<Rightarrow> nat" where
  "remaining_actions g =
     (let n = length (g_Players g) + 1; cap = nat (bc_MaxRaisesPerStreet (g_BettingConfig g))
      in (3 - street_code (g_Street g)) * ((cap + 1) * n)
         + nat (bc_MaxRaisesPerStreet (g_BettingConfig g) - g_RaisesThisStreet g) * n
         + length (filter (owes g) (turn_queue g)))"

lemma length_turn_queue_le: "length (turn_queue g) \<le> length (g_Players g)"
  by (metis length_filter_le length_rotate turn_queue_def)

lemma street_code_next:
  "s < StreetShowdown \<Longrightarrow> next_street s < StreetShowdown \<Longrightarrow>
    3 - street_code s = Suc (3 - street_code (next_street s))"
  by (cases s) (auto simp: next_street_def less_Street_def)

lemma owing_ApplyAction:
  assumes run: "running g" and val: "ValidateAction g a = Ok ()" and app: "ApplyAction g a = Ok g1"
    and go: "\<not> IsBettingRoundOver g1"
  shows "g_RaisesThisStreet g1 = g_RaisesThisStreet g + 1
      \<and> g_RaisesThisStreet g < bc_MaxRaisesPerStreet (g_BettingConfig g)
    \<or> g_RaisesThisStreet g1 = g_RaisesThisStreet g
      \<and> length (filter (owes g1) (turn_queue (g1\<lparr>g_ActivePlayer := NextActivePlayer g1\<rparr>)))
        < length (filter (owes g) (turn_queue g))"
proof -
  let ?i = "g_ActivePlayer g" and ?ps = "g_Players g"
  let ?rest = "filter CanAct (others ?i ?ps)"
  have wf: "wf_hand g" "g_Street g < StreetShowdown" using run by (auto simp: running_def)
  have i: "?i < length ?ps" using wf by (simp add: wf_hand_def)
  have can: "CanAct (?ps ! ?i)" using val by (auto elim: ValidateAction_Ok)
  obtain p' where seat: "g_Players g1 = ?ps[?i := p']" and p': "CanAct p' \<Longrightarrow> \<not> owes g1 p'"
    and eff: "g_RaisesThisStreet g1 = g_RaisesThisStreet g + 1
        \<and> g_RaisesThisStreet g < bc_MaxRaisesPerStreet (g_BettingConfig g)
      \<or> g_CurrentBet g1 = g_CurrentBet g \<and> g_RaisesThisStreet g1 = g_RaisesThisStreet g"
    by (rule ApplyAction_effect [OF val app wf]) blast
  have i1: "g_ActivePlayer g1 = ?i" "g_ActivePlayer g1 < length (g_Players g1)"
    using ApplyAction_frame(6) [OF app] i by (auto simp: seat)
  have q: "turn_queue g = ?ps ! ?i # ?rest" using can by (simp add: turn_queue_split [OF i])
  have q2: "turn_queue (g1\<lparr>g_ActivePlayer := NextActivePlayer g1\<rparr>) = ?rest @ filter CanAct [p']"
    using next_turn_queue [OF i1(2)] i1 i by (simp add: seat del: filter.simps)
  have "length (filter (owes g1) (?rest @ filter CanAct [p'])) < length (filter (owes g) (turn_queue g))"
    if cb: "g_CurrentBet g1 = g_CurrentBet g"
  proof -
    have same: "owes g1 = owes g" using cb by (auto simp: owes_def)
    have "owes g (?ps ! ?i)"
    proof (rule ccontr)
      assume "\<not> owes g (?ps ! ?i)"
      then have "g_CurrentBet g1 = 0" using in_turn_head_free [OF run can] cb by simp
      moreover have "wf_hand g1" by (rule wf_hand_ApplyAction [OF val app wf])
      ultimately have "IsBettingRoundOver g1"
        by (auto simp: IsBettingRoundOver_iff wf_hand_def wf_player_def)
      then show False using go by simp
    qed
    moreover have "filter (owes g1) (filter CanAct [p']) = []" using p' by simp
    ultimately show ?thesis using same q by simp
  qed
  then show ?thesis using eff q2 by auto
qed

lemma remaining_actions_decrease:
  assumes run: "running g" and val: "ValidateAction g a = Ok ()" and app: "ApplyAction g a = Ok g1"
    and perm: "permuting (dp_iter d)"
    and cont: "continue_hand d (g1\<lparr>g_EventSequence := n\<rparr>) w = (Ok g', w')" and on: "g_Street g' < StreetShowdown"
  shows "remaining_actions g' < remaining_actions g"
proof -
  let ?s = "g1\<lparr>g_EventSequence := n\<rparr>"
  let ?N = "length (g_Players g) + 1" and ?max = "bc_MaxRaisesPerStreet (g_BettingConfig g)"
  note frame = ApplyAction_frame [OF app]
  have wf0: "wf_hand g" "g_Street g < StreetShowdown" using run by (auto simp: running_def)
  have wf1: "wf_hand g1" by (rule wf_hand_ApplyAction [OF val app wf0])
  have len: "length (g_Players g1) = length (g_Players g)" by (rule ApplyAction_length [OF app])
  have fin: False if f: "FinishHand_Execute d t w = (Ok g', w')" for t
  proof -
    obtain rake ws where "settled d t = (rake, ws, g')"
      using FinishHand_Execute_Ok(1) [OF f] by (metis prod.collapse)
    then show False using settled_frame(1) on by fastforce
  qed
  show ?thesis
    using cont
  proof (cases rule: continue_hand_Ok)
    case Finish
    then show ?thesis using fin by blast
  next
    case (Showdown s')
    then show ?thesis using fin by blast
  next
    case Street
    note adv = advanceStreet_Ok [OF Street(3)]
    have run': "running g'"
      using running_advanceStreet(2) [OF _ perm Street(2,1,3) on] wf1 by simp
    have none: "filter (owes g') (turn_queue g') = []"
      using run' adv(3) by (auto simp: filter_empty_conv owes_def set_turn_queue running_def wf_hand_def wf_player_def)
    have st: "3 - street_code (g_Street g) = Suc (3 - street_code (g_Street g'))"
      using street_code_next [OF wf0(2)] adv(11) on frame(5) by simp
    have "nat ?max * ?N < (nat ?max + 1) * ?N" by simp
    then show ?thesis
      using none st adv frame len by (simp add: remaining_actions_def Let_def)
  next
    case Turn
    have nx: "NextActivePlayer ?s = NextActivePlayer g1"
      by (simp add: NextActivePlayer_def Let_def split: option.split)
    let ?t = "g1\<lparr>g_ActivePlayer := NextActivePlayer g1\<rparr>"
    have g': "g' = ?t\<lparr>g_EventSequence := n\<rparr>" using Turn(3) nx by simp
    have over: "\<not> IsBettingRoundOver g1" using Turn(2) by simp
    have "length (filter (owes g1) (turn_queue ?t)) \<le> length (turn_queue ?t)" by (rule length_filter_le)
    also have "\<dots> \<le> length (g_Players g)" using length_turn_queue_le [of ?t] len by simp
    finally have bound: "length (filter (owes g1) (turn_queue ?t)) \<le> length (g_Players g)" .
    from owing_ApplyAction [OF run val app over] show ?thesis
    proof
      assume r: "g_RaisesThisStreet g1 = g_RaisesThisStreet g + 1 \<and> g_RaisesThisStreet g < ?max"
      then have "nat (?max - g_RaisesThisStreet g) = Suc (nat (?max - g_RaisesThisStreet g1))" by arith
      then show ?thesis
        using bound frame len by (simp add: remaining_actions_def Let_def g')
    next
      assume "g_RaisesThisStreet g1 = g_RaisesThisStreet g
        \<and> length (filter (owes g1) (turn_queue ?t)) < length (filter (owes g) (turn_queue g))"
      then show ?thesis using frame len by (simp add: remaining_actions_def Let_def g')
    qed
  qed
qed

lemma remaining_actions_bound:
  assumes "running g"
  shows "remaining_actions g
    < 4 * ((nat (bc_MaxRaisesPerStreet (g_BettingConfig g)) + 1) * (length (g_Players g) + 1))"
proof -
  let ?N = "length (g_Players g) + 1" and ?max = "bc_MaxRaisesPerStreet (g_BettingConfig g)"
  have "0 \<le> g_RaisesThisStreet g" using assms by (simp add: running_def wf_hand_def)
  then have "nat (?max - g_RaisesThisStreet g) * ?N \<le> nat ?max * ?N" by (intro mult_right_mono) auto
  moreover have "length (filter (owes g) (turn_queue g)) < ?N"
    using length_filter_le [of "owes g" "turn_queue g"] length_turn_queue_le [of g] by linarith
  moreover have "(3 - street_code (g_Street g)) * ((nat ?max + 1) * ?N) \<le> 3 * ((nat ?max + 1) * ?N)"
    by (intro mult_right_mono) auto
  moreover have "(nat ?max + 1) * ?N = nat ?max * ?N + ?N" by simp
  ultimately show ?thesis unfolding remaining_actions_def Let_def by linarith
qed

section \<open>Instances\<close>

lemma length_hole_cards: "length (hole_cards ps) = 2 * length ps"
  by (induction ps) (auto simp: hole_cards_def)

lemma StartHand_deck_ok:
  assumes run: "StartHand_Execute d input w = (Ok g, w')" and seats: "length (sh_Players input) \<le> 23"
    and sh: "\<And>cs cs'. dp_shuffle d cs = Ok cs' \<Longrightarrow> mset cs' = mset cs"
  shows "deck_ok g"
proof -
  have "length (cards_of g) = 52"
    using StartHand_cards [OF run sh] by (metis length_NewDeck size_mset)
  moreover have "length (g_Players g) = length (sh_Players input)"
    using StartHand_chips(3) [OF run] by (metis length_map)
  moreover obtain deck where "g_Deck g = Some deck" "g_Board g = []" "g_Street g = StreetPreflop"
    by (rule StartHand_Execute_Ok [OF run]) (metis GameState.select_convs)
  ultimately show ?thesis
    using seats by (simp add: deck_ok_def cards_of_def length_hole_cards)
qed

lemma never_fails_mem [simp]: "never_fails mem_deps"
  by (simp add: never_fails_def)

text \<open>The three-handed example hand, stored in memory, with its first player to act.\<close>

lemma ex_running:
  obtains g w where "StartHand_Execute mem_deps ex_input mem_world = (Ok g, w)" "running g" "deck_ok g"
    "chips_in_play g = 390" "g_ActivePlayer g < length (g_Players g)" "CanAct (g_Players g ! g_ActivePlayer g)"
proof -
  obtain g w where run: "StartHand_Execute mem_deps ex_input mem_world = (Ok g, w)" using ex_input_starts by blast
  have r: "running g" by (rule StartHand_running [OF run]) (auto simp: ex_input_def ex_player_def ex_hand_def)
  have "g_Pots g = []" by (rule StartHand_Execute_Ok [OF run]) (metis GameState.select_convs(5))
  then have c: "chips_in_play g = 390"
    using StartHand_chips(1) [OF run] by (simp add: chips_in_play_def ex_input_def ex_player_def)
  have dk: "deck_ok g"
    by (rule StartHand_deck_ok [OF run]) (auto simp: ex_input_def mem_deps_def)
  have i: "g_ActivePlayer g < length (g_Players g)" using r by (simp add: running_def wf_hand_def)
  obtain bbi where "g_ActivePlayer g = nextActiveIndex bbi (g_Players g)" "bbi < length (g_Players g)"
  proof (rule StartHand_Execute_Ok [OF run])
    fix deck deck' dealt sbi bbi
    assume v: "validateStartHandInput ex_input = Ok ()"
      and deal: "dealHoleCards deck (sh_Players ex_input) = Ok (deck', dealt)"
      and bl: "blindIndexes (nat (sh_Button ex_input)) (length dealt) = (sbi, bbi)"
      and post: "postBlinds dealt sbi bbi (bc_SmallBlind (sh_BettingConfig ex_input))
        (bc_BigBlind (sh_BettingConfig ex_input)) = Ok (g_Players g)"
      and g: "g = \<lparr>g_ID = show_int (dp_UnixNano mem_deps), g_TableID = sh_TableID ex_input, g_Players = g_Players g,
        g_Board = [], g_Pots = [], g_Street = StreetPreflop, g_CurrentBet = bc_BigBlind (sh_BettingConfig ex_input),
        g_ActivePlayer = nextActiveIndex bbi (g_Players g), g_Button = nat (sh_Button ex_input), g_EventSequence = 1,
        g_BettingConfig = sh_BettingConfig ex_input, g_RaisesThisStreet = 0, g_Deck = Some deck'\<rparr>"
    have len: "length dealt = 3" using dealHoleCards_Ok(2) [OF deal] by (metis (no_types) ex_input_def
          StartHandInput.select_convs(2) length_map list.size(3,4) numeral_3_eq_3 One_nat_def add_Suc_right add_0_right)
    have "nat (sh_Button ex_input) < length dealt" using len by (simp add: ex_input_def)
    note bi = blindIndexes_bounds [OF _ this bl]
    then have "bbi < length (g_Players g)" using postBlinds_Ok(5) [OF post] len by simp
    moreover have "g_ActivePlayer g = nextActiveIndex bbi (g_Players g)" using g by (metis GameState.select_convs(8))
    ultimately show thesis using that by blast
  qed
  then have "g_ActivePlayer g = NextActivePlayer (g\<lparr>g_ActivePlayer := bbi\<rparr>)" "bbi < length (g_Players g)"
    by (simp_all add: nextActiveIndex_Next)
  moreover have "PlayersWhoCanAct g \<noteq> []" using r by (auto simp: running_def length_turn_queue)
  ultimately have "CanAct (g_Players g ! g_ActivePlayer g)"
    using NextActivePlayer_can_act [of "g\<lparr>g_ActivePlayer := bbi\<rparr>"] by (simp add: PlayersWhoCanAct_def)
  with run r dk c i show thesis using that by blast
qed


theorem action_accepted_iff_valid_witness:
  "\<exists>g w a r w'. ApplyAction_Execute mem_deps \<lparr>ai_HandID = g_ID g, ai_Action = a\<rparr> w = (r, w')
    \<and> is_ok r \<and> ValidateAction g a = Ok ()"
proof -
  obtain g w0 where g: "running g" "deck_ok g" "chips_in_play g = 390" "g_ActivePlayer g < length (g_Players g)"
    "CanAct (g_Players g ! g_ActivePlayer g)" by (rule ex_running)
  define a where "a = NewFold (p_ID (g_Players g ! g_ActivePlayer g))"
  define w where "w = mem_world\<lparr>w_db := [g_ID g \<mapsto> g]\<rparr>"
  let ?in = "\<lparr>ai_HandID = g_ID g, ai_Action = a\<rparr>"
  have find: "dp_FindByID mem_deps (w_db w) (ai_HandID ?in) = Ok g" by (simp add: mem_deps_def w_def)
  have val: "ValidateAction g a = Ok ()" using g by (simp add: a_def ValidateAction_def NewFold_def)
  have dl: "dealable g" using g(1,2) by (simp add: running_def dealable_def)
  obtain r w' where ex: "ApplyAction_Execute mem_deps ?in w = (r, w')" by fastforce
  then show ?thesis
    using action_accepted_iff_valid [OF never_fails_mem find dl ex] val by (metis ApplyActionInput.select_convs(2))
qed

section \<open>What the rules leave open\<close>

lemma CollectBets_no_bets:
  assumes "\<forall>p \<in> set (g_Players g). p_CurrentBet p = 0"
  shows "CollectBets iter g = g"
proof -
  have "foldl (\<lambda>m p. if p_CurrentBet p > 0 then AList.update (p_ID p) (p_CurrentBet p) m else m) [] ps = []"
    if "\<forall>p \<in> set ps. p_CurrentBet p = 0" for ps
    using that by (induction ps) auto
  then have "contributions_of (g_Players g) = []" using assms by (simp add: contributions_of_def)
  moreover have "map (\<lambda>p. if 0 < p_CurrentBet p then p\<lparr>p_CurrentBet := 0\<rparr> else p) (g_Players g) = g_Players g"
    using assms by (intro map_idI) auto
  ultimately show ?thesis by (simp add: CollectBets_def Let_def Calculate_def mergePots_def)
qed


text \<open>
  An all-in player can block the hand. When the first seat after the button still in the hand
  is all-in, \<open>advanceStreet\<close> gives that seat the turn, and then the engine refuses every action of
  every player, although others could act.
\<close>

theorem all_in_seat_blocks_hand:
  assumes "advanceStreet iter g = Ok g'" "g_Button g < length (g_Players g)"
    and "IsAllIn (g_Players g ! FirstActiveAfterButton g)"
  shows "\<not> is_ok (ValidateAction g' a)"
proof -
  note adv = advanceStreet_Ok [OF assms(1)]
  let ?k = "FirstActiveAfterButton g"
  have k: "?k < length (g_Players g)" by (rule FirstActiveAfterButton_bound [OF assms(2)])
  have live: "live (g_Players (CollectBets iter g) ! j) = live (g_Players g ! j)" if "j < length (g_Players g)" for j
    using that by (simp add: CollectBets_players IsActive_def IsAllIn_def)
  have "(g_Button g + i) mod length (g_Players g) < length (g_Players g)" for i
    using assms(2) by (intro mod_less_divisor) auto
  note live = live [OF this]
  have "FirstActiveAfterButton (CollectBets iter g) = ?k"
    unfolding FirstActiveAfterButton_def Let_def CollectBets_frame live ..
  then have "g_ActivePlayer g' = ?k" using adv(10) by simp
  moreover have "\<not> CanAct (g_Players g' ! ?k)"
    using assms(3) k by (auto simp: adv(1) CollectBets_players CanAct_def IsAllIn_def)
  ultimately show ?thesis by (simp add: ValidateAction_def Let_def)
qed

text \<open>
  C37: An all-in raise is never called. With two players left to act, a raise for the raiser's whole
  stack ends the hand at once: it is settled on the cards already on the board while the opponent
  still owes chips and has chips to call with.
\<close>

theorem all_in_raise_ends_hand_uncalled:
  assumes find: "dp_FindByID d (w_db w) (ai_HandID input) = Ok g" and run: "running g"
    and two: "length (PlayersWhoCanAct g) = 2" and raise: "a_Type (ai_Action input) = ActionRaise"
    and all: "a_Amount (ai_Action input) = p_Stack (g_Players g ! g_ActivePlayer g)
      + p_CurrentBet (g_Players g ! g_ActivePlayer g)"
    and exec: "ApplyAction_Execute d input w = (Ok g', w')"
  shows "g_Street g' = StreetShowdown \<and> g_Board g' = g_Board g
    \<and> (\<exists>q \<in> set (g_Players g). CanAct q \<and> p_CurrentBet q < a_Amount (ai_Action input))"
proof (rule ApplyAction_Execute_Ok [OF exec])
  fix g0 g1 w1 e
  assume g0: "dp_FindByID d (w_db w) (ai_HandID input) = Ok g0"
    and val: "ValidateAction g0 (ai_Action input) = Ok ()" and app: "ApplyAction g0 (ai_Action input) = Ok g1"
    and cont: "continue_hand d (g1\<lparr>g_EventSequence := g_EventSequence g0 + 1\<rparr>) w1 = (Ok g', w')"
  have eq: "g0 = g" using g0 find by simp
  let ?i = "g_ActivePlayer g" and ?ps = "g_Players g"
  have wf: "wf_hand g" "g_Street g < StreetShowdown" using run by (auto simp: running_def)
  have i: "?i < length ?ps" and can: "CanAct (?ps ! ?i)" using val by (auto simp: eq elim: ValidateAction_Ok)
  have amount: "a_Amount (ai_Action input) = g_CurrentBet g + BetSizeForStreet g"
    using val raise by (auto simp: eq elim!: ValidateAction_Ok)
  have bet: "0 < BetSizeForStreet g" using wf by (intro BetSizeForStreet_pos) (auto simp: wf_hand_def)
  obtain p' where seat: "g_Players g1 = ?ps[?i := p']" and out: "\<not> CanAct p'"
    using app raise all by (auto simp: eq ApplyAction_def Let_def CanAct_def split: if_splits)
  have q: "turn_queue g = ?ps ! ?i # filter CanAct (others ?i ?ps)" using can by (simp add: turn_queue_split [OF i])
  then have "length (filter CanAct (others ?i ?ps)) = 1" using two length_turn_queue [of g] by simp
  then obtain r where r: "filter CanAct (others ?i ?ps) = [r]" by (auto simp: length_Suc_conv)
  then have "r \<in> set (filter CanAct (others ?i ?ps))" by simp
  then have rin: "r \<in> set ?ps" "CanAct r" using set_others [OF i] by auto
  then have "wf_player (g_CurrentBet g) r" using wf(1) by (simp add: wf_hand_def)
  then have owe: "p_CurrentBet r < a_Amount (ai_Action input)" using amount bet by (simp add: wf_player_def)
  have "turn_queue g1 = [r]"
    using i ApplyAction_frame(6) [OF app] out r by (simp add: eq turn_queue_split seat)
  then have "length (PlayersWhoCanAct (g1\<lparr>g_EventSequence := g_EventSequence g0 + 1\<rparr>)) \<le> 1"
    using length_turn_queue [of g1] by (simp add: PlayersWhoCanAct_def)
  then have fin: "FinishHand_Execute d (g1\<lparr>g_EventSequence := g_EventSequence g0 + 1\<rparr>) w1 = (Ok g', w')"
    using cont by (auto simp: continue_hand_def finish_after_action_def split: prod.splits)
  obtain rake ws where "settled d (g1\<lparr>g_EventSequence := g_EventSequence g0 + 1\<rparr>) = (rake, ws, g')"
    using FinishHand_Execute_Ok(1) [OF fin] by (metis prod.collapse)
  from settled_frame(1,6) [OF this] show ?thesis
    using ApplyAction_frame(3) [OF app] rin owe by (auto simp: eq)
qed


theorem all_in_seat_blocks_hand_witness:
  defines "g \<equiv> ex_hand [ex_player ''a'' 60 0 PlayerStatusActive, ex_player ''b'' 0 0 PlayerStatusAllIn,
      ex_player ''c'' 80 0 PlayerStatusActive] [] StreetRiver 0"
  shows "\<exists>g'. advanceStreet (\<lambda>xs. xs) g = Ok g' \<and> \<not> is_ok (ValidateAction g' (NewCheck ''c''))"
proof -
  note ex = g_def ex_hand_def ex_player_def
  obtain g' where adv: "advanceStreet (\<lambda>xs. xs) g = Ok g'"
    by (simp add: ex advanceStreet_def Let_def)
  have "FirstActiveAfterButton g = 1"
    by (simp add: ex FirstActiveAfterButton_def IsActive_def IsAllIn_def upt_conv_Cons Let_def del: upt_Suc)
  then have "\<not> is_ok (ValidateAction g' (NewCheck ''c''))"
    by (intro all_in_seat_blocks_hand [OF adv]) (simp_all add: ex IsAllIn_def)
  with adv show ?thesis by blast
qed

theorem all_in_raise_ends_hand_uncalled_witness:
  defines "g \<equiv> ex_hand [ex_player ''a'' 30 10 PlayerStatusActive, ex_player ''b'' 80 20 PlayerStatusActive]
      [] StreetPreflop 20"
  shows "\<exists>g' w'. ApplyAction_Execute mem_deps \<lparr>ai_HandID = ''h'', ai_Action = NewRaise ''a'' 40\<rparr>
      (mem_world\<lparr>w_db := [''h'' \<mapsto> g]\<rparr>) = (Ok g', w') \<and> g_Street g' = StreetShowdown \<and> g_Board g' = []"
proof -
  let ?in = "\<lparr>ai_HandID = ''h'', ai_Action = NewRaise ''a'' 40\<rparr>" and ?w = "mem_world\<lparr>w_db := [''h'' \<mapsto> g]\<rparr>"
  note ex = g_def ex_hand_def ex_player_def
  have find: "dp_FindByID mem_deps (w_db ?w) (ai_HandID ?in) = Ok g" by (simp add: mem_deps_def)
  have run: "running g"
    by (rule blinds_running [of g 1])
      (auto simp: ex CanAct_def wf_player_def others_def wf_config_def nextActiveIndex_def upt_conv_Cons simp del: upt_Suc)
  have val: "ValidateAction g (ai_Action ?in) = Ok ()"
    by (simp add: ex ValidateAction_def NewRaise_def CanAct_def BetSizeForStreet_def)
  have "dealable g" by (simp add: ex dealable_def deck_ok_def length_NewDeck less_Street_def)
  from ApplyAction_Execute_accepts [OF never_fails_mem find this val]
  obtain g' w' where exec: "ApplyAction_Execute mem_deps ?in ?w = (Ok g', w')" by blast
  have two: "length (PlayersWhoCanAct g) = 2" by (simp add: ex PlayersWhoCanAct_def CanAct_def)
  show ?thesis
    using all_in_raise_ends_hand_uncalled [OF find run two _ _ exec] exec by (simp add: ex NewRaise_def)
qed

end
