(* ===== verification/GameRepo.thy ===== *)
theory GameRepo
  imports PlayHand
begin

text \<open>
  The Postgres repository of the engine (\<open>infrastructure/repository/postgres\<close>): the tables of the
  migrations as lists of rows, each SQL statement of the Go code as an operation on them, and
  \<open>Save\<close>, \<open>FindByID\<close> and \<open>Delete\<close> composed as the code composes them.

  The database server is a parameter (\<open>Pg\<close>): which statement fails (connection lost, timeout),
  and the order in which it returns rows that an \<open>ORDER BY\<close> leaves open. A statement also fails when
  it breaks a primary key or a column's range, as the migrations declare them. A transaction
  that fails leaves the database as it was.
\<close>

section \<open>Tables\<close>

record GameRow =
  gr_id :: string
  gr_table_id :: string
  gr_street :: string
  gr_current_bet :: int
  gr_active_player :: int
  gr_button :: int
  gr_event_sequence :: int
  gr_betting_structure :: string
  gr_small_blind :: int
  gr_big_blind :: int
  gr_small_bet :: int
  gr_big_bet :: int
  gr_max_raises :: int
  gr_raises :: int

record PlayerRow =
  pr_hand_id :: string
  pr_player_id :: string
  pr_stack :: int
  pr_status :: string
  pr_current_bet :: int
  pr_position :: int
  pr_hole_card_1 :: string
  pr_hole_card_2 :: string

record CardRow =
  cr_hand_id :: string
  cr_position :: int
  cr_card :: string

record PotRow =
  po_hand_id :: string
  po_position :: int
  po_amount :: int

record EligibleRow =
  el_hand_id :: string
  el_pot_position :: int
  el_player_id :: string

record GameDB =
  db_states :: "GameRow list"
  db_players :: "PlayerRow list"
  db_board :: "CardRow list"
  db_deck :: "CardRow list"
  db_pots :: "PotRow list"
  db_eligible :: "EligibleRow list"

text \<open>
  The server: \<open>pg_fails stmt i\<close> says whether the \<open>i\<close>-th execution of a statement fails; the two
  orders are \<open>ORDER BY position\<close> on players (whose positions need not differ) and \<open>ORDER BY player_id\<close>.
\<close>

record Pg =
  pg_fails :: "string \<Rightarrow> nat \<Rightarrow> bool"
  pg_by_position :: "PlayerRow list \<Rightarrow> PlayerRow list"
  pg_by_player_id :: "PlayerID list \<Rightarrow> PlayerID list"

definition exec :: "Pg \<Rightarrow> string \<Rightarrow> nat \<Rightarrow> bool \<Rightarrow> 'a \<Rightarrow> (engine_err, 'a) outcome" where
  "exec pg stmt i valid result =
     (if pg_fails pg stmt i \<or> \<not> valid then Err (Wrapped (''game state repo: '' @ stmt) (ErrText ''sql''))
      else Ok result)"

section \<open>Mappers\<close>

fun streetToString :: "Street \<Rightarrow> string" where
  "streetToString StreetPreflop = ''preflop''"
| "streetToString StreetFlop = ''flop''"
| "streetToString StreetTurn = ''turn''"
| "streetToString StreetRiver = ''river''"
| "streetToString StreetShowdown = ''showdown''"
| "streetToString (StreetOther n) = ''unknown''"

definition streetFromString :: "string \<Rightarrow> Street" where
  "streetFromString s =
     (if s = ''preflop'' then StreetPreflop else if s = ''flop'' then StreetFlop
      else if s = ''turn'' then StreetTurn else if s = ''river'' then StreetRiver
      else if s = ''showdown'' then StreetShowdown else StreetPreflop)"

fun playerStatusToString :: "PlayerStatus \<Rightarrow> string" where
  "playerStatusToString PlayerStatusActive = ''active''"
| "playerStatusToString PlayerStatusFolded = ''folded''"
| "playerStatusToString PlayerStatusAllIn = ''all_in''"
| "playerStatusToString PlayerStatusSittingOut = ''sitting_out''"
| "playerStatusToString (PlayerStatusOther n) = ''active''"

definition playerStatusFromString :: "string \<Rightarrow> PlayerStatus" where
  "playerStatusFromString s =
     (if s = ''active'' then PlayerStatusActive else if s = ''folded'' then PlayerStatusFolded
      else if s = ''all_in'' then PlayerStatusAllIn
      else if s = ''sitting_out'' then PlayerStatusSittingOut else PlayerStatusActive)"

fun bettingStructureToString :: "BettingStructure \<Rightarrow> string" where
  "bettingStructureToString BettingFixedLimit = ''fixed_limit''"
| "bettingStructureToString (BettingOther n) = ''fixed_limit''"

definition bettingStructureFromString :: "string \<Rightarrow> BettingStructure" where
  "bettingStructureFromString s = BettingFixedLimit"

definition cardToString :: "Card \<Rightarrow> string" where
  "cardToString c = Card_String c"

section \<open>Saving\<close>

definition game_row :: "GameState \<Rightarrow> GameRow" where
  "game_row g =
     \<lparr>gr_id = g_ID g, gr_table_id = g_TableID g, gr_street = streetToString (g_Street g),
      gr_current_bet = g_CurrentBet g, gr_active_player = int (g_ActivePlayer g),
      gr_button = int (g_Button g), gr_event_sequence = g_EventSequence g,
      gr_betting_structure = bettingStructureToString (bc_Structure (g_BettingConfig g)),
      gr_small_blind = bc_SmallBlind (g_BettingConfig g), gr_big_blind = bc_BigBlind (g_BettingConfig g),
      gr_small_bet = bc_SmallBet (g_BettingConfig g), gr_big_bet = bc_BigBet (g_BettingConfig g),
      gr_max_raises = bc_MaxRaisesPerStreet (g_BettingConfig g), gr_raises = g_RaisesThisStreet g\<rparr>"

text \<open>Column ranges: \<open>BIGINT\<close> and \<open>INT\<close> of the migrations.\<close>

definition game_row_ok :: "GameRow \<Rightarrow> bool" where
  "game_row_ok r \<longleftrightarrow> in_int64 (gr_current_bet r) \<and> in_int32 (gr_active_player r) \<and> in_int32 (gr_button r)
     \<and> in_int32 (gr_event_sequence r) \<and> in_int64 (gr_small_blind r) \<and> in_int64 (gr_big_blind r)
     \<and> in_int64 (gr_small_bet r) \<and> in_int64 (gr_big_bet r) \<and> in_int32 (gr_max_raises r) \<and> in_int32 (gr_raises r)"

text \<open>On conflict every listed column is replaced; \<open>table_id\<close> is not listed and keeps its value.\<close>

definition upsertGameState :: "Pg \<Rightarrow> GameState \<Rightarrow> GameRow list \<Rightarrow> (engine_err, GameRow list) outcome" where
  "upsertGameState pg g rows =
     (let new = game_row g
      in exec pg ''upsert state'' 0 (game_row_ok new)
        (if list_ex (\<lambda>r. gr_id r = gr_id new) rows
         then map (\<lambda>r. if gr_id r = gr_id new then new\<lparr>gr_table_id := gr_table_id r\<rparr> else r) rows
         else rows @ [new]))"

definition player_row :: "HandID \<Rightarrow> Player \<Rightarrow> PlayerRow" where
  "player_row hand p =
     \<lparr>pr_hand_id = hand, pr_player_id = p_ID p, pr_stack = p_Stack p,
      pr_status = playerStatusToString (p_Status p), pr_current_bet = p_CurrentBet p,
      pr_position = p_Position p, pr_hole_card_1 = cardToString (fst (p_HoleCards p)),
      pr_hole_card_2 = cardToString (snd (p_HoleCards p))\<rparr>"

definition player_row_ok :: "PlayerRow \<Rightarrow> PlayerRow list \<Rightarrow> bool" where
  "player_row_ok r rows \<longleftrightarrow> in_int64 (pr_stack r) \<and> in_int64 (pr_current_bet r) \<and> in_int32 (pr_position r)
     \<and> \<not> list_ex (\<lambda>q. pr_hand_id q = pr_hand_id r \<and> pr_player_id q = pr_player_id r) rows"

fun insert_players :: "Pg \<Rightarrow> HandID \<Rightarrow> nat \<Rightarrow> Player list \<Rightarrow> PlayerRow list \<Rightarrow> (engine_err, PlayerRow list) outcome" where
  "insert_players pg hand i [] rows = Ok rows"
| "insert_players pg hand i (p # ps) rows =
     (let r = player_row hand p
      in bind_outcome (exec pg ''insert player'' i (player_row_ok r rows) (rows @ [r]))
        (\<lambda>rows. insert_players pg hand (Suc i) ps rows))"

definition replacePlayers :: "Pg \<Rightarrow> GameState \<Rightarrow> PlayerRow list \<Rightarrow> (engine_err, PlayerRow list) outcome" where
  "replacePlayers pg g rows =
     bind_outcome (exec pg ''delete players'' 0 True (filter (\<lambda>r. pr_hand_id r \<noteq> g_ID g) rows))
       (\<lambda>rows. insert_players pg (g_ID g) 0 (g_Players g) rows)"

fun insert_cards ::
    "Pg \<Rightarrow> string \<Rightarrow> HandID \<Rightarrow> nat \<Rightarrow> Card list \<Rightarrow> CardRow list \<Rightarrow> (engine_err, CardRow list) outcome" where
  "insert_cards pg stmt hand position [] rows = Ok rows"
| "insert_cards pg stmt hand position (c # cs) rows =
     (let r = \<lparr>cr_hand_id = hand, cr_position = int position, cr_card = cardToString c\<rparr>
      in bind_outcome (exec pg stmt position (in_int32 (cr_position r)
            \<and> \<not> list_ex (\<lambda>q. cr_hand_id q = hand \<and> cr_position q = cr_position r) rows) (rows @ [r]))
        (\<lambda>rows. insert_cards pg stmt hand (Suc position) cs rows))"

definition replaceBoard :: "Pg \<Rightarrow> GameState \<Rightarrow> CardRow list \<Rightarrow> (engine_err, CardRow list) outcome" where
  "replaceBoard pg g rows =
     bind_outcome (exec pg ''delete board'' 0 True (filter (\<lambda>r. cr_hand_id r \<noteq> g_ID g) rows))
       (\<lambda>rows. insert_cards pg ''insert board'' (g_ID g) 0 (g_Board g) rows)"

definition replaceDeck :: "Pg \<Rightarrow> GameState \<Rightarrow> CardRow list \<Rightarrow> (engine_err, CardRow list) outcome" where
  "replaceDeck pg g rows =
     bind_outcome (exec pg ''delete deck'' 0 True (filter (\<lambda>r. cr_hand_id r \<noteq> g_ID g) rows))
       (\<lambda>rows. case g_Deck g of None \<Rightarrow> Ok rows
          | Some deck \<Rightarrow> insert_cards pg ''insert deck'' (g_ID g) 0 (d_cards deck) rows)"

definition deletePots ::
    "Pg \<Rightarrow> HandID \<Rightarrow> PotRow list \<times> EligibleRow list \<Rightarrow> (engine_err, PotRow list \<times> EligibleRow list) outcome" where
  "deletePots pg hand tables =
     (case tables of (pots, eligible) \<Rightarrow>
       bind_outcome (exec pg ''delete pot eligible'' 0 True (filter (\<lambda>r. el_hand_id r \<noteq> hand) eligible))
       (\<lambda>eligible. bind_outcome (exec pg ''delete pots'' 0 True (filter (\<lambda>r. po_hand_id r \<noteq> hand) pots))
       (\<lambda>pots. Ok (pots, eligible))))"

fun insert_eligible ::
    "Pg \<Rightarrow> HandID \<Rightarrow> nat \<Rightarrow> PlayerID list \<Rightarrow> EligibleRow list \<Rightarrow> (engine_err, EligibleRow list) outcome" where
  "insert_eligible pg hand position [] rows = Ok rows"
| "insert_eligible pg hand position (i # is) rows =
     (let r = \<lparr>el_hand_id = hand, el_pot_position = int position, el_player_id = i\<rparr>
      in bind_outcome (exec pg ''insert pot eligible'' position (r \<notin> set rows) (rows @ [r]))
        (\<lambda>rows. insert_eligible pg hand position is rows))"

definition insertPot ::
    "Pg \<Rightarrow> HandID \<Rightarrow> nat \<Rightarrow> Pot \<Rightarrow> PotRow list \<times> EligibleRow list \<Rightarrow> (engine_err, PotRow list \<times> EligibleRow list) outcome" where
  "insertPot pg hand position pot tables =
     (case tables of (pots, eligible) \<Rightarrow>
       (let r = \<lparr>po_hand_id = hand, po_position = int position, po_amount = pot_Amount pot\<rparr>
        in bind_outcome (exec pg ''insert pot'' position (in_int32 (po_position r) \<and> in_int64 (po_amount r)
              \<and> \<not> list_ex (\<lambda>q. po_hand_id q = hand \<and> po_position q = po_position r) pots) (pots @ [r]))
          (\<lambda>pots. bind_outcome (insert_eligible pg hand position (pot_Eligible pot) eligible)
          (\<lambda>eligible. Ok (pots, eligible)))))"

fun insert_pots ::
    "Pg \<Rightarrow> HandID \<Rightarrow> nat \<Rightarrow> Pot list \<Rightarrow> PotRow list \<times> EligibleRow list \<Rightarrow> (engine_err, PotRow list \<times> EligibleRow list) outcome" where
  "insert_pots pg hand position [] tables = Ok tables"
| "insert_pots pg hand position (pot # pots) tables =
     bind_outcome (insertPot pg hand position pot tables)
       (\<lambda>tables. insert_pots pg hand (Suc position) pots tables)"

definition replacePots ::
    "Pg \<Rightarrow> GameState \<Rightarrow> PotRow list \<times> EligibleRow list \<Rightarrow> (engine_err, PotRow list \<times> EligibleRow list) outcome" where
  "replacePots pg g tables =
     bind_outcome (deletePots pg (g_ID g) tables)
       (\<lambda>tables. insert_pots pg (g_ID g) 0 (g_Pots g) tables)"

definition Save :: "Pg \<Rightarrow> GameDB \<Rightarrow> GameState \<Rightarrow> (engine_err, GameDB) outcome" where
  "Save pg db g =
     bind_outcome (exec pg ''begin tx'' 0 True ()) (\<lambda>_.
     bind_outcome (upsertGameState pg g (db_states db)) (\<lambda>states.
     bind_outcome (replacePlayers pg g (db_players db)) (\<lambda>players.
     bind_outcome (replaceBoard pg g (db_board db)) (\<lambda>board.
     bind_outcome (replaceDeck pg g (db_deck db)) (\<lambda>deck.
     bind_outcome (replacePots pg g (db_pots db, db_eligible db)) (\<lambda>(pots, eligible).
     exec pg ''commit tx'' 0 True
       \<lparr>db_states = states, db_players = players, db_board = board, db_deck = deck,
        db_pots = pots, db_eligible = eligible\<rparr>))))))"

section \<open>Loading\<close>

definition findGameState :: "Pg \<Rightarrow> HandID \<Rightarrow> GameRow list \<Rightarrow> (engine_err, GameState) outcome" where
  "findGameState pg hand rows =
     bind_outcome (exec pg ''find state'' 0 True ()) (\<lambda>_.
       case find (\<lambda>r. gr_id r = hand) rows of
         None \<Rightarrow> Err ErrGameNotFound
       | Some r \<Rightarrow> Ok
          \<lparr>g_ID = gr_id r, g_TableID = gr_table_id r, g_Players = [], g_Board = [], g_Pots = [],
           g_Street = streetFromString (gr_street r), g_CurrentBet = gr_current_bet r,
           g_ActivePlayer = nat (gr_active_player r), g_Button = nat (gr_button r),
           g_EventSequence = gr_event_sequence r,
           g_BettingConfig =
             \<lparr>bc_Structure = bettingStructureFromString (gr_betting_structure r),
              bc_SmallBlind = gr_small_blind r, bc_BigBlind = gr_big_blind r,
              bc_SmallBet = gr_small_bet r, bc_BigBet = gr_big_bet r,
              bc_MaxRaisesPerStreet = gr_max_raises r\<rparr>,
           g_RaisesThisStreet = gr_raises r, g_Deck = None\<rparr>)"

definition player_of_row :: "PlayerRow \<Rightarrow> (engine_err, Player) outcome" where
  "player_of_row r =
     bind_outcome (map_err (Wrapped ''game state repo: parse hole card 1'') (ParseCard (pr_hole_card_1 r))) (\<lambda>c1.
     bind_outcome (map_err (Wrapped ''game state repo: parse hole card 2'') (ParseCard (pr_hole_card_2 r))) (\<lambda>c2.
     Ok \<lparr>p_ID = pr_player_id r, p_Stack = pr_stack r, p_HoleCards = (c1, c2),
         p_Status = playerStatusFromString (pr_status r), p_CurrentBet = pr_current_bet r,
         p_Position = pr_position r\<rparr>))"

fun collect :: "('a \<Rightarrow> (engine_err, 'b) outcome) \<Rightarrow> 'a list \<Rightarrow> (engine_err, 'b list) outcome" where
  "collect f [] = Ok []"
| "collect f (x # xs) = bind_outcome (f x) (\<lambda>y. bind_outcome (collect f xs) (\<lambda>ys. Ok (y # ys)))"

definition loadPlayers :: "Pg \<Rightarrow> HandID \<Rightarrow> PlayerRow list \<Rightarrow> (engine_err, Player list) outcome" where
  "loadPlayers pg hand rows =
     bind_outcome (exec pg ''load players'' 0 True (pg_by_position pg (filter (\<lambda>r. pr_hand_id r = hand) rows)))
       (\<lambda>rows. collect player_of_row rows)"

definition loadBoard :: "Pg \<Rightarrow> HandID \<Rightarrow> CardRow list \<Rightarrow> (engine_err, Card list) outcome" where
  "loadBoard pg hand rows =
     bind_outcome (exec pg ''load board'' 0 True (sort_key cr_position (filter (\<lambda>r. cr_hand_id r = hand) rows)))
       (\<lambda>rows. collect (\<lambda>r. map_err (Wrapped ''game state repo: parse board card'') (ParseCard (cr_card r))) rows)"

definition loadDeck :: "Pg \<Rightarrow> HandID \<Rightarrow> CardRow list \<Rightarrow> (engine_err, Deck) outcome" where
  "loadDeck pg hand rows =
     bind_outcome (exec pg ''load deck'' 0 True (sort_key cr_position (filter (\<lambda>r. cr_hand_id r = hand) rows)))
       (\<lambda>rows. bind_outcome
         (collect (\<lambda>r. map_err (Wrapped ''game state repo: parse deck card'') (ParseCard (cr_card r))) rows)
         (\<lambda>cards. Ok (NewDeckFromCards cards)))"

definition loadPotEligible ::
    "Pg \<Rightarrow> HandID \<Rightarrow> int \<Rightarrow> EligibleRow list \<Rightarrow> (engine_err, PlayerID list) outcome" where
  "loadPotEligible pg hand potPosition rows =
     exec pg ''load pot eligible'' (nat potPosition) True
       (pg_by_player_id pg
         (map el_player_id (filter (\<lambda>r. el_hand_id r = hand \<and> el_pot_position r = potPosition) rows)))"

definition loadPots ::
    "Pg \<Rightarrow> HandID \<Rightarrow> PotRow list \<Rightarrow> EligibleRow list \<Rightarrow> (engine_err, Pot list) outcome" where
  "loadPots pg hand rows eligible =
     bind_outcome (exec pg ''load pots'' 0 True (sort_key po_position (filter (\<lambda>r. po_hand_id r = hand) rows)))
       (\<lambda>rows. collect (\<lambda>r. bind_outcome (loadPotEligible pg hand (po_position r) eligible)
          (\<lambda>ids. Ok \<lparr>pot_Amount = po_amount r, pot_Eligible = ids\<rparr>)) rows)"

definition FindByID :: "Pg \<Rightarrow> GameDB \<Rightarrow> HandID \<Rightarrow> (engine_err, GameState) outcome" where
  "FindByID pg db hand =
     bind_outcome (findGameState pg hand (db_states db)) (\<lambda>state.
     bind_outcome (loadPlayers pg hand (db_players db)) (\<lambda>players.
     bind_outcome (loadBoard pg hand (db_board db)) (\<lambda>board.
     bind_outcome (loadDeck pg hand (db_deck db)) (\<lambda>deck.
     bind_outcome (loadPots pg hand (db_pots db) (db_eligible db)) (\<lambda>pots.
     Ok (state\<lparr>g_Players := players, g_Board := board, g_Deck := Some deck, g_Pots := pots\<rparr>))))))"

text \<open>\<open>DELETE\<close> on the parent row cascades to the child tables.\<close>

definition Delete :: "Pg \<Rightarrow> GameDB \<Rightarrow> HandID \<Rightarrow> (engine_err, GameDB) outcome" where
  "Delete pg db hand =
     exec pg ''delete'' 0 True
       \<lparr>db_states = filter (\<lambda>r. gr_id r \<noteq> hand) (db_states db),
        db_players = filter (\<lambda>r. pr_hand_id r \<noteq> hand) (db_players db),
        db_board = filter (\<lambda>r. cr_hand_id r \<noteq> hand) (db_board db),
        db_deck = filter (\<lambda>r. cr_hand_id r \<noteq> hand) (db_deck db),
        db_pots = filter (\<lambda>r. po_hand_id r \<noteq> hand) (db_pots db),
        db_eligible = filter (\<lambda>r. el_hand_id r \<noteq> hand) (db_eligible db)\<rparr>"

section \<open>What the statements leave in the tables\<close>

lemma exec_Ok [simp]: "exec pg stmt i valid r = Ok x \<longleftrightarrow> \<not> pg_fails pg stmt i \<and> valid \<and> x = r"
  by (auto simp: exec_def)

lemma insert_players_Ok:
  "insert_players pg hand i ps rows = Ok rows' \<Longrightarrow> rows' = rows @ map (player_row hand) ps"
  by (induction ps arbitrary: i rows) (simp, fastforce simp: Let_def)

definition card_rows :: "HandID \<Rightarrow> nat \<Rightarrow> Card list \<Rightarrow> CardRow list" where
  "card_rows hand k cs =
     map (\<lambda>(i, c). \<lparr>cr_hand_id = hand, cr_position = int i, cr_card = cardToString c\<rparr>) (enumerate k cs)"

lemma insert_cards_Ok:
  "insert_cards pg stmt hand k cs rows = Ok rows' \<Longrightarrow> rows' = rows @ card_rows hand k cs"
  by (induction cs arbitrary: k rows) (simp add: card_rows_def, fastforce simp: Let_def card_rows_def)

definition eligible_rows :: "HandID \<Rightarrow> nat \<Rightarrow> PlayerID list \<Rightarrow> EligibleRow list" where
  "eligible_rows hand k is = map (\<lambda>i. \<lparr>el_hand_id = hand, el_pot_position = int k, el_player_id = i\<rparr>) is"

lemma insert_eligible_Ok:
  "insert_eligible pg hand k is rows = Ok rows' \<Longrightarrow> rows' = rows @ eligible_rows hand k is"
  by (induction "is" arbitrary: rows) (simp add: eligible_rows_def, fastforce simp: Let_def eligible_rows_def)

definition pot_rows :: "HandID \<Rightarrow> nat \<Rightarrow> Pot list \<Rightarrow> PotRow list" where
  "pot_rows hand k pots =
     map (\<lambda>(i, pot). \<lparr>po_hand_id = hand, po_position = int i, po_amount = pot_Amount pot\<rparr>) (enumerate k pots)"

definition all_eligible_rows :: "HandID \<Rightarrow> nat \<Rightarrow> Pot list \<Rightarrow> EligibleRow list" where
  "all_eligible_rows hand k pots = concat (map (\<lambda>(i, pot). eligible_rows hand i (pot_Eligible pot)) (enumerate k pots))"

lemma insert_pots_Ok:
  "insert_pots pg hand k pots (ps, es) = Ok (ps', es') \<Longrightarrow>
    ps' = ps @ pot_rows hand k pots \<and> es' = es @ all_eligible_rows hand k pots"
proof (induction pots arbitrary: k ps es)
  case Nil
  then show ?case by (simp add: pot_rows_def all_eligible_rows_def)
next
  case (Cons pot pots)
  then obtain ps1 es1 where one: "insertPot pg hand k pot (ps, es) = Ok (ps1, es1)"
    and rest: "insert_pots pg hand (Suc k) pots (ps1, es1) = Ok (ps', es')" by auto
  from one have "ps1 = ps @ [\<lparr>po_hand_id = hand, po_position = int k, po_amount = pot_Amount pot\<rparr>]"
    "es1 = es @ eligible_rows hand k (pot_Eligible pot)"
    by (auto simp: insertPot_def Let_def dest: insert_eligible_Ok)
  with Cons.IH [OF rest] show ?case by (simp add: pot_rows_def all_eligible_rows_def)
qed

text \<open>The rows of one hand after a successful save, and those of the others.\<close>

lemma Save_Ok:
  assumes "Save pg db g = Ok db'"
  shows "upsertGameState pg g (db_states db) = Ok (db_states db')"
    "db_players db' = filter (\<lambda>r. pr_hand_id r \<noteq> g_ID g) (db_players db) @ map (player_row (g_ID g)) (g_Players g)"
    "db_board db' = filter (\<lambda>r. cr_hand_id r \<noteq> g_ID g) (db_board db) @ card_rows (g_ID g) 0 (g_Board g)"
    "db_deck db' = filter (\<lambda>r. cr_hand_id r \<noteq> g_ID g) (db_deck db)
      @ card_rows (g_ID g) 0 (case g_Deck g of Some deck \<Rightarrow> d_cards deck | None \<Rightarrow> [])"
    "db_pots db' = filter (\<lambda>r. po_hand_id r \<noteq> g_ID g) (db_pots db) @ pot_rows (g_ID g) 0 (g_Pots g)"
    "db_eligible db' = filter (\<lambda>r. el_hand_id r \<noteq> g_ID g) (db_eligible db) @ all_eligible_rows (g_ID g) 0 (g_Pots g)"
proof -
  obtain states players board deck pots eligible where
    "upsertGameState pg g (db_states db) = Ok states" "replacePlayers pg g (db_players db) = Ok players"
    "replaceBoard pg g (db_board db) = Ok board" "replaceDeck pg g (db_deck db) = Ok deck"
    "replacePots pg g (db_pots db, db_eligible db) = Ok (pots, eligible)"
    and db': "db' = \<lparr>db_states = states, db_players = players, db_board = board, db_deck = deck,
      db_pots = pots, db_eligible = eligible\<rparr>"
    using assms by (auto simp: Save_def)
  moreover have "card_rows h k [] = []" for h k by (simp add: card_rows_def)
  ultimately show "upsertGameState pg g (db_states db) = Ok (db_states db')"
    "db_players db' = filter (\<lambda>r. pr_hand_id r \<noteq> g_ID g) (db_players db) @ map (player_row (g_ID g)) (g_Players g)"
    "db_board db' = filter (\<lambda>r. cr_hand_id r \<noteq> g_ID g) (db_board db) @ card_rows (g_ID g) 0 (g_Board g)"
    "db_deck db' = filter (\<lambda>r. cr_hand_id r \<noteq> g_ID g) (db_deck db)
      @ card_rows (g_ID g) 0 (case g_Deck g of Some deck \<Rightarrow> d_cards deck | None \<Rightarrow> [])"
    "db_pots db' = filter (\<lambda>r. po_hand_id r \<noteq> g_ID g) (db_pots db) @ pot_rows (g_ID g) 0 (g_Pots g)"
    "db_eligible db' = filter (\<lambda>r. el_hand_id r \<noteq> g_ID g) (db_eligible db) @ all_eligible_rows (g_ID g) 0 (g_Pots g)"
    by (auto simp: replacePlayers_def replaceBoard_def replaceDeck_def replacePots_def deletePots_def
        dest!: insert_players_Ok insert_cards_Ok insert_pots_Ok split: option.splits)
qed

section \<open>Reading back\<close>

definition orderly :: "Pg \<Rightarrow> bool" where
  "orderly pg \<longleftrightarrow> (\<forall>rows. mset (pg_by_position pg rows) = mset rows \<and> sorted (map pr_position (pg_by_position pg rows)))
     \<and> permuting (pg_by_player_id pg)"

definition reads_ok :: "Pg \<Rightarrow> bool" where
  "reads_ok pg \<longleftrightarrow> (\<forall>i. \<forall>stmt \<in> {''find state'', ''load players'', ''load board'', ''load deck'', ''load pots'',
     ''load pot eligible''}. \<not> pg_fails pg stmt i)"

text \<open>States the tables can represent: known enumeration values, real cards, seats in order.\<close>

definition storable :: "GameState \<Rightarrow> bool" where
  "storable g \<longleftrightarrow> (\<forall>c \<in> set (cards_of g). IsValid c)
     \<and> sorted_wrt (<) (map p_Position (g_Players g))
     \<and> (\<forall>p \<in> set (g_Players g). \<forall>n. p_Status p \<noteq> PlayerStatusOther n)
     \<and> g_Street g \<le> StreetShowdown \<and> bc_Structure (g_BettingConfig g) = BettingFixedLimit"

text \<open>What a later read returns: the pots' players in identifier order, a deck without a shuffle.\<close>

definition reloaded :: "Pg \<Rightarrow> GameDB \<Rightarrow> GameState \<Rightarrow> GameState" where
  "reloaded pg db g =
     g\<lparr>g_TableID := (case find (\<lambda>r. gr_id r = g_ID g) (db_states db) of Some r \<Rightarrow> gr_table_id r | None \<Rightarrow> g_TableID g),
       g_Pots := map (\<lambda>p. p\<lparr>pot_Eligible := pg_by_player_id pg (pot_Eligible p)\<rparr>) (g_Pots g),
       g_Deck := Some (NewDeckFromCards (case g_Deck g of Some deck \<Rightarrow> d_cards deck | None \<Rightarrow> []))\<rparr>"

lemma collect_map: "(\<And>x. x \<in> set xs \<Longrightarrow> f (h x) = Ok (k x)) \<Longrightarrow> collect f (map h xs) = Ok (map k xs)"
  by (induction xs) auto

lemma filter_own [simp]:
  "filter (\<lambda>r. key r = h) (filter (\<lambda>r. key r \<noteq> h) rows) = []"
  "i \<noteq> h \<Longrightarrow> filter (\<lambda>r. key r = i) (filter (\<lambda>r. key r \<noteq> h) rows) = filter (\<lambda>r. key r = i) rows"
  by (auto simp: filter_empty_conv conj_commute intro: filter_cong)

lemma by_position_sorted:
  assumes "orderly pg" "sorted_wrt (<) (map pr_position rows)"
  shows "pg_by_position pg rows = rows"
proof -
  let ?r = "pg_by_position pg rows"
  have m: "mset ?r = mset rows" and s: "sorted (map pr_position ?r)" using assms(1) by (auto simp: orderly_def)
  have d: "distinct (map pr_position rows)" using assms(2) strict_sorted_iff by blast
  have "mset (map pr_position ?r) = mset (map pr_position rows)" using m by simp
  then have d': "distinct (map pr_position ?r)" using d mset_eq_imp_distinct_iff by blast
  have set: "set ?r = set rows" using m mset_eq_setD by blast
  have "inj_on pr_position (set ?r \<union> set rows)" using d set by (simp add: distinct_map)
  moreover have "sorted (map pr_position rows)" using assms(2) strict_sorted_iff by blast
  ultimately show ?thesis using map_sorted_distinct_set_unique [of pr_position ?r rows] s d d' set by blast
qed

lemma mappers_roundtrip [simp]:
  "s \<le> StreetShowdown \<Longrightarrow> streetFromString (streetToString s) = s"
  "\<forall>n. st \<noteq> PlayerStatusOther n \<Longrightarrow> playerStatusFromString (playerStatusToString st) = st"
  by (cases s; simp add: streetFromString_def less_eq_Street_def)
    (cases st; simp add: playerStatusFromString_def)

lemma sorted_enumerate_positions: "sorted (map (\<lambda>(i, x). int i) (enumerate k xs))"
  by (induction xs arbitrary: k) (auto simp: in_set_enumerate_eq)

lemma card_rows_filter [simp]:
  "filter (\<lambda>r. cr_hand_id r = h) (card_rows h k cs) = card_rows h k cs"
  "i \<noteq> h \<Longrightarrow> filter (\<lambda>r. cr_hand_id r = i) (card_rows h k cs) = []"
  by (auto simp: card_rows_def filter_empty_conv intro!: filter_True)

lemma sort_card_rows [simp]: "sort_key cr_position (card_rows h k cs) = card_rows h k cs"
proof (rule sort_key_id_if_sorted)
  have "map cr_position (card_rows h k cs) = map (\<lambda>(i, x). int i) (enumerate k cs)"
    by (simp add: card_rows_def case_prod_unfold)
  then show "sorted (map cr_position (card_rows h k cs))" using sorted_enumerate_positions by metis
qed

lemma collect_card_rows:
  assumes "\<forall>c \<in> set cs. IsValid c"
  shows "collect (\<lambda>r. map_err e (ParseCard (cr_card r))) (card_rows h k cs) = Ok cs"
proof -
  have "collect (\<lambda>r. map_err e (ParseCard (cr_card r))) (card_rows h k cs) = Ok (map snd (enumerate k cs))"
    unfolding card_rows_def
    by (rule collect_map) (use assms in \<open>auto simp: cardToString_def ParseCard_Card_String in_set_enumerate_eq\<close>)
  then show ?thesis by simp
qed

lemma pot_rows_filter [simp]:
  "filter (\<lambda>r. po_hand_id r = h) (pot_rows h k pots) = pot_rows h k pots"
  "i \<noteq> h \<Longrightarrow> filter (\<lambda>r. po_hand_id r = i) (pot_rows h k pots) = []"
  by (auto simp: pot_rows_def filter_empty_conv intro!: filter_True)

lemma sort_pot_rows [simp]: "sort_key po_position (pot_rows h k pots) = pot_rows h k pots"
proof (rule sort_key_id_if_sorted)
  have "map po_position (pot_rows h k pots) = map (\<lambda>(i, x). int i) (enumerate k pots)"
    by (simp add: pot_rows_def case_prod_unfold)
  then show "sorted (map po_position (pot_rows h k pots))" using sorted_enumerate_positions by metis
qed

lemma eligible_rows_filter:
  "filter (\<lambda>r. el_hand_id r = h \<and> el_pot_position r = int j) (eligible_rows h k is)
    = (if j = k then eligible_rows h k is else [])"
  by (induction "is") (auto simp: eligible_rows_def)

lemma all_eligible_rows_filter:
  "(i, pot) \<in> set (enumerate k pots) \<Longrightarrow>
    filter (\<lambda>r. el_hand_id r = h \<and> el_pot_position r = int i) (all_eligible_rows h k pots)
      = eligible_rows h i (pot_Eligible pot)"
proof (induction pots arbitrary: k)
  case (Cons q pots)
  have none: "filter (\<lambda>r. el_hand_id r = h \<and> el_pot_position r = int k) (all_eligible_rows h j pots) = []"
    if "k < j" for j
    using that
    by (auto simp: all_eligible_rows_def eligible_rows_def filter_empty_conv in_set_enumerate_eq)
  show ?case
  proof (cases "i = k")
    case True
    then have "pot = q" using Cons.prems by (auto simp: in_set_enumerate_eq)
    then show ?thesis
      using True none [of "Suc k"] by (simp add: all_eligible_rows_def eligible_rows_filter)
  next
    case False
    then have "(i, pot) \<in> set (enumerate (Suc k) pots)" using Cons.prems by auto
    then show ?thesis
      using Cons.IH [of "Suc k"] False by (simp add: all_eligible_rows_def eligible_rows_filter)
  qed
qed simp

lemma all_eligible_rows_other:
  "i \<noteq> h \<Longrightarrow> filter (\<lambda>r. el_hand_id r = i \<and> P r) (all_eligible_rows h k pots) = []"
  by (auto simp: all_eligible_rows_def eligible_rows_def filter_empty_conv)

lemma player_row_filter [simp]:
  "filter (\<lambda>r. pr_hand_id r = h) (map (player_row h) ps) = map (player_row h) ps"
  "i \<noteq> h \<Longrightarrow> filter (\<lambda>r. pr_hand_id r = i) (map (player_row h) ps) = []"
  by (auto simp: player_row_def filter_empty_conv intro!: filter_True)

lemma player_of_player_row:
  "\<lbrakk>IsValid (fst (p_HoleCards p)); IsValid (snd (p_HoleCards p)); \<forall>n. p_Status p \<noteq> PlayerStatusOther n\<rbrakk>
    \<Longrightarrow> player_of_row (player_row h p) = Ok p"
  by (simp add: player_of_row_def player_row_def cardToString_def ParseCard_Card_String)

lemma find_upsert:
  assumes "upsertGameState pg g rows = Ok rows'"
  shows "find (\<lambda>r. gr_id r = g_ID g) rows' = Some ((game_row g)\<lparr>gr_table_id :=
      (case find (\<lambda>r. gr_id r = g_ID g) rows of Some r \<Rightarrow> gr_table_id r | None \<Rightarrow> g_TableID g)\<rparr>)"
    and "i \<noteq> g_ID g \<Longrightarrow> find (\<lambda>r. gr_id r = i) rows' = find (\<lambda>r. gr_id r = i) rows"
proof -
  let ?new = "game_row g"
  let ?upd = "map (\<lambda>r. if gr_id r = g_ID g then ?new\<lparr>gr_table_id := gr_table_id r\<rparr> else r)"
  have id: "gr_id ?new = g_ID g" and t: "?new\<lparr>gr_table_id := g_TableID g\<rparr> = ?new" by (simp_all add: game_row_def)
  have rows': "rows' = (if \<exists>r \<in> set rows. gr_id r = g_ID g then ?upd rows else rows @ [?new])"
    using assms by (auto simp: upsertGameState_def Let_def id list_ex_iff)
  have app: "find P (rs @ [x]) = (case find P rs of None \<Rightarrow> if P x then Some x else None | Some y \<Rightarrow> Some y)"
    for P and rs :: "GameRow list" and x by (induction rs) auto
  have upd: "find (\<lambda>r. gr_id r = g_ID g) (?upd rs) =
      map_option (\<lambda>r. ?new\<lparr>gr_table_id := gr_table_id r\<rparr>) (find (\<lambda>r. gr_id r = g_ID g) rs)" for rs
    by (induction rs) (auto simp: id)
  show "find (\<lambda>r. gr_id r = g_ID g) rows' = Some (?new\<lparr>gr_table_id :=
      (case find (\<lambda>r. gr_id r = g_ID g) rows of Some r \<Rightarrow> gr_table_id r | None \<Rightarrow> g_TableID g)\<rparr>)"
  proof (cases "find (\<lambda>r. gr_id r = g_ID g) rows")
    case None
    then have "rows' = rows @ [?new]" using rows' by (auto simp: find_None_iff)
    then show ?thesis using None id t by (simp add: app)
  next
    case (Some y)
    then have "\<exists>r \<in> set rows. gr_id r = g_ID g" by (auto simp: find_Some_iff)
    then show ?thesis using Some rows' upd by simp
  qed
  assume i: "i \<noteq> g_ID g"
  have "find (\<lambda>r. gr_id r = i) (?upd rows) = find (\<lambda>r. gr_id r = i) rows"
    using i by (induction rows) (auto simp: id)
  moreover have "find (\<lambda>r. gr_id r = i) (rows @ [?new]) = find (\<lambda>r. gr_id r = i) rows"
    using i by (simp add: app id split: option.split)
  ultimately show "find (\<lambda>r. gr_id r = i) rows' = find (\<lambda>r. gr_id r = i) rows"
    unfolding rows' by (cases "\<exists>r \<in> set rows. gr_id r = g_ID g") (simp_all only: if_True if_False simp_thms)
qed

lemma storable_cards:
  assumes "storable g"
  shows "\<forall>c \<in> set (g_Board g). IsValid c"
    "\<forall>c \<in> set (case g_Deck g of Some deck \<Rightarrow> d_cards deck | None \<Rightarrow> []). IsValid c"
    "\<forall>p \<in> set (g_Players g). IsValid (fst (p_HoleCards p)) \<and> IsValid (snd (p_HoleCards p))"
  using assms by (auto simp: storable_def cards_of_def hole_cards_def)

lemma Save_FindByID:
  assumes pg: "orderly pg" "reads_ok pg" and save: "Save pg db g = Ok db'" and g: "storable g"
  shows "FindByID pg db' (g_ID g) = Ok (reloaded pg db g)"
proof -
  note t = Save_Ok [OF save] and cards = storable_cards [OF g]
  let ?h = "g_ID g"
  have ok: "\<not> pg_fails pg ''find state'' i" "\<not> pg_fails pg ''load players'' i" "\<not> pg_fails pg ''load board'' i"
    "\<not> pg_fails pg ''load deck'' i" "\<not> pg_fails pg ''load pots'' i" "\<not> pg_fails pg ''load pot eligible'' i" for i
    using pg(2) by (auto simp: reads_ok_def)
  have ex: "exec pg stmt i True x = Ok x" if "\<not> pg_fails pg stmt i" for stmt i and x :: 'z
    using that by (simp add: exec_def)
  have "map pr_position (map (player_row ?h) (g_Players g)) = map p_Position (g_Players g)"
    by (simp add: player_row_def)
  then have seats: "pg_by_position pg (map (player_row ?h) (g_Players g)) = map (player_row ?h) (g_Players g)"
    using g by (intro by_position_sorted [OF pg(1)]) (simp only: storable_def)
  have "collect player_of_row (map (player_row ?h) (g_Players g)) = Ok (map (\<lambda>p. p) (g_Players g))"
    by (rule collect_map) (use cards(3) g in \<open>auto simp: storable_def intro!: player_of_player_row\<close>)
  then have players: "loadPlayers pg ?h (db_players db') = Ok (g_Players g)"
    by (simp add: loadPlayers_def t(2) seats ex ok)
  have board: "loadBoard pg ?h (db_board db') = Ok (g_Board g)"
    by (simp add: loadBoard_def t(3) ex ok collect_card_rows [OF cards(1)])
  have deck: "loadDeck pg ?h (db_deck db') = Ok (NewDeckFromCards (case g_Deck g of Some deck \<Rightarrow> d_cards deck | None \<Rightarrow> []))"
    by (simp add: loadDeck_def t(4) ex ok collect_card_rows [OF cards(2)])
  let ?again = "\<lambda>p. p\<lparr>pot_Eligible := pg_by_player_id pg (pot_Eligible p)\<rparr>"
  have own: "filter (\<lambda>r. el_hand_id r = ?h \<and> Q r) (filter (\<lambda>r. el_hand_id r \<noteq> ?h) es) = []" for Q es
    by (auto simp: filter_empty_conv)
  have "collect (\<lambda>r. bind_outcome (loadPotEligible pg ?h (po_position r) (db_eligible db'))
      (\<lambda>ids. Ok \<lparr>pot_Amount = po_amount r, pot_Eligible = ids\<rparr>)) (pot_rows ?h 0 (g_Pots g))
      = Ok (map (\<lambda>(i, p). ?again p) (enumerate 0 (g_Pots g)))"
    unfolding pot_rows_def
  proof (rule collect_map)
    fix x
    assume "x \<in> set (enumerate 0 (g_Pots g))"
    then obtain i pot where x: "x = (i, pot)" "(i, pot) \<in> set (enumerate 0 (g_Pots g))" by (metis surj_pair)
    from all_eligible_rows_filter [OF x(2), of ?h]
    have "loadPotEligible pg ?h (int i) (db_eligible db') = Ok (pg_by_player_id pg (pot_Eligible pot))"
      by (simp add: loadPotEligible_def t(6) own ex ok eligible_rows_def comp_def)
    then show "bind_outcome (loadPotEligible pg ?h (po_position (case x of (i, pot) \<Rightarrow>
          \<lparr>po_hand_id = ?h, po_position = int i, po_amount = pot_Amount pot\<rparr>)) (db_eligible db'))
        (\<lambda>ids. Ok \<lparr>pot_Amount = po_amount (case x of (i, pot) \<Rightarrow>
          \<lparr>po_hand_id = ?h, po_position = int i, po_amount = pot_Amount pot\<rparr>), pot_Eligible = ids\<rparr>)
        = Ok (case x of (i, p) \<Rightarrow> ?again p)"
      by (simp add: x(1))
  qed
  moreover have "map (\<lambda>(i, p). ?again p) (enumerate 0 (g_Pots g)) = map ?again (g_Pots g)"
    by (rule nth_equalityI) (simp_all add: nth_enumerate_eq)
  ultimately have pots: "loadPots pg ?h (db_pots db') (db_eligible db') = Ok (map ?again (g_Pots g))"
    by (simp add: loadPots_def t(5) ex ok)
  show ?thesis
    using g unfolding FindByID_def players board deck pots findGameState_def find_upsert(1) [OF t(1)]
    by (simp add: ex ok reloaded_def game_row_def storable_def bettingStructureFromString_def)
qed

lemma Save_FindByID_other:
  assumes save: "Save pg db g = Ok db'" and i: "i \<noteq> g_ID g"
  shows "FindByID pg db' i = FindByID pg db i"
proof -
  note t = Save_Ok [OF save]
  have other: "filter (\<lambda>r. el_hand_id r = i \<and> Q r) (filter (\<lambda>r. el_hand_id r \<noteq> g_ID g) es)
      = filter (\<lambda>r. el_hand_id r = i \<and> Q r) es" for Q es
    using i by (auto intro: filter_cong)
  have "loadPotEligible pg i k (db_eligible db') = loadPotEligible pg i k (db_eligible db)" for k
    using i by (simp add: loadPotEligible_def t(6) other all_eligible_rows_other del: filter_filter)
  then have "loadPots pg i (db_pots db') (db_eligible db') = loadPots pg i (db_pots db) (db_eligible db)"
    using i by (simp add: loadPots_def t(5) del: filter_filter)
  then show ?thesis
    using i by (simp add: FindByID_def findGameState_def find_upsert(2) [OF t(1)] loadPlayers_def loadBoard_def
        loadDeck_def t(2-4) del: filter_filter)
qed

text \<open>
  C25: What is saved is what is found. After a successful \<open>Save\<close>, \<open>FindByID\<close> returns the same hand
  (players, cards, bets, pots, counters; only the players of a pot come back in identifier order
  and the deck without its shuffle), and every other hand reads exactly as before.
\<close>

theorem Save_then_FindByID:
  assumes "orderly pg" "reads_ok pg" "storable g" "Save pg db g = Ok db'"
  shows "FindByID pg db' (g_ID g) = Ok (reloaded pg db g)
    \<and> (\<forall>i. i \<noteq> g_ID g \<longrightarrow> FindByID pg db' i = FindByID pg db i)"
  using Save_FindByID [OF assms(1,2,4,3)] Save_FindByID_other [OF assms(4)] by blast

definition good_pg :: Pg where
  "good_pg = \<lparr>pg_fails = (\<lambda>s i. False), pg_by_position = sort_key pr_position, pg_by_player_id = (\<lambda>xs. xs)\<rparr>"

definition empty_db :: GameDB where
  "empty_db = \<lparr>db_states = [], db_players = [], db_board = [], db_deck = [], db_pots = [], db_eligible = []\<rparr>"

lemma good_pg [simp]: "orderly good_pg" "reads_ok good_pg"
  by (simp_all add: orderly_def reads_ok_def good_pg_def)

theorem Save_then_FindByID_witness:
  defines "g \<equiv> (ex_hand [ex_player ''a'' 60 10 PlayerStatusActive]
      [\<lparr>pot_Amount = 40, pot_Eligible = [''a'']\<rparr>] StreetFlop 10)\<lparr>g_Deck := None\<rparr>"
  shows "\<exists>db'. Save good_pg empty_db g = Ok db' \<and> is_ok (FindByID good_pg db' ''h'')"
proof -
  note ex = g_def ex_hand_def ex_player_def
  have st: "storable g"
    by (auto simp: ex storable_def cards_of_def hole_cards_def IsValid_def NewCard_def less_eq_Street_def)
  have "\<exists>db'. Save good_pg empty_db g = Ok db'"
    by (simp add: ex Save_def exec_def good_pg_def empty_db_def upsertGameState_def game_row_ok_def game_row_def
        in_int32_def in_int64_def replacePlayers_def replaceBoard_def replaceDeck_def replacePots_def deletePots_def
        insertPot_def player_row_ok_def player_row_def Let_def)
  then obtain db' where sv: "Save good_pg empty_db g = Ok db'" by blast
  have "g_ID g = ''h''" by (simp add: ex)
  then show ?thesis using Save_then_FindByID [OF good_pg st sv] sv by auto
qed

section \<open>The repository as an interface\<close>

text \<open>Two states that differ only in what the tables do not keep.\<close>

definition same_hand :: "GameState \<Rightarrow> GameState \<Rightarrow> bool" where
  "same_hand h g \<longleftrightarrow> g_ID h = g_ID g \<and> g_Players h = g_Players g \<and> g_Board h = g_Board g
     \<and> map pot_Amount (g_Pots h) = map pot_Amount (g_Pots g)
     \<and> map (\<lambda>p. mset (pot_Eligible p)) (g_Pots h) = map (\<lambda>p. mset (pot_Eligible p)) (g_Pots g)
     \<and> g_Street h = g_Street g \<and> g_CurrentBet h = g_CurrentBet g \<and> g_ActivePlayer h = g_ActivePlayer g
     \<and> g_Button h = g_Button g \<and> g_EventSequence h = g_EventSequence g \<and> g_BettingConfig h = g_BettingConfig g
     \<and> g_RaisesThisStreet h = g_RaisesThisStreet g \<and> map_option d_cards (g_Deck h) = map_option d_cards (g_Deck g)"

text \<open>
  What the use cases rely on: a saved hand that has a deck is found again, up to the above, and
  saving it touches no other hand.
\<close>

locale game_repository =
  fixes find_hand :: "'db \<Rightarrow> HandID \<Rightarrow> (engine_err, GameState) outcome"
    and save_hand :: "'db \<Rightarrow> GameState \<Rightarrow> (engine_err, 'db) outcome"
  assumes find_saved: "\<lbrakk>save_hand db g = Ok db'; storable g; g_Deck g \<noteq> None\<rbrakk>
      \<Longrightarrow> \<exists>h. find_hand db' (g_ID g) = Ok h \<and> same_hand h g"
    and find_other: "\<lbrakk>save_hand db g = Ok db'; i \<noteq> g_ID g\<rbrakk> \<Longrightarrow> find_hand db' i = find_hand db i"

lemma reloaded_same_hand:
  "\<lbrakk>orderly pg; g_Deck g \<noteq> None\<rbrakk> \<Longrightarrow> same_hand (reloaded pg db g) g"
  by (auto simp: same_hand_def reloaded_def orderly_def permuting_def NewDeckFromCards_def comp_def)

lemma postgres_repository:
  assumes "orderly pg" "reads_ok pg"
  shows "game_repository (FindByID pg) (Save pg)"
  by unfold_locales
    (use Save_FindByID [OF assms] reloaded_same_hand [OF assms(1)] Save_FindByID_other in blast)+

text \<open>With a server that answers every read, in particular with the one that never fails.\<close>

interpretation postgres: game_repository "FindByID good_pg" "Save good_pg"
  by (rule postgres_repository [OF good_pg])

end
