(* ===== verification/WholeHand.thy ===== *)
theory WholeHand
  imports GameRepo
begin

text \<open>
  A hand from its first card to its settlement, as a client of the repository sees it: the state
  returned by \<open>StartHand.Execute\<close> and the worlds reached from it by successful calls of
  \<open>ApplyAction.Execute\<close>, each of which loads the hand from the repository and saves it again.

  The argument is made once, for any repository that finds what was saved
  (\<open>game_repository\<close>), and then applied to the Postgres repository.
\<close>

section \<open>What a reload keeps\<close>

lemma same_hand_pots:
  assumes "same_hand h g"
  shows "list_all2 (\<lambda>p q. pot_Amount p = pot_Amount q \<and> mset (pot_Eligible p) = mset (pot_Eligible q)) (g_Pots h) (g_Pots g)"
proof -
  have pairs: "map f xs = map f ys \<Longrightarrow> map k xs = map k ys \<Longrightarrow> list_all2 (\<lambda>x y. f x = f y \<and> k x = k y) xs ys"
    for f :: "Pot \<Rightarrow> int" and k :: "Pot \<Rightarrow> PlayerID multiset" and xs ys
    by (induction xs arbitrary: ys) auto
  show ?thesis using assms by (intro pairs) (simp_all add: same_hand_def)
qed

lemma wf_pot_same:
  "\<lbrakk>pot_Amount p = pot_Amount q; mset (pot_Eligible p) = mset (pot_Eligible q)\<rbrakk> \<Longrightarrow> wf_pot ps p = wf_pot ps q"
  using mset_eq_setD [of "pot_Eligible p" "pot_Eligible q"] mset_eq_imp_distinct_iff [of "pot_Eligible p" "pot_Eligible q"]
  by (simp add: wf_pot_def)

lemma same_hand_running:
  assumes s: "same_hand h g" and g: "running g"
  shows "running h"
proof -
  note eqs = s [unfolded same_hand_def]
  have "\<forall>pot \<in> set (g_Pots g). wf_pot (g_Players g) pot" using g by (simp add: running_def wf_hand_def)
  then have "\<forall>pot \<in> set (g_Pots h). wf_pot (g_Players g) pot"
    using same_hand_pots [OF s] wf_pot_same by (metis (mono_tags, lifting) list_all2_conv_all_nth in_set_conv_nth)
  moreover have "turn_queue h = turn_queue g" "owes h = owes g" "IsBettingRoundOver h = IsBettingRoundOver g"
    using eqs by (auto simp: turn_queue_def owes_def IsBettingRoundOver_def)
  ultimately show ?thesis
    using g eqs by (simp add: running_def wf_hand_def in_turn_def)
qed

lemma same_hand_measures:
  assumes "same_hand h g"
  shows "chips_in_play h = chips_in_play g" "cards_of h = cards_of g" "remaining_actions h = remaining_actions g"
    "storable h = storable g" "(g_Deck h = None) = (g_Deck g = None)"
proof -
  note eqs = assms [unfolded same_hand_def]
  have "Total (g_Pots h) = Total (g_Pots g)" using eqs by (simp add: Total_def)
  then show "chips_in_play h = chips_in_play g" using eqs by (simp add: chips_in_play_def)
  have "(case g_Deck h of Some d \<Rightarrow> d_cards d | None \<Rightarrow> []) = (case g_Deck g of Some d \<Rightarrow> d_cards d | None \<Rightarrow> [])"
    and "(g_Deck h = None) = (g_Deck g = None)"
    using eqs by (auto split: option.splits)
  then show c: "cards_of h = cards_of g" and "(g_Deck h = None) = (g_Deck g = None)"
    using eqs by (simp_all add: cards_of_def)
  have "turn_queue h = turn_queue g" "owes h = owes g" using eqs by (auto simp: turn_queue_def owes_def)
  then show "remaining_actions h = remaining_actions g" using eqs by (simp add: remaining_actions_def)
  show "storable h = storable g" using eqs c by (simp add: storable_def)
qed

section \<open>What an action keeps\<close>

text \<open>The seats, the identity and the limits of a hand never change; a deck is never lost.\<close>

definition same_seats :: "GameState \<Rightarrow> GameState \<Rightarrow> bool" where
  "same_seats g g' \<longleftrightarrow> g_ID g' = g_ID g \<and> g_BettingConfig g' = g_BettingConfig g
     \<and> map p_Position (g_Players g') = map p_Position (g_Players g) \<and> map p_ID (g_Players g') = map p_ID (g_Players g)
     \<and> ((\<forall>p \<in> set (g_Players g). \<forall>n. p_Status p \<noteq> PlayerStatusOther n)
        \<longrightarrow> (\<forall>p \<in> set (g_Players g'). \<forall>n. p_Status p \<noteq> PlayerStatusOther n))
     \<and> (g_Deck g \<noteq> None \<longrightarrow> g_Deck g' \<noteq> None)"

lemma same_seats_trans [trans]: "same_seats g h \<Longrightarrow> same_seats h k \<Longrightarrow> same_seats g k"
  unfolding same_seats_def by (elim conjE, intro conjI) ((rule trans; assumption) | blast)+

lemma same_seats_ApplyAction:
  assumes "ApplyAction g a = Ok g'"
  shows "same_seats g g'"
proof -
  have i: "g_ActivePlayer g < length (g_Players g)" by (rule ApplyAction_frame(12) [OF assms])
  have "\<exists>p. g_Players g' = (g_Players g)[g_ActivePlayer g := p]
      \<and> p_Position p = p_Position (g_Players g ! g_ActivePlayer g)
      \<and> (p_Status p = p_Status (g_Players g ! g_ActivePlayer g)
        \<or> p_Status p = PlayerStatusFolded \<or> p_Status p = PlayerStatusAllIn)"
    using assms
    by (intro exI [of _ "g_Players g' ! g_ActivePlayer g"]; cases "a_Type a")
      (auto simp: ApplyAction_def Let_def split: if_splits)
  then obtain p where p: "g_Players g' = (g_Players g)[g_ActivePlayer g := p]"
    "p_Position p = p_Position (g_Players g ! g_ActivePlayer g)"
    "p_Status p = p_Status (g_Players g ! g_ActivePlayer g)
      \<or> p_Status p = PlayerStatusFolded \<or> p_Status p = PlayerStatusAllIn" by blast
  have "map p_Position (g_Players g') = map p_Position (g_Players g)"
    using p(1,2) i by (simp add: map_update)
  moreover have "\<forall>n. p_Status q \<noteq> PlayerStatusOther n"
    if "\<forall>p \<in> set (g_Players g). \<forall>n. p_Status p \<noteq> PlayerStatusOther n" "q \<in> set (g_Players g')" for q
    using that p(1,3) i set_update_subset_insert [of "g_Players g"] by (metis PlayerStatus.distinct insert_iff nth_mem subsetD)
  ultimately show ?thesis using ApplyAction_frame [OF assms] ApplyAction_ids [OF assms] by (simp add: same_seats_def)
qed

lemma same_seats_eq:
  "\<lbrakk>g_ID g' = g_ID g; g_BettingConfig g' = g_BettingConfig g;
    map p_Position (g_Players g') = map p_Position (g_Players g); map p_ID (g_Players g') = map p_ID (g_Players g);
    map p_Status (g_Players g') = map p_Status (g_Players g); g_Deck g \<noteq> None \<Longrightarrow> g_Deck g' \<noteq> None\<rbrakk>
    \<Longrightarrow> same_seats g g'"
  unfolding same_seats_def by (metis (no_types, lifting) image_eqI image_iff list.set_map)

lemma same_seats_CollectBets: "same_seats g (CollectBets iter g)"
  by (rule same_seats_eq) (simp_all add: CollectBets_players)

lemma same_seats_advanceStreet:
  assumes "advanceStreet iter g = Ok g'"
  shows "same_seats g g'"
proof -
  have "g_Deck g' \<noteq> None" if "g_Deck g \<noteq> None"
    using assms that
    by (auto simp: advanceStreet_def deal_to_board_def Let_def split: Street.splits outcome.splits option.splits)
  then show ?thesis
    using advanceStreet_Ok(1,6,7) [OF assms] by (intro same_seats_eq) (simp_all add: CollectBets_players)
qed

lemma same_seats_FinishHand:
  assumes "FinishHand_Execute d g w = (Ok g', w')"
  shows "same_seats g g'"
proof -
  obtain rake ws where s: "settled d g = (rake, ws, g')"
    using FinishHand_Execute_Ok(1) [OF assms] by (metis prod.collapse)
  show ?thesis
    using settled_frame(2,5,7) [OF s] settled_award [OF s]
    by (intro same_seats_eq) (simp_all add: award_players CollectBets_players)
qed

lemma same_seats_continue_hand:
  assumes "continue_hand d g w = (Ok g', w')"
  shows "same_seats g g'"
  using assms
proof (cases rule: continue_hand_Ok)
  case Finish
  show ?thesis by (rule same_seats_FinishHand [OF Finish(2)])
next
  case (Showdown s')
  then show ?thesis using same_seats_advanceStreet same_seats_FinishHand same_seats_trans by blast
next
  case Street
  show ?thesis by (rule same_seats_advanceStreet [OF Street(3)])
next
  case Turn
  then show ?thesis by (simp add: same_seats_def)
qed

lemma storable_same_seats:
  "\<lbrakk>storable g; same_seats g g'; mset (cards_of g') = mset (cards_of g); g_Street g' \<le> StreetShowdown\<rbrakk> \<Longrightarrow> storable g'"
  using mset_eq_setD [of "cards_of g'" "cards_of g"] by (simp add: storable_def same_seats_def)

section \<open>Playing a hand\<close>

text \<open>
  \<open>plays d g w n g' w'\<close>: from the state \<open>g\<close> returned last, in world \<open>w\<close>, \<open>n\<close> accepted actions lead to
  \<open>g'\<close> in \<open>w'\<close>, each of them on a hand that is not yet at the showdown. \<open>accepts\<close> is the same without
  that restriction: the engine itself does not look at the street when it validates an action.
\<close>

inductive plays :: "'db Deps \<Rightarrow> GameState \<Rightarrow> 'db World \<Rightarrow> nat \<Rightarrow> GameState \<Rightarrow> 'db World \<Rightarrow> bool" for d g w where
  start: "plays d g w 0 g w"
| act: "\<lbrakk>plays d g w n h v; g_Street h < StreetShowdown;
    ApplyAction_Execute d \<lparr>ai_HandID = g_ID h, ai_Action = a\<rparr> v = (Ok g', w')\<rbrakk> \<Longrightarrow> plays d g w (Suc n) g' w'"

inductive accepts :: "'db Deps \<Rightarrow> GameState \<Rightarrow> 'db World \<Rightarrow> nat \<Rightarrow> GameState \<Rightarrow> 'db World \<Rightarrow> bool" for d g w where
  none: "accepts d g w 0 g w"
| one_more: "\<lbrakk>accepts d g w n h v; ApplyAction_Execute d \<lparr>ai_HandID = g_ID h, ai_Action = a\<rparr> v = (Ok g', w')\<rbrakk>
    \<Longrightarrow> accepts d g w (Suc n) g' w'"

text \<open>A hand that is saved in the repository and can be found there.\<close>

definition on_file :: "'db Deps \<Rightarrow> GameState \<Rightarrow> 'db World \<Rightarrow> bool" where
  "on_file d g w \<longleftrightarrow> storable g \<and> g_Deck g \<noteq> None \<and> (\<exists>h. dp_FindByID d (w_db w) (g_ID g) = Ok h \<and> same_hand h g)"

text \<open>How the game stands after some actions: still going on, or settled by one last event.\<close>

definition in_play :: "'db Deps \<Rightarrow> int \<Rightarrow> GameState \<Rightarrow> 'db World \<Rightarrow> bool" where
  "in_play d chips g w \<longleftrightarrow> on_file d g w \<and> running g \<and> chips_in_play g = chips"

definition paid_out :: "int \<Rightarrow> GameState \<Rightarrow> 'db World \<Rightarrow> bool" where
  "paid_out chips g w \<longleftrightarrow> g_Street g = StreetShowdown
     \<and> (\<exists>evs e. w_events w = evs @ [EvHandEnded e] \<and> stacks (g_Players g) + he_Rake e = chips)"

locale hand_engine = game_repository "dp_FindByID d" "dp_Save d" for d :: "'db Deps" +
  assumes sound: "sound_deps d"
begin

lemma saved_on_file:
  "\<lbrakk>dp_Save d db g = Ok (w_db w); storable g; g_Deck g \<noteq> None\<rbrakk> \<Longrightarrow> on_file d g w"
  using find_saved by (auto simp: on_file_def)

lemma one_action:
  assumes g: "in_play d chips g w" "chips \<le> 2 ^ 53"
    and run: "ApplyAction_Execute d \<lparr>ai_HandID = g_ID g, ai_Action = a\<rparr> w = (Ok g', w')"
  shows "mset (cards_of g') = mset (cards_of g)"
    and "in_play d chips g' w' \<and> remaining_actions g' < remaining_actions g \<or> paid_out chips g' w'"
    and "map p_ID (g_Players g') = map p_ID (g_Players g)"
proof -
  obtain h where h: "dp_FindByID d (w_db w) (g_ID g) = Ok h" "same_hand h g" "storable g" "g_Deck g \<noteq> None"
    and gr: "running g" "chips_in_play g = chips"
    using g(1) by (auto simp: in_play_def on_file_def)
  note m = same_hand_measures [OF h(2)]
  have hr: "running h" by (rule same_hand_running [OF h(2) gr(1)])
  have big: "chips_in_play h \<le> 2 ^ 53" using m(1) gr(2) g(2) by simp
  obtain g1 w1 where val: "ValidateAction h a = Ok ()" and app: "ApplyAction h a = Ok g1"
    and cont: "continue_hand d (g1\<lparr>g_EventSequence := g_EventSequence h + 1\<rparr>) w1 = (Ok g', w')"
    using h(1) by (rule_tac ApplyAction_Execute_Ok [OF run]) simp
  note spec = continue_hand_spec [OF hr val app sound big cont]
  have c: "cards_of g' = cards_of h"
    using cards_of_continue_hand [OF cont] cards_of_ApplyAction [OF app] by (simp add: cards_of_def)
  then show "mset (cards_of g') = mset (cards_of g)" using m(2) by simp
  have "same_seats h g1" by (rule same_seats_ApplyAction [OF app])
  also have "same_seats g1 (g1\<lparr>g_EventSequence := g_EventSequence h + 1\<rparr>)" by (simp add: same_seats_def)
  also have "same_seats (g1\<lparr>g_EventSequence := g_EventSequence h + 1\<rparr>) g'" by (rule same_seats_continue_hand [OF cont])
  finally have seats: "same_seats h g'" .
  show "map p_ID (g_Players g') = map p_ID (g_Players g)" using seats h(2) by (simp add: same_seats_def same_hand_def)
  have deck: "g_Deck g' \<noteq> None" using seats m(5) h(4) by (simp add: same_seats_def)
  from spec(2) show "in_play d chips g' w' \<and> remaining_actions g' < remaining_actions g \<or> paid_out chips g' w'"
  proof
    assume on: "in_progress h g' \<and> w_events w' = w_events w1 \<and> g_EventSequence g' = g_EventSequence h + 1"
    then have st: "g_Street g' < StreetShowdown" by (simp add: in_progress_def running_def)
    then have "g_Street g' \<le> StreetShowdown" by (auto simp: less_Street_def less_eq_Street_def)
    then have "storable g'" using storable_same_seats [OF _ seats] c m(4) h(3) by simp
    then have "on_file d g' w'" by (rule saved_on_file [OF spec(1) _ deck])
    moreover have "remaining_actions g' < remaining_actions h"
      using sound by (intro remaining_actions_decrease [OF hr val app _ cont st]) (simp add: sound_deps_def)
    ultimately show ?thesis using on m gr by (simp add: in_play_def in_progress_def)
  next
    assume "g_Street g' = StreetShowdown \<and> g_EventSequence g' = g_EventSequence h + 1 + 1
      \<and> (\<exists>e. w_events w' = w_events w1 @ [EvHandEnded e] \<and> he_SequenceNumber e = g_EventSequence h + 1 + 1
        \<and> stacks (g_Players g') + he_Rake e = chips_in_play h)"
    then show ?thesis using m gr by (auto simp: paid_out_def)
  qed
qed

lemma plays_sound:
  assumes "plays d g w n g' w'" "in_play d chips g w" "chips \<le> 2 ^ 53"
  shows "mset (cards_of g') = mset (cards_of g) \<and> map p_ID (g_Players g') = map p_ID (g_Players g)
    \<and> (in_play d chips g' w' \<and> n + remaining_actions g' \<le> remaining_actions g
      \<or> paid_out chips g' w' \<and> n \<le> Suc (remaining_actions g))"
  using assms
proof (induction rule: plays.induct)
  case start
  then show ?case by simp
next
  case (act n h v a g' w')
  then have h: "mset (cards_of h) = mset (cards_of g)" "in_play d chips h v" "n + remaining_actions h \<le> remaining_actions g"
      "map p_ID (g_Players h) = map p_ID (g_Players g)"
    by (auto simp: paid_out_def)
  show ?case using one_action [OF h(2) act.prems(2) act.hyps(3)] h by auto
qed

text \<open>Any accepted actions: still in play, or the hand went through its first showdown.\<close>

lemma accepts_split:
  assumes "accepts d g w n g' w'" "in_play d chips g w" "chips \<le> 2 ^ 53"
  shows "plays d g w n g' w' \<and> in_play d chips g' w'
    \<or> (\<exists>k h v. k \<le> n \<and> plays d g w k h v \<and> paid_out chips h v \<and> accepts d h v (n - k) g' w')"
  using assms
proof (induction rule: accepts.induct)
  case none
  then show ?case using plays.start by blast
next
  case (one_more n h v a g' w')
  from one_more.IH [OF one_more.prems] show ?case
  proof
    assume h: "plays d g w n h v \<and> in_play d chips h v"
    then have "g_Street h < StreetShowdown" by (simp add: in_play_def running_def)
    then have p: "plays d g w (Suc n) g' w'" using plays.act [OF conjunct1 [OF h] _ one_more.hyps(2)] by blast
    show ?case using plays_sound [OF p one_more.prems] p accepts.none by (metis diff_self_eq_0 order_refl)
  next
    assume "\<exists>k h' v'. k \<le> n \<and> plays d g w k h' v' \<and> paid_out chips h' v' \<and> accepts d h' v' (n - k) h v"
    then obtain k h' v' where k: "k \<le> n" "plays d g w k h' v'" "paid_out chips h' v'" "accepts d h' v' (n - k) h v" by blast
    then have "accepts d h' v' (Suc n - k) g' w'"
      using accepts.one_more [OF k(4) one_more.hyps(2)] by (simp add: Suc_diff_le)
    then show ?case using k by (metis le_SucI)
  qed
qed

text \<open>In play, the seat whose turn it is decides: if it can act it may fold, if not nobody may do anything.\<close>

lemma in_play_turn:
  assumes "in_play d chips g w"
  shows "CanAct (g_Players g ! g_ActivePlayer g) \<Longrightarrow> \<exists>h. dp_FindByID d (w_db w) (g_ID g) = Ok h
      \<and> ValidateAction h (NewFold (p_ID (g_Players g ! g_ActivePlayer g))) = Ok ()"
    and "\<not> CanAct (g_Players g ! g_ActivePlayer g) \<Longrightarrow> \<not> is_ok (fst (ApplyAction_Execute d \<lparr>ai_HandID = g_ID g, ai_Action = a\<rparr> w))"
proof -
  obtain h where h: "dp_FindByID d (w_db w) (g_ID g) = Ok h" "same_hand h g" and r: "running g"
    using assms by (auto simp: in_play_def on_file_def)
  have at: "g_Players h = g_Players g" "g_ActivePlayer h = g_ActivePlayer g" using h(2) by (simp_all add: same_hand_def)
  have i: "g_ActivePlayer g < length (g_Players g)" using r by (simp add: running_def wf_hand_def)
  show "\<exists>h. dp_FindByID d (w_db w) (g_ID g) = Ok h \<and> ValidateAction h (NewFold (p_ID (g_Players g ! g_ActivePlayer g))) = Ok ()"
    if "CanAct (g_Players g ! g_ActivePlayer g)"
    using that h(1) at i by (intro exI [of _ h]) (simp add: ValidateAction_def NewFold_def Let_def not_le)
  show "\<not> is_ok (fst (ApplyAction_Execute d \<lparr>ai_HandID = g_ID g, ai_Action = a\<rparr> w))"
    if "\<not> CanAct (g_Players g ! g_ActivePlayer g)"
  proof
    assume "is_ok (fst (ApplyAction_Execute d \<lparr>ai_HandID = g_ID g, ai_Action = a\<rparr> w))"
    then obtain g' w' where run: "ApplyAction_Execute d \<lparr>ai_HandID = g_ID g, ai_Action = a\<rparr> w = (Ok g', w')"
      by (metis is_ok_iff prod.collapse)
    obtain g0 where "dp_FindByID d (w_db w) (g_ID g) = Ok g0" "ValidateAction g0 a = Ok ()"
      by (rule ApplyAction_Execute_Ok [OF run]) simp
    then have "ValidateAction h a = Ok ()" using h(1) by simp
    then show False using that at by (auto elim!: ValidateAction_Ok)
  qed
qed

end

section \<open>From the first card to the settlement\<close>

lemma dealHoleCards_positions:
  "dealHoleCards deck ps = Ok (deck', qs) \<Longrightarrow> map p_Position qs = map p_Position ps"
  by (induction deck ps arbitrary: deck' qs rule: dealHoleCards.induct) (auto simp: Let_def split: outcome.splits)

lemma StartHand_storable:
  assumes run: "StartHand_Execute d input w = (Ok g, w')"
    and sh: "\<And>cs cs'. dp_shuffle d cs = Ok cs' \<Longrightarrow> mset cs' = mset cs"
    and seats: "sorted_wrt (<) (map p_Position (sh_Players input))"
    and fixed: "bc_Structure (sh_BettingConfig input) = BettingFixedLimit"
  shows "storable g" "g_Deck g \<noteq> None" "dp_Save d (w_db w) g = Ok (w_db w')" "g_Pots g = []"
    "g_BettingConfig g = sh_BettingConfig input" "length (g_Players g) = length (sh_Players input)"
proof -
  obtain deck deck' dealt sbi bbi where v: "validateStartHandInput input = Ok ()"
    and deal: "dealHoleCards deck (sh_Players input) = Ok (deck', dealt)"
    and bl: "blindIndexes (nat (sh_Button input)) (length dealt) = (sbi, bbi)"
    and post: "postBlinds dealt sbi bbi (bc_SmallBlind (sh_BettingConfig input))
      (bc_BigBlind (sh_BettingConfig input)) = Ok (g_Players g)"
    and g: "g_Street g = StreetPreflop" "g_Deck g = Some deck'" "g_BettingConfig g = sh_BettingConfig input" "g_Pots g = []"
    and saved: "dp_Save d (w_db w) g = Ok (w_db w')"
    by (rule StartHand_Execute_Ok [OF run]) (metis GameState.select_convs)
  have len: "length dealt = length (sh_Players input)" using dealHoleCards_Ok(2) [OF deal] by (metis length_map)
  then have "2 \<le> length dealt" "nat (sh_Button input) < length dealt"
    using v by (auto simp: validateStartHandInput_Ok)
  then have neq: "sbi \<noteq> bbi" by (rule blindIndexes_bounds(3) [OF _ _ bl])
  note p = postBlinds_Ok [OF post neq]
  note pos = dealHoleCards_positions [OF deal]
  have "map p_Position (g_Players g) = map p_Position dealt"
    using neq by (simp add: p(5) map_update)
  moreover have "map p_Status (g_Players g) = map p_Status dealt" by (rule postBlinds_frame(3) [OF post neq])
  then have "\<forall>p \<in> set (g_Players g). p_Status p = PlayerStatusActive"
    using dealHoleCards_Ok(4) [OF deal] by (metis (no_types, lifting) image_iff list.set_map)
  moreover have "\<forall>c \<in> set (cards_of g). IsValid c"
    using mset_eq_setD [OF StartHand_cards [OF run sh, of "dp_shuffle d"]] set_NewDeck by auto
  ultimately show "storable g"
    using pos seats g fixed by (simp add: storable_def less_eq_Street_def)
  show "g_Deck g \<noteq> None" "dp_Save d (w_db w) g = Ok (w_db w')" "g_Pots g = []"
    "g_BettingConfig g = sh_BettingConfig input" using g saved by simp_all
  show "length (g_Players g) = length (sh_Players input)" using p(5) len by simp
qed

lemma started_in_play:
  assumes db: "dp_FindByID d = FindByID pg" "dp_Save d = Save pg" "orderly pg" "reads_ok pg" and d: "sound_deps d"
    and sh: "\<And>cs cs'. dp_shuffle d cs = Ok cs' \<Longrightarrow> mset cs' = mset cs"
    and start: "StartHand_Execute d input w0 = (Ok g, w)"
    and ids: "distinct (map p_ID (sh_Players input))" and seats: "sorted_wrt (<) (map p_Position (sh_Players input))"
    and deep: "\<forall>p \<in> set (sh_Players input). bc_BigBlind (sh_BettingConfig input) < p_Stack p"
    and fixed: "bc_Structure (sh_BettingConfig input) = BettingFixedLimit"
  shows "hand_engine d" "running g" "in_play d (stacks (sh_Players input)) g w"
proof -
  note st = StartHand_storable [OF start sh seats fixed]
  show repo: "hand_engine d"
    using postgres_repository [OF db(3,4)] d by (simp add: hand_engine_def hand_engine_axioms_def db(1,2))
  show run: "running g" by (rule StartHand_running [OF start ids deep])
  have "chips_in_play g = stacks (sh_Players input)"
    using StartHand_chips(1) [OF start] st(4) by (simp add: chips_in_play_def)
  then show "in_play d (stacks (sh_Players input)) g w"
    using hand_engine.saved_on_file [OF repo st(3,1,2)] run by (simp add: in_play_def)
qed


section \<open>The engine on Postgres\<close>

definition pg_deps :: "GameDB Deps" where
  "pg_deps = \<lparr>dp_FindByID = FindByID good_pg, dp_Save = Save good_pg, dp_answer_lost = (\<lambda>g. None), dp_publish_err = (\<lambda>evs e. None),
     dp_shuffle = (\<lambda>cs. Ok cs), dp_rakeConfig = dp_rakeConfig mem_deps, dp_iter = dp_iter mem_deps,
     dp_fl = dp_fl mem_deps, dp_Now = 0, dp_UnixNano = 7\<rparr>"

definition pg_world :: "GameDB World" where
  "pg_world = \<lparr>w_db = empty_db, w_events = [], w_metrics = w_metrics mem_world\<rparr>"

definition pg_input :: StartHandInput where
  "pg_input = ex_input\<lparr>sh_Players := [(ex_player ''a'' 100 0 PlayerStatusActive)\<lparr>p_Position := 0\<rparr>,
     (ex_player ''b'' 200 0 PlayerStatusActive)\<lparr>p_Position := 1\<rparr>,
     (ex_player ''c'' 90 0 PlayerStatusActive)\<lparr>p_Position := 2\<rparr>]\<rparr>"

lemma pg_deps_sound: "sound_deps pg_deps"
  using sound_mem_deps by (simp add: sound_deps_def pg_deps_def)

interpretation pg_engine: hand_engine pg_deps
  using pg_deps_sound postgres_repository [OF good_pg] by (simp add: hand_engine_def hand_engine_axioms_def pg_deps_def)

lemma pg_folds:
  obtains g w g1 w1 g2 w2 where "StartHand_Execute pg_deps pg_input pg_world = (Ok g, w)"
    "ApplyAction_Execute pg_deps \<lparr>ai_HandID = g_ID g, ai_Action = NewFold ''a''\<rparr> w = (Ok g1, w1)"
    "ApplyAction_Execute pg_deps \<lparr>ai_HandID = g_ID g1, ai_Action = NewFold ''b''\<rparr> w1 = (Ok g2, w2)"
    "g_Street g2 = StreetShowdown"
proof -
  have run: "case StartHand_Execute pg_deps pg_input pg_world of (Ok g, w) \<Rightarrow>
      (case ApplyAction_Execute pg_deps \<lparr>ai_HandID = g_ID g, ai_Action = NewFold ''a''\<rparr> w of (Ok g1, w1) \<Rightarrow>
        (case ApplyAction_Execute pg_deps \<lparr>ai_HandID = g_ID g1, ai_Action = NewFold ''b''\<rparr> w1 of
          (Ok g2, w2) \<Rightarrow> g_Street g2 = StreetShowdown | _ \<Rightarrow> False) | _ \<Rightarrow> False) | _ \<Rightarrow> False"
    by code_simp
  obtain r w where r: "StartHand_Execute pg_deps pg_input pg_world = (r, w)" by fastforce
  with run obtain g where g: "r = Ok g" by (auto split: outcome.splits)
  obtain r1 w1 where r1: "ApplyAction_Execute pg_deps \<lparr>ai_HandID = g_ID g, ai_Action = NewFold ''a''\<rparr> w = (r1, w1)" by fastforce
  with run r g obtain g1 where g1: "r1 = Ok g1" by (auto split: outcome.splits)
  obtain r2 w2 where r2: "ApplyAction_Execute pg_deps \<lparr>ai_HandID = g_ID g1, ai_Action = NewFold ''b''\<rparr> w1 = (r2, w2)" by fastforce
  with run r g r1 g1 obtain g2 where g2: "r2 = Ok g2" "g_Street g2 = StreetShowdown" by (auto split: outcome.splits)
  show thesis by (rule that [OF r [unfolded g] r1 [unfolded g1] r2 [unfolded g2(1)] g2(2)])
qed


end
