(* ===== verification/WalletStore.thy ===== *)
theory WalletStore
  imports Prelude
begin

text \<open>
  The wallet service's data (\<open>internal/domain\<close>) and its Postgres repository
  (\<open>internal/infrastructure/repository/postgres\<close>): accounts, balances, the ledger, deposit and linked
  addresses, deposits, withdrawals and faucet transfers.

  A table is a list of rows. A statement of a transaction fails when the server fails it
  (\<open>sv_fails\<close>, by statement and key) or when it breaks a key of the migrations; from then on the
  transaction is aborted: every further statement fails and so does the commit, as in Postgres.
  The answer to a commit, or to a statement of its own, can be lost (\<open>sv_loses\<close>): the caller sees an
  error, and the effect is durable.
  Balances are 64-bit: the addition of the Go code wraps.
\<close>

section \<open>Domain\<close>

datatype wallet_err =
    ErrInvalidInput
  | ErrAccountNotFound
  | ErrInsufficientFunds
  | ErrAddressAlreadyLinked
  | ErrAddressNotLinked
  | ErrChallengeNotFound
  | ErrChallengeExpired
  | ErrInvalidChallengeProof
  | SqlError
  | UniqueViolation
  | TxAborted
  | ErrChain string
  | Wrap string wallet_err

definition EntryKindDepositConfirmed :: string where
  "EntryKindDepositConfirmed = ''deposit_confirmed''"

definition EntryKindTableBuyInDebit :: string where
  "EntryKindTableBuyInDebit = ''table_buy_in_debit''"

definition EntryKindTableCashout :: string where
  "EntryKindTableCashout = ''table_cashout_credit''"

definition EntryKindWithdrawalDebit :: string where
  "EntryKindWithdrawalDebit = ''withdrawal_debit''"

definition EntryKindWithdrawalCompensation :: string where
  "EntryKindWithdrawalCompensation = ''withdrawal_compensation_credit''"

text \<open>The statuses of deposits, sweeps, withdrawals and faucet transfers share these strings.\<close>

definition StatusPending :: string where
  "StatusPending = ''pending''"

definition StatusSubmitted :: string where
  "StatusSubmitted = ''submitted''"

definition StatusConfirmed :: string where
  "StatusConfirmed = ''confirmed''"

definition StatusFailed :: string where
  "StatusFailed = ''failed''"

lemmas status_defs = StatusPending_def StatusSubmitted_def StatusConfirmed_def StatusFailed_def

record Account =
  ac_UserID :: string
  ac_Email :: string
  ac_CreatedAt :: int
  ac_ProvisionedAt :: int

record Balance =
  bl_UserID :: string
  bl_AvailableGwei :: int
  bl_UpdatedAt :: int

record LedgerEntry =
  le_ID :: string
  le_UserID :: string
  le_EntryKind :: string
  le_AmountGwei :: int
  le_ReferenceID :: string
  le_IdempotencyKey :: string
  le_CreatedAt :: int

record DepositAddress =
  da_UserID :: string
  da_Address :: string
  da_PrivateKeyHex :: string
  da_Chain :: string
  da_CreatedAt :: int
  da_LastSweepTxHash :: "string option"
  da_LastSweepAt :: "int option"
  da_LastObservedBlock :: "int option"

record LinkChallenge =
  lc_ID :: string
  lc_UserID :: string
  lc_Address :: string
  lc_Challenge :: string
  lc_CreatedAt :: int
  lc_ExpiresAt :: int
  lc_ConsumedAt :: "int option"

record LinkedAddress =
  la_ID :: string
  la_UserID :: string
  la_Address :: string
  la_CreatedAt :: int
  la_VerifiedAt :: int

record Deposit =
  dep_ID :: string
  dep_UserID :: string
  dep_Address :: string
  dep_FromAddress :: string
  dep_ToAddress :: string
  dep_AmountGwei :: int
  dep_RawAmountWei :: string
  dep_Status :: string
  dep_TxHash :: string
  dep_ObservedBlock :: "int option"
  dep_ConfirmedBlock :: "int option"
  dep_Confirmations :: int
  dep_SweepTxHash :: "string option"
  dep_SweepStatus :: string
  dep_SweepSubmittedAt :: "int option"
  dep_SweptAt :: "int option"
  dep_SweepFailureReason :: "string option"
  dep_CreatedAt :: int
  dep_UpdatedAt :: int

record WithdrawalRequest =
  wr_ID :: string
  wr_UserID :: string
  wr_Address :: string
  wr_AmountGwei :: int
  wr_Status :: string
  wr_TxHash :: "string option"
  wr_Nonce :: "int option"
  wr_SubmittedAt :: "int option"
  wr_ConfirmedAt :: "int option"
  wr_FailureReason :: "string option"
  wr_CreatedAt :: int
  wr_UpdatedAt :: int

record FaucetTransfer =
  ft_ID :: string
  ft_AdminUserID :: string
  ft_TargetUserID :: string
  ft_TargetAddress :: string
  ft_AmountGwei :: int
  ft_Status :: string
  ft_TxHash :: "string option"
  ft_Nonce :: "int option"
  ft_SubmittedAt :: "int option"
  ft_ConfirmedAt :: "int option"
  ft_FailureReason :: "string option"
  ft_CreatedAt :: int
  ft_UpdatedAt :: int

record ChainState =
  cs_Name :: string
  cs_BlockNumber :: int
  cs_UpdatedAt :: int

section \<open>Database and transactions\<close>

record WalletDB =
  wd_accounts :: "Account list"
  wd_balances :: "Balance list"
  wd_ledger :: "LedgerEntry list"
  wd_addresses :: "DepositAddress list"
  wd_challenges :: "LinkChallenge list"
  wd_linked :: "LinkedAddress list"
  wd_deposits :: "Deposit list"
  wd_withdrawals :: "WithdrawalRequest list"
  wd_faucets :: "FaucetTransfer list"
  wd_chain :: "ChainState list"

text \<open>
  The database server: which statements it fails, which it executes without the caller seeing the
  answer, and the order in which it returns rows (\<open>ORDER BY\<close> a time leaves rows of the same time
  open), by the ordering clause.
\<close>

record Server =
  sv_fails :: "string \<Rightarrow> string \<Rightarrow> bool"
  sv_loses :: "string \<Rightarrow> string \<Rightarrow> bool"
  sv_linked :: "string \<Rightarrow> LinkedAddress list \<Rightarrow> LinkedAddress list"
  sv_deposits :: "string \<Rightarrow> Deposit list \<Rightarrow> Deposit list"
  sv_withdrawals :: "string \<Rightarrow> WithdrawalRequest list \<Rightarrow> WithdrawalRequest list"
  sv_faucets :: "string \<Rightarrow> FaucetTransfer list \<Rightarrow> FaucetTransfer list"
  sv_addresses :: "DepositAddress list \<Rightarrow> DepositAddress list"

record Tx =
  tx_db :: WalletDB
  tx_aborted :: bool

type_synonym 'a result = "(wallet_err, 'a) outcome"

definition tx_exec ::
    "Server \<Rightarrow> string \<Rightarrow> string \<Rightarrow> wallet_err option \<Rightarrow> (WalletDB \<Rightarrow> WalletDB) \<Rightarrow> Tx \<Rightarrow> unit result \<times> Tx" where
  "tx_exec sv stmt key violation f tx =
     (if tx_aborted tx then (Err TxAborted, tx)
      else if sv_fails sv stmt key then (Err SqlError, tx\<lparr>tx_aborted := True\<rparr>)
      else case violation of
          Some e \<Rightarrow> (Err e, tx\<lparr>tx_aborted := True\<rparr>)
        | None \<Rightarrow> (Ok (), tx\<lparr>tx_db := f (tx_db tx)\<rparr>))"

definition tx_query :: "Server \<Rightarrow> string \<Rightarrow> string \<Rightarrow> (WalletDB \<Rightarrow> 'a) \<Rightarrow> Tx \<Rightarrow> 'a result \<times> Tx" where
  "tx_query sv stmt key q tx =
     (if tx_aborted tx then (Err TxAborted, tx)
      else if sv_fails sv stmt key then (Err SqlError, tx\<lparr>tx_aborted := True\<rparr>)
      else (Ok (q (tx_db tx)), tx))"

definition tx_bind :: "'a result \<times> Tx \<Rightarrow> ('a \<Rightarrow> Tx \<Rightarrow> 'b result \<times> Tx) \<Rightarrow> 'b result \<times> Tx" where
  "tx_bind m f =
     (case m of (Ok x, tx) \<Rightarrow> f x tx | (Err e, tx) \<Rightarrow> (Err e, tx) | (Panic s, tx) \<Rightarrow> (Panic s, tx))"

definition tx_wrap :: "string \<Rightarrow> 'a result \<times> Tx \<Rightarrow> 'a result \<times> Tx" where
  "tx_wrap what m = (map_err (Wrap what) (fst m), snd m)"

definition withTx :: "Server \<Rightarrow> string \<Rightarrow> (Tx \<Rightarrow> unit result \<times> Tx) \<Rightarrow> WalletDB \<Rightarrow> unit result \<times> WalletDB" where
  "withTx sv key fn db =
     (if sv_fails sv ''begin tx'' key then (Err (Wrap ''begin tx'' SqlError), db)
      else case fn \<lparr>tx_db = db, tx_aborted = False\<rparr> of
          (Err e, tx) \<Rightarrow> (Err e, db)
        | (Panic s, tx) \<Rightarrow> (Panic s, db)
        | (Ok _, tx) \<Rightarrow>
            if tx_aborted tx \<or> sv_fails sv ''commit tx'' key then (Err (Wrap ''commit tx'' SqlError), db)
            else (if sv_loses sv ''commit tx'' key then Err (Wrap ''commit tx'' SqlError) else Ok (), tx_db tx))"

definition isUniqueViolation :: "wallet_err \<Rightarrow> bool" where
  "isUniqueViolation e \<longleftrightarrow> e = UniqueViolation"

text \<open>A single statement on the pool, which is its own transaction, and a read.\<close>

definition pool_exec ::
    "Server \<Rightarrow> string \<Rightarrow> string \<Rightarrow> wallet_err option \<Rightarrow> (WalletDB \<Rightarrow> WalletDB) \<Rightarrow> WalletDB \<Rightarrow> unit result \<times> WalletDB" where
  "pool_exec sv stmt key violation f db =
     (if sv_fails sv stmt key then (Err (Wrap stmt SqlError), db)
      else case violation of
          Some e \<Rightarrow> (Err (Wrap stmt e), db)
        | None \<Rightarrow> (if sv_loses sv stmt key then Err (Wrap stmt SqlError) else Ok (), f db))"

definition pool_query :: "Server \<Rightarrow> string \<Rightarrow> string \<Rightarrow> 'a \<Rightarrow> 'a result" where
  "pool_query sv stmt key x = (if sv_fails sv stmt key then Err (Wrap stmt SqlError) else Ok x)"

definition has_account :: "string \<Rightarrow> WalletDB \<Rightarrow> bool" where
  "has_account u db \<longleftrightarrow> list_ex (\<lambda>a. ac_UserID a = u) (wd_accounts db)"

text \<open>What an \<open>INSERT\<close> breaks: a unique key first, then the reference to the account.\<close>

definition violates :: "bool \<Rightarrow> string \<Rightarrow> WalletDB \<Rightarrow> wallet_err option" where
  "violates duplicate user db =
     (if duplicate then Some UniqueViolation else if \<not> has_account user db then Some SqlError else None)"

section \<open>The ledger\<close>

definition find_entry :: "string \<Rightarrow> WalletDB \<Rightarrow> LedgerEntry option" where
  "find_entry key db = find (\<lambda>e. le_IdempotencyKey e = key) (wd_ledger db)"

definition find_balance :: "string \<Rightarrow> WalletDB \<Rightarrow> Balance option" where
  "find_balance u db = find (\<lambda>b. bl_UserID b = u) (wd_balances db)"

definition insert_entry :: "LedgerEntry \<Rightarrow> WalletDB \<Rightarrow> WalletDB" where
  "insert_entry entry db = db\<lparr>wd_ledger := wd_ledger db @ [entry]\<rparr>"

definition set_balance :: "string \<Rightarrow> int \<Rightarrow> int \<Rightarrow> WalletDB \<Rightarrow> WalletDB" where
  "set_balance u amount at db =
     db\<lparr>wd_balances := map (\<lambda>b. if bl_UserID b = u then b\<lparr>bl_AvailableGwei := amount, bl_UpdatedAt := at\<rparr> else b)
       (wd_balances db)\<rparr>"

definition entry_violates :: "LedgerEntry \<Rightarrow> WalletDB \<Rightarrow> wallet_err option" where
  "entry_violates entry db =
     violates (list_ex (\<lambda>e. le_ID e = le_ID entry \<or> le_IdempotencyKey e = le_IdempotencyKey entry) (wd_ledger db))
       (le_UserID entry) db"

definition applyLedgerEntryTx :: "Server \<Rightarrow> LedgerEntry \<Rightarrow> Tx \<Rightarrow> unit result \<times> Tx" where
  "applyLedgerEntryTx sv entry tx =
     (let key = le_IdempotencyKey entry; user = le_UserID entry
      in tx_bind (tx_wrap ''find existing ledger entry'' (tx_query sv ''find existing ledger entry'' key (find_entry key) tx))
        (\<lambda>existing tx. case existing of
            Some _ \<Rightarrow> (Ok (), tx)
          | None \<Rightarrow>
              tx_bind (tx_wrap ''lock wallet balance'' (tx_query sv ''lock wallet balance'' key (find_balance user) tx))
                (\<lambda>balance tx. case balance of
                    None \<Rightarrow> (Err ErrAccountNotFound, tx)
                  | Some b \<Rightarrow>
                      (let newBalance = wrap64 (bl_AvailableGwei b + le_AmountGwei entry)
                       in if newBalance < 0 then (Err ErrInsufficientFunds, tx)
                          else (case tx_exec sv ''insert ledger entry'' key (entry_violates entry (tx_db tx))
                                  (insert_entry entry) tx of
                              (Err e, tx) \<Rightarrow>
                                if isUniqueViolation e then (Ok (), tx) else (Err (Wrap ''insert ledger entry'' e), tx)
                            | (Panic m, tx) \<Rightarrow> (Panic m, tx)
                            | (Ok _, tx) \<Rightarrow>
                                tx_wrap ''update wallet balance''
                                  (tx_exec sv ''update wallet balance'' key None
                                    (set_balance user newBalance (le_CreatedAt entry)) tx))))))"

definition ApplyLedgerEntry :: "Server \<Rightarrow> LedgerEntry \<Rightarrow> WalletDB \<Rightarrow> unit result \<times> WalletDB" where
  "ApplyLedgerEntry sv entry db = withTx sv (le_IdempotencyKey entry) (applyLedgerEntryTx sv entry) db"

section \<open>Accounts and addresses\<close>

definition insert_account :: "Account \<Rightarrow> WalletDB \<Rightarrow> WalletDB" where
  "insert_account a db =
     (if has_account (ac_UserID a) db then db else db\<lparr>wd_accounts := wd_accounts db @ [a]\<rparr>)"

definition insert_balance :: "Balance \<Rightarrow> WalletDB \<Rightarrow> WalletDB" where
  "insert_balance b db =
     (if find_balance (bl_UserID b) db \<noteq> None then db else db\<lparr>wd_balances := wd_balances db @ [b]\<rparr>)"

text \<open>A conflict on \<open>user_id\<close> is ignored, one on the unique \<open>address\<close> is not.\<close>

definition address_violates :: "DepositAddress \<Rightarrow> WalletDB \<Rightarrow> wallet_err option" where
  "address_violates a db =
     (if list_ex (\<lambda>b. da_UserID b = da_UserID a) (wd_addresses db) then None
      else violates (list_ex (\<lambda>b. da_Address b = da_Address a) (wd_addresses db)) (da_UserID a) db)"

definition insert_address :: "DepositAddress \<Rightarrow> WalletDB \<Rightarrow> WalletDB" where
  "insert_address a db =
     (if list_ex (\<lambda>b. da_UserID b = da_UserID a) (wd_addresses db) then db
      else db\<lparr>wd_addresses := wd_addresses db @ [a]\<rparr>)"

definition ProvisionUser :: "Server \<Rightarrow> Account \<Rightarrow> DepositAddress \<Rightarrow> WalletDB \<Rightarrow> unit result \<times> WalletDB" where
  "ProvisionUser sv account depositAddress db =
     (let key = ac_UserID account
      in withTx sv key (\<lambda>tx.
        tx_bind (tx_wrap ''insert wallet account'' (tx_exec sv ''insert wallet account'' key None (insert_account account) tx))
        (\<lambda>_ tx. tx_bind (tx_wrap ''insert wallet balance''
          (tx_exec sv ''insert wallet balance'' key None
            (insert_balance \<lparr>bl_UserID = key, bl_AvailableGwei = 0, bl_UpdatedAt = ac_ProvisionedAt account\<rparr>) tx))
        (\<lambda>_ tx. tx_wrap ''insert deposit address''
          (tx_exec sv ''insert deposit address'' key (address_violates depositAddress (tx_db tx))
            (insert_address depositAddress) tx)))) db)"

definition GetBalance :: "Server \<Rightarrow> string \<Rightarrow> WalletDB \<Rightarrow> Balance result" where
  "GetBalance sv userID db =
     bind_outcome (pool_query sv ''find balance'' userID (find_balance userID db))
       (\<lambda>r. case r of None \<Rightarrow> Err ErrAccountNotFound | Some b \<Rightarrow> Ok b)"

definition GetDepositAddress :: "Server \<Rightarrow> string \<Rightarrow> WalletDB \<Rightarrow> DepositAddress result" where
  "GetDepositAddress sv userID db =
     bind_outcome (pool_query sv ''find deposit address'' userID (find (\<lambda>a. da_UserID a = userID) (wd_addresses db)))
       (\<lambda>r. case r of None \<Rightarrow> Err ErrAccountNotFound | Some a \<Rightarrow> Ok a)"

definition ListLinkedAddresses :: "Server \<Rightarrow> string \<Rightarrow> WalletDB \<Rightarrow> LinkedAddress list result" where
  "ListLinkedAddresses sv userID db =
     pool_query sv ''list linked addresses'' userID
       (sv_linked sv ''created_at ASC'' (filter (\<lambda>a. la_UserID a = userID) (wd_linked db)))"

definition CreateLinkChallenge :: "Server \<Rightarrow> LinkChallenge \<Rightarrow> WalletDB \<Rightarrow> unit result \<times> WalletDB" where
  "CreateLinkChallenge sv c db =
     pool_exec sv ''insert link challenge'' (lc_ID c)
       (violates (list_ex (\<lambda>x. lc_ID x = lc_ID c) (wd_challenges db)) (lc_UserID c) db)
       (\<lambda>db. db\<lparr>wd_challenges := wd_challenges db @ [c\<lparr>lc_ConsumedAt := None\<rparr>]\<rparr>) db"

definition FindLinkChallenge :: "Server \<Rightarrow> string \<Rightarrow> string \<Rightarrow> string \<Rightarrow> WalletDB \<Rightarrow> LinkChallenge result" where
  "FindLinkChallenge sv userID challengeID address db =
     bind_outcome (pool_query sv ''find link challenge'' challengeID
         (find (\<lambda>c. lc_ID c = challengeID \<and> lc_UserID c = userID \<and> lc_Address c = ToLower address) (wd_challenges db)))
       (\<lambda>r. case r of None \<Rightarrow> Err ErrChallengeNotFound
          | Some c \<Rightarrow> if lc_ConsumedAt c \<noteq> None then Err ErrChallengeNotFound else Ok c)"

definition open_challenge :: "string \<Rightarrow> LinkChallenge \<Rightarrow> bool" where
  "open_challenge i c \<longleftrightarrow> lc_ID c = i \<and> lc_ConsumedAt c = None"

definition ConfirmLinkChallenge ::
    "Server \<Rightarrow> int \<Rightarrow> string \<Rightarrow> LinkedAddress \<Rightarrow> WalletDB \<Rightarrow> unit result \<times> WalletDB" where
  "ConfirmLinkChallenge sv now challengeID linked db =
     withTx sv challengeID (\<lambda>tx.
       (let affected = list_ex (open_challenge challengeID) (wd_challenges (tx_db tx))
        in tx_bind (tx_wrap ''consume link challenge'' (tx_exec sv ''consume link challenge'' challengeID None
             (\<lambda>db. db\<lparr>wd_challenges := map (\<lambda>c. if open_challenge challengeID c
                then c\<lparr>lc_ConsumedAt := Some now\<rparr> else c) (wd_challenges db)\<rparr>) tx))
           (\<lambda>_ tx. if \<not> affected then (Err ErrChallengeNotFound, tx)
              else (case tx_exec sv ''insert linked address'' challengeID
                  (violates (list_ex (\<lambda>a. la_ID a = la_ID linked
                      \<or> la_UserID a = la_UserID linked \<and> la_Address a = la_Address linked) (wd_linked (tx_db tx)))
                    (la_UserID linked) (tx_db tx))
                  (\<lambda>db. db\<lparr>wd_linked := wd_linked db @ [linked]\<rparr>) tx of
                (Err e, tx) \<Rightarrow>
                  if isUniqueViolation e then (Err ErrAddressAlreadyLinked, tx)
                  else (Err (Wrap ''insert linked address'' e), tx)
              | r \<Rightarrow> r)))) db"

section \<open>Deposits\<close>

definition ListDeposits :: "Server \<Rightarrow> string \<Rightarrow> WalletDB \<Rightarrow> Deposit list result" where
  "ListDeposits sv userID db =
     pool_query sv ''list deposits'' userID
       (sv_deposits sv ''created_at DESC'' (filter (\<lambda>d. dep_UserID d = userID) (wd_deposits db)))"

definition CreateConfirmedDeposit :: "Server \<Rightarrow> Deposit \<Rightarrow> LedgerEntry \<Rightarrow> WalletDB \<Rightarrow> unit result \<times> WalletDB" where
  "CreateConfirmedDeposit sv d entry db =
     withTx sv (dep_TxHash d) (\<lambda>tx.
       tx_bind (applyLedgerEntryTx sv entry tx) (\<lambda>_ tx.
         (let known = list_ex (\<lambda>x. dep_TxHash x = dep_TxHash d) (wd_deposits (tx_db tx))
          in tx_wrap ''insert deposit'' (tx_exec sv ''insert deposit'' (dep_TxHash d)
              (if known then None
               else violates (list_ex (\<lambda>x. dep_ID x = dep_ID d) (wd_deposits (tx_db tx))) (dep_UserID d) (tx_db tx))
              (\<lambda>db. if known then db else db\<lparr>wd_deposits := wd_deposits db @ [d]\<rparr>) tx)))) db"

definition upsert_deposit :: "Deposit \<Rightarrow> WalletDB \<Rightarrow> WalletDB" where
  "upsert_deposit d db =
     (if list_ex (\<lambda>x. dep_TxHash x = dep_TxHash d) (wd_deposits db)
      then db\<lparr>wd_deposits := map (\<lambda>x. if dep_TxHash x = dep_TxHash d
        then x\<lparr>dep_ObservedBlock := dep_ObservedBlock d, dep_Confirmations := dep_Confirmations d,
               dep_UpdatedAt := dep_UpdatedAt d, dep_FromAddress := dep_FromAddress d,
               dep_ToAddress := dep_ToAddress d, dep_RawAmountWei := dep_RawAmountWei d\<rparr>
        else x) (wd_deposits db)\<rparr>
      else db\<lparr>wd_deposits := wd_deposits db @ [d]\<rparr>)"

definition deposit_violates :: "Deposit \<Rightarrow> WalletDB \<Rightarrow> wallet_err option" where
  "deposit_violates d db =
     (if list_ex (\<lambda>x. dep_TxHash x = dep_TxHash d) (wd_deposits db) then None
      else violates (list_ex (\<lambda>x. dep_ID x = dep_ID d) (wd_deposits db)) (dep_UserID d) db)"

text \<open>Two statements, not one transaction: the deposit stays when the second one fails.\<close>

definition UpsertObservedDeposit :: "Server \<Rightarrow> Deposit \<Rightarrow> WalletDB \<Rightarrow> unit result \<times> WalletDB" where
  "UpsertObservedDeposit sv d db =
     (case pool_exec sv ''upsert observed deposit'' (dep_TxHash d) (deposit_violates d db) (upsert_deposit d) db of
        (Ok _, db) \<Rightarrow>
          pool_exec sv ''update deposit address observed block'' (dep_TxHash d) None
            (\<lambda>db. db\<lparr>wd_addresses := map (\<lambda>a. if da_UserID a = dep_UserID d
              then a\<lparr>da_LastObservedBlock := dep_ObservedBlock d\<rparr> else a) (wd_addresses db)\<rparr>) db
      | r \<Rightarrow> r)"

definition update_deposits :: "(Deposit \<Rightarrow> bool) \<Rightarrow> (Deposit \<Rightarrow> Deposit) \<Rightarrow> WalletDB \<Rightarrow> WalletDB" where
  "update_deposits P f db = db\<lparr>wd_deposits := map (\<lambda>d. if P d then f d else d) (wd_deposits db)\<rparr>"

definition unconfirmed :: "string \<Rightarrow> Deposit \<Rightarrow> bool" where
  "unconfirmed txHash d \<longleftrightarrow> dep_TxHash d = txHash \<and> dep_Status d \<noteq> StatusConfirmed"

definition ConfirmDeposit ::
    "Server \<Rightarrow> string \<Rightarrow> int \<Rightarrow> int \<Rightarrow> LedgerEntry \<Rightarrow> WalletDB \<Rightarrow> unit result \<times> WalletDB" where
  "ConfirmDeposit sv txHash confirmedBlock confirmations entry db =
     withTx sv txHash (\<lambda>tx.
       (let affected = list_ex (unconfirmed txHash) (wd_deposits (tx_db tx))
        in tx_bind (tx_wrap ''confirm deposit'' (tx_exec sv ''confirm deposit'' txHash None
             (update_deposits (unconfirmed txHash)
               (\<lambda>d. d\<lparr>dep_Status := StatusConfirmed, dep_ConfirmedBlock := Some confirmedBlock,
                      dep_Confirmations := confirmations, dep_UpdatedAt := le_CreatedAt entry\<rparr>)) tx))
           (\<lambda>_ tx. if \<not> affected then (Ok (), tx) else applyLedgerEntryTx sv entry tx))) db"

definition listDepositsByStatus :: "Server \<Rightarrow> string \<Rightarrow> WalletDB \<Rightarrow> Deposit list result" where
  "listDepositsByStatus sv status db =
     pool_query sv ''list deposits by status'' status
       (sv_deposits sv ''updated_at ASC'' (filter (\<lambda>d. dep_Status d = status) (wd_deposits db)))"

definition ListPendingDeposits :: "Server \<Rightarrow> WalletDB \<Rightarrow> Deposit list result" where
  "ListPendingDeposits sv db = listDepositsByStatus sv StatusPending db"

definition ListSweepCandidates :: "Server \<Rightarrow> WalletDB \<Rightarrow> Deposit list result" where
  "ListSweepCandidates sv db =
     pool_query sv ''list sweep candidates'' ''''
       (sv_deposits sv ''updated_at ASC'' (filter (\<lambda>d. dep_Status d = StatusConfirmed
          \<and> (dep_SweepStatus d = '''' \<or> dep_SweepStatus d = StatusFailed)) (wd_deposits db)))"

definition ListSubmittedSweeps :: "Server \<Rightarrow> WalletDB \<Rightarrow> Deposit list result" where
  "ListSubmittedSweeps sv db =
     pool_query sv ''list submitted sweeps'' ''''
       (sv_deposits sv ''updated_at ASC'' (filter (\<lambda>d. dep_SweepStatus d = StatusSubmitted) (wd_deposits db)))"

definition MarkDepositSweepSubmitted ::
    "Server \<Rightarrow> string \<Rightarrow> string \<Rightarrow> int \<Rightarrow> WalletDB \<Rightarrow> unit result \<times> WalletDB" where
  "MarkDepositSweepSubmitted sv txHash sweepTxHash submittedAt db =
     pool_exec sv ''mark deposit sweep submitted'' txHash None
       (update_deposits (\<lambda>d. dep_TxHash d = txHash)
         (\<lambda>d. d\<lparr>dep_SweepTxHash := Some sweepTxHash, dep_SweepStatus := StatusSubmitted,
                dep_SweepSubmittedAt := Some submittedAt, dep_UpdatedAt := submittedAt\<rparr>)) db"

definition MarkDepositSweepConfirmed :: "Server \<Rightarrow> string \<Rightarrow> int \<Rightarrow> WalletDB \<Rightarrow> unit result \<times> WalletDB" where
  "MarkDepositSweepConfirmed sv txHash sweptAt db =
     pool_exec sv ''mark deposit sweep confirmed'' txHash None
       (update_deposits (\<lambda>d. dep_TxHash d = txHash)
         (\<lambda>d. d\<lparr>dep_SweepStatus := StatusConfirmed, dep_SweptAt := Some sweptAt, dep_UpdatedAt := sweptAt\<rparr>)) db"

definition MarkDepositSweepFailed :: "Server \<Rightarrow> string \<Rightarrow> string \<Rightarrow> int \<Rightarrow> WalletDB \<Rightarrow> unit result \<times> WalletDB" where
  "MarkDepositSweepFailed sv txHash reason failedAt db =
     pool_exec sv ''mark deposit sweep failed'' txHash None
       (update_deposits (\<lambda>d. dep_TxHash d = txHash)
         (\<lambda>d. d\<lparr>dep_SweepStatus := StatusFailed, dep_SweepFailureReason := Some reason, dep_UpdatedAt := failedAt\<rparr>)) db"

section \<open>Withdrawals\<close>

definition ListWithdrawals :: "Server \<Rightarrow> string \<Rightarrow> WalletDB \<Rightarrow> WithdrawalRequest list result" where
  "ListWithdrawals sv userID db =
     pool_query sv ''list withdrawals'' userID
       (sv_withdrawals sv ''created_at DESC'' (filter (\<lambda>w. wr_UserID w = userID) (wd_withdrawals db)))"

definition CreateWithdrawal ::
    "Server \<Rightarrow> WithdrawalRequest \<Rightarrow> LedgerEntry \<Rightarrow> WalletDB \<Rightarrow> unit result \<times> WalletDB" where
  "CreateWithdrawal sv wd entry db =
     withTx sv (wr_ID wd) (\<lambda>tx.
       tx_bind (applyLedgerEntryTx sv entry tx) (\<lambda>_ tx.
         tx_wrap ''insert withdrawal'' (tx_exec sv ''insert withdrawal'' (wr_ID wd)
           (violates (list_ex (\<lambda>x. wr_ID x = wr_ID wd) (wd_withdrawals (tx_db tx))) (wr_UserID wd) (tx_db tx))
           (\<lambda>db. db\<lparr>wd_withdrawals := wd_withdrawals db @ [wd]\<rparr>) tx))) db"

definition update_withdrawals ::
    "(WithdrawalRequest \<Rightarrow> bool) \<Rightarrow> (WithdrawalRequest \<Rightarrow> WithdrawalRequest) \<Rightarrow> WalletDB \<Rightarrow> WalletDB" where
  "update_withdrawals P f db = db\<lparr>wd_withdrawals := map (\<lambda>w. if P w then f w else w) (wd_withdrawals db)\<rparr>"

definition listWithdrawalsByStatus :: "Server \<Rightarrow> string \<Rightarrow> WalletDB \<Rightarrow> WithdrawalRequest list result" where
  "listWithdrawalsByStatus sv status db =
     pool_query sv ''list withdrawals by status'' status
       (sv_withdrawals sv ''updated_at ASC'' (filter (\<lambda>w. wr_Status w = status) (wd_withdrawals db)))"

definition ListPendingWithdrawals :: "Server \<Rightarrow> WalletDB \<Rightarrow> WithdrawalRequest list result" where
  "ListPendingWithdrawals sv db = listWithdrawalsByStatus sv StatusPending db"

definition ListSubmittedWithdrawals :: "Server \<Rightarrow> WalletDB \<Rightarrow> WithdrawalRequest list result" where
  "ListSubmittedWithdrawals sv db = listWithdrawalsByStatus sv StatusSubmitted db"

definition MarkWithdrawalSubmitted ::
    "Server \<Rightarrow> string \<Rightarrow> string \<Rightarrow> int \<Rightarrow> int \<Rightarrow> WalletDB \<Rightarrow> unit result \<times> WalletDB" where
  "MarkWithdrawalSubmitted sv withdrawalID txHash nonce submittedAt db =
     pool_exec sv ''mark withdrawal submitted'' withdrawalID None
       (update_withdrawals (\<lambda>w. wr_ID w = withdrawalID)
         (\<lambda>w. w\<lparr>wr_Status := StatusSubmitted, wr_TxHash := Some txHash, wr_Nonce := Some nonce,
                wr_SubmittedAt := Some submittedAt, wr_UpdatedAt := submittedAt\<rparr>)) db"

definition MarkWithdrawalConfirmed :: "Server \<Rightarrow> string \<Rightarrow> int \<Rightarrow> WalletDB \<Rightarrow> unit result \<times> WalletDB" where
  "MarkWithdrawalConfirmed sv withdrawalID confirmedAt db =
     pool_exec sv ''mark withdrawal confirmed'' withdrawalID None
       (update_withdrawals (\<lambda>w. wr_ID w = withdrawalID)
         (\<lambda>w. w\<lparr>wr_Status := StatusConfirmed, wr_ConfirmedAt := Some confirmedAt, wr_UpdatedAt := confirmedAt\<rparr>)) db"

definition not_failed :: "string \<Rightarrow> WithdrawalRequest \<Rightarrow> bool" where
  "not_failed i w \<longleftrightarrow> wr_ID w = i \<and> wr_Status w \<noteq> StatusFailed"

definition MarkWithdrawalFailed ::
    "Server \<Rightarrow> string \<Rightarrow> string \<Rightarrow> LedgerEntry \<Rightarrow> int \<Rightarrow> WalletDB \<Rightarrow> unit result \<times> WalletDB" where
  "MarkWithdrawalFailed sv withdrawalID reason compensationEntry failedAt db =
     withTx sv withdrawalID (\<lambda>tx.
       (let affected = list_ex (not_failed withdrawalID) (wd_withdrawals (tx_db tx))
        in tx_bind (tx_wrap ''mark withdrawal failed'' (tx_exec sv ''mark withdrawal failed'' withdrawalID None
             (update_withdrawals (not_failed withdrawalID)
               (\<lambda>w. w\<lparr>wr_Status := StatusFailed, wr_FailureReason := Some reason, wr_UpdatedAt := failedAt\<rparr>)) tx))
           (\<lambda>_ tx. if \<not> affected then (Ok (), tx) else applyLedgerEntryTx sv compensationEntry tx))) db"

section \<open>Faucet transfers and the scan cursor\<close>

definition ListFaucetTransfers :: "Server \<Rightarrow> WalletDB \<Rightarrow> FaucetTransfer list result" where
  "ListFaucetTransfers sv db =
     pool_query sv ''list faucet transfers'' '''' (sv_faucets sv ''created_at DESC'' (wd_faucets db))"

definition CreateFaucetTransfer :: "Server \<Rightarrow> FaucetTransfer \<Rightarrow> WalletDB \<Rightarrow> unit result \<times> WalletDB" where
  "CreateFaucetTransfer sv t db =
     pool_exec sv ''insert faucet transfer'' (ft_ID t)
       (violates (list_ex (\<lambda>x. ft_ID x = ft_ID t) (wd_faucets db)) (ft_TargetUserID t) db)
       (\<lambda>db. db\<lparr>wd_faucets := wd_faucets db @ [t]\<rparr>) db"

definition update_faucets :: "string \<Rightarrow> (FaucetTransfer \<Rightarrow> FaucetTransfer) \<Rightarrow> WalletDB \<Rightarrow> WalletDB" where
  "update_faucets i f db = db\<lparr>wd_faucets := map (\<lambda>t. if ft_ID t = i then f t else t) (wd_faucets db)\<rparr>"

definition listFaucetTransfersByStatus :: "Server \<Rightarrow> string \<Rightarrow> WalletDB \<Rightarrow> FaucetTransfer list result" where
  "listFaucetTransfersByStatus sv status db =
     pool_query sv ''list faucet transfers by status'' status
       (sv_faucets sv ''updated_at ASC'' (filter (\<lambda>t. ft_Status t = status) (wd_faucets db)))"

definition ListPendingFaucetTransfers :: "Server \<Rightarrow> WalletDB \<Rightarrow> FaucetTransfer list result" where
  "ListPendingFaucetTransfers sv db = listFaucetTransfersByStatus sv StatusPending db"

definition ListSubmittedFaucetTransfers :: "Server \<Rightarrow> WalletDB \<Rightarrow> FaucetTransfer list result" where
  "ListSubmittedFaucetTransfers sv db = listFaucetTransfersByStatus sv StatusSubmitted db"

definition MarkFaucetTransferSubmitted ::
    "Server \<Rightarrow> string \<Rightarrow> string \<Rightarrow> int \<Rightarrow> int \<Rightarrow> WalletDB \<Rightarrow> unit result \<times> WalletDB" where
  "MarkFaucetTransferSubmitted sv transferID txHash nonce submittedAt db =
     pool_exec sv ''mark faucet transfer submitted'' transferID None
       (update_faucets transferID
         (\<lambda>t. t\<lparr>ft_Status := StatusSubmitted, ft_TxHash := Some txHash, ft_Nonce := Some nonce,
                ft_SubmittedAt := Some submittedAt, ft_UpdatedAt := submittedAt\<rparr>)) db"

definition MarkFaucetTransferConfirmed :: "Server \<Rightarrow> string \<Rightarrow> int \<Rightarrow> WalletDB \<Rightarrow> unit result \<times> WalletDB" where
  "MarkFaucetTransferConfirmed sv transferID confirmedAt db =
     pool_exec sv ''mark faucet transfer confirmed'' transferID None
       (update_faucets transferID
         (\<lambda>t. t\<lparr>ft_Status := StatusConfirmed, ft_ConfirmedAt := Some confirmedAt, ft_UpdatedAt := confirmedAt\<rparr>)) db"

definition MarkFaucetTransferFailed :: "Server \<Rightarrow> string \<Rightarrow> string \<Rightarrow> int \<Rightarrow> WalletDB \<Rightarrow> unit result \<times> WalletDB" where
  "MarkFaucetTransferFailed sv transferID reason failedAt db =
     pool_exec sv ''mark faucet transfer failed'' transferID None
       (update_faucets transferID
         (\<lambda>t. t\<lparr>ft_Status := StatusFailed, ft_FailureReason := Some reason, ft_UpdatedAt := failedAt\<rparr>)) db"

definition ListDepositAddresses :: "Server \<Rightarrow> WalletDB \<Rightarrow> DepositAddress list result" where
  "ListDepositAddresses sv db = pool_query sv ''list deposit addresses'' '''' (sv_addresses sv (wd_addresses db))"

definition GetChainState :: "Server \<Rightarrow> string \<Rightarrow> WalletDB \<Rightarrow> ChainState option result" where
  "GetChainState sv name db = pool_query sv ''get chain state'' name (find (\<lambda>c. cs_Name c = name) (wd_chain db))"

definition SaveChainState :: "Server \<Rightarrow> ChainState \<Rightarrow> WalletDB \<Rightarrow> unit result \<times> WalletDB" where
  "SaveChainState sv state db =
     pool_exec sv ''save chain state'' (cs_Name state) None
       (\<lambda>db. db\<lparr>wd_chain :=
         (if list_ex (\<lambda>c. cs_Name c = cs_Name state) (wd_chain db)
          then map (\<lambda>c. if cs_Name c = cs_Name state then state else c) (wd_chain db)
          else wd_chain db @ [state])\<rparr>) db"

end
