(* ===== verification/WalletLedger.thy ===== *)
theory WalletLedger
  imports WalletStore
begin

text \<open>
  The ledger of the wallet: what a posted entry does to the books, the invariant that ties every
  balance to the sum of its entries, the abstract bank the repository implements, and why a
  posting can be retried.
\<close>

section \<open>Posting an entry\<close>

text \<open>The effect of a committed posting: nothing when the key is known, else entry and balance.\<close>

definition posted :: "LedgerEntry \<Rightarrow> WalletDB \<Rightarrow> WalletDB \<Rightarrow> bool" where
  "posted e db db' \<longleftrightarrow>
     (if find_entry (le_IdempotencyKey e) db \<noteq> None then db' = db
      else entry_violates e db = None \<and>
        (\<exists>b. find_balance (le_UserID e) db = Some b \<and> 0 \<le> wrap64 (bl_AvailableGwei b + le_AmountGwei e)
          \<and> db' = set_balance (le_UserID e) (wrap64 (bl_AvailableGwei b + le_AmountGwei e)) (le_CreatedAt e)
              (insert_entry e db)))"

lemmas tx_defs = tx_exec_def tx_query_def tx_bind_def tx_wrap_def

lemma applyLedgerEntryTx_Ok:
  assumes "applyLedgerEntryTx sv e tx = (Ok (), tx')" "\<not> tx_aborted tx'"
  shows "\<not> tx_aborted tx \<and> posted e (tx_db tx) (tx_db tx')"
  using assms
  by (auto simp: applyLedgerEntryTx_def posted_def tx_defs Let_def split: if_splits option.splits outcome.splits)

lemma applyLedgerEntryTx_aborted:
  "tx_aborted tx \<Longrightarrow> fst (applyLedgerEntryTx sv e tx) \<noteq> Ok ()"
  by (simp add: applyLedgerEntryTx_def tx_defs Let_def)

lemma withTx_Ok:
  assumes "withTx sv key fn db = (Ok u, db')"
  obtains tx where "fn \<lparr>tx_db = db, tx_aborted = False\<rparr> = (Ok (), tx)" "\<not> tx_aborted tx" "db' = tx_db tx"
  using assms that by (auto simp: withTx_def split: if_splits outcome.splits prod.splits)

text \<open>Whatever is answered: a transaction that changed something ran to its end and was committed.\<close>

lemma withTx_effect:
  assumes "withTx sv key fn db = (r, db')" "db' \<noteq> db"
  obtains tx where "fn \<lparr>tx_db = db, tx_aborted = False\<rparr> = (Ok (), tx)" "\<not> tx_aborted tx" "db' = tx_db tx"
    "r = Ok () \<or> r = Err (Wrap ''commit tx'' SqlError) \<and> sv_loses sv ''commit tx'' key"
  using assms that by (auto simp: withTx_def split: if_splits outcome.splits prod.splits)

lemma pool_exec_cases:
  "pool_exec sv stmt key v f db = (r, db') \<Longrightarrow> v = None \<and> db' = f db \<or> r \<noteq> Ok () \<and> db' = db"
  by (auto simp: pool_exec_def split: if_splits option.splits)

lemma ApplyLedgerEntry_cases:
  assumes "ApplyLedgerEntry sv e db = (r, db')"
  shows "r = Ok () \<Longrightarrow> posted e db db'"
    and "db' = db \<or> posted e db db' \<and> (r = Ok ()
      \<or> r = Err (Wrap ''commit tx'' SqlError) \<and> sv_loses sv ''commit tx'' (le_IdempotencyKey e))"
proof -
  show "posted e db db'" if "r = Ok ()"
    using assms that unfolding ApplyLedgerEntry_def
    by (metis (no_types, lifting) Tx.select_convs(1) applyLedgerEntryTx_Ok withTx_Ok)
  show "db' = db \<or> posted e db db' \<and> (r = Ok ()
      \<or> r = Err (Wrap ''commit tx'' SqlError) \<and> sv_loses sv ''commit tx'' (le_IdempotencyKey e))"
  proof (cases "db' = db")
    case False
    then obtain tx where "applyLedgerEntryTx sv e \<lparr>tx_db = db, tx_aborted = False\<rparr> = (Ok (), tx)" "\<not> tx_aborted tx" "db' = tx_db tx"
      "r = Ok () \<or> r = Err (Wrap ''commit tx'' SqlError) \<and> sv_loses sv ''commit tx'' (le_IdempotencyKey e)"
      using assms unfolding ApplyLedgerEntry_def by (auto elim!: withTx_effect)
    then show ?thesis using applyLedgerEntryTx_Ok by fastforce
  qed simp
qed

section \<open>The books\<close>

definition entries_of :: "string \<Rightarrow> WalletDB \<Rightarrow> LedgerEntry list" where
  "entries_of u db = filter (\<lambda>e. le_UserID e = u) (wd_ledger db)"

text \<open>
  The invariant: one balance per account, entries and their idempotency keys unique, every
  balance the sum of its entries, within range and never negative.
\<close>

definition ledger_ok :: "WalletDB \<Rightarrow> bool" where
  "ledger_ok db \<longleftrightarrow> distinct (map bl_UserID (wd_balances db))
     \<and> distinct (map le_ID (wd_ledger db)) \<and> distinct (map le_IdempotencyKey (wd_ledger db))
     \<and> (\<forall>b \<in> set (wd_balances db). bl_AvailableGwei b = sum_list (map le_AmountGwei (entries_of (bl_UserID b) db))
         \<and> 0 \<le> bl_AvailableGwei b \<and> bl_AvailableGwei b < 2 ^ 63 \<and> has_account (bl_UserID b) db)
     \<and> (\<forall>e \<in> set (wd_ledger db). find_balance (le_UserID e) db \<noteq> None)"

lemma wrap64_add_nonneg:
  assumes "0 \<le> b" "b < 2 ^ 63" "in_int64 a"
  shows "0 \<le> wrap64 (b + a) \<longleftrightarrow> 0 \<le> b + a \<and> b + a < 2 ^ 63"
    and "0 \<le> wrap64 (b + a) \<Longrightarrow> wrap64 (b + a) = b + a"
proof -
  have low: "wrap64 (b + a) = b + a" if "b + a < 2 ^ 63"
    using that assms by (intro wrap64_id) (simp add: in_int64_def)
  have "wrap64 (b + a) < 0" if "2 ^ 63 \<le> b + a"
  proof -
    have "(b + a + 2 ^ 63) mod 2 ^ 64 = (b + a + 2 ^ 63 - 2 ^ 64) mod 2 ^ 64" by (rule minus_mod_self2 [symmetric])
    also have "\<dots> = b + a + 2 ^ 63 - 2 ^ 64"
      using that assms by (intro mod_pos_pos_trivial) (simp_all add: in_int64_def)
    finally show ?thesis using assms by (simp add: wrap64_def in_int64_def)
  qed
  then show "0 \<le> wrap64 (b + a) \<longleftrightarrow> 0 \<le> b + a \<and> b + a < 2 ^ 63"
    and "0 \<le> wrap64 (b + a) \<Longrightarrow> wrap64 (b + a) = b + a"
    using low by force+
qed

lemma find_balance_Some:
  "find_balance u db = Some b \<Longrightarrow> b \<in> set (wd_balances db) \<and> bl_UserID b = u"
  by (auto simp: find_balance_def find_Some_iff)

lemma find_balance_None: "find_balance u db = None \<longleftrightarrow> u \<notin> bl_UserID ` set (wd_balances db)"
  by (auto simp: find_balance_def find_None_iff)

lemma find_entry_None: "find_entry k db = None \<longleftrightarrow> k \<notin> le_IdempotencyKey ` set (wd_ledger db)"
  by (auto simp: find_entry_def find_None_iff)

lemma posting_frame [simp]:
  "wd_accounts (set_balance u n t db) = wd_accounts db" "wd_ledger (set_balance u n t db) = wd_ledger db"
  "wd_accounts (insert_entry e db) = wd_accounts db" "wd_balances (insert_entry e db) = wd_balances db"
  "wd_ledger (insert_entry e db) = wd_ledger db @ [e]"
  by (simp_all add: set_balance_def insert_entry_def)

lemma posted_frame:
  assumes "posted e db db'"
  shows "wd_accounts db' = wd_accounts db" "wd_deposits db' = wd_deposits db" "wd_withdrawals db' = wd_withdrawals db"
    "wd_linked db' = wd_linked db" "wd_challenges db' = wd_challenges db" "wd_faucets db' = wd_faucets db"
    "wd_addresses db' = wd_addresses db" "wd_chain db' = wd_chain db"
    "map bl_UserID (wd_balances db') = map bl_UserID (wd_balances db)"
  using assms by (auto simp: posted_def set_balance_def insert_entry_def split: if_splits)

lemma posted_ledger_ok:
  assumes ok: "ledger_ok db" and amt: "in_int64 (le_AmountGwei e)" and post: "posted e db db'"
  shows "ledger_ok db'"
proof (cases "find_entry (le_IdempotencyKey e) db")
  case (Some x)
  then show ?thesis using ok post by (simp add: posted_def)
next
  case None
  let ?u = "le_UserID e"
  obtain b where b: "find_balance ?u db = Some b" "0 \<le> wrap64 (bl_AvailableGwei b + le_AmountGwei e)"
    and v: "entry_violates e db = None"
    and db': "db' = set_balance ?u (wrap64 (bl_AvailableGwei b + le_AmountGwei e)) (le_CreatedAt e) (insert_entry e db)"
    using post None by (auto simp: posted_def)
  note mem = find_balance_Some [OF b(1)]
  have dist: "distinct (map bl_UserID (wd_balances db))" using ok by (simp add: ledger_ok_def)
  have b0: "0 \<le> bl_AvailableGwei b" "bl_AvailableGwei b < 2 ^ 63"
    "bl_AvailableGwei b = sum_list (map le_AmountGwei (entries_of ?u db))"
    using ok mem by (auto simp: ledger_ok_def)
  note w = wrap64_add_nonneg [OF b0(1,2) amt]
  have new: "wrap64 (bl_AvailableGwei b + le_AmountGwei e) = bl_AvailableGwei b + le_AmountGwei e"
    using w(2) b(2) .
  have sum: "entries_of u db' = entries_of u db @ (if u = ?u then [e] else [])" for u
    by (simp add: db' entries_of_def)
  have ids: "le_ID e \<notin> le_ID ` set (wd_ledger db)" "le_IdempotencyKey e \<notin> le_IdempotencyKey ` set (wd_ledger db)"
    using v by (auto simp: entry_violates_def violates_def list_ex_iff split: if_splits)
  have rows: "wd_balances db' = map (\<lambda>x. if bl_UserID x = ?u then x\<lparr>bl_AvailableGwei :=
      bl_AvailableGwei b + le_AmountGwei e, bl_UpdatedAt := le_CreatedAt e\<rparr> else x) (wd_balances db)"
    by (simp add: db' new set_balance_def insert_entry_def)
  have keys: "map bl_UserID (wd_balances db') = map bl_UserID (wd_balances db)" by (rule posted_frame(9) [OF post])
  have acc: "has_account u db' = has_account u db" for u by (simp add: db' has_account_def)
  have "bl_AvailableGwei x = sum_list (map le_AmountGwei (entries_of (bl_UserID x) db'))
      \<and> 0 \<le> bl_AvailableGwei x \<and> bl_AvailableGwei x < 2 ^ 63 \<and> has_account (bl_UserID x) db'"
    if x: "x \<in> set (wd_balances db')" for x
  proof -
    obtain y where y: "y \<in> set (wd_balances db)" "x = (if bl_UserID y = ?u then y\<lparr>bl_AvailableGwei :=
        bl_AvailableGwei b + le_AmountGwei e, bl_UpdatedAt := le_CreatedAt e\<rparr> else y)"
      using x unfolding rows set_map by blast
    then show ?thesis
      using ok b0(3) w b(2) by (auto simp: ledger_ok_def sum acc)
  qed
  moreover have same: "find_balance u db' = None \<longleftrightarrow> find_balance u db = None" for u
    using arg_cong [OF keys, of set] by (simp add: find_balance_None)
  have led: "wd_ledger db' = wd_ledger db @ [e]" by (simp add: db')
  have "\<forall>e \<in> set (wd_ledger db'). find_balance (le_UserID e) db' \<noteq> None"
    using ok b(1) unfolding led same by (simp add: ledger_ok_def)
  moreover have "distinct (map le_ID (wd_ledger db'))" "distinct (map le_IdempotencyKey (wd_ledger db'))"
    using ok ids unfolding led by (simp_all add: ledger_ok_def)
  moreover have "distinct (map bl_UserID (wd_balances db'))" using dist keys by simp
  ultimately show ?thesis
    unfolding ledger_ok_def by blast
qed

section \<open>The abstract bank\<close>

text \<open>What the wallet promises its clients: balances and the keys already used.\<close>

record Bank =
  bk_balance :: "string \<Rightarrow> int option"
  bk_keys :: "string set"

definition abs_bank :: "WalletDB \<Rightarrow> Bank" where
  "abs_bank db =
     \<lparr>bk_balance = (\<lambda>u. map_option bl_AvailableGwei (find_balance u db)),
      bk_keys = le_IdempotencyKey ` set (wd_ledger db)\<rparr>"

definition bank_apply :: "LedgerEntry \<Rightarrow> Bank \<Rightarrow> unit result \<times> Bank" where
  "bank_apply e bank =
     (if le_IdempotencyKey e \<in> bk_keys bank then (Ok (), bank)
      else case bk_balance bank (le_UserID e) of
          None \<Rightarrow> (Err ErrAccountNotFound, bank)
        | Some b \<Rightarrow>
            if 0 \<le> b + le_AmountGwei e \<and> b + le_AmountGwei e < 2 ^ 63
            then (Ok (), \<lparr>bk_balance = (bk_balance bank)(le_UserID e \<mapsto> b + le_AmountGwei e),
                          bk_keys = insert (le_IdempotencyKey e) (bk_keys bank)\<rparr>)
            else (Err ErrInsufficientFunds, bank))"

text \<open>A server that answers all of the statements that carry a key.\<close>

definition serves :: "Server \<Rightarrow> string \<Rightarrow> bool" where
  "serves sv key \<longleftrightarrow> (\<forall>stmt. \<not> sv_fails sv stmt key \<and> \<not> sv_loses sv stmt key)"

lemma find_balance_set_balance:
  "find_balance v (set_balance u n t db) =
    map_option (\<lambda>b. if v = u then b\<lparr>bl_AvailableGwei := n, bl_UpdatedAt := t\<rparr> else b) (find_balance v db)"
proof -
  have "find (\<lambda>b. bl_UserID b = v) (map (\<lambda>b. if bl_UserID b = u then b\<lparr>bl_AvailableGwei := n, bl_UpdatedAt := t\<rparr> else b) bs)
    = map_option (\<lambda>b. if v = u then b\<lparr>bl_AvailableGwei := n, bl_UpdatedAt := t\<rparr> else b)
        (find (\<lambda>b. bl_UserID b = v) bs)" for bs
    by (induction bs) auto
  then show ?thesis by (simp add: find_balance_def set_balance_def)
qed

lemma find_balance_insert_entry [simp]: "find_balance u (insert_entry e db) = find_balance u db"
  by (simp add: find_balance_def)

lemma abs_bank_posted:
  assumes "find_balance (le_UserID e) db = Some b"
  shows "abs_bank (set_balance (le_UserID e) n t (insert_entry e db)) =
    \<lparr>bk_balance = (bk_balance (abs_bank db))(le_UserID e \<mapsto> n),
     bk_keys = insert (le_IdempotencyKey e) (bk_keys (abs_bank db))\<rparr>"
  using assms by (auto simp: abs_bank_def find_balance_set_balance option.map_comp comp_def)

lemma posted_refines:
  assumes ok: "ledger_ok db" and amt: "in_int64 (le_AmountGwei e)" and post: "posted e db db'"
  shows "(Ok (), abs_bank db') = bank_apply e (abs_bank db)"
proof (cases "find_entry (le_IdempotencyKey e) db")
  case (Some x)
  then have "le_IdempotencyKey e \<in> bk_keys (abs_bank db)"
    using find_entry_None [of "le_IdempotencyKey e" db] by (simp add: abs_bank_def)
  then show ?thesis using post Some by (simp add: posted_def bank_apply_def)
next
  case None
  then obtain b where b: "find_balance (le_UserID e) db = Some b" "0 \<le> wrap64 (bl_AvailableGwei b + le_AmountGwei e)"
    "db' = set_balance (le_UserID e) (wrap64 (bl_AvailableGwei b + le_AmountGwei e)) (le_CreatedAt e) (insert_entry e db)"
    using post by (auto simp: posted_def)
  have "0 \<le> bl_AvailableGwei b" "bl_AvailableGwei b < 2 ^ 63"
    using ok find_balance_Some [OF b(1)] by (auto simp: ledger_ok_def)
  note w = wrap64_add_nonneg [OF this amt]
  have "le_IdempotencyKey e \<notin> bk_keys (abs_bank db)" "bk_balance (abs_bank db) (le_UserID e) = Some (bl_AvailableGwei b)"
    using None b(1) by (simp_all add: abs_bank_def find_entry_None)
  then show ?thesis
    using w b(2) abs_bank_posted [OF b(1), of "bl_AvailableGwei b + le_AmountGwei e" "le_CreatedAt e"]
    by (auto simp: bank_apply_def b(3))
qed

lemma ApplyLedgerEntry_refines:
  assumes ok: "ledger_ok db" and amt: "in_int64 (le_AmountGwei e)"
    and up: "serves sv (le_IdempotencyKey e)" and fresh: "le_ID e \<notin> le_ID ` set (wd_ledger db)"
    and run: "ApplyLedgerEntry sv e db = (r, db')"
  shows "(r, abs_bank db') = bank_apply e (abs_bank db)"
proof (cases "find_entry (le_IdempotencyKey e) db")
  case (Some x)
  then have "r = Ok () \<and> db' = db"
    using run up by (simp add: ApplyLedgerEntry_def withTx_def applyLedgerEntryTx_def tx_defs Let_def serves_def)
  moreover have "le_IdempotencyKey e \<in> bk_keys (abs_bank db)"
    using Some find_entry_None [of "le_IdempotencyKey e" db] by (simp add: abs_bank_def)
  ultimately show ?thesis by (simp add: bank_apply_def)
next
  case new: None
  then have key: "le_IdempotencyKey e \<notin> bk_keys (abs_bank db)" by (simp add: abs_bank_def find_entry_None)
  show ?thesis
  proof (cases "find_balance (le_UserID e) db")
    case None
    then have "r = Err ErrAccountNotFound \<and> db' = db"
      using run up new by (simp add: ApplyLedgerEntry_def withTx_def applyLedgerEntryTx_def tx_defs Let_def serves_def)
    then show ?thesis using key None by (simp add: bank_apply_def abs_bank_def)
  next
    case (Some b)
    have b: "0 \<le> bl_AvailableGwei b" "bl_AvailableGwei b < 2 ^ 63" "has_account (le_UserID e) db"
      using ok find_balance_Some [OF Some] by (auto simp: ledger_ok_def)
    note w = wrap64_add_nonneg [OF b(1,2) amt]
    have v: "entry_violates e db = None"
      using fresh new b(3) by (auto simp: entry_violates_def violates_def list_ex_iff find_entry_None image_iff)
    have "(r, db') = (if wrap64 (bl_AvailableGwei b + le_AmountGwei e) < 0 then (Err ErrInsufficientFunds, db)
        else (Ok (), set_balance (le_UserID e) (wrap64 (bl_AvailableGwei b + le_AmountGwei e)) (le_CreatedAt e)
          (insert_entry e db)))"
      using run up new Some v
      by (simp add: ApplyLedgerEntry_def withTx_def applyLedgerEntryTx_def tx_defs Let_def serves_def split: if_splits)
    moreover have "bk_balance (abs_bank db) (le_UserID e) = Some (bl_AvailableGwei b)" using Some by (simp add: abs_bank_def)
    ultimately show ?thesis
      using key w abs_bank_posted [OF Some, of "bl_AvailableGwei b + le_AmountGwei e" "le_CreatedAt e"]
      by (auto simp: bank_apply_def split: if_splits)
  qed
qed

text \<open>
  C13: The wallet's ledger implements a bank. On books in order, and while the database answers,
  \<open>ApplyLedgerEntry\<close> returns and does exactly what the abstract bank does: a known idempotency key
  is a no-op, an unknown account or a balance that would leave 0 to 2^63 is refused, and
  otherwise the amount is added and the key recorded. Whatever the database does, a call that
  returns success has done what the bank does, and a call that returns an error has changed
  nothing, except where the answer to its commit was lost: then the posting is durable, it is
  the one the bank makes, and the caller is told of a failed commit.
\<close>

theorem ApplyLedgerEntry_refines_bank:
  assumes "ledger_ok db" "in_int64 (le_AmountGwei e)" "ApplyLedgerEntry sv e db = (r, db')"
  shows "(serves sv (le_IdempotencyKey e) \<and> le_ID e \<notin> le_ID ` set (wd_ledger db)
      \<longrightarrow> (r, abs_bank db') = bank_apply e (abs_bank db))
    \<and> (r = Ok () \<longrightarrow> (Ok (), abs_bank db') = bank_apply e (abs_bank db))
    \<and> (r \<noteq> Ok () \<and> db' \<noteq> db \<longrightarrow> (Ok (), abs_bank db') = bank_apply e (abs_bank db)
        \<and> r = Err (Wrap ''commit tx'' SqlError) \<and> sv_loses sv ''commit tx'' (le_IdempotencyKey e))
    \<and> ledger_ok db'"
proof (intro conjI impI)
  note cs = ApplyLedgerEntry_cases [OF assms(3)]
  show "(r, abs_bank db') = bank_apply e (abs_bank db)" if "serves sv (le_IdempotencyKey e) \<and> le_ID e \<notin> le_ID ` set (wd_ledger db)"
    using ApplyLedgerEntry_refines [OF assms(1,2) _ _ assms(3)] that by blast
  show "(Ok (), abs_bank db') = bank_apply e (abs_bank db)" if "r = Ok ()"
    using posted_refines [OF assms(1,2) cs(1) [OF that]] .
  show "ledger_ok db'" using cs(2) assms(1) posted_ledger_ok [OF assms(1,2)] by blast
  assume f: "r \<noteq> Ok () \<and> db' \<noteq> db"
  show "(Ok (), abs_bank db') = bank_apply e (abs_bank db)" using cs(2) f posted_refines [OF assms(1,2)] by blast
  show "r = Err (Wrap ''commit tx'' SqlError)" "sv_loses sv ''commit tx'' (le_IdempotencyKey e)" using cs(2) f by blast+
qed

definition ok_server :: Server where
  "ok_server = \<lparr>sv_fails = (\<lambda>stmt key. False), sv_loses = (\<lambda>stmt key. False), sv_linked = (\<lambda>_ xs. xs), sv_deposits = (\<lambda>_ xs. xs),
     sv_withdrawals = (\<lambda>_ xs. xs), sv_faucets = (\<lambda>_ xs. xs), sv_addresses = (\<lambda>xs. xs)\<rparr>"

definition ex_wallet :: "int \<Rightarrow> WalletDB" where
  "ex_wallet n =
     \<lparr>wd_accounts = [\<lparr>ac_UserID = ''u'', ac_Email = ''u@x'', ac_CreatedAt = 0, ac_ProvisionedAt = 0\<rparr>],
      wd_balances = [\<lparr>bl_UserID = ''u'', bl_AvailableGwei = n, bl_UpdatedAt = 0\<rparr>],
      wd_ledger = [\<lparr>le_ID = ''l0'', le_UserID = ''u'', le_EntryKind = EntryKindDepositConfirmed, le_AmountGwei = n,
        le_ReferenceID = ''0xabc'', le_IdempotencyKey = ''deposit:0xabc'', le_CreatedAt = 0\<rparr>],
      wd_addresses = [], wd_challenges = [], wd_linked = [], wd_deposits = [], wd_withdrawals = [], wd_faucets = [],
      wd_chain = []\<rparr>"

definition ex_entry :: "int \<Rightarrow> LedgerEntry" where
  "ex_entry n = \<lparr>le_ID = ''l1'', le_UserID = ''u'', le_EntryKind = EntryKindTableBuyInDebit, le_AmountGwei = n,
     le_ReferenceID = ''t'', le_IdempotencyKey = ''join:t:u'', le_CreatedAt = 1\<rparr>"

lemma ex_wallet_ok: "0 \<le> n \<Longrightarrow> n < 2 ^ 63 \<Longrightarrow> ledger_ok (ex_wallet n)"
  by (simp add: ledger_ok_def ex_wallet_def entries_of_def has_account_def find_balance_def)

lemma serves_ok_server [simp]: "serves ok_server key"
  by (simp add: serves_def ok_server_def)

theorem ApplyLedgerEntry_refines_bank_witness:
  "\<exists>r db'. ApplyLedgerEntry ok_server (ex_entry (- 40)) (ex_wallet 100) = (r, db') \<and> r = Ok ()
    \<and> bk_balance (abs_bank db') ''u'' = Some 60 \<and> ledger_ok db'"
proof -
  obtain r db' where run: "ApplyLedgerEntry ok_server (ex_entry (- 40)) (ex_wallet 100) = (r, db')" by fastforce
  have "ledger_ok (ex_wallet 100)" by (rule ex_wallet_ok) simp_all
  from ApplyLedgerEntry_refines_bank [OF this _ run]
  have eq: "(r, abs_bank db') = bank_apply (ex_entry (- 40)) (abs_bank (ex_wallet 100))" and ok: "ledger_ok db'"
    by (simp_all add: ex_entry_def in_int64_def ex_wallet_def)
  have "fst (bank_apply (ex_entry (- 40)) (abs_bank (ex_wallet 100))) = Ok ()"
    "bk_balance (snd (bank_apply (ex_entry (- 40)) (abs_bank (ex_wallet 100)))) ''u'' = Some 60"
    by (simp_all add: bank_apply_def abs_bank_def ex_entry_def ex_wallet_def find_balance_def)
  then have "r = Ok ()" "bk_balance (abs_bank db') ''u'' = Some 60" by (simp_all flip: eq)
  then show ?thesis using run ok by blast
qed

section \<open>Postings can be retried\<close>

text \<open>A client that repeats a call after an error, each attempt meeting its own database behaviour.\<close>

definition attempts :: "('sv \<Rightarrow> 'e \<Rightarrow> 'db \<Rightarrow> unit result \<times> 'db) \<Rightarrow> 'e \<Rightarrow> 'sv list \<Rightarrow> 'db \<Rightarrow> 'db" where
  "attempts post e svs db = foldl (\<lambda>db sv. snd (post sv e db)) db svs"

locale ledger_api =
  fixes post :: "'sv \<Rightarrow> 'e \<Rightarrow> 'db \<Rightarrow> unit result \<times> 'db" and effect :: "'e \<Rightarrow> 'db \<Rightarrow> 'db \<Rightarrow> bool"
    and key :: "'e \<Rightarrow> string" and used :: "'db \<Rightarrow> string set"
  assumes all_or_nothing: "post sv e db = (r, db') \<Longrightarrow> db' = db \<or> effect e db db'"
    and success_counts: "post sv e db = (Ok (), db') \<Longrightarrow> effect e db db'"
    and known_is_noop: "\<lbrakk>effect e db db'; key e \<in> used db\<rbrakk> \<Longrightarrow> db' = db"
    and effect_is_recorded: "effect e db db' \<Longrightarrow> key e \<in> used db'"
begin

lemma after_known: "key e \<in> used db \<Longrightarrow> attempts post e svs db = db"
proof (induction svs)
  case Nil
  then show ?case by (simp add: attempts_def)
next
  case (Cons sv svs)
  obtain r db' where p: "post sv e db = (r, db')" by fastforce
  then have "db' = db" using all_or_nothing known_is_noop Cons.prems by blast
  then show ?case using Cons p by (simp add: attempts_def)
qed

lemma at_most_once: "attempts post e svs db = db \<or> effect e db (attempts post e svs db)"
proof (induction svs)
  case Nil
  then show ?case by (simp add: attempts_def)
next
  case (Cons sv svs)
  obtain r db' where p: "post sv e db = (r, db')" by fastforce
  then have step: "attempts post e (sv # svs) db = attempts post e svs db'" by (simp add: attempts_def)
  consider "db' = db" | "effect e db db'" using all_or_nothing [OF p] by blast
  then show ?case
  proof cases
    case 1
    then show ?thesis using Cons step by simp
  next
    case 2
    then show ?thesis using after_known [OF effect_is_recorded] step by simp
  qed
qed

lemma first_success_stays:
  assumes "post sv e (attempts post e before db) = (Ok (), db')"
  shows "attempts post e (before @ sv # after) db = db' \<and> effect e db db'"
proof -
  have e: "effect e (attempts post e before db) db'" using success_counts [OF assms] .
  then have "attempts post e (before @ sv # after) db = db'"
    using after_known [OF effect_is_recorded [OF e]] assms by (simp add: attempts_def)
  moreover have "effect e db db'"
    using at_most_once [of e before db] known_is_noop [OF e] effect_is_recorded e by metis
  ultimately show ?thesis by blast
qed

end

lemma posted_records: "posted e db db' \<Longrightarrow> le_IdempotencyKey e \<in> bk_keys (abs_bank db')"
  using find_entry_None [of "le_IdempotencyKey e" db] by (auto simp: posted_def abs_bank_def split: if_splits)

lemma posted_known: "posted e db db' \<Longrightarrow> le_IdempotencyKey e \<in> bk_keys (abs_bank db) \<Longrightarrow> db' = db"
  using find_entry_None [of "le_IdempotencyKey e" db] by (auto simp: posted_def abs_bank_def split: if_splits)

interpretation wallet_ledger: ledger_api ApplyLedgerEntry posted le_IdempotencyKey "\<lambda>db. bk_keys (abs_bank db)"
  by unfold_locales (use ApplyLedgerEntry_cases posted_records posted_known in blast)+

text \<open>
  C22: Retrying a posting is safe. However often a client repeats a ledger entry, and however the
  database behaves at each attempt, lost answers included, the books end up as before or with
  the entry posted once; and if one attempt reported success, the entry is posted and all later
  attempts change nothing.
\<close>

theorem retried_posting_counts_once:
  "(attempts ApplyLedgerEntry e svs db = db \<or> posted e db (attempts ApplyLedgerEntry e svs db))
    \<and> (\<forall>before sv after db'. svs = before @ sv # after
        \<longrightarrow> ApplyLedgerEntry sv e (attempts ApplyLedgerEntry e before db) = (Ok (), db')
        \<longrightarrow> attempts ApplyLedgerEntry e svs db = db' \<and> posted e db db')"
  using wallet_ledger.at_most_once wallet_ledger.first_success_stays by blast

theorem retried_posting_counts_once_witness:
  defines "down \<equiv> ok_server\<lparr>sv_fails := (\<lambda>stmt key. True)\<rparr>"
  shows "\<exists>db'. ApplyLedgerEntry ok_server (ex_entry (- 40)) (ex_wallet 100) = (Ok (), db')
    \<and> attempts ApplyLedgerEntry (ex_entry (- 40)) [down, ok_server, down, ok_server] (ex_wallet 100) = db'"
proof -
  have d: "attempts ApplyLedgerEntry (ex_entry (- 40)) [down] (ex_wallet 100) = ex_wallet 100"
    by (simp add: attempts_def ApplyLedgerEntry_def withTx_def down_def)
  obtain db' where ok: "ApplyLedgerEntry ok_server (ex_entry (- 40)) (ex_wallet 100) = (Ok (), db')"
    using ApplyLedgerEntry_refines [OF ex_wallet_ok, of 100 "ex_entry (- 40)" ok_server]
    by (cases "ApplyLedgerEntry ok_server (ex_entry (- 40)) (ex_wallet 100)")
      (auto simp: ex_entry_def in_int64_def ex_wallet_def bank_apply_def abs_bank_def find_balance_def)
  then show ?thesis
    using retried_posting_counts_once [of "ex_entry (- 40)" "[down, ok_server, down, ok_server]" "ex_wallet 100"] d
    by (metis append_Cons append_Nil)
qed

end
