(* ===== verification/Base64.thy ===== *)
theory Base64
  imports Prelude
begin

text \<open>
  \<open>base64.RawURLEncoding\<close> of Go's standard library, which the services use for identifiers, tokens
  and keys: the URL alphabet, no padding. The decoder skips line breaks and, as it is not in
  strict mode, ignores the unused bits of the last character.
\<close>

definition alphabet :: string where
  "alphabet = ''ABCDEFGHIJKLMNOPQRSTUVWXYZabcdefghijklmnopqrstuvwxyz0123456789-_''"

definition digit :: "nat \<Rightarrow> char" where
  "digit n = alphabet ! n"

fun index_of :: "char \<Rightarrow> char list \<Rightarrow> nat \<Rightarrow> nat option" where
  "index_of c [] i = None"
| "index_of c (d # ds) i = (if c = d then Some i else index_of c ds (Suc i))"

definition undigit :: "char \<Rightarrow> nat option" where
  "undigit c = index_of c alphabet 0"

abbreviation byte :: "char \<Rightarrow> nat" where
  "byte c \<equiv> of_char c"

fun EncodeToString :: "string \<Rightarrow> string" where
  "EncodeToString (a # b # c # s) =
     [digit (byte a div 4), digit (byte a mod 4 * 16 + byte b div 16),
      digit (byte b mod 16 * 4 + byte c div 64), digit (byte c mod 64)] @ EncodeToString s"
| "EncodeToString [a, b] =
     [digit (byte a div 4), digit (byte a mod 4 * 16 + byte b div 16), digit (byte b mod 16 * 4)]"
| "EncodeToString [a] = [digit (byte a div 4), digit (byte a mod 4 * 16)]"
| "EncodeToString [] = []"

fun quads :: "nat option list \<Rightarrow> string option" where
  "quads (Some p # Some q # Some r # Some t # xs) =
     map_option (\<lambda>s. [char_of (p * 4 + q div 16), char_of (q mod 16 * 16 + r div 4), char_of (r mod 4 * 64 + t)] @ s)
       (quads xs)"
| "quads [Some p, Some q, Some r] = Some [char_of (p * 4 + q div 16), char_of (q mod 16 * 16 + r div 4)]"
| "quads [Some p, Some q] = Some [char_of (p * 4 + q div 16)]"
| "quads [] = Some []"
| "quads _ = None"

definition DecodeString :: "string \<Rightarrow> string option" where
  "DecodeString s = quads (map undigit (filter (\<lambda>c. c \<noteq> CHR 0x0A \<and> c \<noteq> CHR 0x0D) s))"

section \<open>Round trip\<close>

lemma length_alphabet: "length alphabet = 64"
  by (simp add: alphabet_def)

lemma index_of_nth:
  "distinct ds \<Longrightarrow> n < length ds \<Longrightarrow> index_of (ds ! n) ds i = Some (i + n)"
proof (induction ds arbitrary: n i)
  case (Cons d ds)
  then show ?case by (cases n) auto
qed simp

lemma distinct_alphabet: "distinct alphabet"
  by (simp add: alphabet_def)

lemma undigit_digit [simp]: "n < 64 \<Longrightarrow> undigit (digit n) = Some n"
  using index_of_nth [OF distinct_alphabet, of n 0] by (simp add: undigit_def digit_def length_alphabet)

lemma digit_alphabet: "n < 64 \<Longrightarrow> digit n \<in> set alphabet"
  by (simp add: digit_def length_alphabet)

lemma digits_bound [simp]:
  "byte a div 4 < 64" "byte a mod 4 * 16 + byte b div 16 < 64" "byte b mod 16 * 4 + byte c div 64 < 64"
  "byte c mod 64 < 64" "byte b mod 16 * 4 < 64" "byte a mod 4 * 16 < 64"
proof -
  have lt: "byte a < 4 * 64" "byte b < 16 * 16" "byte c < 64 * 4" using nat_of_char_less_256 [of a] nat_of_char_less_256 [of b] nat_of_char_less_256 [of c] by simp_all
  then have d: "byte a div 4 < 64" "byte b div 16 < 16" "byte c div 64 < 4"
    by (simp_all add: less_mult_imp_div_less mult.commute)
  then show "byte a div 4 < 64" by simp
  have m: "byte a mod 4 < 4" "byte b mod 16 < 16" by simp_all
  show "byte a mod 4 * 16 + byte b div 16 < 64" "byte b mod 16 * 4 + byte c div 64 < 64"
    "byte b mod 16 * 4 < 64" "byte a mod 4 * 16 < 64" using d m by linarith+
qed simp

lemma EncodeToString_alphabet: "set (EncodeToString s) \<subseteq> set alphabet"
  by (induction s rule: EncodeToString.induct) (simp_all add: digit_alphabet)

lemma regroup:
  "byte a div 4 * 4 + (byte a mod 4 * 16 + byte b div 16) div 16 = byte a"
  "(byte a mod 4 * 16 + byte b div 16) mod 16 * 16 + (byte b mod 16 * 4 + byte c div 64) div 4 = byte b"
  "(byte b mod 16 * 4 + byte c div 64) mod 4 * 64 + byte c mod 64 = byte c"
proof -
  have d: "byte b div 16 < 16" "byte c div 64 < 4"
    using nat_of_char_less_256 [of b] nat_of_char_less_256 [of c] by (simp_all add: less_mult_imp_div_less)
  show "byte a div 4 * 4 + (byte a mod 4 * 16 + byte b div 16) div 16 = byte a"
    using d(1) by (simp add: div_add1_eq)
  show "(byte a mod 4 * 16 + byte b div 16) mod 16 * 16 + (byte b mod 16 * 4 + byte c div 64) div 4 = byte b"
    using d by (simp add: div_add1_eq mod_add_eq)
  show "(byte b mod 16 * 4 + byte c div 64) mod 4 * 64 + byte c mod 64 = byte c"
    using d(2) by simp
qed

lemma quads_EncodeToString: "quads (map undigit (EncodeToString s)) = Some s"
proof (induction s rule: EncodeToString.induct)
  case (1 a b c s)
  then show ?case using regroup(1) [of a b] regroup(2) [of a b c] regroup(3) [of b c] by simp
next
  case (2 a b)
  have "(byte b mod 16 * 4) div 4 = byte b mod 16" by simp
  then show ?case using regroup(1) [of a b] regroup(2) [of a b "CHR 0x00"] by simp
next
  case (3 a)
  then show ?case using regroup(1) [of a "CHR 0x00"] by simp
qed simp

lemma DecodeString_EncodeToString [simp]: "DecodeString (EncodeToString s) = Some s"
proof -
  have "CHR 0x0A \<notin> set alphabet" "CHR 0x0D \<notin> set alphabet" by (simp_all add: alphabet_def)
  then have "filter (\<lambda>c. c \<noteq> CHR 0x0A \<and> c \<noteq> CHR 0x0D) (EncodeToString s) = EncodeToString s"
    using EncodeToString_alphabet [of s] by (intro filter_True) auto
  then show ?thesis by (simp add: DecodeString_def quads_EncodeToString)
qed

lemma EncodeToString_inj: "EncodeToString s = EncodeToString t \<Longrightarrow> s = t"
  by (metis DecodeString_EncodeToString option.inject)

end
