(* ===== verification/WalletService.thy ===== *)
theory WalletService
  imports WalletLedger Base64
begin

text \<open>
  The wallet's application service (\<open>internal/application/service.go\<close>): provisioning, linking an
  Ethereum address by a signed challenge, withdrawals to linked addresses, admin faucet
  transfers, and the two calls of the table manager that debit a buy-in and credit a cash-out.

  The environment of a call is a parameter: the database server, the clock (nanoseconds), the
  random source, the RFC 3339 rendering of a time, and the wallet's cryptography.
\<close>

record WalletEnv =
  we_sv :: Server
  we_now :: int
  we_rand :: "string \<Rightarrow> string option"
  we_rfc3339 :: "int \<Rightarrow> string"
  we_chain :: string
  we_GenerateDepositAccount :: "(string \<times> string) result"
  we_RecoverPersonalSignAddress :: "string \<Rightarrow> string \<Rightarrow> string result"

definition linkChallengeTTL :: int where
  "linkChallengeTTL = 10 * 60 * 1000000000"

definition normalizeAddress :: "string \<Rightarrow> string" where
  "normalizeAddress address = ToLower (TrimSpace address)"

definition isEthereumAddress :: "string \<Rightarrow> bool" where
  "isEthereumAddress address \<longleftrightarrow>
     \<not> (length address \<noteq> 42 \<or> \<not> HasPrefix address ''0x'')
     \<and> list_all (\<lambda>r. r \<in> set ''0123456789abcdef'') (drop 2 address)"

text \<open>The random bytes drawn for a prefix; without them the identifier carries the time.\<close>

definition newID :: "WalletEnv \<Rightarrow> string \<Rightarrow> string" where
  "newID env prefix =
     (case we_rand env prefix of
        None \<Rightarrow> prefix @ ''-'' @ show_int (we_now env)
      | Some raw \<Rightarrow> prefix @ ''-'' @ ToLower (EncodeToString raw))"

definition Svc_ProvisionUser :: "WalletEnv \<Rightarrow> string \<Rightarrow> string \<Rightarrow> WalletDB \<Rightarrow> unit result \<times> WalletDB" where
  "Svc_ProvisionUser env userID email db =
     (let userID = TrimSpace userID; email = ToLower (TrimSpace email)
      in if userID = '''' \<or> email = '''' then (Err ErrInvalidInput, db)
         else case we_GenerateDepositAccount env of
             Err e \<Rightarrow> (Err (Wrap ''generate deposit address'' e), db)
           | Panic m \<Rightarrow> (Panic m, db)
           | Ok (privateKeyHex, address) \<Rightarrow>
               ProvisionUser (we_sv env)
                 \<lparr>ac_UserID = userID, ac_Email = email, ac_CreatedAt = we_now env, ac_ProvisionedAt = we_now env\<rparr>
                 \<lparr>da_UserID = userID, da_Address = address, da_PrivateKeyHex = privateKeyHex, da_Chain = we_chain env,
                  da_CreatedAt = we_now env, da_LastSweepTxHash = None, da_LastSweepAt = None,
                  da_LastObservedBlock = None\<rparr> db)"

definition Svc_Balance :: "WalletEnv \<Rightarrow> string \<Rightarrow> WalletDB \<Rightarrow> Balance result" where
  "Svc_Balance env userID db = GetBalance (we_sv env) (TrimSpace userID) db"

definition Svc_DepositAddress :: "WalletEnv \<Rightarrow> string \<Rightarrow> WalletDB \<Rightarrow> DepositAddress result" where
  "Svc_DepositAddress env userID db = GetDepositAddress (we_sv env) (TrimSpace userID) db"

definition Svc_LinkedAddresses :: "WalletEnv \<Rightarrow> string \<Rightarrow> WalletDB \<Rightarrow> LinkedAddress list result" where
  "Svc_LinkedAddresses env userID db = ListLinkedAddresses (we_sv env) (TrimSpace userID) db"

definition challenge_text :: "WalletEnv \<Rightarrow> string \<Rightarrow> string \<Rightarrow> string \<Rightarrow> string" where
  "challenge_text env userID address challengeID =
     ''Holdem wallet link'' @ [CHR 0x0A] @ ''user_id: '' @ userID @ [CHR 0x0A] @ ''address: '' @ address
     @ [CHR 0x0A] @ ''challenge_id: '' @ challengeID @ [CHR 0x0A] @ ''expires_at: ''
     @ we_rfc3339 env (we_now env + linkChallengeTTL) @ [CHR 0x0A] @ ''network: '' @ we_chain env"

definition Svc_CreateLinkChallenge ::
    "WalletEnv \<Rightarrow> string \<Rightarrow> string \<Rightarrow> WalletDB \<Rightarrow> LinkChallenge result \<times> WalletDB" where
  "Svc_CreateLinkChallenge env userID address db =
     (let userID = TrimSpace userID; address = normalizeAddress address
      in if userID = '''' \<or> \<not> isEthereumAddress address then (Err ErrInvalidInput, db)
         else let challengeID = newID env ''challenge'';
                  challenge = \<lparr>lc_ID = challengeID, lc_UserID = userID, lc_Address = address,
                    lc_Challenge = challenge_text env userID address challengeID, lc_CreatedAt = we_now env,
                    lc_ExpiresAt = we_now env + linkChallengeTTL, lc_ConsumedAt = None\<rparr>
              in case CreateLinkChallenge (we_sv env) challenge db of
                  (Ok _, db) \<Rightarrow> (Ok challenge, db)
                | (Err e, db) \<Rightarrow> (Err e, db)
                | (Panic m, db) \<Rightarrow> (Panic m, db))"

definition ConfirmLink ::
    "WalletEnv \<Rightarrow> string \<Rightarrow> string \<Rightarrow> string \<Rightarrow> string \<Rightarrow> WalletDB \<Rightarrow> LinkedAddress result \<times> WalletDB" where
  "ConfirmLink env userID challengeID address signature db =
     (let userID = TrimSpace userID; challengeID = TrimSpace challengeID;
          address = normalizeAddress address; signature = TrimSpace signature
      in if userID = '''' \<or> challengeID = '''' \<or> \<not> isEthereumAddress address \<or> signature = ''''
         then (Err ErrInvalidInput, db)
         else case FindLinkChallenge (we_sv env) userID challengeID address db of
             Err e \<Rightarrow> (Err e, db)
           | Panic m \<Rightarrow> (Panic m, db)
           | Ok challenge \<Rightarrow>
               if lc_ExpiresAt challenge < we_now env then (Err ErrChallengeExpired, db)
               else case we_RecoverPersonalSignAddress env (lc_Challenge challenge) signature of
                   Err e \<Rightarrow> (Err ErrInvalidChallengeProof, db)
                 | Panic m \<Rightarrow> (Panic m, db)
                 | Ok recoveredAddress \<Rightarrow>
                     if normalizeAddress recoveredAddress \<noteq> address then (Err ErrInvalidChallengeProof, db)
                     else let linked = \<lparr>la_ID = newID env ''linked'', la_UserID = userID, la_Address = address,
                                la_CreatedAt = we_now env, la_VerifiedAt = we_now env\<rparr>
                          in case ConfirmLinkChallenge (we_sv env) (we_now env) (lc_ID challenge) linked db of
                              (Ok _, db) \<Rightarrow> (Ok linked, db)
                            | (Err e, db) \<Rightarrow> (Err e, db)
                            | (Panic m, db) \<Rightarrow> (Panic m, db))"

definition Svc_Deposits :: "WalletEnv \<Rightarrow> string \<Rightarrow> WalletDB \<Rightarrow> Deposit list result" where
  "Svc_Deposits env userID db = ListDeposits (we_sv env) (TrimSpace userID) db"

definition Svc_Withdrawals :: "WalletEnv \<Rightarrow> string \<Rightarrow> WalletDB \<Rightarrow> WithdrawalRequest list result" where
  "Svc_Withdrawals env userID db = ListWithdrawals (we_sv env) (TrimSpace userID) db"

definition new_withdrawal :: "WalletEnv \<Rightarrow> string \<Rightarrow> string \<Rightarrow> int \<Rightarrow> WithdrawalRequest" where
  "new_withdrawal env userID address amountGwei =
     \<lparr>wr_ID = newID env ''withdrawal'', wr_UserID = userID, wr_Address = address, wr_AmountGwei = amountGwei,
      wr_Status = StatusPending, wr_TxHash = None, wr_Nonce = None, wr_SubmittedAt = None, wr_ConfirmedAt = None,
      wr_FailureReason = None, wr_CreatedAt = we_now env, wr_UpdatedAt = we_now env\<rparr>"

definition withdrawal_key :: "string \<Rightarrow> string" where
  "withdrawal_key i = ''withdrawal:'' @ i"

definition withdrawal_entry :: "WalletEnv \<Rightarrow> WithdrawalRequest \<Rightarrow> LedgerEntry" where
  "withdrawal_entry env w =
     \<lparr>le_ID = newID env ''ledger'', le_UserID = wr_UserID w, le_EntryKind = EntryKindWithdrawalDebit,
      le_AmountGwei = - wr_AmountGwei w, le_ReferenceID = wr_ID w, le_IdempotencyKey = withdrawal_key (wr_ID w),
      le_CreatedAt = we_now env\<rparr>"

definition RequestWithdrawal ::
    "WalletEnv \<Rightarrow> string \<Rightarrow> string \<Rightarrow> int \<Rightarrow> WalletDB \<Rightarrow> WithdrawalRequest result \<times> WalletDB" where
  "RequestWithdrawal env userID address amountGwei db =
     (let userID = TrimSpace userID; address = normalizeAddress address
      in if userID = '''' \<or> \<not> isEthereumAddress address \<or> amountGwei \<le> 0 then (Err ErrInvalidInput, db)
         else case ListLinkedAddresses (we_sv env) userID db of
             Err e \<Rightarrow> (Err e, db)
           | Panic m \<Rightarrow> (Panic m, db)
           | Ok linkedAddresses \<Rightarrow>
               if \<not> list_ex (\<lambda>a. normalizeAddress (la_Address a) = address) linkedAddresses
               then (Err ErrAddressNotLinked, db)
               else let w = new_withdrawal env userID address amountGwei
                    in case CreateWithdrawal (we_sv env) w (withdrawal_entry env w) db of
                        (Ok _, db) \<Rightarrow> (Ok w, db)
                      | (Err e, db) \<Rightarrow> (Err e, db)
                      | (Panic m, db) \<Rightarrow> (Panic m, db))"

definition CreateAdminFaucetTransfer ::
    "WalletEnv \<Rightarrow> string \<Rightarrow> string \<Rightarrow> int \<Rightarrow> WalletDB \<Rightarrow> FaucetTransfer result \<times> WalletDB" where
  "CreateAdminFaucetTransfer env adminUserID userID amountGwei db =
     (let adminUserID = TrimSpace adminUserID; userID = TrimSpace userID
      in if adminUserID = '''' \<or> userID = '''' \<or> amountGwei \<le> 0 then (Err ErrInvalidInput, db)
         else case GetDepositAddress (we_sv env) userID db of
             Err e \<Rightarrow> (Err e, db)
           | Panic m \<Rightarrow> (Panic m, db)
           | Ok address \<Rightarrow>
               (let transfer = \<lparr>ft_ID = newID env ''faucet'', ft_AdminUserID = adminUserID, ft_TargetUserID = userID,
                      ft_TargetAddress = da_Address address, ft_AmountGwei = amountGwei, ft_Status = StatusPending,
                      ft_TxHash = None, ft_Nonce = None, ft_SubmittedAt = None, ft_ConfirmedAt = None,
                      ft_FailureReason = None, ft_CreatedAt = we_now env, ft_UpdatedAt = we_now env\<rparr>
                in case CreateFaucetTransfer (we_sv env) transfer db of
                    (Ok _, db) \<Rightarrow> (Ok transfer, db)
                  | (Err e, db) \<Rightarrow> (Err e, db)
                  | (Panic m, db) \<Rightarrow> (Panic m, db)))"

definition Svc_FaucetTransfers :: "WalletEnv \<Rightarrow> WalletDB \<Rightarrow> FaucetTransfer list result" where
  "Svc_FaucetTransfers env db = ListFaucetTransfers (we_sv env) db"

definition DebitForJoin ::
    "WalletEnv \<Rightarrow> string \<Rightarrow> string \<Rightarrow> int \<Rightarrow> string \<Rightarrow> WalletDB \<Rightarrow> unit result \<times> WalletDB" where
  "DebitForJoin env userID tableID amountGwei idempotencyKey db =
     (let userID = TrimSpace userID; tableID = TrimSpace tableID; idempotencyKey = TrimSpace idempotencyKey
      in if userID = '''' \<or> tableID = '''' \<or> idempotencyKey = '''' \<or> amountGwei \<le> 0
         then (Err ErrInvalidInput, db)
         else ApplyLedgerEntry (we_sv env)
           \<lparr>le_ID = newID env ''ledger'', le_UserID = userID, le_EntryKind = EntryKindTableBuyInDebit,
            le_AmountGwei = - amountGwei, le_ReferenceID = tableID, le_IdempotencyKey = idempotencyKey,
            le_CreatedAt = we_now env\<rparr> db)"

definition CreditForCashout ::
    "WalletEnv \<Rightarrow> string \<Rightarrow> string \<Rightarrow> int \<Rightarrow> string \<Rightarrow> WalletDB \<Rightarrow> unit result \<times> WalletDB" where
  "CreditForCashout env userID tableID amountGwei idempotencyKey db =
     (let userID = TrimSpace userID; tableID = TrimSpace tableID; idempotencyKey = TrimSpace idempotencyKey
      in if userID = '''' \<or> tableID = '''' \<or> idempotencyKey = '''' \<or> amountGwei < 0
         then (Err ErrInvalidInput, db)
         else if amountGwei = 0 then (Ok (), db)
         else ApplyLedgerEntry (we_sv env)
           \<lparr>le_ID = newID env ''ledger'', le_UserID = userID, le_EntryKind = EntryKindTableCashout,
            le_AmountGwei = amountGwei, le_ReferenceID = tableID, le_IdempotencyKey = idempotencyKey,
            le_CreatedAt = we_now env\<rparr> db)"

end
