(* ===== verification/ChainRunner.thy ===== *)
theory ChainRunner
  imports WalletService
begin

text \<open>
  The wallet's chain worker (\<open>internal/chain\<close>): the Ethereum client, and the cycles that scan
  blocks for deposits, confirm them, sweep deposit addresses, send withdrawals and faucet
  transfers, and follow their receipts.

  The node and the cryptography behind go-ethereum are parameters (\<open>Eth\<close>). The transactions whose
  sending the node confirmed are an effect of the model (\<open>ch_sent\<close>); what the node answers about
  nonces, and whether it takes a transaction, may depend on them.
\<close>

section \<open>The Ethereum client\<close>

definition gweiWei :: int where
  "gweiWei = 1000000000"

definition transferGas :: int where
  "transferGas = 21000"

record ObservedTransfer =
  ot_UserID :: string
  ot_ToAddress :: string
  ot_FromAddress :: string
  ot_TxHash :: string
  ot_ValueGwei :: int
  ot_RawValueWei :: string
  ot_BlockNumber :: int

text \<open>A transaction of a block, with its sender as the signer recovers it.\<close>

record BlockTx =
  bt_To :: "string option"
  bt_Hash :: string
  bt_Value :: int
  bt_Sender :: "string result"

record LegacyTx =
  lt_From :: string
  lt_Nonce :: nat
  lt_To :: string
  lt_Value :: int
  lt_Gas :: int
  lt_GasPrice :: int

record Eth =
  eth_enabled :: bool
  eth_hotWalletKey :: string
  eth_hotWalletAddr :: string
  eth_BlockNumber :: "nat result"
  eth_BlockByNumber :: "nat \<Rightarrow> BlockTx list result"
  eth_Receipt :: "string \<Rightarrow> bool option result"
  eth_BalanceAt :: "string \<Rightarrow> int result"
  eth_SuggestGasPrice :: "int result"
  eth_PendingNonceAt :: "LegacyTx list \<Rightarrow> string \<Rightarrow> nat result"
  eth_SignTx :: "string \<Rightarrow> LegacyTx \<Rightarrow> string result"
  eth_SendTransaction :: "LegacyTx list \<Rightarrow> LegacyTx \<Rightarrow> unit result"
  eth_HexToECDSA :: "string \<Rightarrow> string result"
  eth_PubkeyToAddress :: "string \<Rightarrow> string"
  eth_HexToAddress :: "string \<Rightarrow> string"
  eth_TextHash :: "string \<Rightarrow> string"
  eth_SigToPub :: "string \<Rightarrow> string \<Rightarrow> string result"

definition TrimPrefix :: "string \<Rightarrow> string \<Rightarrow> string" where
  "TrimPrefix s p = (if HasPrefix s p then drop (length p) s else s)"

fun hex_value :: "char \<Rightarrow> nat option" where
  "hex_value c =
     (let n = of_char c in
      if 48 \<le> n \<and> n \<le> 57 then Some (n - 48)
      else if 97 \<le> n \<and> n \<le> 102 then Some (n - 87)
      else if 65 \<le> n \<and> n \<le> 70 then Some (n - 55)
      else None)"

text \<open>\<open>hex.DecodeString\<close>.\<close>

fun hex_decode :: "string \<Rightarrow> string option" where
  "hex_decode [] = Some []"
| "hex_decode [c] = None"
| "hex_decode (c # d # s) =
     (case (hex_value c, hex_value d) of
        (Some m, Some n) \<Rightarrow> map_option (\<lambda>t. char_of (16 * m + n) # t) (hex_decode s)
      | _ \<Rightarrow> None)"

definition RecoverPersonalSignAddress :: "Eth \<Rightarrow> string \<Rightarrow> string \<Rightarrow> string result" where
  "RecoverPersonalSignAddress c message signature =
     (case hex_decode (TrimPrefix (TrimSpace signature) ''0x'') of
        None \<Rightarrow> Err (ErrChain ''encoding/hex'')
      | Some sig \<Rightarrow>
          if length sig \<noteq> 65 then Err (ErrChain ''invalid signature length'')
          else let v = (of_char (sig ! 64) :: nat); v = (if v \<ge> 27 then v - 27 else v)
               in if v > 1 then Err (ErrChain ''invalid recovery id'')
                  else bind_outcome (eth_SigToPub c (eth_TextHash c message) (sig[64 := char_of v]))
                    (\<lambda>pubkey. Ok (eth_PubkeyToAddress c pubkey)))"

definition weiToGwei :: "int \<Rightarrow> int result" where
  "weiToGwei value =
     (let gwei = value div gweiWei
      in if \<not> in_int64 gwei then Err (ErrChain ''value overflows int64 gwei'') else Ok gwei)"

definition gweiToWei :: "int \<Rightarrow> int" where
  "gweiToWei value = value * gweiWei"

definition CurrentBlock :: "Eth \<Rightarrow> nat result" where
  "CurrentBlock c = (if \<not> eth_enabled c then Err (ErrChain ''chain disabled'') else eth_BlockNumber c)"

text \<open>One transaction of a block: \<open>None\<close> when it is skipped.\<close>

definition observe_tx ::
    "Eth \<Rightarrow> (string, string) gomap \<Rightarrow> nat \<Rightarrow> BlockTx \<Rightarrow> ObservedTransfer option result" where
  "observe_tx c addresses blockNumber tx =
     (case bt_To tx of
        None \<Rightarrow> Ok None
      | Some to \<Rightarrow>
          (case map_of addresses (ToLower to) of
             None \<Rightarrow> Ok None
           | Some userID \<Rightarrow>
               (case eth_Receipt c (bt_Hash tx) of
                  Err e \<Rightarrow> Err (Wrap (''load receipt for tx '' @ bt_Hash tx) e)
                | Panic m \<Rightarrow> Panic m
                | Ok None \<Rightarrow> Ok None
                | Ok (Some status) \<Rightarrow>
                    if \<not> status then Ok None
                    else
                      bind_outcome (map_err (Wrap (''recover sender for tx '' @ bt_Hash tx)) (bt_Sender tx)) (\<lambda>from.
                      bind_outcome (map_err (Wrap ''convert tx value to gwei'') (weiToGwei (bt_Value tx))) (\<lambda>valueGwei.
                      Ok (Some \<lparr>ot_UserID = userID, ot_ToAddress = to, ot_FromAddress = from, ot_TxHash = bt_Hash tx,
                                ot_ValueGwei = valueGwei, ot_RawValueWei = show_int (bt_Value tx),
                                ot_BlockNumber = wrap64 (int blockNumber)\<rparr>))))))"

fun observe_txs ::
    "Eth \<Rightarrow> (string, string) gomap \<Rightarrow> nat \<Rightarrow> BlockTx list \<Rightarrow> ObservedTransfer list result" where
  "observe_txs c addresses n [] = Ok []"
| "observe_txs c addresses n (tx # txs) =
     bind_outcome (observe_tx c addresses n tx) (\<lambda>o1.
     bind_outcome (observe_txs c addresses n txs) (\<lambda>os.
     Ok ((case o1 of None \<Rightarrow> [] | Some t \<Rightarrow> [t]) @ os)))"

fun scan_blocks :: "Eth \<Rightarrow> (string, string) gomap \<Rightarrow> nat list \<Rightarrow> ObservedTransfer list result" where
  "scan_blocks c addresses [] = Ok []"
| "scan_blocks c addresses (n # ns) =
     bind_outcome (map_err (Wrap (''load block '' @ show_nat n)) (eth_BlockByNumber c n)) (\<lambda>txs.
     bind_outcome (observe_txs c addresses n txs) (\<lambda>os.
     bind_outcome (scan_blocks c addresses ns) (\<lambda>rest. Ok (os @ rest))))"

definition ScanDeposits ::
    "Eth \<Rightarrow> nat \<Rightarrow> nat \<Rightarrow> (string, string) gomap \<Rightarrow> ObservedTransfer list result" where
  "ScanDeposits c fromBlock toBlock addresses =
     (if \<not> eth_enabled c then Ok []
      else if fromBlock > toBlock then Ok []
      else scan_blocks c addresses [fromBlock..<Suc toBlock])"

section \<open>Sending\<close>

record Chain =
  ch_db :: WalletDB
  ch_sent :: "LegacyTx list"

definition sendValue :: "Eth \<Rightarrow> string \<Rightarrow> string \<Rightarrow> string \<Rightarrow> int \<Rightarrow> Chain \<Rightarrow> (string \<times> nat) result \<times> Chain" where
  "sendValue c privateKey from to value w =
     (case bind_outcome (map_err (Wrap ''load nonce'') (eth_PendingNonceAt c (ch_sent w) from)) (\<lambda>nonce.
           bind_outcome (map_err (Wrap ''suggest gas price'') (eth_SuggestGasPrice c)) (\<lambda>gasPrice.
           let tx = \<lparr>lt_From = from, lt_Nonce = nonce, lt_To = to, lt_Value = value, lt_Gas = transferGas,
                     lt_GasPrice = gasPrice\<rparr>
           in bind_outcome (map_err (Wrap ''sign tx'') (eth_SignTx c privateKey tx)) (\<lambda>hash.
              bind_outcome (map_err (Wrap ''send tx'') (eth_SendTransaction c (ch_sent w) tx)) (\<lambda>_. Ok (hash, nonce, tx)))))
      of Ok (hash, nonce, tx) \<Rightarrow> (Ok (hash, nonce), w\<lparr>ch_sent := ch_sent w @ [tx]\<rparr>)
       | Err e \<Rightarrow> (Err e, w)
       | Panic m \<Rightarrow> (Panic m, w))"

definition sendFullBalance :: "Eth \<Rightarrow> string \<Rightarrow> string \<Rightarrow> string \<Rightarrow> Chain \<Rightarrow> string result \<times> Chain" where
  "sendFullBalance c privateKey from to w =
     (case bind_outcome (map_err (Wrap ''load sweep balance'') (eth_BalanceAt c from)) (\<lambda>balance.
           bind_outcome (map_err (Wrap ''suggest gas price'') (eth_SuggestGasPrice c)) (\<lambda>gasPrice.
           let fee = gasPrice * transferGas
           in if balance \<le> fee then Err (ErrChain ''insufficient balance to sweep after gas'') else Ok (balance - fee)))
      of Err e \<Rightarrow> (Err e, w)
       | Panic m \<Rightarrow> (Panic m, w)
       | Ok value \<Rightarrow>
           (let (r, w) = sendValue c privateKey from to value w
            in (bind_outcome r (\<lambda>(txHash, _). Ok txHash), w)))"

definition SubmitSweep :: "Eth \<Rightarrow> string \<Rightarrow> string \<Rightarrow> Chain \<Rightarrow> string result \<times> Chain" where
  "SubmitSweep c fromPrivateKeyHex toAddress w =
     (if \<not> eth_enabled c then (Err (ErrChain ''chain disabled''), w)
      else case eth_HexToECDSA c (TrimPrefix (TrimSpace fromPrivateKeyHex) ''0x'') of
          Err e \<Rightarrow> (Err (Wrap ''parse sweep private key'' e), w)
        | Panic m \<Rightarrow> (Panic m, w)
        | Ok privateKey \<Rightarrow>
            sendFullBalance c privateKey (eth_PubkeyToAddress c privateKey) (eth_HexToAddress c toAddress) w)"

text \<open>The nonce is checked after the transaction has been sent.\<close>

definition SubmitWithdrawal :: "Eth \<Rightarrow> string \<Rightarrow> int \<Rightarrow> Chain \<Rightarrow> (string \<times> int) result \<times> Chain" where
  "SubmitWithdrawal c toAddress amountGwei w =
     (if \<not> eth_enabled c then (Err (ErrChain ''chain disabled''), w)
      else let (r, w) = sendValue c (eth_hotWalletKey c) (eth_hotWalletAddr c) (eth_HexToAddress c toAddress)
                 (gweiToWei amountGwei) w
           in case r of
               Ok (txHash, nonce) \<Rightarrow>
                 if nonce > 2 ^ 63 - 1 then (Err (ErrChain ''nonce overflow''), w) else (Ok (txHash, int nonce), w)
             | Err e \<Rightarrow> (Err e, w)
             | Panic m \<Rightarrow> (Panic m, w))"

definition TransactionReceipt :: "Eth \<Rightarrow> string \<Rightarrow> bool option result" where
  "TransactionReceipt c txHash =
     (if \<not> eth_enabled c then Err (ErrChain ''chain disabled'') else eth_Receipt c txHash)"

section \<open>The worker's cycles\<close>

definition chainStateScanCursor :: string where
  "chainStateScanCursor = ''deposit_scan_cursor''"

text \<open>One cycle: the database, the node, the configuration, the clock and its reading for each item.\<close>

record Runner =
  rn_sv :: Server
  rn_client :: Eth
  rn_Confirmations :: int
  rn_StartBlock :: nat
  rn_HotWalletAddress :: string
  rn_now :: int
  rn_nano :: "string \<Rightarrow> int"

definition Runner_newID :: "Runner \<Rightarrow> string \<Rightarrow> string \<Rightarrow> string" where
  "Runner_newID r prefix item = prefix @ ''-'' @ show_int (rn_nano r item)"

text \<open>A loop over listed rows, stopped by the first error.\<close>

fun each :: "('a \<Rightarrow> 'w \<Rightarrow> unit result \<times> 'w) \<Rightarrow> 'a list \<Rightarrow> 'w \<Rightarrow> unit result \<times> 'w" where
  "each f [] w = (Ok (), w)"
| "each f (x # xs) w =
     (case f x w of (Ok _, w) \<Rightarrow> each f xs w | (Err e, w) \<Rightarrow> (Err e, w) | (Panic m, w) \<Rightarrow> (Panic m, w))"

definition on_db :: "string \<Rightarrow> (WalletDB \<Rightarrow> unit result \<times> WalletDB) \<Rightarrow> Chain \<Rightarrow> unit result \<times> Chain" where
  "on_db what f w = (let (r, db) = f (ch_db w) in (map_err (Wrap what) r, w\<lparr>ch_db := db\<rparr>))"

definition each_listed ::
    "string \<Rightarrow> 'a list result \<Rightarrow> ('a \<Rightarrow> Chain \<Rightarrow> unit result \<times> Chain) \<Rightarrow> Chain \<Rightarrow> unit result \<times> Chain" where
  "each_listed what rows f w =
     (case rows of Ok xs \<Rightarrow> each f xs w | Err e \<Rightarrow> (Err (Wrap what e), w) | Panic m \<Rightarrow> (Panic m, w))"

definition deposit_key :: "string \<Rightarrow> string" where
  "deposit_key t = ''deposit:'' @ t"

definition deposit_entry :: "Runner \<Rightarrow> Deposit \<Rightarrow> LedgerEntry" where
  "deposit_entry r d =
     \<lparr>le_ID = Runner_newID r ''ledger'' (dep_TxHash d), le_UserID = dep_UserID d,
      le_EntryKind = EntryKindDepositConfirmed, le_AmountGwei = dep_AmountGwei d, le_ReferenceID = dep_TxHash d,
      le_IdempotencyKey = deposit_key (dep_TxHash d), le_CreatedAt = rn_now r\<rparr>"

definition confirm_deposit :: "Runner \<Rightarrow> int \<Rightarrow> Deposit \<Rightarrow> Chain \<Rightarrow> unit result \<times> Chain" where
  "confirm_deposit r currentBlock d w =
     (case dep_ObservedBlock d of
        None \<Rightarrow> (Ok (), w)
      | Some observed \<Rightarrow>
          (let confirmations = wrap64 (currentBlock - observed + 1)
           in if confirmations < rn_Confirmations r then (Ok (), w)
              else on_db (''confirm deposit '' @ dep_TxHash d)
                (ConfirmDeposit (rn_sv r) (dep_TxHash d) currentBlock confirmations (deposit_entry r d)) w))"

definition confirmPendingDeposits :: "Runner \<Rightarrow> int \<Rightarrow> Chain \<Rightarrow> unit result \<times> Chain" where
  "confirmPendingDeposits r currentBlock w =
     each_listed ''list pending deposits'' (ListPendingDeposits (rn_sv r) (ch_db w)) (confirm_deposit r currentBlock) w"

fun Error :: "wallet_err \<Rightarrow> string" where
  "Error (ErrChain s) = s"
| "Error (Wrap what e) = what @ '': '' @ Error e"
| "Error ErrInvalidInput = ''invalid input''"
| "Error ErrAccountNotFound = ''wallet account not found''"
| "Error ErrInsufficientFunds = ''insufficient wallet balance''"
| "Error ErrAddressAlreadyLinked = ''address already linked''"
| "Error ErrAddressNotLinked = ''address not linked''"
| "Error ErrChallengeNotFound = ''link challenge not found''"
| "Error ErrChallengeExpired = ''link challenge expired''"
| "Error ErrInvalidChallengeProof = ''invalid challenge proof''"
| "Error SqlError = ''sql''"
| "Error UniqueViolation = ''23505''"
| "Error TxAborted = ''25P02''"

definition submit_sweep :: "Runner \<Rightarrow> Deposit \<Rightarrow> Chain \<Rightarrow> unit result \<times> Chain" where
  "submit_sweep r d w =
     (case GetDepositAddress (rn_sv r) (dep_UserID d) (ch_db w) of
        Err e \<Rightarrow> (Err (Wrap ''load deposit address for sweep'' e), w)
      | Panic m \<Rightarrow> (Panic m, w)
      | Ok depositAddress \<Rightarrow>
          (case SubmitSweep (rn_client r) (da_PrivateKeyHex depositAddress) (rn_HotWalletAddress r) w of
             (Err e, w) \<Rightarrow>
               (Ok (), snd (on_db '''' (MarkDepositSweepFailed (rn_sv r) (dep_TxHash d) (Error e) (rn_now r)) w))
           | (Panic m, w) \<Rightarrow> (Panic m, w)
           | (Ok txHash, w) \<Rightarrow>
               on_db ''mark sweep submitted''
                 (MarkDepositSweepSubmitted (rn_sv r) (dep_TxHash d) txHash (rn_now r)) w))"

definition submitSweeps :: "Runner \<Rightarrow> Chain \<Rightarrow> unit result \<times> Chain" where
  "submitSweeps r w =
     each_listed ''list sweep candidates'' (ListSweepCandidates (rn_sv r) (ch_db w)) (submit_sweep r) w"

definition submit_withdrawal :: "Runner \<Rightarrow> WithdrawalRequest \<Rightarrow> Chain \<Rightarrow> unit result \<times> Chain" where
  "submit_withdrawal r wd w =
     (case SubmitWithdrawal (rn_client r) (wr_Address wd) (wr_AmountGwei wd) w of
        (Err e, w) \<Rightarrow> (Ok (), w)
      | (Panic m, w) \<Rightarrow> (Panic m, w)
      | (Ok (txHash, nonce), w) \<Rightarrow>
          on_db ''mark withdrawal submitted'' (MarkWithdrawalSubmitted (rn_sv r) (wr_ID wd) txHash nonce (rn_now r)) w)"

definition submitWithdrawals :: "Runner \<Rightarrow> Chain \<Rightarrow> unit result \<times> Chain" where
  "submitWithdrawals r w =
     each_listed ''list pending withdrawals'' (ListPendingWithdrawals (rn_sv r) (ch_db w)) (submit_withdrawal r) w"

definition submit_faucet :: "Runner \<Rightarrow> FaucetTransfer \<Rightarrow> Chain \<Rightarrow> unit result \<times> Chain" where
  "submit_faucet r t w =
     (case SubmitWithdrawal (rn_client r) (ft_TargetAddress t) (ft_AmountGwei t) w of
        (Err e, w) \<Rightarrow> (Ok (), w)
      | (Panic m, w) \<Rightarrow> (Panic m, w)
      | (Ok (txHash, nonce), w) \<Rightarrow>
          on_db ''mark faucet transfer submitted''
            (MarkFaucetTransferSubmitted (rn_sv r) (ft_ID t) txHash nonce (rn_now r)) w)"

definition submitFaucetTransfers :: "Runner \<Rightarrow> Chain \<Rightarrow> unit result \<times> Chain" where
  "submitFaucetTransfers r w =
     each_listed ''list pending faucet transfers'' (ListPendingFaucetTransfers (rn_sv r) (ch_db w)) (submit_faucet r) w"

text \<open>The three receipt loops share their shape: no hash or no receipt yet, confirmed, failed.\<close>

definition follow_receipt ::
    "Runner \<Rightarrow> string \<Rightarrow> string option \<Rightarrow> (Chain \<Rightarrow> unit result \<times> Chain) \<Rightarrow> (Chain \<Rightarrow> unit result \<times> Chain)
      \<Rightarrow> Chain \<Rightarrow> unit result \<times> Chain" where
  "follow_receipt r what txHash confirmed failed w =
     (case txHash of
        None \<Rightarrow> (Ok (), w)
      | Some h \<Rightarrow>
          (case TransactionReceipt (rn_client r) h of
             Err e \<Rightarrow> (Err (Wrap what e), w)
           | Panic m \<Rightarrow> (Panic m, w)
           | Ok None \<Rightarrow> (Ok (), w)
           | Ok (Some status) \<Rightarrow> if status then confirmed w else failed w))"

definition confirm_sweep :: "Runner \<Rightarrow> Deposit \<Rightarrow> Chain \<Rightarrow> unit result \<times> Chain" where
  "confirm_sweep r d =
     follow_receipt r ''load sweep receipt'' (dep_SweepTxHash d)
       (on_db ''mark sweep confirmed'' (MarkDepositSweepConfirmed (rn_sv r) (dep_TxHash d) (rn_now r)))
       (on_db ''mark sweep failed''
         (MarkDepositSweepFailed (rn_sv r) (dep_TxHash d) ''sweep transaction failed'' (rn_now r)))"

definition confirmSweepReceipts :: "Runner \<Rightarrow> Chain \<Rightarrow> unit result \<times> Chain" where
  "confirmSweepReceipts r w =
     each_listed ''list submitted sweeps'' (ListSubmittedSweeps (rn_sv r) (ch_db w)) (confirm_sweep r) w"

definition compensation_key :: "string \<Rightarrow> string" where
  "compensation_key i = ''withdrawal-compensation:'' @ i"

definition compensation_entry :: "Runner \<Rightarrow> WithdrawalRequest \<Rightarrow> LedgerEntry" where
  "compensation_entry r wd =
     \<lparr>le_ID = Runner_newID r ''ledger'' (wr_ID wd), le_UserID = wr_UserID wd,
      le_EntryKind = EntryKindWithdrawalCompensation, le_AmountGwei = wr_AmountGwei wd, le_ReferenceID = wr_ID wd,
      le_IdempotencyKey = compensation_key (wr_ID wd), le_CreatedAt = rn_now r\<rparr>"

definition confirm_withdrawal :: "Runner \<Rightarrow> WithdrawalRequest \<Rightarrow> Chain \<Rightarrow> unit result \<times> Chain" where
  "confirm_withdrawal r wd =
     follow_receipt r ''load withdrawal receipt'' (wr_TxHash wd)
       (on_db ''mark withdrawal confirmed'' (MarkWithdrawalConfirmed (rn_sv r) (wr_ID wd) (rn_now r)))
       (on_db ''mark withdrawal failed''
         (MarkWithdrawalFailed (rn_sv r) (wr_ID wd) ''withdrawal transaction failed'' (compensation_entry r wd) (rn_now r)))"

definition confirmWithdrawalReceipts :: "Runner \<Rightarrow> Chain \<Rightarrow> unit result \<times> Chain" where
  "confirmWithdrawalReceipts r w =
     each_listed ''list submitted withdrawals'' (ListSubmittedWithdrawals (rn_sv r) (ch_db w)) (confirm_withdrawal r) w"

definition confirm_faucet :: "Runner \<Rightarrow> FaucetTransfer \<Rightarrow> Chain \<Rightarrow> unit result \<times> Chain" where
  "confirm_faucet r t =
     follow_receipt r ''load faucet transfer receipt'' (ft_TxHash t)
       (on_db ''mark faucet transfer confirmed'' (MarkFaucetTransferConfirmed (rn_sv r) (ft_ID t) (rn_now r)))
       (on_db ''mark faucet transfer failed''
         (MarkFaucetTransferFailed (rn_sv r) (ft_ID t) ''faucet transfer transaction failed'' (rn_now r)))"

definition confirmFaucetTransferReceipts :: "Runner \<Rightarrow> Chain \<Rightarrow> unit result \<times> Chain" where
  "confirmFaucetTransferReceipts r w =
     each_listed ''list submitted faucet transfers'' (ListSubmittedFaucetTransfers (rn_sv r) (ch_db w)) (confirm_faucet r) w"

definition then_run ::
    "unit result \<times> Chain \<Rightarrow> (Chain \<Rightarrow> unit result \<times> Chain) \<Rightarrow> unit result \<times> Chain" where
  "then_run m f = (case m of (Ok _, w) \<Rightarrow> f w | (Err e, w) \<Rightarrow> (Err e, w) | (Panic s, w) \<Rightarrow> (Panic s, w))"

definition processReceipts :: "Runner \<Rightarrow> Chain \<Rightarrow> unit result \<times> Chain" where
  "processReceipts r w =
     then_run (then_run (confirmSweepReceipts r w) (confirmWithdrawalReceipts r)) (confirmFaucetTransferReceipts r)"

definition initialBlock :: "Runner \<Rightarrow> nat \<Rightarrow> nat" where
  "initialBlock r currentBlock =
     (if rn_StartBlock r > 0 then rn_StartBlock r - 1
      else if currentBlock \<le> nat (rn_Confirmations r mod 2 ^ 64) then 0
      else currentBlock - nat (rn_Confirmations r mod 2 ^ 64))"

definition observed_deposit :: "Runner \<Rightarrow> ObservedTransfer \<Rightarrow> Deposit" where
  "observed_deposit r t =
     \<lparr>dep_ID = Runner_newID r ''deposit'' (ot_TxHash t), dep_UserID = ot_UserID t, dep_Address = ToLower (ot_ToAddress t),
      dep_FromAddress = ToLower (ot_FromAddress t), dep_ToAddress = ToLower (ot_ToAddress t),
      dep_AmountGwei = ot_ValueGwei t, dep_RawAmountWei = ot_RawValueWei t, dep_Status = StatusPending,
      dep_TxHash = ot_TxHash t, dep_ObservedBlock = Some (ot_BlockNumber t), dep_ConfirmedBlock = None,
      dep_Confirmations = 0, dep_SweepTxHash = None, dep_SweepStatus = '''', dep_SweepSubmittedAt = None,
      dep_SweptAt = None, dep_SweepFailureReason = None, dep_CreatedAt = rn_now r, dep_UpdatedAt = rn_now r\<rparr>"

definition save_cursor :: "Runner \<Rightarrow> nat \<Rightarrow> WalletDB \<Rightarrow> unit result \<times> WalletDB" where
  "save_cursor r block =
     SaveChainState (rn_sv r) \<lparr>cs_Name = chainStateScanCursor, cs_BlockNumber = wrap64 (int block), cs_UpdatedAt = rn_now r\<rparr>"

definition address_map :: "DepositAddress list \<Rightarrow> (string, string) gomap" where
  "address_map addresses = foldl (\<lambda>m a. AList.update (ToLower (da_Address a)) (da_UserID a) m) [] addresses"

text \<open>Record what the new blocks hold, from the block after the cursor.\<close>

definition scan_new_blocks ::
    "Runner \<Rightarrow> nat \<Rightarrow> DepositAddress list \<Rightarrow> ChainState \<Rightarrow> Chain \<Rightarrow> unit result \<times> Chain" where
  "scan_new_blocks r currentBlock addresses state w =
     (let addressMap = address_map addresses; startBlock = nat ((cs_BlockNumber state + 1) mod 2 ^ 64)
      in if startBlock \<le> currentBlock \<and> length addressMap > 0
         then (case ScanDeposits (rn_client r) startBlock currentBlock addressMap of
             Err e \<Rightarrow> (Err (Wrap ''scan deposits'' e), w)
           | Panic m \<Rightarrow> (Panic m, w)
           | Ok observed \<Rightarrow>
               each (\<lambda>t. on_db ''upsert observed deposit'' (UpsertObservedDeposit (rn_sv r) (observed_deposit r t))) observed w)
         else (Ok (), w))"

definition scanDepositsAndSubmit :: "Runner \<Rightarrow> Chain \<Rightarrow> unit result \<times> Chain" where
  "scanDepositsAndSubmit r w =
     (case bind_outcome (map_err (Wrap ''load current block'') (CurrentBlock (rn_client r))) (\<lambda>currentBlock.
           bind_outcome (map_err (Wrap ''list deposit addresses'') (ListDepositAddresses (rn_sv r) (ch_db w))) (\<lambda>addresses.
           bind_outcome (map_err (Wrap ''load chain state'') (GetChainState (rn_sv r) chainStateScanCursor (ch_db w)))
             (\<lambda>state. Ok (currentBlock, addresses, state))))
      of Err e \<Rightarrow> (Err e, w)
       | Panic m \<Rightarrow> (Panic m, w)
       | Ok (currentBlock, addresses, None) \<Rightarrow>
           (let (r', db) = save_cursor r (initialBlock r currentBlock) (ch_db w) in (r', w\<lparr>ch_db := db\<rparr>))
       | Ok (currentBlock, addresses, Some state) \<Rightarrow>
           then_run (then_run (then_run (then_run (then_run
             (scan_new_blocks r currentBlock addresses state w)
             (on_db ''save chain state'' (save_cursor r currentBlock)))
             (confirmPendingDeposits r (wrap64 (int currentBlock))))
             (submitSweeps r))
             (submitWithdrawals r))
             (submitFaucetTransfers r))"

end
