(* ===== verification/Wallet.thy ===== *)
theory Wallet
  imports ChainRunner
begin

text \<open>
  The wallet as a whole: the calls of its API and the cycles of its chain worker as steps on one
  state, and what holds in every state they reach. Money enters by confirmed deposits, moves to
  and from tables, and leaves by withdrawals; the books record each of these exactly once.
\<close>

section \<open>Invariants of deposits and withdrawals\<close>

definition entry_for :: "string \<Rightarrow> string \<Rightarrow> int \<Rightarrow> WalletDB \<Rightarrow> bool" where
  "entry_for key user amount db \<longleftrightarrow>
     (\<exists>e \<in> set (wd_ledger db). le_IdempotencyKey e = key \<and> le_UserID e = user \<and> le_AmountGwei e = amount)"

definition keys_of :: "WalletDB \<Rightarrow> string set" where
  "keys_of db = le_IdempotencyKey ` set (wd_ledger db)"

text \<open>A deposit is credited, with its own amount to its own user, if and only if it is confirmed.\<close>

definition deposit_ok :: "WalletDB \<Rightarrow> Deposit \<Rightarrow> bool" where
  "deposit_ok db d \<longleftrightarrow> in_int64 (dep_AmountGwei d) \<and>
     (if dep_Status d = StatusConfirmed
      then entry_for (deposit_key (dep_TxHash d)) (dep_UserID d) (dep_AmountGwei d) db
      else dep_Status d = StatusPending \<and> deposit_key (dep_TxHash d) \<notin> keys_of db)"

definition deposits_ok :: "WalletDB \<Rightarrow> bool" where
  "deposits_ok db \<longleftrightarrow> distinct (map dep_TxHash (wd_deposits db))
     \<and> (\<forall>d \<in> set (wd_deposits db). deposit_ok db d)
     \<and> (\<forall>t. deposit_key t \<in> keys_of db \<longrightarrow> t \<in> dep_TxHash ` set (wd_deposits db))"

text \<open>
  A withdrawal is debited when it is requested, compensated if and only if it has failed, and
  goes to an address its user has linked.
\<close>

definition withdrawal_ok :: "WalletDB \<Rightarrow> WithdrawalRequest \<Rightarrow> bool" where
  "withdrawal_ok db w \<longleftrightarrow> 0 < wr_AmountGwei w \<and> in_int64 (wr_AmountGwei w)
     \<and> entry_for (withdrawal_key (wr_ID w)) (wr_UserID w) (- wr_AmountGwei w) db
     \<and> (if wr_Status w = StatusFailed
        then entry_for (compensation_key (wr_ID w)) (wr_UserID w) (wr_AmountGwei w) db
        else compensation_key (wr_ID w) \<notin> keys_of db)
     \<and> (\<exists>a \<in> set (wd_linked db). la_UserID a = wr_UserID w \<and> normalizeAddress (la_Address a) = wr_Address w)"

definition withdrawals_ok :: "WalletDB \<Rightarrow> bool" where
  "withdrawals_ok db \<longleftrightarrow> distinct (map wr_ID (wd_withdrawals db))
     \<and> (\<forall>w \<in> set (wd_withdrawals db). withdrawal_ok db w)
     \<and> (\<forall>i. withdrawal_key i \<in> keys_of db \<or> compensation_key i \<in> keys_of db
         \<longrightarrow> i \<in> wr_ID ` set (wd_withdrawals db))"

definition wallet_ok :: "WalletDB \<Rightarrow> bool" where
  "wallet_ok db \<longleftrightarrow> ledger_ok db \<and> deposits_ok db \<and> withdrawals_ok db"

text \<open>Keys of other clients stay clear of the worker's.\<close>

definition foreign_key :: "string \<Rightarrow> bool" where
  "foreign_key k \<longleftrightarrow> (\<forall>i. k \<noteq> deposit_key i \<and> k \<noteq> withdrawal_key i \<and> k \<noteq> compensation_key i)"

lemma keys_distinct [simp]:
  "deposit_key i = deposit_key j \<longleftrightarrow> i = j" "withdrawal_key i = withdrawal_key j \<longleftrightarrow> i = j"
  "compensation_key i = compensation_key j \<longleftrightarrow> i = j"
  "deposit_key i \<noteq> withdrawal_key j" "deposit_key i \<noteq> compensation_key j" "withdrawal_key i \<noteq> deposit_key j"
  "compensation_key i \<noteq> deposit_key j" "withdrawal_key i \<noteq> compensation_key j" "compensation_key i \<noteq> withdrawal_key j"
  by (simp_all add: deposit_key_def withdrawal_key_def compensation_key_def)

section \<open>What a posting changes\<close>

lemma posted_cases:
  assumes "posted e db db'"
  obtains (known) "le_IdempotencyKey e \<in> keys_of db" "db' = db"
  | (new) "le_IdempotencyKey e \<notin> keys_of db" "keys_of db' = insert (le_IdempotencyKey e) (keys_of db)"
      "\<And>k u n. entry_for k u n db' \<longleftrightarrow> entry_for k u n db
        \<or> k = le_IdempotencyKey e \<and> u = le_UserID e \<and> n = le_AmountGwei e"
proof (cases "find_entry (le_IdempotencyKey e) db")
  case None
  then obtain n where db': "db' = set_balance (le_UserID e) n (le_CreatedAt e) (insert_entry e db)"
    using assms by (auto simp: posted_def)
  have "entry_for k u n db' \<longleftrightarrow> entry_for k u n db \<or> k = le_IdempotencyKey e \<and> u = le_UserID e \<and> n = le_AmountGwei e"
    for k u n by (auto simp: entry_for_def db')
  then show ?thesis using None new by (simp add: find_entry_None keys_of_def db')
next
  case (Some x)
  then show ?thesis using assms known find_entry_None [of "le_IdempotencyKey e" db] by (simp add: posted_def keys_of_def)
qed

lemma entry_for_key: "entry_for k u n db \<Longrightarrow> k \<in> keys_of db"
  by (auto simp: entry_for_def keys_of_def)

lemma posted_other_deposits:
  assumes post: "posted e db db'" and key: "\<And>i. deposit_key i \<noteq> le_IdempotencyKey e" and ok: "deposits_ok db"
  shows "deposits_ok db'"
  using post
proof (cases rule: posted_cases)
  case new
  then show ?thesis using ok key by (simp add: deposits_ok_def deposit_ok_def posted_frame(2) [OF post])
qed (simp add: ok)

lemma posted_other_withdrawals:
  assumes post: "posted e db db'" and ok: "withdrawals_ok db"
    and key: "\<And>i. withdrawal_key i \<noteq> le_IdempotencyKey e" "\<And>i. compensation_key i \<noteq> le_IdempotencyKey e"
  shows "withdrawals_ok db'"
  using post
proof (cases rule: posted_cases)
  case new
  then show ?thesis using ok key by (simp add: withdrawals_ok_def withdrawal_ok_def posted_frame(3,4) [OF post])
qed (simp add: ok)

text \<open>The posting that confirms a deposit, and the one that compensates a withdrawal.\<close>

lemma confirm_deposits_ok:
  assumes ok: "deposits_ok db" and d: "d \<in> set (wd_deposits db)" "dep_TxHash d = t"
    and e: "le_IdempotencyKey e = deposit_key t" "le_UserID e = dep_UserID d" "le_AmountGwei e = dep_AmountGwei d"
    and un: "dep_Status d \<noteq> StatusConfirmed"
    and f: "\<And>x. dep_TxHash (f x) = dep_TxHash x \<and> dep_UserID (f x) = dep_UserID x
      \<and> dep_AmountGwei (f x) = dep_AmountGwei x \<and> dep_Status (f x) = StatusConfirmed"
    and post: "posted e (update_deposits (unconfirmed t) f db) db'"
  shows "deposits_ok db'"
proof -
  let ?mid = "update_deposits (unconfirmed t) f db"
  have keys: "keys_of ?mid = keys_of db" and ent: "entry_for k u n ?mid = entry_for k u n db" for k u n
    by (simp_all add: keys_of_def entry_for_def update_deposits_def)
  have fresh: "deposit_key t \<notin> keys_of db" using ok d un by (auto simp: deposits_ok_def deposit_ok_def)
  have hashes: "map dep_TxHash (wd_deposits db') = map dep_TxHash (wd_deposits db)"
    using f by (simp add: posted_frame(2) [OF post] update_deposits_def comp_def if_distrib cong: if_cong)
  from post show ?thesis
  proof (cases rule: posted_cases)
    case known
    then show ?thesis using fresh e(1) keys by simp
  next
    case new
    have "deposit_ok db' x" if x: "x \<in> set (wd_deposits db')" for x
    proof -
      obtain y where y: "y \<in> set (wd_deposits db)" "x = (if unconfirmed t y then f y else y)"
        using x by (auto simp: posted_frame(2) [OF post] update_deposits_def)
      have oky: "deposit_ok db y" using ok y(1) by (simp add: deposits_ok_def)
      show ?thesis
      proof (cases "dep_TxHash y = t")
        case True
        then have "y = d" using ok d y(1) by (auto simp: deposits_ok_def dest: distinct_map [THEN iffD1] inj_onD)
        then show ?thesis using y(2) d(2) un f [of d] oky new e by (simp add: deposit_ok_def unconfirmed_def)
      next
        case False
        then show ?thesis using y(2) oky new keys ent e by (auto simp: deposit_ok_def unconfirmed_def)
      qed
    qed
    moreover have "s \<in> dep_TxHash ` set (wd_deposits db')" if "deposit_key s \<in> keys_of db'" for s
    proof -
      have "s = t \<or> deposit_key s \<in> keys_of db" using that new(2) e(1) keys by auto
      then have "s \<in> set (map dep_TxHash (wd_deposits db))" using ok d by (auto simp: deposits_ok_def)
      then show ?thesis by (simp flip: hashes)
    qed
    ultimately show ?thesis using ok hashes by (simp add: deposits_ok_def)
  qed
qed

lemma compensate_withdrawals_ok:
  assumes ok: "withdrawals_ok db" and w: "w \<in> set (wd_withdrawals db)" "wr_ID w = i"
    and e: "le_IdempotencyKey e = compensation_key i" "le_UserID e = wr_UserID w"
      "le_AmountGwei e = wr_AmountGwei w"
    and un: "wr_Status w \<noteq> StatusFailed"
    and f: "\<And>x. wr_ID (f x) = wr_ID x \<and> wr_UserID (f x) = wr_UserID x \<and> wr_Address (f x) = wr_Address x
      \<and> wr_AmountGwei (f x) = wr_AmountGwei x \<and> wr_Status (f x) = StatusFailed"
    and post: "posted e (update_withdrawals (not_failed i) f db) db'"
  shows "withdrawals_ok db'"
proof -
  let ?mid = "update_withdrawals (not_failed i) f db"
  have keys: "keys_of ?mid = keys_of db" and ent: "entry_for k u n ?mid = entry_for k u n db" for k u n
    by (simp_all add: keys_of_def entry_for_def update_withdrawals_def)
  have fresh: "compensation_key i \<notin> keys_of db" using ok w un by (auto simp: withdrawals_ok_def withdrawal_ok_def)
  have ids: "map wr_ID (wd_withdrawals db') = map wr_ID (wd_withdrawals db)"
    using f by (simp add: posted_frame(3) [OF post] update_withdrawals_def comp_def if_distrib cong: if_cong)
  have linked: "wd_linked db' = wd_linked db" by (simp add: posted_frame(4) [OF post] update_withdrawals_def)
  from post show ?thesis
  proof (cases rule: posted_cases)
    case known
    then show ?thesis using fresh e(1) keys by simp
  next
    case new
    have "withdrawal_ok db' x" if x: "x \<in> set (wd_withdrawals db')" for x
    proof -
      obtain y where y: "y \<in> set (wd_withdrawals db)" "x = (if not_failed i y then f y else y)"
        using x by (auto simp: posted_frame(3) [OF post] update_withdrawals_def)
      have oky: "withdrawal_ok db y" using ok y(1) by (simp add: withdrawals_ok_def)
      show ?thesis
      proof (cases "wr_ID y = i")
        case True
        then have "y = w" using ok w y(1) by (auto simp: withdrawals_ok_def dest: distinct_map [THEN iffD1] inj_onD)
        then show ?thesis
          using y(2) w(2) un f [of w] oky new e ent by (simp add: withdrawal_ok_def not_failed_def linked)
      next
        case False
        then show ?thesis using y(2) oky new keys ent e by (auto simp: withdrawal_ok_def not_failed_def linked)
      qed
    qed
    moreover have "j \<in> wr_ID ` set (wd_withdrawals db')"
      if "withdrawal_key j \<in> keys_of db' \<or> compensation_key j \<in> keys_of db'" for j
    proof -
      have "j = i \<or> withdrawal_key j \<in> keys_of db \<or> compensation_key j \<in> keys_of db"
        using that new(2) e(1) keys by auto
      then have "j \<in> set (map wr_ID (wd_withdrawals db))" using ok w by (auto simp: withdrawals_ok_def)
      then show ?thesis by (simp flip: ids)
    qed
    ultimately show ?thesis using ok ids by (simp add: withdrawals_ok_def)
  qed
qed

section \<open>Updates that keep the invariants\<close>

text \<open>The parts of the state an invariant reads.\<close>

lemma ledger_ok_frame:
  "\<lbrakk>wd_accounts db' = wd_accounts db; wd_balances db' = wd_balances db; wd_ledger db' = wd_ledger db\<rbrakk>
    \<Longrightarrow> ledger_ok db' = ledger_ok db"
  by (simp add: ledger_ok_def entries_of_def has_account_def find_balance_def)

lemma deposits_ok_frame:
  "\<lbrakk>wd_deposits db' = wd_deposits db; wd_ledger db' = wd_ledger db\<rbrakk> \<Longrightarrow> deposits_ok db' = deposits_ok db"
  by (simp add: deposits_ok_def deposit_ok_def entry_for_def keys_of_def)

lemma withdrawals_ok_frame:
  "\<lbrakk>wd_withdrawals db' = wd_withdrawals db; wd_ledger db' = wd_ledger db; wd_linked db' = wd_linked db @ extra\<rbrakk>
    \<Longrightarrow> withdrawals_ok db \<Longrightarrow> withdrawals_ok db'"
  by (auto simp: withdrawals_ok_def withdrawal_ok_def entry_for_def keys_of_def)

lemma wallet_ok_frame:
  assumes "wallet_ok db" "wd_accounts db' = wd_accounts db" "wd_balances db' = wd_balances db"
    "wd_ledger db' = wd_ledger db" "wd_deposits db' = wd_deposits db" "wd_withdrawals db' = wd_withdrawals db"
    "wd_linked db' = wd_linked db @ extra"
  shows "wallet_ok db'"
  using assms ledger_ok_frame [of db' db] deposits_ok_frame [of db' db] withdrawals_ok_frame [of db' db extra]
  by (simp add: wallet_ok_def)

definition dep_core :: "Deposit \<Rightarrow> string \<times> string \<times> int" where
  "dep_core d = (dep_TxHash d, dep_UserID d, dep_AmountGwei d)"

lemma update_deposits_ok:
  assumes ok: "wallet_ok db" and f: "\<And>x. dep_core (f x) = dep_core x \<and> dep_Status (f x) = dep_Status x"
  shows "wallet_ok (update_deposits P f db)"
proof -
  let ?db = "update_deposits P f db"
  have same: "keys_of ?db = keys_of db" "entry_for k u n ?db = entry_for k u n db" for k u n
    by (simp_all add: keys_of_def entry_for_def update_deposits_def)
  have fx: "dep_TxHash (f x) = dep_TxHash x" "dep_UserID (f x) = dep_UserID x" "dep_AmountGwei (f x) = dep_AmountGwei x"
    "dep_Status (f x) = dep_Status x" for x using f [of x] by (simp_all add: dep_core_def)
  then have hs: "map dep_TxHash (wd_deposits ?db) = map dep_TxHash (wd_deposits db)"
    by (simp add: update_deposits_def comp_def if_distrib cong: if_cong)
  have "deposit_ok ?db x" if x: "x \<in> set (wd_deposits ?db)" for x
  proof -
    obtain y where y: "y \<in> set (wd_deposits db)" "x = (if P y then f y else y)"
      using x by (auto simp: update_deposits_def)
    then have "deposit_ok db y" using ok by (simp add: wallet_ok_def deposits_ok_def)
    then show ?thesis using y(2) fx by (auto simp: deposit_ok_def same)
  qed
  then have "deposits_ok ?db"
    using ok hs arg_cong [OF hs, of set, unfolded set_map] by (simp add: wallet_ok_def deposits_ok_def same)
  then show ?thesis
    using ok withdrawals_ok_frame [of ?db db "[]"] ledger_ok_frame [of ?db db]
    by (simp add: wallet_ok_def update_deposits_def)
qed

lemma update_deposits_core [simp]:
  "(\<And>x. dep_core (f x) = dep_core x) \<Longrightarrow> map dep_core (wd_deposits (update_deposits P f db)) = map dep_core (wd_deposits db)"
  by (simp add: update_deposits_def)

lemma insert_deposit_ok:
  assumes ok: "wallet_ok db" and new: "dep_TxHash d \<notin> dep_TxHash ` set (wd_deposits db)"
    and d: "dep_Status d = StatusPending" "in_int64 (dep_AmountGwei d)"
    and db': "db' = db\<lparr>wd_deposits := wd_deposits db @ [d]\<rparr>"
  shows "wallet_ok db'"
proof -
  have "deposit_key (dep_TxHash d) \<notin> keys_of db" using ok new by (auto simp: wallet_ok_def deposits_ok_def)
  then have "deposits_ok db'"
    using ok new d by (auto simp: wallet_ok_def deposits_ok_def deposit_ok_def entry_for_def keys_of_def db' status_defs)
  then show ?thesis
    using ok withdrawals_ok_frame [of db' db "[]"] ledger_ok_frame [of db' db] by (simp add: wallet_ok_def db')
qed

definition wr_core :: "WithdrawalRequest \<Rightarrow> string \<times> string \<times> string \<times> int" where
  "wr_core w = (wr_ID w, wr_UserID w, wr_Address w, wr_AmountGwei w)"

text \<open>A status may change as long as a withdrawal that has not failed does not fail, and vice versa.\<close>

lemma update_withdrawals_ok:
  assumes ok: "wallet_ok db" and f: "\<And>x. wr_core (f x) = wr_core x"
    and st: "\<And>x. x \<in> set (wd_withdrawals db) \<Longrightarrow> P x \<Longrightarrow> wr_Status (f x) = StatusFailed \<longleftrightarrow> wr_Status x = StatusFailed"
  shows "wallet_ok (update_withdrawals P f db)"
proof -
  let ?db = "update_withdrawals P f db"
  have same: "keys_of ?db = keys_of db" "entry_for k u n ?db = entry_for k u n db" for k u n
    by (simp_all add: keys_of_def entry_for_def update_withdrawals_def)
  have linked: "wd_linked ?db = wd_linked db" by (simp add: update_withdrawals_def)
  have fx: "wr_ID (f x) = wr_ID x" "wr_UserID (f x) = wr_UserID x" "wr_Address (f x) = wr_Address x"
    "wr_AmountGwei (f x) = wr_AmountGwei x" for x using f [of x] by (simp_all add: wr_core_def)
  then have ids: "map wr_ID (wd_withdrawals ?db) = map wr_ID (wd_withdrawals db)"
    by (simp add: update_withdrawals_def comp_def if_distrib cong: if_cong)
  have "withdrawal_ok ?db x" if x: "x \<in> set (wd_withdrawals ?db)" for x
  proof -
    obtain y where y: "y \<in> set (wd_withdrawals db)" "x = (if P y then f y else y)"
      using x by (auto simp: update_withdrawals_def)
    then have "withdrawal_ok db y" using ok by (simp add: wallet_ok_def withdrawals_ok_def)
    then show ?thesis
      using y(2) fx st [OF y(1)] by (auto simp: withdrawal_ok_def same linked)
  qed
  then have "withdrawals_ok ?db"
    using ok ids arg_cong [OF ids, of set, unfolded set_map] by (simp add: wallet_ok_def withdrawals_ok_def same)
  then show ?thesis
    using ok deposits_ok_frame [of ?db db] ledger_ok_frame [of ?db db]
    by (simp add: wallet_ok_def update_withdrawals_def)
qed

section \<open>The repository keeps the invariants\<close>

lemma has_account_mono: "has_account u db \<Longrightarrow> wd_accounts db' = wd_accounts db @ xs \<Longrightarrow> has_account u db'"
  by (auto simp: has_account_def)

lemma ledger_ok_provision:
  assumes ok: "ledger_ok db" and b: "bl_UserID b = ac_UserID a" "bl_AvailableGwei b = 0"
  shows "ledger_ok (insert_balance b (insert_account a db))"
proof -
  let ?db = "insert_balance b (insert_account a db)"
  have led: "wd_ledger ?db = wd_ledger db" by (simp add: insert_balance_def insert_account_def)
  have acc: "has_account u db \<Longrightarrow> has_account u ?db" "has_account (ac_UserID a) ?db" for u
    by (auto simp: insert_balance_def insert_account_def has_account_def)
  have ent: "entries_of u ?db = entries_of u db" for u by (simp add: entries_of_def led)
  have fb: "find_balance u (insert_account a db) = find_balance u db" for u
    by (simp add: find_balance_def insert_account_def)
  show ?thesis
  proof (cases "find_balance (ac_UserID a) db")
    case (Some x)
    then have bal: "wd_balances ?db = wd_balances db" using b fb by (simp add: insert_balance_def insert_account_def)
    then have "find_balance u ?db = find_balance u db" for u by (simp add: find_balance_def)
    then show ?thesis using ok acc(1) by (auto simp: ledger_ok_def led bal ent)
  next
    case None
    then have bal: "wd_balances ?db = wd_balances db @ [b]" using b fb by (simp add: insert_balance_def insert_account_def)
    have new: "ac_UserID a \<notin> bl_UserID ` set (wd_balances db)" using None by (simp add: find_balance_None)
    have "entries_of (ac_UserID a) db = []"
      using ok None by (auto simp: ledger_ok_def entries_of_def filter_empty_conv)
    moreover have "find_balance u ?db \<noteq> None" if "find_balance u db \<noteq> None" for u
      using that by (auto simp: find_balance_None bal)
    ultimately show ?thesis
      using ok new b acc by (auto simp: ledger_ok_def led bal ent)
  qed
qed

lemma ProvisionUser_ok:
  assumes ok: "wallet_ok db" and run: "ProvisionUser sv a addr db = (r, db')"
  shows "wallet_ok db'"
proof (cases "db' = db")
  case True
  then show ?thesis using ok by simp
next
  case False
  let ?b = "\<lparr>bl_UserID = ac_UserID a, bl_AvailableGwei = 0, bl_UpdatedAt = ac_ProvisionedAt a\<rparr>"
  let ?mid = "insert_balance ?b (insert_account a db)"
  have db': "db' = insert_address addr ?mid"
    using run False unfolding ProvisionUser_def Let_def
    by (auto simp: tx_defs elim!: withTx_effect split: if_splits option.splits)
  have frame: "wd_accounts db' = wd_accounts ?mid" "wd_balances db' = wd_balances ?mid" "wd_ledger db' = wd_ledger ?mid"
    "wd_deposits db' = wd_deposits ?mid" "wd_withdrawals db' = wd_withdrawals ?mid" "wd_linked db' = wd_linked ?mid @ []"
    by (simp_all add: db' insert_address_def)
  have mid: "wd_ledger ?mid = wd_ledger db" "wd_deposits ?mid = wd_deposits db" "wd_withdrawals ?mid = wd_withdrawals db"
    "wd_linked ?mid = wd_linked db @ []" by (simp_all add: insert_balance_def insert_account_def)
  have "wallet_ok ?mid"
    using ok ledger_ok_provision [of db ?b a] deposits_ok_frame [of ?mid db] withdrawals_ok_frame [of ?mid db "[]"] mid
    by (simp add: wallet_ok_def)
  then show ?thesis using frame by (rule wallet_ok_frame)
qed

lemma posted_wallet_ok:
  assumes ok: "wallet_ok db" and e: "in_int64 (le_AmountGwei e)" "foreign_key (le_IdempotencyKey e)"
    and post: "posted e db db'"
  shows "wallet_ok db'"
proof -
  have "deposit_key i \<noteq> le_IdempotencyKey e" "withdrawal_key i \<noteq> le_IdempotencyKey e"
    "compensation_key i \<noteq> le_IdempotencyKey e" for i using e(2) by (metis foreign_key_def)+
  then show ?thesis
    using ok posted_ledger_ok [OF _ e(1) post] posted_other_deposits [OF post] posted_other_withdrawals [OF post]
    by (simp add: wallet_ok_def)
qed

lemma ApplyLedgerEntry_ok:
  assumes ok: "wallet_ok db" and e: "in_int64 (le_AmountGwei e)" "foreign_key (le_IdempotencyKey e)"
    and run: "ApplyLedgerEntry sv e db = (r, db')"
  shows "wallet_ok db'"
using ApplyLedgerEntry_cases(2) [OF run] posted_wallet_ok [OF ok e] ok by blast

text \<open>The transactions that change a row and post an entry for it.\<close>

lemma row_and_posting_Ok:
  assumes run: "withTx sv key (\<lambda>tx. let affected = P (tx_db tx) in
      tx_bind (tx_wrap what (tx_exec sv what key None f tx))
        (\<lambda>_ tx. if \<not> affected then (Ok (), tx) else applyLedgerEntryTx sv e tx)) db = (r, db')"
  shows "db' = db \<or> \<not> P db \<and> db' = f db \<or> P db \<and> posted e (f db) db'"
proof (cases "db' = db")
  case False
  then obtain tx where body: "(let affected = P db in
      tx_bind (tx_wrap what (tx_exec sv what key None f \<lparr>tx_db = db, tx_aborted = False\<rparr>))
        (\<lambda>_ tx. if \<not> affected then (Ok (), tx) else applyLedgerEntryTx sv e tx)) = (Ok (), tx)"
    and tx: "\<not> tx_aborted tx" "db' = tx_db tx"
    using run by (auto elim!: withTx_effect)
  have "\<not> P db \<and> db' = f db \<or> P db \<and> applyLedgerEntryTx sv e \<lparr>tx_db = f db, tx_aborted = False\<rparr> = (Ok (), tx)"
    using body tx by (auto simp: tx_defs Let_def split: if_splits)
  then show ?thesis using applyLedgerEntryTx_Ok [of sv e "\<lparr>tx_db = f db, tx_aborted = False\<rparr>" tx] tx by auto
qed simp

lemma ConfirmDeposit_ok:
  assumes ok: "wallet_ok db" and d: "dep_core d \<in> dep_core ` set (wd_deposits db)"
    and run: "ConfirmDeposit sv (dep_TxHash d) cb cf (deposit_entry rn d) db = (r, db')"
  shows "wallet_ok db' \<and> dep_core ` set (wd_deposits db') = dep_core ` set (wd_deposits db)"
proof -
  let ?t = "dep_TxHash d" and ?e = "deposit_entry rn d"
  let ?f = "\<lambda>x. x\<lparr>dep_Status := StatusConfirmed, dep_ConfirmedBlock := Some cb, dep_Confirmations := cf,
    dep_UpdatedAt := le_CreatedAt ?e\<rparr>"
  let ?mid = "update_deposits (unconfirmed ?t) ?f db"
  obtain d0 where d0: "d0 \<in> set (wd_deposits db)" "dep_core d0 = dep_core d" using d by auto
  have core: "map dep_core (wd_deposits ?mid) = map dep_core (wd_deposits db)"
    by (rule update_deposits_core) (simp add: dep_core_def)
  have midok: "ledger_ok ?mid" "withdrawals_ok ?mid"
    using ok ledger_ok_frame [of ?mid db] withdrawals_ok_frame [of ?mid db "[]"]
    by (simp_all add: wallet_ok_def update_deposits_def)
  consider "db' = db" | "\<not> list_ex (unconfirmed ?t) (wd_deposits db)" "db' = ?mid"
    | "list_ex (unconfirmed ?t) (wd_deposits db)" "posted ?e ?mid db'"
    using row_and_posting_Ok [OF run [unfolded ConfirmDeposit_def]] by blast
  then show ?thesis
  proof cases
    case 1
    then show ?thesis using ok by simp
  next
    case 2
    have "\<forall>x \<in> set (wd_deposits db). \<not> unconfirmed ?t x" using 2(1) by (simp add: list_ex_iff)
    then have "map (\<lambda>x. if unconfirmed ?t x then ?f x else x) (wd_deposits db) = wd_deposits db"
      by (intro map_idI) auto
    then have "?mid = db" by (simp add: update_deposits_def)
    then show ?thesis using ok 2 by simp
  next
    case 3
    obtain u where u: "u \<in> set (wd_deposits db)" "unconfirmed ?t u" using 3(1) by (auto simp: list_ex_iff)
    have "u = d0"
      using ok u d0 by (auto simp: wallet_ok_def deposits_ok_def unconfirmed_def dep_core_def distinct_map inj_on_def)
    then have un: "dep_Status d0 \<noteq> StatusConfirmed" and t: "dep_TxHash d0 = ?t" using u by (simp_all add: unconfirmed_def)
    have e: "le_IdempotencyKey ?e = deposit_key ?t" "le_UserID ?e = dep_UserID d0" "le_AmountGwei ?e = dep_AmountGwei d0"
      using d0(2) by (simp_all add: deposit_entry_def dep_core_def)
    have amt: "in_int64 (le_AmountGwei ?e)" using ok d0(1) e(3) by (simp add: wallet_ok_def deposits_ok_def deposit_ok_def)
    have "deposits_ok db'"
      by (rule confirm_deposits_ok [OF _ d0(1) t e un _ 3(2)]) (use ok in \<open>simp_all add: wallet_ok_def\<close>)
    then show ?thesis
      using posted_ledger_ok [OF midok(1) amt 3(2)] posted_other_withdrawals [OF 3(2) midok(2)] e(1)
        arg_cong [OF core, of set, unfolded set_map] by (simp add: wallet_ok_def posted_frame(2) [OF 3(2)])
  qed
qed

text \<open>The row a loop works on is still there, and has not failed.\<close>

definition open_row :: "WalletDB \<Rightarrow> WithdrawalRequest \<Rightarrow> bool" where
  "open_row db x \<longleftrightarrow> (\<exists>w \<in> set (wd_withdrawals db). wr_core w = wr_core x \<and> wr_Status w \<noteq> StatusFailed)"

lemma open_row_unique:
  assumes "wallet_ok db" "open_row db x" "w \<in> set (wd_withdrawals db)" "wr_ID w = wr_ID x"
  shows "wr_Status w \<noteq> StatusFailed" "wr_core w = wr_core x"
proof -
  obtain v where v: "v \<in> set (wd_withdrawals db)" "wr_core v = wr_core x" "wr_Status v \<noteq> StatusFailed"
    using assms(2) by (auto simp: open_row_def)
  have "v = w" using assms v by (auto simp: wallet_ok_def withdrawals_ok_def wr_core_def distinct_map inj_on_def)
  then show "wr_Status w \<noteq> StatusFailed" "wr_core w = wr_core x" using v by simp_all
qed

lemma mark_withdrawal_ok:
  assumes ok: "wallet_ok db" and x: "open_row db x" and run: "pool_exec sv what (wr_ID x) None
      (update_withdrawals (\<lambda>w. wr_ID w = wr_ID x) f) db = (r, db')"
    and f: "\<And>w. wr_core (f w) = wr_core w \<and> wr_Status (f w) \<noteq> StatusFailed"
  shows "wallet_ok db' \<and> (\<forall>y. open_row db y \<longrightarrow> open_row db' y)"
proof (cases "db' = db")
  case False
  then have db': "db' = update_withdrawals (\<lambda>w. wr_ID w = wr_ID x) f db" using pool_exec_cases [OF run] by auto
  have "wallet_ok db'"
    unfolding db' by (rule update_withdrawals_ok [OF ok]) (use f open_row_unique(1) [OF ok x] in auto)
  moreover have "open_row db' y" if y: "open_row db y" for y
  proof -
    obtain v where v: "v \<in> set (wd_withdrawals db)" "wr_core v = wr_core y" "wr_Status v \<noteq> StatusFailed"
      using y by (auto simp: open_row_def)
    have "(if wr_ID v = wr_ID x then f v else v) \<in> set (wd_withdrawals db')"
      using v(1) by (simp add: db' update_withdrawals_def)
    then show ?thesis using v f [of v] by (auto simp: open_row_def split: if_splits)
  qed
  ultimately show ?thesis by blast
qed (use ok in simp)

lemma MarkWithdrawalFailed_ok:
  assumes ok: "wallet_ok db" and x: "open_row db x"
    and run: "MarkWithdrawalFailed sv (wr_ID x) reason (compensation_entry rn x) at db = (r, db')"
  shows "wallet_ok db' \<and> (\<forall>y. wr_ID y \<noteq> wr_ID x \<longrightarrow> open_row db y \<longrightarrow> open_row db' y)"
proof -
  let ?i = "wr_ID x" and ?e = "compensation_entry rn x"
  let ?f = "\<lambda>w. w\<lparr>wr_Status := StatusFailed, wr_FailureReason := Some reason, wr_UpdatedAt := at\<rparr>"
  let ?mid = "update_withdrawals (not_failed ?i) ?f db"
  obtain w where w: "w \<in> set (wd_withdrawals db)" "wr_core w = wr_core x" "wr_Status w \<noteq> StatusFailed"
    using x by (auto simp: open_row_def)
  have i: "wr_ID w = ?i" and e: "le_IdempotencyKey ?e = compensation_key ?i" "le_UserID ?e = wr_UserID w"
    "le_AmountGwei ?e = wr_AmountGwei w" using w(2) by (simp_all add: compensation_entry_def wr_core_def)
  have midok: "ledger_ok ?mid" "deposits_ok ?mid"
    using ok ledger_ok_frame [of ?mid db] deposits_ok_frame [of ?mid db] by (simp_all add: wallet_ok_def update_withdrawals_def)
  have "list_ex (not_failed ?i) (wd_withdrawals db)" using w i by (auto simp: list_ex_iff not_failed_def)
  then consider "db' = db" | "posted ?e ?mid db'"
    using row_and_posting_Ok [OF run [unfolded MarkWithdrawalFailed_def]] by blast
  then show ?thesis
  proof cases
    case 1
    then show ?thesis using ok by simp
  next
    case 2
    have amt: "in_int64 (le_AmountGwei ?e)" using ok w(1) e(3) by (simp add: wallet_ok_def withdrawals_ok_def withdrawal_ok_def)
    have "withdrawals_ok db'"
      by (rule compensate_withdrawals_ok [OF _ w(1) i e w(3) _ 2]) (use ok in \<open>simp_all add: wallet_ok_def\<close>)
    moreover have "open_row db' y" if y: "wr_ID y \<noteq> ?i" "open_row db y" for y
    proof -
      obtain v where v: "v \<in> set (wd_withdrawals db)" "wr_core v = wr_core y" "wr_Status v \<noteq> StatusFailed"
        using y(2) by (auto simp: open_row_def)
      then have "\<not> not_failed ?i v" using y(1) by (auto simp: not_failed_def wr_core_def)
      then have "v \<in> set (wd_withdrawals db')"
        using v(1) by (force simp: posted_frame(3) [OF 2] update_withdrawals_def)
      then show ?thesis using v by (auto simp: open_row_def)
    qed
    ultimately show ?thesis
      using posted_ledger_ok [OF midok(1) amt 2] posted_other_deposits [OF 2 _ midok(2)] e(1)
      by (simp add: wallet_ok_def)
  qed
qed

lemma insert_withdrawal_ok:
  assumes ok: "wallet_ok db" and post: "posted e db db1"
    and w: "wr_ID w \<notin> wr_ID ` set (wd_withdrawals db)" "0 < wr_AmountGwei w" "in_int64 (wr_AmountGwei w)"
      "wr_Status w = StatusPending"
      "\<exists>a \<in> set (wd_linked db). la_UserID a = wr_UserID w \<and> normalizeAddress (la_Address a) = wr_Address w"
    and e: "le_IdempotencyKey e = withdrawal_key (wr_ID w)" "le_UserID e = wr_UserID w" "le_AmountGwei e = - wr_AmountGwei w"
    and db': "db' = db1\<lparr>wd_withdrawals := wd_withdrawals db1 @ [w]\<rparr>"
  shows "wallet_ok db'"
proof -
  note f = posted_frame [OF post]
  have nokey: "withdrawal_key (wr_ID w) \<notin> keys_of db" "compensation_key (wr_ID w) \<notin> keys_of db"
    using ok w(1) by (auto simp: wallet_ok_def withdrawals_ok_def)
  have amt: "in_int64 (le_AmountGwei e)" using w(2,3) e(3) by (simp add: in_int64_def)
  have "ledger_ok db1" "deposits_ok db1"
    using ok posted_ledger_ok [OF _ amt post] posted_other_deposits [OF post] e(1) by (simp_all add: wallet_ok_def)
  moreover from post have "withdrawals_ok db'"
  proof (cases rule: posted_cases)
    case known
    then show ?thesis using nokey e(1) by simp
  next
    case new
    have k: "keys_of db' = insert (le_IdempotencyKey e) (keys_of db)" using new(2) by (simp add: keys_of_def db')
    have en: "entry_for k u n db' \<longleftrightarrow> entry_for k u n db
      \<or> k = le_IdempotencyKey e \<and> u = le_UserID e \<and> n = le_AmountGwei e" for k u n
      using new(3) by (simp add: entry_for_def db')
    have rows: "wd_linked db' = wd_linked db" "wd_withdrawals db' = wd_withdrawals db @ [w]" by (simp_all add: db' f)
    have "withdrawal_ok db' w"
      using w nokey e by (auto simp: withdrawal_ok_def k en rows status_defs)
    moreover have "withdrawal_ok db' x" if "x \<in> set (wd_withdrawals db)" for x
      using ok that e(1) by (auto simp: wallet_ok_def withdrawals_ok_def withdrawal_ok_def k en rows)
    ultimately show ?thesis
      using ok w(1) e(1) by (auto simp: wallet_ok_def withdrawals_ok_def k rows)
  qed
  ultimately show ?thesis
    using ledger_ok_frame [of db' db1] deposits_ok_frame [of db' db1] by (simp add: wallet_ok_def db')
qed

lemma UpsertObservedDeposit_ok:
  assumes ok: "wallet_ok db" and d: "dep_Status d = StatusPending" "in_int64 (dep_AmountGwei d)"
    and run: "UpsertObservedDeposit sv d db = (r, db')"
  shows "wallet_ok db'"
proof -
  have up: "wallet_ok (upsert_deposit d db)"
  proof (cases "list_ex (\<lambda>x. dep_TxHash x = dep_TxHash d) (wd_deposits db)")
    case True
    then have "upsert_deposit d db = update_deposits (\<lambda>x. dep_TxHash x = dep_TxHash d)
      (\<lambda>x. x\<lparr>dep_ObservedBlock := dep_ObservedBlock d, dep_Confirmations := dep_Confirmations d,
             dep_UpdatedAt := dep_UpdatedAt d, dep_FromAddress := dep_FromAddress d,
             dep_ToAddress := dep_ToAddress d, dep_RawAmountWei := dep_RawAmountWei d\<rparr>) db"
      by (simp add: upsert_deposit_def update_deposits_def)
    then show ?thesis using update_deposits_ok [OF ok] by (simp add: dep_core_def)
  next
    case False
    then show ?thesis
      by (intro insert_deposit_ok [OF ok _ d, of "upsert_deposit d db"]) (auto simp: upsert_deposit_def list_ex_iff)
  qed
  have "db' = db \<or> db' = upsert_deposit d db \<or> (\<exists>as. db' = (upsert_deposit d db)\<lparr>wd_addresses := as\<rparr>)"
    using run by (auto simp: UpsertObservedDeposit_def pool_exec_def split: if_splits option.splits)
  moreover have "wallet_ok ((upsert_deposit d db)\<lparr>wd_addresses := as\<rparr>)" for as
    by (rule wallet_ok_frame [OF up, of _ "[]"]) simp_all
  ultimately show ?thesis using ok up by auto
qed

end
