(* ===== verification/WalletRun.thy ===== *)
theory WalletRun
  imports Wallet
begin

text \<open>
  Every state the wallet can reach: the calls of its API and the cycles of its worker as the
  steps of a transition system, with database and node behaving as they may at each step.
\<close>

section \<open>Loops\<close>

text \<open>\<open>ORDER BY\<close> only permutes rows.\<close>

definition orderly_server :: "Server \<Rightarrow> bool" where
  "orderly_server sv \<longleftrightarrow> (\<forall>o1. permuting (sv_linked sv o1) \<and> permuting (sv_deposits sv o1)
     \<and> permuting (sv_withdrawals sv o1) \<and> permuting (sv_faucets sv o1)) \<and> permuting (sv_addresses sv)"

lemma orderly_sets:
  assumes "orderly_server sv"
  shows "set (sv_linked sv c as) = set as" "set (sv_deposits sv c ds) = set ds" "set (sv_withdrawals sv c ws) = set ws"
    "distinct (map key ws) \<Longrightarrow> distinct (map key (sv_withdrawals sv c ws))"
proof -
  have p: "permuting (sv_linked sv c)" "permuting (sv_deposits sv c)" "permuting (sv_withdrawals sv c)"
    using assms by (simp_all add: orderly_server_def)
  show "set (sv_linked sv c as) = set as" "set (sv_deposits sv c ds) = set ds" "set (sv_withdrawals sv c ws) = set ws"
    using p permuting_set by blast+
  have "mset (map key (sv_withdrawals sv c ws)) = mset (map key ws)" using permuting_mset [OF p(3)] by simp
  then show "distinct (map key ws) \<Longrightarrow> distinct (map key (sv_withdrawals sv c ws))"
    using mset_eq_imp_distinct_iff by blast
qed

lemma each_invariant:
  assumes "I w" "\<And>x w. x \<in> set xs \<Longrightarrow> I w \<Longrightarrow> I (snd (f x w))"
  shows "I (snd (each f xs w))"
  using assms
proof (induction xs arbitrary: w)
  case (Cons x xs)
  obtain r w1 where fx: "f x w = (r, w1)" by fastforce
  have "I w1" using Cons.prems(2) [of x w] Cons.prems(1) fx by simp
  then show ?case using Cons.IH [of w1] Cons.prems(2) fx by (cases r) simp_all
qed simp

lemma each_rows:
  assumes "I w" "\<forall>x \<in> set xs. R x w" "distinct (map key xs)"
    and "\<And>x w. x \<in> set xs \<Longrightarrow> I w \<Longrightarrow> R x w \<Longrightarrow>
      I (snd (f x w)) \<and> (\<forall>y. key y \<noteq> key x \<longrightarrow> R y w \<longrightarrow> R y (snd (f x w)))"
  shows "I (snd (each f xs w))"
  using assms
proof (induction xs arbitrary: w)
  case (Cons x xs)
  obtain r w1 where fx: "f x w = (r, w1)" by fastforce
  have step: "I w1 \<and> (\<forall>y. key y \<noteq> key x \<longrightarrow> R y w \<longrightarrow> R y w1)"
    using Cons.prems(4) [of x w] Cons.prems(1,2) fx by simp
  have "key y \<noteq> key x" if "y \<in> set xs" for y using Cons.prems(3) that by (auto simp: image_iff)
  then have "\<forall>y \<in> set xs. R y w1" using step Cons.prems(2) by simp
  then show ?case using Cons.IH [of w1] Cons.prems(3,4) step fx by (cases r) simp_all
qed simp

lemma on_db_simps [simp]:
  "ch_db (snd (on_db what f w)) = snd (f (ch_db w))" "ch_sent (snd (on_db what f w)) = ch_sent w"
  by (simp_all add: on_db_def Let_def split: prod.split)

lemma sending_db [simp]:
  "ch_db (snd (sendValue c k a b v w)) = ch_db w"
  "ch_db (snd (sendFullBalance c k a b w)) = ch_db w"
  "ch_db (snd (SubmitSweep c p a w)) = ch_db w"
  "ch_db (snd (SubmitWithdrawal c a n w)) = ch_db w"
proof -
  show v: "ch_db (snd (sendValue c k a b v w)) = ch_db w" for k a b v w
    by (simp add: sendValue_def split: outcome.split prod.split)
  show f: "ch_db (snd (sendFullBalance c k a b w)) = ch_db w" for k a b w
    using v by (auto simp: sendFullBalance_def Let_def split: outcome.split prod.split) (metis snd_conv)
  show "ch_db (snd (SubmitSweep c p a w)) = ch_db w"
    using f by (simp add: SubmitSweep_def split: outcome.split)
  show "ch_db (snd (SubmitWithdrawal c a n w)) = ch_db w"
    using v by (auto simp: SubmitWithdrawal_def Let_def split: outcome.split prod.split) (metis snd_conv)+
qed

abbreviation ok_chain :: "Chain \<Rightarrow> bool" where
  "ok_chain w \<equiv> wallet_ok (ch_db w)"

lemma pool_query_Ok [simp]: "pool_query sv stmt key x = Ok y \<longleftrightarrow> \<not> sv_fails sv stmt key \<and> y = x"
  by (auto simp: pool_query_def)

lemma each_listed_ok:
  assumes "ok_chain w" "\<And>xs. rows = Ok xs \<Longrightarrow> ok_chain (snd (each f xs w))"
  shows "ok_chain (snd (each_listed what rows f w))"
  using assms by (cases rows) (simp_all add: each_listed_def)

lemma confirmPendingDeposits_ok:
  assumes ok: "ok_chain w" and sv: "orderly_server (rn_sv r)"
  shows "ok_chain (snd (confirmPendingDeposits r b w))"
  unfolding confirmPendingDeposits_def
proof (rule each_listed_ok [OF ok])
  fix xs
  assume "ListPendingDeposits (rn_sv r) (ch_db w) = Ok xs"
  then have xs: "set xs \<subseteq> set (wd_deposits (ch_db w))"
    by (auto simp: ListPendingDeposits_def listDepositsByStatus_def orderly_sets [OF sv])
  let ?I = "\<lambda>w. ok_chain w \<and> (\<forall>x \<in> set xs. dep_core x \<in> dep_core ` set (wd_deposits (ch_db w)))"
  have "?I (snd (each (confirm_deposit r b) xs w))"
  proof (rule each_invariant)
    show "?I w" using ok xs by auto
    fix x v
    assume x: "x \<in> set xs" "?I v"
    have run: "snd (ConfirmDeposit sv (dep_TxHash x) cb cf (deposit_entry r x) (ch_db v)) = db' \<Longrightarrow>
      wallet_ok db' \<and> dep_core ` set (wd_deposits db') = dep_core ` set (wd_deposits (ch_db v))" for sv cb cf db'
      using ConfirmDeposit_ok [of "ch_db v" x sv cb cf r] x by (metis prod.collapse)
    then show "?I (snd (confirm_deposit r b x v))"
      using x by (auto simp: confirm_deposit_def Let_def split: option.split)
  qed
  then show "ok_chain (snd (each (confirm_deposit r b) xs w))" by blast
qed

lemma mark_sweep_ok:
  assumes "ok_chain w" "\<And>x. dep_core (f x) = dep_core x \<and> dep_Status (f x) = dep_Status x"
  shows "wallet_ok (snd (pool_exec sv what t None (update_deposits P f) (ch_db w)))"
  using assms update_deposits_ok by (auto simp: pool_exec_def)

lemmas mark_sweep_defs = MarkDepositSweepSubmitted_def MarkDepositSweepConfirmed_def MarkDepositSweepFailed_def dep_core_def

lemma submitSweeps_ok:
  assumes "ok_chain w"
  shows "ok_chain (snd (submitSweeps r w))"
  unfolding submitSweeps_def
proof (rule each_listed_ok [OF assms], rule each_invariant [where I = ok_chain, OF assms])
  fix x v
  assume v: "ok_chain v"
  have marks: "wallet_ok (snd (MarkDepositSweepFailed (rn_sv r) t m n (ch_db v)))"
    "wallet_ok (snd (MarkDepositSweepSubmitted (rn_sv r) t m n (ch_db v)))" for t m n
    using v by (simp_all add: mark_sweep_defs mark_sweep_ok)
  show "ok_chain (snd (submit_sweep r x v))"
  proof (cases "GetDepositAddress (rn_sv r) (dep_UserID x) (ch_db v)")
    case (Ok a)
    obtain q v1 where s: "SubmitSweep (rn_client r) (da_PrivateKeyHex a) (rn_HotWalletAddress r) v = (q, v1)" by fastforce
    then have "ch_db v1 = ch_db v" using sending_db(3) by (metis snd_conv)
    then show ?thesis using v marks by (cases q) (simp_all add: submit_sweep_def Ok s)
  qed (simp_all add: submit_sweep_def v)
qed

lemma confirmSweepReceipts_ok:
  assumes "ok_chain w"
  shows "ok_chain (snd (confirmSweepReceipts r w))"
  unfolding confirmSweepReceipts_def
proof (rule each_listed_ok [OF assms], rule each_invariant [where I = ok_chain, OF assms])
  fix x v
  assume v: "ok_chain v"
  have "wallet_ok (snd (MarkDepositSweepConfirmed (rn_sv r) t n (ch_db v)))"
    "wallet_ok (snd (MarkDepositSweepFailed (rn_sv r) t m n (ch_db v)))" for t m n
    using v by (simp_all add: mark_sweep_defs mark_sweep_ok)
  then show "ok_chain (snd (confirm_sweep r x v))"
    using v by (auto simp: confirm_sweep_def follow_receipt_def split: option.split outcome.split)
qed

text \<open>The withdrawal loops: a listed row is still open when its turn comes.\<close>

lemma listed_withdrawals:
  assumes ok: "ok_chain w" and sv: "orderly_server sv" and st: "st \<noteq> StatusFailed"
    and xs: "listWithdrawalsByStatus sv st (ch_db w) = Ok xs"
  shows "\<forall>x \<in> set xs. open_row (ch_db w) x" "distinct (map wr_ID xs)"
proof -
  have eq: "xs = sv_withdrawals sv ''updated_at ASC'' (filter (\<lambda>x. wr_Status x = st) (wd_withdrawals (ch_db w)))"
    using xs by (simp add: listWithdrawalsByStatus_def)
  show "\<forall>x \<in> set xs. open_row (ch_db w) x"
    using st unfolding eq orderly_sets(3) [OF sv] by (auto simp: open_row_def)
  show "distinct (map wr_ID xs)"
    unfolding eq using ok
    by (intro orderly_sets(4) [OF sv]) (simp add: wallet_ok_def withdrawals_ok_def distinct_map_filter)
qed

lemma submitWithdrawals_ok:
  assumes ok: "ok_chain w" and sv: "orderly_server (rn_sv r)"
  shows "ok_chain (snd (submitWithdrawals r w))"
  unfolding submitWithdrawals_def
proof (rule each_listed_ok [OF ok])
  fix xs
  assume "ListPendingWithdrawals (rn_sv r) (ch_db w) = Ok xs"
  then have l: "listWithdrawalsByStatus (rn_sv r) StatusPending (ch_db w) = Ok xs" by (simp add: ListPendingWithdrawals_def)
  note rows = listed_withdrawals [OF ok sv _ l]
  show "ok_chain (snd (each (submit_withdrawal r) xs w))"
  proof (rule each_rows [where I = ok_chain and R = "\<lambda>x w. open_row (ch_db w) x" and key = wr_ID, OF ok])
    show "\<forall>x \<in> set xs. open_row (ch_db w) x" "distinct (map wr_ID xs)" using rows by (simp_all add: status_defs)
    fix x v
    assume v: "ok_chain v" "open_row (ch_db v) x"
    obtain q v1 where s: "SubmitWithdrawal (rn_client r) (wr_Address x) (wr_AmountGwei x) v = (q, v1)" by fastforce
    then have v1: "ch_db v1 = ch_db v" using sending_db(4) by (metis snd_conv)
    have "wallet_ok (snd (MarkWithdrawalSubmitted (rn_sv r) (wr_ID x) h k n (ch_db v)))
      \<and> (\<forall>y. open_row (ch_db v) y \<longrightarrow> open_row (snd (MarkWithdrawalSubmitted (rn_sv r) (wr_ID x) h k n (ch_db v))) y)" for h k n
      unfolding MarkWithdrawalSubmitted_def
      by (rule mark_withdrawal_ok [OF v surjective_pairing]) (simp add: wr_core_def status_defs)
    then show "ok_chain (snd (submit_withdrawal r x v))
      \<and> (\<forall>y. wr_ID y \<noteq> wr_ID x \<longrightarrow> open_row (ch_db v) y \<longrightarrow> open_row (ch_db (snd (submit_withdrawal r x v))) y)"
      using v v1 by (cases q) (auto simp: submit_withdrawal_def s split: prod.split)
  qed
qed

lemma confirmWithdrawalReceipts_ok:
  assumes ok: "ok_chain w" and sv: "orderly_server (rn_sv r)"
  shows "ok_chain (snd (confirmWithdrawalReceipts r w))"
  unfolding confirmWithdrawalReceipts_def
proof (rule each_listed_ok [OF ok])
  fix xs
  assume "ListSubmittedWithdrawals (rn_sv r) (ch_db w) = Ok xs"
  then have l: "listWithdrawalsByStatus (rn_sv r) StatusSubmitted (ch_db w) = Ok xs" by (simp add: ListSubmittedWithdrawals_def)
  note rows = listed_withdrawals [OF ok sv _ l]
  show "ok_chain (snd (each (confirm_withdrawal r) xs w))"
  proof (rule each_rows [where I = ok_chain and R = "\<lambda>x w. open_row (ch_db w) x" and key = wr_ID, OF ok])
    show "\<forall>x \<in> set xs. open_row (ch_db w) x" "distinct (map wr_ID xs)" using rows by (simp_all add: status_defs)
    fix x v
    assume v: "ok_chain v" "open_row (ch_db v) x"
    have "wallet_ok (snd (MarkWithdrawalConfirmed (rn_sv r) (wr_ID x) n (ch_db v)))
      \<and> (\<forall>y. open_row (ch_db v) y \<longrightarrow> open_row (snd (MarkWithdrawalConfirmed (rn_sv r) (wr_ID x) n (ch_db v))) y)" for n
      unfolding MarkWithdrawalConfirmed_def
      by (rule mark_withdrawal_ok [OF v surjective_pairing]) (simp add: wr_core_def status_defs)
    moreover have "wallet_ok (snd (MarkWithdrawalFailed (rn_sv r) (wr_ID x) m (compensation_entry r x) n (ch_db v)))
      \<and> (\<forall>y. wr_ID y \<noteq> wr_ID x \<longrightarrow> open_row (ch_db v) y
        \<longrightarrow> open_row (snd (MarkWithdrawalFailed (rn_sv r) (wr_ID x) m (compensation_entry r x) n (ch_db v))) y)" for m n
      by (rule MarkWithdrawalFailed_ok [OF v surjective_pairing])
    ultimately show "ok_chain (snd (confirm_withdrawal r x v))
      \<and> (\<forall>y. wr_ID y \<noteq> wr_ID x \<longrightarrow> open_row (ch_db v) y \<longrightarrow> open_row (ch_db (snd (confirm_withdrawal r x v))) y)"
      using v by (auto simp: confirm_withdrawal_def follow_receipt_def split: option.split outcome.split)
  qed
qed

text \<open>Faucet transfers touch no book.\<close>

lemma faucet_marks_ok:
  assumes "wallet_ok db"
  shows "wallet_ok (snd (pool_exec sv what t v (update_faucets i f) db))"
proof -
  have "wallet_ok (update_faucets i f db)"
    by (rule wallet_ok_frame [OF assms, of _ "[]"]) (simp_all add: update_faucets_def)
  then show ?thesis using assms by (simp add: pool_exec_def split: option.split)
qed

lemma submitFaucetTransfers_ok:
  assumes "ok_chain w"
  shows "ok_chain (snd (submitFaucetTransfers r w))"
  unfolding submitFaucetTransfers_def
proof (rule each_listed_ok [OF assms], rule each_invariant [where I = ok_chain, OF assms])
  fix x :: FaucetTransfer and v
  assume v: "ok_chain v"
  obtain q v1 where s: "SubmitWithdrawal (rn_client r) (ft_TargetAddress x) (ft_AmountGwei x) v = (q, v1)" by fastforce
  then have "ch_db v1 = ch_db v" using sending_db(4) by (metis snd_conv)
  then show "ok_chain (snd (submit_faucet r x v))"
    using v by (cases q) (auto simp: submit_faucet_def s MarkFaucetTransferSubmitted_def faucet_marks_ok split: prod.split)
qed

lemma confirmFaucetTransferReceipts_ok:
  assumes "ok_chain w"
  shows "ok_chain (snd (confirmFaucetTransferReceipts r w))"
  unfolding confirmFaucetTransferReceipts_def
proof (rule each_listed_ok [OF assms], rule each_invariant [where I = ok_chain, OF assms])
  fix x :: FaucetTransfer and v
  assume v: "ok_chain v"
  then show "ok_chain (snd (confirm_faucet r x v))"
    by (auto simp: confirm_faucet_def follow_receipt_def MarkFaucetTransferConfirmed_def MarkFaucetTransferFailed_def
        faucet_marks_ok split: option.split outcome.split)
qed

section \<open>The scan\<close>

text \<open>What a block holds for us: successful transfers to a known address.\<close>

definition transfer_of :: "string \<Rightarrow> string \<Rightarrow> nat \<Rightarrow> BlockTx \<Rightarrow> string \<Rightarrow> int \<Rightarrow> ObservedTransfer" where
  "transfer_of user to n tx from gwei =
     \<lparr>ot_UserID = user, ot_ToAddress = to, ot_FromAddress = from, ot_TxHash = bt_Hash tx, ot_ValueGwei = gwei,
      ot_RawValueWei = show_int (bt_Value tx), ot_BlockNumber = wrap64 (int n)\<rparr>"

definition pays_us :: "Eth \<Rightarrow> (string, string) gomap \<Rightarrow> nat \<Rightarrow> BlockTx \<Rightarrow> ObservedTransfer \<Rightarrow> bool" where
  "pays_us c addresses n tx t \<longleftrightarrow>
     (\<exists>to user from. bt_To tx = Some to \<and> map_of addresses (ToLower to) = Some user
       \<and> eth_Receipt c (bt_Hash tx) = Ok (Some True) \<and> bt_Sender tx = Ok from \<and> in_int64 (bt_Value tx div gweiWei)
       \<and> t = transfer_of user to n tx from (bt_Value tx div gweiWei))"

lemma observe_tx_Ok:
  "observe_tx c m n tx = Ok r \<Longrightarrow> r = Some t \<longleftrightarrow> pays_us c m n tx t"
  by (auto simp: observe_tx_def pays_us_def transfer_of_def weiToGwei_def Let_def
      split: option.splits outcome.splits if_splits)

lemma observe_txs_Ok:
  "observe_txs c m n txs = Ok ts \<Longrightarrow> t \<in> set ts \<longleftrightarrow> (\<exists>tx \<in> set txs. pays_us c m n tx t)"
proof (induction txs arbitrary: ts)
  case (Cons tx txs)
  obtain r rest where r: "observe_tx c m n tx = Ok r" "observe_txs c m n txs = Ok rest"
    "ts = (case r of None \<Rightarrow> [] | Some x \<Rightarrow> [x]) @ rest" using Cons.prems by auto
  have "t \<in> set (case r of None \<Rightarrow> [] | Some x \<Rightarrow> [x]) \<longleftrightarrow> pays_us c m n tx t"
    unfolding observe_tx_Ok [OF r(1), symmetric] by (auto split: option.split)
  then show ?case using Cons.IH [OF r(2)] r(3) by auto
qed simp

lemma scan_blocks_Ok:
  "scan_blocks c m ns = Ok ts \<Longrightarrow>
    t \<in> set ts \<longleftrightarrow> (\<exists>n \<in> set ns. \<exists>txs. eth_BlockByNumber c n = Ok txs \<and> (\<exists>tx \<in> set txs. pays_us c m n tx t))"
proof (induction ns arbitrary: ts)
  case (Cons n ns)
  obtain txs os rest where r: "eth_BlockByNumber c n = Ok txs" "observe_txs c m n txs = Ok os"
    "scan_blocks c m ns = Ok rest" "ts = os @ rest" using Cons.prems by auto
  then show ?case using Cons.IH [OF r(3)] observe_txs_Ok [OF r(2)] by auto
qed simp

lemma ScanDeposits_Ok:
  assumes "ScanDeposits c a b m = Ok ts" "eth_enabled c"
  shows "t \<in> set ts \<longleftrightarrow> (\<exists>n txs. a \<le> n \<and> n \<le> b \<and> eth_BlockByNumber c n = Ok txs \<and> (\<exists>tx \<in> set txs. pays_us c m n tx t))"
proof (cases "a \<le> b")
  case True
  then have run: "scan_blocks c m [a..<Suc b] = Ok ts" using assms by (simp add: ScanDeposits_def)
  have "set [a..<Suc b] = {n. a \<le> n \<and> n \<le> b}" by auto
  then show ?thesis unfolding scan_blocks_Ok [OF run] by blast
qed (use assms in \<open>auto simp: ScanDeposits_def\<close>)

lemma ScanDeposits_int64: "ScanDeposits c a b m = Ok ts \<Longrightarrow> \<forall>t \<in> set ts. in_int64 (ot_ValueGwei t)"
  using ScanDeposits_Ok [of c a b m ts]
  by (cases "eth_enabled c") (auto simp: pays_us_def transfer_of_def ScanDeposits_def)

lemma scan_new_blocks_ok:
  assumes "ok_chain w"
  shows "ok_chain (snd (scan_new_blocks r b as st w))"
proof -
  have "ok_chain (snd (each (\<lambda>t. on_db what (UpsertObservedDeposit sv (observed_deposit r t))) ts w))"
    if "\<forall>t \<in> set ts. in_int64 (ot_ValueGwei t)" for what sv ts
  proof (rule each_invariant [where I = ok_chain, OF assms])
    fix t v
    assume t: "t \<in> set ts" "ok_chain v"
    have "dep_Status (observed_deposit r t) = StatusPending" "in_int64 (dep_AmountGwei (observed_deposit r t))"
      using that t(1) by (simp_all add: observed_deposit_def)
    from UpsertObservedDeposit_ok [OF t(2) this surjective_pairing]
    show "ok_chain (snd (on_db what (UpsertObservedDeposit sv (observed_deposit r t)) v))" by simp
  qed
  then show ?thesis
    using assms ScanDeposits_int64 by (auto simp: scan_new_blocks_def Let_def split: outcome.split)
qed

lemma save_cursor_ok: "wallet_ok db \<Longrightarrow> wallet_ok (snd (save_cursor r b db))"
proof -
  assume ok: "wallet_ok db"
  have "wallet_ok (db\<lparr>wd_chain := cs\<rparr>)" for cs
    by (rule wallet_ok_frame [OF ok, of _ "[]"]) simp_all
  then show ?thesis using ok by (simp add: save_cursor_def SaveChainState_def pool_exec_def)
qed

lemma then_run_ok:
  assumes "ok_chain (snd m)" "\<And>w. ok_chain w \<Longrightarrow> ok_chain (snd (f w))"
  shows "ok_chain (snd (then_run m f))"
proof -
  obtain q w where m: "m = (q, w)" by fastforce
  then show ?thesis using assms by (cases q) (simp_all add: then_run_def)
qed

lemma processReceipts_ok:
  "\<lbrakk>ok_chain w; orderly_server (rn_sv r)\<rbrakk> \<Longrightarrow> ok_chain (snd (processReceipts r w))"
  unfolding processReceipts_def
  by (intro then_run_ok confirmSweepReceipts_ok confirmWithdrawalReceipts_ok confirmFaucetTransferReceipts_ok)

lemma scanDepositsAndSubmit_ok:
  assumes ok: "ok_chain w" and sv: "orderly_server (rn_sv r)"
  shows "ok_chain (snd (scanDepositsAndSubmit r w))"
proof -
  have "ok_chain (snd (on_db what (save_cursor r b) v))" if "ok_chain v" for what b v
    using save_cursor_ok [OF that] by simp
  then have "ok_chain (snd (then_run (then_run (then_run (then_run (then_run
             (scan_new_blocks r b as st w)
             (on_db ''save chain state'' (save_cursor r b)))
             (confirmPendingDeposits r (wrap64 (int b))))
             (submitSweeps r)) (submitWithdrawals r)) (submitFaucetTransfers r)))" for b as st
    by (intro then_run_ok scan_new_blocks_ok confirmPendingDeposits_ok submitSweeps_ok submitWithdrawals_ok
        submitFaucetTransfers_ok ok sv)
  moreover have "ok_chain (snd (let (r', db) = save_cursor r b (ch_db w) in (r', w\<lparr>ch_db := db\<rparr>)))" for b
    using save_cursor_ok [OF ok] by (simp add: case_prod_unfold Let_def)
  ultimately show ?thesis
    using ok unfolding scanDepositsAndSubmit_def by (simp split: outcome.split option.split prod.split)
qed

section \<open>The calls of the API\<close>

lemma CreateWithdrawal_ok:
  assumes ok: "wallet_ok db" and w: "0 < wr_AmountGwei w" "in_int64 (wr_AmountGwei w)" "wr_Status w = StatusPending"
      "\<exists>a \<in> set (wd_linked db). la_UserID a = wr_UserID w \<and> normalizeAddress (la_Address a) = wr_Address w"
    and run: "CreateWithdrawal sv w (withdrawal_entry env w) db = (r, db')"
  shows "wallet_ok db'"
proof (cases "db' = db")
  case False
  let ?e = "withdrawal_entry env w"
  let ?ins = "\<lambda>tx. tx_wrap ''insert withdrawal'' (tx_exec sv ''insert withdrawal'' (wr_ID w)
    (violates (list_ex (\<lambda>x. wr_ID x = wr_ID w) (wd_withdrawals (tx_db tx))) (wr_UserID w) (tx_db tx))
    (\<lambda>db. db\<lparr>wd_withdrawals := wd_withdrawals db @ [w]\<rparr>) tx)"
  obtain tx where body: "tx_bind (applyLedgerEntryTx sv ?e \<lparr>tx_db = db, tx_aborted = False\<rparr>) (\<lambda>_. ?ins) = (Ok (), tx)"
    and tx: "\<not> tx_aborted tx" "db' = tx_db tx"
    using run False unfolding CreateWithdrawal_def by (auto elim!: withTx_effect)
  obtain tx1 where one: "applyLedgerEntryTx sv ?e \<lparr>tx_db = db, tx_aborted = False\<rparr> = (Ok (), tx1)" and two: "?ins tx1 = (Ok (), tx)"
    using body by (auto simp: tx_bind_def split: prod.splits outcome.splits)
  have t1: "\<not> tx_aborted tx1" "wr_ID w \<notin> wr_ID ` set (wd_withdrawals (tx_db tx1))"
    "tx_db tx = (tx_db tx1)\<lparr>wd_withdrawals := wd_withdrawals (tx_db tx1) @ [w]\<rparr>"
    using two by (auto simp: tx_wrap_def tx_exec_def violates_def list_ex_iff split: if_splits option.splits)
  have post: "posted ?e db (tx_db tx1)" using applyLedgerEntryTx_Ok [OF one t1(1)] by simp
  show ?thesis
    using t1(2,3) tx(2) w posted_frame(3) [OF post]
    by (intro insert_withdrawal_ok [OF ok post, of w]) (simp_all add: withdrawal_entry_def)
qed (use ok in simp)

lemma RequestWithdrawal_ok:
  assumes ok: "wallet_ok db" and sv: "orderly_server (we_sv env)" and n: "in_int64 n"
  shows "wallet_ok (snd (RequestWithdrawal env u a n db))"
proof -
  let ?u = "TrimSpace u" and ?a = "normalizeAddress a"
  let ?w = "new_withdrawal env ?u ?a n"
  show ?thesis
  proof (cases "0 < n \<and> (\<exists>as. ListLinkedAddresses (we_sv env) ?u db = Ok as
      \<and> list_ex (\<lambda>x. normalizeAddress (la_Address x) = ?a) as)")
    case True
    then have "\<exists>x \<in> set (wd_linked db). la_UserID x = ?u \<and> normalizeAddress (la_Address x) = ?a"
      by (auto simp: ListLinkedAddresses_def list_ex_iff orderly_sets(1) [OF sv])
    then have "wallet_ok (snd (CreateWithdrawal (we_sv env) ?w (withdrawal_entry env ?w) db))"
      using True n by (intro CreateWithdrawal_ok [OF ok _ _ _ _ surjective_pairing]) (simp_all add: new_withdrawal_def)
    then show ?thesis
      using ok by (auto simp: RequestWithdrawal_def Let_def split: outcome.split prod.split)
  next
    case False
    then have "snd (RequestWithdrawal env u a n db) = db"
      by (auto simp: RequestWithdrawal_def Let_def split: outcome.split)
    then show ?thesis using ok by simp
  qed
qed

lemma DebitForJoin_ok:
  "\<lbrakk>wallet_ok db; in_int64 n; foreign_key (TrimSpace k)\<rbrakk> \<Longrightarrow> wallet_ok (snd (DebitForJoin env u t n k db))"
  unfolding DebitForJoin_def Let_def
  by (auto intro!: ApplyLedgerEntry_ok [OF _ _ _ surjective_pairing] simp: in_int64_def)

lemma CreditForCashout_ok:
  "\<lbrakk>wallet_ok db; in_int64 n; foreign_key (TrimSpace k)\<rbrakk> \<Longrightarrow> wallet_ok (snd (CreditForCashout env u t n k db))"
  unfolding CreditForCashout_def Let_def
  by (auto intro!: ApplyLedgerEntry_ok [OF _ _ _ surjective_pairing])

lemma Svc_ProvisionUser_ok: "wallet_ok db \<Longrightarrow> wallet_ok (snd (Svc_ProvisionUser env u e db))"
  using ProvisionUser_ok [OF _ surjective_pairing]
  by (auto simp: Svc_ProvisionUser_def Let_def split: outcome.split prod.split)

text \<open>Calls that touch neither balances, ledger, deposits nor withdrawals.\<close>

definition books_kept :: "WalletDB \<Rightarrow> WalletDB \<Rightarrow> bool" where
  "books_kept db db' \<longleftrightarrow> wd_accounts db' = wd_accounts db \<and> wd_balances db' = wd_balances db \<and> wd_ledger db' = wd_ledger db
     \<and> wd_deposits db' = wd_deposits db \<and> wd_withdrawals db' = wd_withdrawals db \<and> (\<exists>extra. wd_linked db' = wd_linked db @ extra)"

lemma books_kept_ok: "wallet_ok db \<Longrightarrow> books_kept db db' \<Longrightarrow> wallet_ok db'"
  unfolding books_kept_def using wallet_ok_frame by blast

lemma books_kept_refl [simp]: "books_kept db db"
  by (simp add: books_kept_def)

lemma CreateLinkChallenge_books: "books_kept db (snd (CreateLinkChallenge sv c db))"
  by (simp add: CreateLinkChallenge_def pool_exec_def books_kept_def split: option.split)

lemma CreateFaucetTransfer_books: "books_kept db (snd (CreateFaucetTransfer sv t db))"
  by (simp add: CreateFaucetTransfer_def pool_exec_def books_kept_def split: option.split)

lemma ConfirmLinkChallenge_books: "books_kept db (snd (ConfirmLinkChallenge sv n c a db))"
  by (auto simp: ConfirmLinkChallenge_def withTx_def tx_defs books_kept_def Let_def
      split: option.split outcome.split prod.split if_splits)

lemma quiet_calls_ok:
  assumes "wallet_ok db"
  shows "wallet_ok (snd (Svc_CreateLinkChallenge env u a db))" "wallet_ok (snd (ConfirmLink env u c a s db))"
    "wallet_ok (snd (CreateAdminFaucetTransfer env ad u n db))"
proof -
  have "books_kept db (snd (Svc_CreateLinkChallenge env u a db))"
    using CreateLinkChallenge_books [of db "we_sv env"]
    by (auto simp: Svc_CreateLinkChallenge_def Let_def split: outcome.split prod.split) (metis snd_conv)+
  moreover have "books_kept db (snd (ConfirmLink env u c a s db))"
    using ConfirmLinkChallenge_books [of db "we_sv env"]
    by (auto simp: ConfirmLink_def Let_def split: outcome.split prod.split) (metis snd_conv)+
  moreover have "books_kept db (snd (CreateAdminFaucetTransfer env ad u n db))"
    using CreateFaucetTransfer_books [of db "we_sv env"]
    by (auto simp: CreateAdminFaucetTransfer_def Let_def split: outcome.split prod.split) (metis snd_conv)+
  ultimately show "wallet_ok (snd (Svc_CreateLinkChallenge env u a db))" "wallet_ok (snd (ConfirmLink env u c a s db))"
    "wallet_ok (snd (CreateAdminFaucetTransfer env ad u n db))" using assms books_kept_ok by blast+
qed

section \<open>Reachable states\<close>

definition empty_wallet :: WalletDB where
  "empty_wallet = \<lparr>wd_accounts = [], wd_balances = [], wd_ledger = [], wd_addresses = [], wd_challenges = [],
     wd_linked = [], wd_deposits = [], wd_withdrawals = [], wd_faucets = [], wd_chain = []\<rparr>"

text \<open>
  One step is one call or one cycle, in any environment. Amounts arrive as 64-bit integers, and
  the idempotency keys of the tables do not imitate the wallet's own.
\<close>

inductive wallet_step :: "Chain \<Rightarrow> Chain \<Rightarrow> bool" where
  provision: "wallet_step w (w\<lparr>ch_db := snd (Svc_ProvisionUser env u e (ch_db w))\<rparr>)"
| challenge: "wallet_step w (w\<lparr>ch_db := snd (Svc_CreateLinkChallenge env u a (ch_db w))\<rparr>)"
| link: "wallet_step w (w\<lparr>ch_db := snd (ConfirmLink env u c a s (ch_db w))\<rparr>)"
| withdraw: "\<lbrakk>orderly_server (we_sv env); in_int64 n\<rbrakk>
    \<Longrightarrow> wallet_step w (w\<lparr>ch_db := snd (RequestWithdrawal env u a n (ch_db w))\<rparr>)"
| faucet: "wallet_step w (w\<lparr>ch_db := snd (CreateAdminFaucetTransfer env ad u n (ch_db w))\<rparr>)"
| debit: "\<lbrakk>in_int64 n; foreign_key (TrimSpace k)\<rbrakk>
    \<Longrightarrow> wallet_step w (w\<lparr>ch_db := snd (DebitForJoin env u t n k (ch_db w))\<rparr>)"
| credit: "\<lbrakk>in_int64 n; foreign_key (TrimSpace k)\<rbrakk>
    \<Longrightarrow> wallet_step w (w\<lparr>ch_db := snd (CreditForCashout env u t n k (ch_db w))\<rparr>)"
| scan: "orderly_server (rn_sv r) \<Longrightarrow> wallet_step w (snd (scanDepositsAndSubmit r w))"
| receipts: "orderly_server (rn_sv r) \<Longrightarrow> wallet_step w (snd (processReceipts r w))"

inductive wallet_reachable :: "Chain \<Rightarrow> bool" where
  init: "ch_db w = empty_wallet \<Longrightarrow> wallet_reachable w"
| step: "wallet_reachable v \<Longrightarrow> wallet_step v w \<Longrightarrow> wallet_reachable w"

inductive_cases wallet_stepE: "wallet_step v w"

lemmas wallet_calls_ok = Svc_ProvisionUser_ok quiet_calls_ok RequestWithdrawal_ok DebitForJoin_ok CreditForCashout_ok
  scanDepositsAndSubmit_ok processReceipts_ok

lemma wallet_step_ok: "wallet_step v w \<Longrightarrow> ok_chain v \<Longrightarrow> ok_chain w"
  by (induction rule: wallet_step.induct) (simp_all add: wallet_calls_ok)

lemma reachable_ok: "wallet_reachable w \<Longrightarrow> ok_chain w"
proof (induction rule: wallet_reachable.induct)
  case (init w)
  then show ?case
    by (simp add: wallet_ok_def ledger_ok_def deposits_ok_def withdrawals_ok_def empty_wallet_def keys_of_def)
qed (rule wallet_step_ok)

text \<open>
  C7: The books always balance. In every state the wallet reaches, by any sequence of API calls
  and worker cycles, with the database failing any statement and the node answering anything,
  each balance is the sum of the account's ledger entries, lies between 0 and 2^63, and no
  idempotency key was used twice.
\<close>

theorem wallet_books_balance:
  assumes "wallet_reachable w" "b \<in> set (wd_balances (ch_db w))"
  shows "bl_AvailableGwei b = sum_list (map le_AmountGwei (filter (\<lambda>e. le_UserID e = bl_UserID b) (wd_ledger (ch_db w))))
    \<and> 0 \<le> bl_AvailableGwei b \<and> bl_AvailableGwei b < 2 ^ 63
    \<and> distinct (map le_IdempotencyKey (wd_ledger (ch_db w)))"
  using reachable_ok [OF assms(1)] assms(2) unfolding wallet_ok_def ledger_ok_def entries_of_def by blast

lemma entries_with_key:
  assumes "distinct (map le_IdempotencyKey es)"
  shows "(\<exists>e \<in> set es. le_IdempotencyKey e = k \<and> le_UserID e = u \<and> le_AmountGwei e = n)
      \<Longrightarrow> map (\<lambda>e. (le_UserID e, le_AmountGwei e)) (filter (\<lambda>e. le_IdempotencyKey e = k) es) = [(u, n)]"
    and "k \<notin> le_IdempotencyKey ` set es \<Longrightarrow> filter (\<lambda>e. le_IdempotencyKey e = k) es = []"
  using assms by (induction es) (auto simp: filter_empty_conv image_iff)

text \<open>
  C17: A deposit is credited exactly once, and exactly when it is confirmed. In every reachable
  state the ledger entries of a deposit's transaction hash are: one entry of the deposit's
  amount for its user if the deposit is confirmed, and none while it is pending.
\<close>

theorem deposit_credited_exactly_once:
  assumes "wallet_reachable w" "d \<in> set (wd_deposits (ch_db w))"
  shows "map (\<lambda>e. (le_UserID e, le_AmountGwei e))
      (filter (\<lambda>e. le_IdempotencyKey e = deposit_key (dep_TxHash d)) (wd_ledger (ch_db w)))
    = (if dep_Status d = StatusConfirmed then [(dep_UserID d, dep_AmountGwei d)] else [])"
proof -
  have ok: "wallet_ok (ch_db w)" by (rule reachable_ok [OF assms(1)])
  then have "distinct (map le_IdempotencyKey (wd_ledger (ch_db w)))" "deposit_ok (ch_db w) d"
    using assms(2) by (auto simp: wallet_ok_def ledger_ok_def deposits_ok_def)
  then show ?thesis
    using entries_with_key [of "wd_ledger (ch_db w)" "deposit_key (dep_TxHash d)"]
    by (auto simp: deposit_ok_def entry_for_def keys_of_def split: if_splits)
qed

text \<open>
  C18: A withdrawal costs its amount, or nothing if it failed. In every reachable state a
  withdrawal was debited once with its amount from its own user, a failed one was compensated
  once with the same amount and no other was, and it goes to an address that its user has linked.
\<close>

theorem withdrawal_debited_or_compensated:
  assumes "wallet_reachable w" "x \<in> set (wd_withdrawals (ch_db w))"
  shows "map (\<lambda>e. (le_UserID e, le_AmountGwei e))
        (filter (\<lambda>e. le_IdempotencyKey e = withdrawal_key (wr_ID x)) (wd_ledger (ch_db w)))
      = [(wr_UserID x, - wr_AmountGwei x)]
    \<and> map (\<lambda>e. (le_UserID e, le_AmountGwei e))
        (filter (\<lambda>e. le_IdempotencyKey e = compensation_key (wr_ID x)) (wd_ledger (ch_db w)))
      = (if wr_Status x = StatusFailed then [(wr_UserID x, wr_AmountGwei x)] else [])
    \<and> (\<exists>a \<in> set (wd_linked (ch_db w)). la_UserID a = wr_UserID x \<and> normalizeAddress (la_Address a) = wr_Address x)"
proof -
  have ok: "wallet_ok (ch_db w)" by (rule reachable_ok [OF assms(1)])
  then have d: "distinct (map le_IdempotencyKey (wd_ledger (ch_db w)))" "withdrawal_ok (ch_db w) x"
    using assms(2) by (auto simp: wallet_ok_def ledger_ok_def withdrawals_ok_def)
  then show ?thesis
    using entries_with_key [OF d(1), of "withdrawal_key (wr_ID x)"] entries_with_key [OF d(1), of "compensation_key (wr_ID x)"]
    by (auto simp: withdrawal_ok_def entry_for_def keys_of_def split: if_splits)
qed

section \<open>A run\<close>

text \<open>Decimal rendering on integers, to evaluate the rendering of large amounts.\<close>

function show_digits :: "int \<Rightarrow> string" where
  "show_digits i = (if i < 10 then [char_of (48 + nat i)] else show_digits (i div 10) @ [char_of (48 + nat (i mod 10))])"
  by auto
termination by (relation "measure nat") auto

declare show_digits.simps [simp del]

lemma show_nat_digits: "0 \<le> i \<Longrightarrow> show_nat (nat i) = show_digits i"
proof (induction i rule: show_digits.induct)
  case (1 i)
  have "nat i div 10 = nat (i div 10)" "nat i mod 10 = nat (i mod 10)"
    using 1 by (simp_all add: nat_div_distrib nat_mod_distrib)
  then show ?case
    using 1 by (subst show_nat.simps, subst show_digits.simps) (simp add: nat_less_iff)
qed

lemma show_int_code [code]: "show_int i = (if i < 0 then ''-'' @ show_digits (- i) else show_digits i)"
  by (simp add: show_int_def show_nat_digits)

text \<open>A user is provisioned, deposits 5 gwei, links an address and withdraws 2.\<close>

definition ex_addr :: string where
  "ex_addr = ''0x'' @ replicate 40 (CHR ''a'')"

definition ex_env :: WalletEnv where
  "ex_env = \<lparr>we_sv = ok_server, we_now = 1, we_rand = (\<lambda>p. None), we_rfc3339 = show_int, we_chain = ''test'',
     we_GenerateDepositAccount = Ok (''key'', ''0xD''), we_RecoverPersonalSignAddress = (\<lambda>m s. Ok ex_addr)\<rparr>"

definition ex_eth :: "nat \<Rightarrow> Eth" where
  "ex_eth n = \<lparr>eth_enabled = True, eth_hotWalletKey = ''hk'', eth_hotWalletAddr = ''0xH'', eth_BlockNumber = Ok n,
     eth_BlockByNumber = (\<lambda>k. Ok [\<lparr>bt_To = Some ''0xD'', bt_Hash = ''0xT'', bt_Value = 5000000000, bt_Sender = Ok ''0xS''\<rparr>]),
     eth_Receipt = (\<lambda>h. Ok (Some True)), eth_BalanceAt = (\<lambda>a. Ok 0), eth_SuggestGasPrice = Ok 1,
     eth_PendingNonceAt = (\<lambda>sent a. Ok (length (filter (\<lambda>t. lt_From t = a) sent))), eth_SignTx = (\<lambda>k t. Ok ''0xW''),
     eth_SendTransaction = (\<lambda>sent t. if lt_Nonce t = length (filter (\<lambda>u. lt_From u = lt_From t) sent) then Ok ()
       else Err (ErrChain ''nonce too low'')),
     eth_HexToECDSA = (\<lambda>k. Ok k), eth_PubkeyToAddress = (\<lambda>k. k), eth_HexToAddress = (\<lambda>a. a),
     eth_TextHash = (\<lambda>m. m), eth_SigToPub = (\<lambda>h s. Ok s)\<rparr>"

definition ex_runner :: "nat \<Rightarrow> Runner" where
  "ex_runner n = \<lparr>rn_sv = ok_server, rn_client = ex_eth n, rn_Confirmations = 1, rn_StartBlock = 1,
     rn_HotWalletAddress = ''0xH'', rn_now = 2, rn_nano = (\<lambda>i. 3)\<rparr>"

definition ex_run :: Chain where
  "ex_run =
     (let w = \<lparr>ch_db = empty_wallet, ch_sent = []\<rparr>;
          w = w\<lparr>ch_db := snd (Svc_ProvisionUser ex_env ''u'' ''U@x'' (ch_db w))\<rparr>;
          w = snd (scanDepositsAndSubmit (ex_runner 0) w);
          w = snd (scanDepositsAndSubmit (ex_runner 1) w);
          w = w\<lparr>ch_db := snd (Svc_CreateLinkChallenge ex_env ''u'' ex_addr (ch_db w))\<rparr>;
          w = w\<lparr>ch_db := snd (ConfirmLink ex_env ''u'' ''challenge-1'' ex_addr ''s'' (ch_db w))\<rparr>
      in w\<lparr>ch_db := snd (RequestWithdrawal ex_env ''u'' ex_addr 2 (ch_db w))\<rparr>)"

lemma ok_server_orderly [simp]: "orderly_server ok_server"
  by (simp add: orderly_server_def ok_server_def)

lemma ex_run_reachable: "wallet_reachable ex_run"
  unfolding ex_run_def Let_def
  by (intro wallet_reachable.step [OF _ wallet_step.withdraw] wallet_reachable.step [OF _ wallet_step.link]
      wallet_reachable.step [OF _ wallet_step.challenge] wallet_reachable.step [OF _ wallet_step.scan]
      wallet_reachable.step [OF _ wallet_step.provision] wallet_reachable.init)
    (simp_all add: ex_env_def ex_runner_def in_int64_def)

lemma ex_run_rows:
  "(map (\<lambda>b. (bl_UserID b, bl_AvailableGwei b)) (wd_balances (ch_db ex_run)),
    map (\<lambda>d. (dep_TxHash d, dep_Status d)) (wd_deposits (ch_db ex_run)),
    map (\<lambda>w. (wr_UserID w, wr_AmountGwei w, wr_Status w)) (wd_withdrawals (ch_db ex_run)))
   = ([(''u'', 3)], [(''0xT'', ''confirmed'')], [(''u'', 2, ''pending'')])"
  by code_simp

theorem wallet_books_balance_witness:
  "\<exists>b \<in> set (wd_balances (ch_db ex_run)). bl_AvailableGwei b = 3
    \<and> bl_AvailableGwei b = sum_list (map le_AmountGwei (filter (\<lambda>e. le_UserID e = bl_UserID b) (wd_ledger (ch_db ex_run))))"
proof -
  have "map (\<lambda>b. (bl_UserID b, bl_AvailableGwei b)) (wd_balances (ch_db ex_run)) = [(''u'', 3)]"
    using ex_run_rows by simp
  then obtain b where b: "b \<in> set (wd_balances (ch_db ex_run))" "bl_AvailableGwei b = 3" by auto
  then show ?thesis using wallet_books_balance [OF ex_run_reachable b(1)] by blast
qed

theorem deposit_credited_exactly_once_witness:
  "\<exists>d \<in> set (wd_deposits (ch_db ex_run)). dep_Status d = StatusConfirmed
    \<and> map (\<lambda>e. (le_UserID e, le_AmountGwei e))
        (filter (\<lambda>e. le_IdempotencyKey e = deposit_key (dep_TxHash d)) (wd_ledger (ch_db ex_run)))
      = [(dep_UserID d, dep_AmountGwei d)]"
proof -
  have "map (\<lambda>d. (dep_TxHash d, dep_Status d)) (wd_deposits (ch_db ex_run)) = [(''0xT'', ''confirmed'')]"
    using ex_run_rows by simp
  then obtain d where d: "d \<in> set (wd_deposits (ch_db ex_run))" "dep_Status d = StatusConfirmed"
    by (auto simp: StatusConfirmed_def)
  then show ?thesis using deposit_credited_exactly_once [OF ex_run_reachable d(1)] by auto
qed

theorem withdrawal_debited_or_compensated_witness:
  "\<exists>x \<in> set (wd_withdrawals (ch_db ex_run)). wr_AmountGwei x = 2
    \<and> map (\<lambda>e. (le_UserID e, le_AmountGwei e))
        (filter (\<lambda>e. le_IdempotencyKey e = withdrawal_key (wr_ID x)) (wd_ledger (ch_db ex_run))) = [(''u'', - 2)]"
proof -
  have "map (\<lambda>w. (wr_UserID w, wr_AmountGwei w, wr_Status w)) (wd_withdrawals (ch_db ex_run)) = [(''u'', 2, ''pending'')]"
    using ex_run_rows by simp
  then obtain x where x: "x \<in> set (wd_withdrawals (ch_db ex_run))" "wr_UserID x = ''u''" "wr_AmountGwei x = 2" by auto
  then show ?thesis using withdrawal_debited_or_compensated [OF ex_run_reachable x(1)] by auto
qed

section \<open>Addresses, blocks and payments\<close>

text \<open>
  C28: An address is linked only with its owner's signature, once per challenge. When
  \<open>ConfirmLink\<close> succeeds, there was an open, unexpired challenge for this user and address, a key
  whose address it is signed its text (65 bytes, recovery id 0 or 1 after the usual offset), the
  linked address is stored, and the challenge cannot be used again.
\<close>

theorem ConfirmLink_needs_signature:
  assumes run: "ConfirmLink env u i a s db = (Ok linked, db')"
    and crypto: "we_RecoverPersonalSignAddress env = RecoverPersonalSignAddress c"
  shows "(\<exists>ch \<in> set (wd_challenges db). \<exists>sig pub. lc_ID ch = TrimSpace i \<and> lc_UserID ch = TrimSpace u
      \<and> lc_ConsumedAt ch = None \<and> we_now env \<le> lc_ExpiresAt ch \<and> length sig = 65
      \<and> (of_char (sig ! 64) :: nat) \<le> 1 \<and> eth_SigToPub c (eth_TextHash c (lc_Challenge ch)) sig = Ok pub
      \<and> normalizeAddress (eth_PubkeyToAddress c pub) = la_Address linked)
    \<and> la_Address linked = normalizeAddress a \<and> wd_linked db' = wd_linked db @ [linked]
    \<and> \<not> list_ex (open_challenge (TrimSpace i)) (wd_challenges db')"
proof -
  let ?i = "TrimSpace i" and ?u = "TrimSpace u" and ?a = "normalizeAddress a"
  obtain ch rec where ch: "FindLinkChallenge (we_sv env) ?u ?i ?a db = Ok ch" "we_now env \<le> lc_ExpiresAt ch"
    and rec: "RecoverPersonalSignAddress c (lc_Challenge ch) (TrimSpace s) = Ok rec" "normalizeAddress rec = ?a"
    and conf: "ConfirmLinkChallenge (we_sv env) (we_now env) (lc_ID ch) linked db = (Ok (), db')"
    and linked: "la_Address linked = ?a"
    using run crypto
    by (auto simp: ConfirmLink_def Let_def split: if_splits outcome.splits prod.splits)
  have c: "ch \<in> set (wd_challenges db)" "lc_ID ch = ?i" "lc_UserID ch = ?u" "lc_ConsumedAt ch = None"
    using ch(1) by (auto simp: FindLinkChallenge_def find_Some_iff split: option.splits if_splits)
  obtain raw pub v where raw: "length raw = 65" "v \<le> (1 :: nat)"
    "eth_SigToPub c (eth_TextHash c (lc_Challenge ch)) (raw[64 := char_of v]) = Ok pub" "rec = eth_PubkeyToAddress c pub"
    using rec(1) by (fastforce simp: RecoverPersonalSignAddress_def Let_def not_less split: option.splits if_splits)
  define sig where "sig = raw[64 := char_of v]"
  have sig: "length sig = 65" "(of_char (sig ! 64) :: nat) \<le> 1"
    "eth_SigToPub c (eth_TextHash c (lc_Challenge ch)) sig = Ok pub" "rec = eth_PubkeyToAddress c pub"
    using raw by (simp_all add: sig_def)
  have "wd_linked db' = wd_linked db @ [linked]" "\<not> list_ex (open_challenge ?i) (wd_challenges db')"
    using conf c(2)
    by (auto simp: ConfirmLinkChallenge_def withTx_def tx_defs Let_def list_ex_iff open_challenge_def
        split: if_splits option.splits)
  then show ?thesis using c ch(2) sig rec(2) linked by auto
qed

text \<open>
  C29: The scan finds every deposit and only deposits. When \<open>ScanDeposits\<close> succeeds on a range of
  blocks, the transfers it returns are exactly the successful transactions in those blocks to an
  address of the map, each with its user, its value in whole gwei (rounded down) and its block.
\<close>

theorem ScanDeposits_exact:
  assumes "ScanDeposits c fromBlock toBlock addresses = Ok ts" "eth_enabled c"
  shows "set ts = {t. \<exists>n txs tx. fromBlock \<le> n \<and> n \<le> toBlock \<and> eth_BlockByNumber c n = Ok txs \<and> tx \<in> set txs
    \<and> pays_us c addresses n tx t}"
  using ScanDeposits_Ok [OF assms] by blast

text \<open>
  A node that answers: the nonce it reports for an address counts the transactions it has taken
  from it, and it takes a transaction exactly if it has that nonce.
\<close>

definition counting_node :: "Eth \<Rightarrow> (string \<Rightarrow> nat) \<Rightarrow> bool" where
  "counting_node c base \<longleftrightarrow> eth_enabled c \<and> (\<exists>p. eth_SuggestGasPrice c = Ok p) \<and> (\<forall>k t. \<exists>h. eth_SignTx c k t = Ok h)
     \<and> (\<forall>sent a. eth_PendingNonceAt c sent a = Ok (base a + length (filter (\<lambda>t. lt_From t = a) sent)))
     \<and> (\<forall>sent t. eth_SendTransaction c sent t = Ok ()
          \<longleftrightarrow> lt_Nonce t = base (lt_From t) + length (filter (\<lambda>u. lt_From u = lt_From t) sent))"

lemma SubmitWithdrawal_sends:
  assumes "counting_node c base"
  shows "\<exists>r t. SubmitWithdrawal c a n w = (r, w\<lparr>ch_sent := ch_sent w @ [t]\<rparr>) \<and> (\<forall>m. r \<noteq> Panic m)
    \<and> lt_From t = eth_hotWalletAddr c \<and> lt_To t = eth_HexToAddress c a \<and> lt_Value t = gweiToWei n
    \<and> lt_Nonce t = base (eth_hotWalletAddr c) + length (filter (\<lambda>t. lt_From t = eth_hotWalletAddr c) (ch_sent w))"
proof -
  obtain p where p: "eth_SuggestGasPrice c = Ok p" using assms by (auto simp: counting_node_def)
  let ?n = "base (eth_hotWalletAddr c) + length (filter (\<lambda>t. lt_From t = eth_hotWalletAddr c) (ch_sent w))"
  let ?t = "\<lparr>lt_From = eth_hotWalletAddr c, lt_Nonce = ?n, lt_To = eth_HexToAddress c a, lt_Value = gweiToWei n,
    lt_Gas = transferGas, lt_GasPrice = p\<rparr>"
  obtain h where h: "eth_SignTx c (eth_hotWalletKey c) ?t = Ok h" using assms unfolding counting_node_def by blast
  have "eth_PendingNonceAt c (ch_sent w) (eth_hotWalletAddr c) = Ok ?n" using assms unfolding counting_node_def by blast
  moreover have "eth_SendTransaction c (ch_sent w) ?t = Ok ()" using assms by (simp add: counting_node_def)
  ultimately have "sendValue c (eth_hotWalletKey c) (eth_hotWalletAddr c) (eth_HexToAddress c a) (gweiToWei n) w
      = (Ok (h, ?n), w\<lparr>ch_sent := ch_sent w @ [?t]\<rparr>)"
    using p h by (simp add: sendValue_def Let_def)
  moreover have "eth_enabled c" using assms by (simp add: counting_node_def)
  ultimately have "\<exists>r. SubmitWithdrawal c a n w = (r, w\<lparr>ch_sent := ch_sent w @ [?t]\<rparr>) \<and> (\<forall>m. r \<noteq> Panic m)"
    by (cases "?n > 2 ^ 63 - 1") (simp_all add: SubmitWithdrawal_def)
  then obtain r where "SubmitWithdrawal c a n w = (r, w\<lparr>ch_sent := ch_sent w @ [?t]\<rparr>)" "\<forall>m. r \<noteq> Panic m" by blast
  then show ?thesis by (intro exI [of _ r] exI [of _ ?t]) simp
qed

text \<open>
  C35: A withdrawal can be paid twice. The worker sends the transaction before it marks the
  withdrawal as submitted: if that update fails, the withdrawal is still pending, the node
  counts the first transaction and reports the next nonce, and the next cycle sends a second
  transaction, with that nonce, from the hot wallet to the same address and of the same value;
  the node takes both, although the user was debited once.
\<close>

theorem unmarked_withdrawal_is_paid_again:
  assumes node: "counting_node (rn_client r1) base" "rn_client r2 = rn_client r1"
    and listed: "ListPendingWithdrawals (rn_sv r1) (ch_db w) = Ok [x]" "ListPendingWithdrawals (rn_sv r2) (ch_db w) = Ok [x]"
    and down: "sv_fails (rn_sv r1) ''mark withdrawal submitted'' (wr_ID x)"
  shows "\<exists>t1 t2. ch_sent (snd (submitWithdrawals r2 (snd (submitWithdrawals r1 w)))) = ch_sent w @ [t1, t2]
    \<and> ch_db (snd (submitWithdrawals r1 w)) = ch_db w
    \<and> lt_Nonce t2 = Suc (lt_Nonce t1) \<and> lt_From t2 = lt_From t1 \<and> lt_To t2 = lt_To t1
    \<and> lt_To t1 = eth_HexToAddress (rn_client r1) (wr_Address x)
    \<and> lt_Value t1 = gweiToWei (wr_AmountGwei x) \<and> lt_Value t2 = gweiToWei (wr_AmountGwei x)"
proof -
  let ?c = "rn_client r1"
  have run: "snd (submitWithdrawals r v) = snd (submit_withdrawal r x v)"
    if "ListPendingWithdrawals (rn_sv r) (ch_db v) = Ok [x]" for r v
    using that by (auto simp: submitWithdrawals_def each_listed_def split: prod.split outcome.split)
  obtain q1 t1 where t1: "SubmitWithdrawal ?c (wr_Address x) (wr_AmountGwei x) w = (q1, w\<lparr>ch_sent := ch_sent w @ [t1]\<rparr>)"
    "lt_From t1 = eth_hotWalletAddr ?c" "lt_To t1 = eth_HexToAddress ?c (wr_Address x)" "lt_Value t1 = gweiToWei (wr_AmountGwei x)"
    "lt_Nonce t1 = base (eth_hotWalletAddr ?c) + length (filter (\<lambda>t. lt_From t = eth_hotWalletAddr ?c) (ch_sent w))"
    using SubmitWithdrawal_sends [OF node(1), of "wr_Address x" "wr_AmountGwei x" w] by blast
  let ?v = "w\<lparr>ch_sent := ch_sent w @ [t1]\<rparr>"
  have one: "snd (submitWithdrawals r1 w) = ?v"
    using run [OF listed(1)] t1(1) down
    by (auto simp: submit_withdrawal_def MarkWithdrawalSubmitted_def pool_exec_def split: outcome.split)
  obtain q2 t2 where t2: "SubmitWithdrawal ?c (wr_Address x) (wr_AmountGwei x) ?v = (q2, ?v\<lparr>ch_sent := ch_sent ?v @ [t2]\<rparr>)"
    "lt_From t2 = eth_hotWalletAddr ?c" "lt_To t2 = eth_HexToAddress ?c (wr_Address x)" "lt_Value t2 = gweiToWei (wr_AmountGwei x)"
    "lt_Nonce t2 = base (eth_hotWalletAddr ?c) + length (filter (\<lambda>t. lt_From t = eth_hotWalletAddr ?c) (ch_sent ?v))"
    using SubmitWithdrawal_sends [OF node(1), of "wr_Address x" "wr_AmountGwei x" ?v] by blast
  have "ch_sent (snd (submitWithdrawals r2 ?v)) = ch_sent w @ [t1, t2]"
    using run [of r2 ?v] listed(2) t2(1) node(2)
    by (auto simp: submit_withdrawal_def split: outcome.split prod.split)
  moreover have "lt_Nonce t2 = Suc (lt_Nonce t1)" using t1(2,5) t2(5) by simp
  ultimately show ?thesis using one t1(2-4) t2(2-4) by (intro exI [of _ t1] exI [of _ t2]) simp
qed

theorem ConfirmLink_needs_signature_witness:
  defines "env \<equiv> ex_env\<lparr>we_RecoverPersonalSignAddress := RecoverPersonalSignAddress ((ex_eth 0)\<lparr>eth_PubkeyToAddress := (\<lambda>k. ex_addr)\<rparr>)\<rparr>"
    and "db \<equiv> (ex_wallet 3)\<lparr>wd_challenges := [\<lparr>lc_ID = ''c'', lc_UserID = ''u'', lc_Address = ex_addr, lc_Challenge = ''text'',
      lc_CreatedAt = 0, lc_ExpiresAt = 9, lc_ConsumedAt = None\<rparr>]\<rparr>"
  shows "\<exists>linked db'. ConfirmLink env ''u'' ''c'' ex_addr (concat (replicate 65 ''00'')) db = (Ok linked, db')
    \<and> wd_linked db' = [linked]"
proof -
  have "is_ok (fst (ConfirmLink env ''u'' ''c'' ex_addr (concat (replicate 65 ''00'')) db))"
    unfolding env_def db_def by code_simp
  then obtain linked db' where run: "ConfirmLink env ''u'' ''c'' ex_addr (concat (replicate 65 ''00'')) db = (Ok linked, db')"
    by (metis is_ok_iff prod.collapse)
  have "wd_linked db = []" by (simp add: db_def ex_wallet_def)
  then show ?thesis
    using ConfirmLink_needs_signature [OF run, of "(ex_eth 0)\<lparr>eth_PubkeyToAddress := (\<lambda>k. ex_addr)\<rparr>"] run by (auto simp: env_def)
qed

theorem ScanDeposits_exact_witness:
  "\<exists>ts. ScanDeposits (ex_eth 1) 1 1 [(''0xd'', ''u'')] = Ok ts \<and> ot_UserID ` set ts = {''u''}"
proof -
  have "is_ok (ScanDeposits (ex_eth 1) 1 1 [(''0xd'', ''u'')])" by code_simp
  then obtain ts where run: "ScanDeposits (ex_eth 1) 1 1 [(''0xd'', ''u'')] = Ok ts" by (auto simp: is_ok_iff)
  have low: "ToLower ''0xD'' = ''0xd''" by code_simp
  have "set ts = {t. \<exists>n txs tx. 1 \<le> n \<and> n \<le> 1 \<and> eth_BlockByNumber (ex_eth 1) n = Ok txs \<and> tx \<in> set txs
    \<and> pays_us (ex_eth 1) [(''0xd'', ''u'')] n tx t}"
    by (rule ScanDeposits_exact [OF run]) (simp add: ex_eth_def)
  also have "\<dots> = {transfer_of ''u'' ''0xD'' 1 \<lparr>bt_To = Some ''0xD'', bt_Hash = ''0xT'', bt_Value = 5000000000, bt_Sender = Ok ''0xS''\<rparr> ''0xS'' 5}"
    by (auto simp: pays_us_def ex_eth_def low gweiWei_def in_int64_def transfer_of_def)
  finally have "ot_UserID ` set ts = {''u''}" by (simp add: transfer_of_def)
  then show ?thesis using run by blast
qed

theorem unmarked_withdrawal_is_paid_again_witness:
  defines "x \<equiv> (new_withdrawal ex_env ''u'' ex_addr 2)\<lparr>wr_ID := ''w1''\<rparr>"
    and "r \<equiv> (ex_runner 1)\<lparr>rn_sv := ok_server\<lparr>sv_fails := (\<lambda>stmt key. stmt = ''mark withdrawal submitted'')\<rparr>\<rparr>"
  shows "\<exists>t1 t2. ch_sent (snd (submitWithdrawals (ex_runner 1) (snd (submitWithdrawals r
      \<lparr>ch_db = (ex_wallet 3)\<lparr>wd_withdrawals := [x]\<rparr>, ch_sent = []\<rparr>)))) = [t1, t2]
    \<and> lt_Nonce t2 = Suc (lt_Nonce t1) \<and> lt_Value t1 = 2000000000 \<and> lt_Value t2 = 2000000000"
proof -
  let ?w = "\<lparr>ch_db = (ex_wallet 3)\<lparr>wd_withdrawals := [x]\<rparr>, ch_sent = []\<rparr>"
  have l: "ListPendingWithdrawals (rn_sv r) (ch_db ?w) = Ok [x]" "ListPendingWithdrawals (rn_sv (ex_runner 1)) (ch_db ?w) = Ok [x]"
    by (simp_all add: ListPendingWithdrawals_def listWithdrawalsByStatus_def pool_query_def r_def ex_runner_def ok_server_def
        x_def new_withdrawal_def)
  have d: "sv_fails (rn_sv r) ''mark withdrawal submitted'' (wr_ID x)" by (simp add: r_def)
  have n: "counting_node (rn_client r) (\<lambda>_. 0)" "rn_client (ex_runner 1) = rn_client r"
    by (simp_all add: counting_node_def r_def ex_runner_def ex_eth_def)
  have "gweiToWei (wr_AmountGwei x) = 2000000000" by (simp add: x_def new_withdrawal_def gweiToWei_def gweiWei_def)
  then show ?thesis using unmarked_withdrawal_is_paid_again [OF n l d] by auto
qed

end
