(* ===== verification/Channels.thy ===== *)
theory Channels
  imports Prelude
begin

text \<open>
  Buffered Go channels and the two broadcasters that use them: the engine's \<open>PubSub\<close>
  (\<open>delivery/grpc/pubsub.go\<close>) and the table manager's \<open>Hub\<close> (\<open>delivery/grpc/hub.go\<close>). A channel is a
  number; \<open>ch_buf\<close> and \<open>ch_open\<close> say what it holds and whether it is open. Publishing never
  blocks: a full channel loses the value. The mutex makes every operation one step.
\<close>

record 'a Chans =
  ch_next :: nat
  ch_buf :: "nat \<Rightarrow> 'a list"
  ch_open :: "nat \<Rightarrow> bool"

definition no_chans :: "'a Chans" where
  "no_chans = \<lparr>ch_next = 0, ch_buf = (\<lambda>_. []), ch_open = (\<lambda>_. False)\<rparr>"

text \<open>\<open>make(chan T, 16)\<close>\<close>

definition make_chan :: "'a Chans \<Rightarrow> nat \<times> 'a Chans" where
  "make_chan c = (ch_next c,
     c\<lparr>ch_next := Suc (ch_next c), ch_buf := (ch_buf c)(ch_next c := []), ch_open := (ch_open c)(ch_next c := True)\<rparr>)"

text \<open>\<open>select { case ch <- v: default: }\<close>; sending on a closed channel panics.\<close>

definition try_send :: "nat \<Rightarrow> 'a \<Rightarrow> 'a Chans \<Rightarrow> ('e, 'a Chans) outcome" where
  "try_send ch v c =
     (if \<not> ch_open c ch then Panic ''send on closed channel''
      else if length (ch_buf c ch) < 16 then Ok (c\<lparr>ch_buf := (ch_buf c)(ch := ch_buf c ch @ [v])\<rparr>)
      else Ok c)"

definition close_chan :: "nat \<Rightarrow> 'a Chans \<Rightarrow> ('e, 'a Chans) outcome" where
  "close_chan ch c =
     (if \<not> ch_open c ch then Panic ''close of closed channel'' else Ok (c\<lparr>ch_open := (ch_open c)(ch := False)\<rparr>))"

text \<open>The reader's side: the next value, if there is one.\<close>

definition receive :: "nat \<Rightarrow> 'a Chans \<Rightarrow> 'a option \<times> 'a Chans" where
  "receive ch c =
     (case ch_buf c ch of [] \<Rightarrow> (None, c) | v # vs \<Rightarrow> (Some v, c\<lparr>ch_buf := (ch_buf c)(ch := vs)\<rparr>))"

section \<open>The engine's PubSub\<close>

record 'a PubSub =
  ps_subs :: "string \<Rightarrow> nat list"
  ps_chans :: "'a Chans"

definition NewPubSub :: "'a PubSub" where
  "NewPubSub = \<lparr>ps_subs = (\<lambda>_. []), ps_chans = no_chans\<rparr>"

definition PubSub_Subscribe :: "string \<Rightarrow> 'a PubSub \<Rightarrow> nat \<times> 'a PubSub" where
  "PubSub_Subscribe handID ps =
     (let (ch, c) = make_chan (ps_chans ps)
      in (ch, ps\<lparr>ps_chans := c, ps_subs := (ps_subs ps)(handID := ps_subs ps handID @ [ch])\<rparr>))"

text \<open>\<open>append(subs[:i], subs[i+1:]...)\<close> at the first match.\<close>

fun drop_first :: "('a \<Rightarrow> bool) \<Rightarrow> 'a list \<Rightarrow> 'a list" where
  "drop_first P [] = []"
| "drop_first P (x # xs) = (if P x then xs else x # drop_first P xs)"

definition PubSub_Unsubscribe :: "string \<Rightarrow> nat \<Rightarrow> 'a PubSub \<Rightarrow> ('e, 'a PubSub) outcome" where
  "PubSub_Unsubscribe handID ch ps =
     (if ch \<in> set (ps_subs ps handID)
      then bind_outcome (close_chan ch (ps_chans ps)) (\<lambda>c.
        Ok (ps\<lparr>ps_subs := (ps_subs ps)(handID := drop_first (\<lambda>x. x = ch) (ps_subs ps handID)), ps_chans := c\<rparr>))
      else Ok ps)"

fun send_all :: "(nat \<times> 'a) list \<Rightarrow> 'a Chans \<Rightarrow> ('e, 'a Chans) outcome" where
  "send_all [] c = Ok c"
| "send_all ((ch, v) # rest) c = bind_outcome (try_send ch v c) (send_all rest)"

definition PubSub_Publish :: "string \<Rightarrow> 'a \<Rightarrow> 'a PubSub \<Rightarrow> ('e, 'a PubSub) outcome" where
  "PubSub_Publish handID state ps =
     bind_outcome (send_all (map (\<lambda>ch. (ch, state)) (ps_subs ps handID)) (ps_chans ps)) (\<lambda>c. Ok (ps\<lparr>ps_chans := c\<rparr>))"

section \<open>The table manager's Hub\<close>

record Subscriber =
  sb_userID :: string
  sb_ch :: nat

record 'a Hub =
  hb_subs :: "string \<Rightarrow> Subscriber list"
  hb_chans :: "'a Chans"

definition NewHub :: "'a Hub" where
  "NewHub = \<lparr>hb_subs = (\<lambda>_. []), hb_chans = no_chans\<rparr>"

definition Hub_Subscribe :: "string \<Rightarrow> string \<Rightarrow> 'a Hub \<Rightarrow> nat \<times> 'a Hub" where
  "Hub_Subscribe tableID userID h =
     (let (ch, c) = make_chan (hb_chans h)
      in (ch, h\<lparr>hb_chans := c,
        hb_subs := (hb_subs h)(tableID := hb_subs h tableID @ [\<lparr>sb_userID = userID, sb_ch = ch\<rparr>])\<rparr>))"

definition Hub_Unsubscribe :: "string \<Rightarrow> nat \<Rightarrow> 'a Hub \<Rightarrow> ('e, 'a Hub) outcome" where
  "Hub_Unsubscribe tableID ch h =
     (if list_ex (\<lambda>s. sb_ch s = ch) (hb_subs h tableID)
      then bind_outcome (close_chan ch (hb_chans h)) (\<lambda>c.
        Ok (h\<lparr>hb_subs := (hb_subs h)(tableID := drop_first (\<lambda>s. sb_ch s = ch) (hb_subs h tableID)), hb_chans := c\<rparr>))
      else Ok h)"

definition Hub_Publish :: "string \<Rightarrow> (string \<Rightarrow> 'a) \<Rightarrow> 'a Hub \<Rightarrow> ('e, 'a Hub) outcome" where
  "Hub_Publish tableID fn h =
     bind_outcome (send_all (map (\<lambda>s. (sb_ch s, fn (sb_userID s))) (hb_subs h tableID)) (hb_chans h))
       (\<lambda>c. Ok (h\<lparr>hb_chans := c\<rparr>))"


section \<open>What a broadcaster promises\<close>

text \<open>
  Both broadcasters keep, per topic, a list of channels with the user of each. A topic's channels
  are open, and no channel is listed twice, so that a publication reaches each subscriber once and
  neither sending nor closing panics.
\<close>

definition live :: "(string \<Rightarrow> (nat \<times> string) list) \<Rightarrow> 'a Chans \<Rightarrow> bool" where
  "live subs c \<longleftrightarrow>
     (\<forall>k. distinct (map fst (subs k)) \<and> (\<forall>ch \<in> fst ` set (subs k). ch_open c ch \<and> ch < ch_next c))
     \<and> (\<forall>k l ch. ch \<in> fst ` set (subs k) \<longrightarrow> ch \<in> fst ` set (subs l) \<longrightarrow> k = l)"

lemma live_open: "\<lbrakk>live subs c; ch \<in> fst ` set (subs k)\<rbrakk> \<Longrightarrow> ch_open c ch \<and> ch < ch_next c"
  unfolding live_def by blast

lemma live_topic: "\<lbrakk>live subs c; ch \<in> fst ` set (subs k); ch \<in> fst ` set (subs l)\<rbrakk> \<Longrightarrow> k = l"
  unfolding live_def by blast

lemma live_distinct: "live subs c \<Longrightarrow> distinct (map fst (subs k))"
  unfolding live_def by blast

text \<open>What a publication leaves in the channels.\<close>

definition delivered :: "(nat \<times> string) list \<Rightarrow> (string \<Rightarrow> 'a) \<Rightarrow> 'a Chans \<Rightarrow> 'a Chans \<Rightarrow> bool" where
  "delivered subs fn c c' \<longleftrightarrow> ch_next c' = ch_next c \<and> ch_open c' = ch_open c
     \<and> (\<forall>(ch, u) \<in> set subs. ch_buf c' ch = (if length (ch_buf c ch) < 16 then ch_buf c ch @ [fn u] else ch_buf c ch))
     \<and> (\<forall>ch. ch \<notin> fst ` set subs \<longrightarrow> ch_buf c' ch = ch_buf c ch)"

lemma send_all_delivers:
  assumes "distinct (map fst subs)" "\<forall>ch \<in> fst ` set subs. ch_open c ch"
  shows "\<exists>c'. send_all (map (\<lambda>(ch, u). (ch, fn u)) subs) c = (Ok c' :: ('e, 'a Chans) outcome) \<and> delivered subs fn c c'"
  using assms
proof (induction subs arbitrary: c)
  case Nil
  then show ?case by (simp add: delivered_def)
next
  case (Cons s subs)
  obtain ch u where s: "s = (ch, u)" by fastforce
  let ?b = "if length (ch_buf c ch) < 16 then ch_buf c ch @ [fn u] else ch_buf c ch"
  let ?c = "c\<lparr>ch_buf := (ch_buf c)(ch := ?b)\<rparr>"
  have one: "try_send ch (fn u) c = (Ok ?c :: ('e, 'a Chans) outcome)" using Cons.prems s by (simp add: try_send_def)
  have "distinct (map fst subs)" "\<forall>x \<in> fst ` set subs. ch_open ?c x" using Cons.prems by auto
  then obtain c' where c': "send_all (map (\<lambda>(ch, u). (ch, fn u)) subs) ?c = (Ok c' :: ('e, 'a Chans) outcome)" "delivered subs fn ?c c'"
    using Cons.IH [of ?c] by blast
  have "delivered (s # subs) fn c c'"
    unfolding delivered_def
  proof (intro conjI ballI allI impI)
    have ch: "ch \<notin> fst ` set subs" using Cons.prems(1) s by simp
    show "ch_next c' = ch_next c" "ch_open c' = ch_open c" using c'(2) by (simp_all add: delivered_def)
    show "case p of (x, w) \<Rightarrow> ch_buf c' x = (if length (ch_buf c x) < 16 then ch_buf c x @ [fn w] else ch_buf c x)"
      if p: "p \<in> set (s # subs)" for p
    proof (cases "p = s")
      case True
      then show ?thesis using c'(2) ch s by (simp add: delivered_def)
    next
      case False
      then have "p \<in> set subs" "fst p \<noteq> ch" using p ch by (auto simp: image_iff)
      then show ?thesis using c'(2) by (auto simp: delivered_def split: prod.splits)
    qed
    show "ch_buf c' x = ch_buf c x" if "x \<notin> fst ` set (s # subs)" for x
      using that c'(2) s by (simp add: delivered_def)
  qed
  then show ?case using c'(1) one s by simp
qed

lemma drop_first_unique:
  assumes "distinct (map f xs)" "x \<in> set xs"
  shows "drop_first (\<lambda>y. f y = f x) xs = filter (\<lambda>y. f y \<noteq> f x) xs"
  using assms
proof (induction xs)
  case (Cons y ys)
  show ?case
  proof (cases "f y = f x")
    case True
    then have "\<forall>z \<in> set ys. f z \<noteq> f x" using Cons.prems(1) by (metis distinct.simps(2) image_eqI list.simps(9) list.set_map)
    then show ?thesis using True by (simp add: filter_id_conv)
  qed (use Cons in auto)
qed simp

locale broadcaster =
  fixes subs :: "'h \<Rightarrow> string \<Rightarrow> (nat \<times> string) list"
    and chans :: "'h \<Rightarrow> 'a Chans"
    and subscribe :: "string \<Rightarrow> string \<Rightarrow> 'h \<Rightarrow> nat \<times> 'h"
    and unsubscribe :: "string \<Rightarrow> nat \<Rightarrow> 'h \<Rightarrow> (unit, 'h) outcome"
    and publish :: "string \<Rightarrow> (string \<Rightarrow> 'a) \<Rightarrow> 'h \<Rightarrow> (unit, 'h) outcome"
  assumes subscribe: "subscribe k u h = (ch, h') \<Longrightarrow>
      make_chan (chans h) = (ch, chans h') \<and> (\<exists>v. subs h' = (subs h)(k := subs h k @ [(ch, v)]))"
    and unsubscribe_none: "ch \<notin> fst ` set (subs h k) \<Longrightarrow> unsubscribe k ch h = Ok h"
    and unsubscribe_some: "\<lbrakk>ch \<in> fst ` set (subs h k); close_chan ch (chans h) = (Ok c :: (unit, 'a Chans) outcome)\<rbrakk>
      \<Longrightarrow> \<exists>h'. unsubscribe k ch h = Ok h' \<and> chans h' = c
        \<and> subs h' = (subs h)(k := drop_first (\<lambda>s. fst s = ch) (subs h k))"
    and publish: "send_all (map (\<lambda>(ch, u). (ch, fn u)) (subs h k)) (chans h) = (Ok c :: (unit, 'a Chans) outcome)
      \<Longrightarrow> \<exists>h'. publish k fn h = Ok h' \<and> chans h' = c \<and> subs h' = subs h"
begin

abbreviation fit :: "'h \<Rightarrow> bool" where
  "fit h \<equiv> live (subs h) (chans h)"

lemma subscribe_fit:
  assumes h: "fit h" and run: "subscribe k u h = (ch, h')"
  shows "fit h'" "ch_buf (chans h') ch = []"
proof -
  obtain v where mk: "make_chan (chans h) = (ch, chans h')" and sb: "subs h' = (subs h)(k := subs h k @ [(ch, v)])"
    using subscribe [OF run] by blast
  have ch: "ch = ch_next (chans h)" using mk by (simp add: make_chan_def)
  have c': "chans h' = (chans h)\<lparr>ch_next := Suc ch, ch_buf := (ch_buf (chans h))(ch := []), ch_open := (ch_open (chans h))(ch := True)\<rparr>"
    using mk by (auto simp: make_chan_def)
  have new: "ch \<notin> fst ` set (subs h l)" for l using live_open [OF h, of ch l] ch by auto
  have same: "fst ` set (subs h' l) = (if l = k then insert ch (fst ` set (subs h k)) else fst ` set (subs h l))" for l
    by (simp add: sb)
  show "fit h'" unfolding live_def
  proof (intro conjI allI ballI impI)
    show "distinct (map fst (subs h' l))" for l using live_distinct [OF h] new by (simp add: sb)
    show "ch_open (chans h') x" "x < ch_next (chans h')" if "x \<in> fst ` set (subs h' l)" for x l
      using that live_open [OF h, of x] ch unfolding same c' by (auto split: if_splits intro: less_SucI)
    show "l = m" if "x \<in> fst ` set (subs h' l)" "x \<in> fst ` set (subs h' m)" for x l m
      using that new live_topic [OF h] unfolding same by (metis insert_iff)
  qed
  show "ch_buf (chans h') ch = []" unfolding c' by simp
qed

lemma unsubscribe_fit:
  assumes h: "fit h"
  shows "\<exists>h'. unsubscribe k ch h = Ok h' \<and> fit h' \<and> subs h' = (subs h)(k := filter (\<lambda>s. fst s \<noteq> ch) (subs h k))
    \<and> ch_buf (chans h') = ch_buf (chans h) \<and> ch_next (chans h') = ch_next (chans h)
    \<and> ch_open (chans h') = (if ch \<in> fst ` set (subs h k) then (ch_open (chans h))(ch := False) else ch_open (chans h))"
proof (cases "ch \<in> fst ` set (subs h k)")
  case False
  then have "filter (\<lambda>s. fst s \<noteq> ch) (subs h k) = subs h k" by (auto intro: filter_True)
  then show ?thesis using h unsubscribe_none [OF False] False by simp
next
  case True
  then obtain u where u: "(ch, u) \<in> set (subs h k)" by auto
  have "ch_open (chans h) ch" using live_open [OF h True] by blast
  then have "close_chan ch (chans h) = (Ok ((chans h)\<lparr>ch_open := (ch_open (chans h))(ch := False)\<rparr>) :: (unit, 'a Chans) outcome)"
    by (simp add: close_chan_def)
  then obtain h' where h': "unsubscribe k ch h = Ok h'"
    "chans h' = (chans h)\<lparr>ch_open := (ch_open (chans h))(ch := False)\<rparr>"
    "subs h' = (subs h)(k := drop_first (\<lambda>s. fst s = ch) (subs h k))"
    using unsubscribe_some [OF True] by blast
  have "drop_first (\<lambda>s. fst s = ch) (subs h k) = filter (\<lambda>s. fst s \<noteq> ch) (subs h k)"
    using drop_first_unique [of fst "subs h k" "(ch, u)"] live_distinct [OF h] u by simp
  then have sb: "subs h' = (subs h)(k := filter (\<lambda>s. fst s \<noteq> ch) (subs h k))" using h'(3) by simp
  have other: "ch \<notin> fst ` set (subs h l)" if "l \<noteq> k" for l using live_topic [OF h True] that by blast
  have less: "set (subs h' l) \<subseteq> set (subs h l)" for l by (auto simp: sb)
  have "fit h'" unfolding live_def
  proof (intro conjI allI ballI impI)
    show "distinct (map fst (subs h' l))" for l using live_distinct [OF h] by (simp add: sb distinct_map_filter)
    show "ch_open (chans h') x" "x < ch_next (chans h')" if "x \<in> fst ` set (subs h' l)" for x l
      using that live_open [OF h, of x l] less [of l] other [of l] by (auto simp: sb h'(2) split: if_splits)
    show "l = m" if "x \<in> fst ` set (subs h' l)" "x \<in> fst ` set (subs h' m)" for x l m
      using that less live_topic [OF h, of x l m] by blast
  qed
  then show ?thesis using h'(1,2) sb True by simp
qed

lemma publish_fit:
  assumes h: "fit h"
  shows "\<exists>h'. publish k fn h = Ok h' \<and> fit h' \<and> subs h' = subs h \<and> delivered (subs h k) fn (chans h) (chans h')"
proof -
  obtain c where c: "send_all (map (\<lambda>(ch, u). (ch, fn u)) (subs h k)) (chans h) = (Ok c :: (unit, 'a Chans) outcome)"
    "delivered (subs h k) fn (chans h) c"
    using send_all_delivers [of "subs h k" "chans h" fn] live_distinct [OF h] live_open [OF h] by blast
  obtain h' where "publish k fn h = Ok h'" "chans h' = c" "subs h' = subs h" using publish [OF c(1)] by blast
  moreover have "fit h'" using h c(2) calculation by (simp add: live_def delivered_def)
  ultimately show ?thesis using c(2) by auto
qed

end

section \<open>The two broadcasters\<close>

interpretation engine_pubsub: broadcaster "\<lambda>ps k. map (\<lambda>ch. (ch, '''')) (ps_subs ps k)" ps_chans
    "\<lambda>k u. PubSub_Subscribe k" PubSub_Unsubscribe "\<lambda>k fn. PubSub_Publish k (fn '''')"
proof
  have drop: "drop_first (\<lambda>s. fst s = ch) (map (\<lambda>ch. (ch, '''')) xs) = map (\<lambda>ch. (ch, '''')) (drop_first (\<lambda>x. x = ch) xs)"
    for ch and xs :: "nat list" by (induction xs) auto
  show "\<exists>h'. PubSub_Unsubscribe k ch h = (Ok h' :: (unit, 'a PubSub) outcome) \<and> ps_chans h' = c \<and>
      (\<lambda>k. map (\<lambda>ch. (ch, '''')) (ps_subs h' k)) =
        (\<lambda>k. map (\<lambda>ch. (ch, '''')) (ps_subs h k))(k := drop_first (\<lambda>s. fst s = ch) (map (\<lambda>ch. (ch, '''')) (ps_subs h k)))"
    if "ch \<in> fst ` set (map (\<lambda>ch. (ch, '''')) (ps_subs h k))"
      "close_chan ch (ps_chans h) = (Ok c :: (unit, 'a Chans) outcome)"
    for ch c and k :: string and h :: "'a PubSub"
    using that by (intro exI [of _ "h\<lparr>ps_subs := (ps_subs h)(k := drop_first (\<lambda>x. x = ch) (ps_subs h k)), ps_chans := c\<rparr>"])
      (auto simp: PubSub_Unsubscribe_def drop fun_eq_iff image_iff)
qed (auto simp: PubSub_Subscribe_def PubSub_Unsubscribe_def PubSub_Publish_def fun_eq_iff comp_def image_iff split: prod.splits)

definition subscriptions :: "'a Hub \<Rightarrow> string \<Rightarrow> (nat \<times> string) list" where
  "subscriptions h k = map (\<lambda>s. (sb_ch s, sb_userID s)) (hb_subs h k)"

interpretation table_hub: broadcaster subscriptions hb_chans Hub_Subscribe Hub_Unsubscribe Hub_Publish
proof
  have drop: "drop_first (\<lambda>s. fst s = ch) (map (\<lambda>s. (sb_ch s, sb_userID s)) xs)
      = map (\<lambda>s. (sb_ch s, sb_userID s)) (drop_first (\<lambda>s. sb_ch s = ch) xs)" for ch xs by (induction xs) auto
  show "\<exists>h'. Hub_Unsubscribe k ch h = (Ok h' :: (unit, 'a Hub) outcome) \<and> hb_chans h' = c \<and>
      subscriptions h' = (subscriptions h)(k := drop_first (\<lambda>s. fst s = ch) (subscriptions h k))"
    if "ch \<in> fst ` set (subscriptions h k)" "close_chan ch (hb_chans h) = (Ok c :: (unit, 'a Chans) outcome)"
    for ch c k and h :: "'a Hub"
    using that by (intro exI [of _ "h\<lparr>hb_subs := (hb_subs h)(k := drop_first (\<lambda>s. sb_ch s = ch) (hb_subs h k)), hb_chans := c\<rparr>"])
      (auto simp: Hub_Unsubscribe_def subscriptions_def drop fun_eq_iff image_iff list_ex_iff)
qed (auto simp: Hub_Subscribe_def Hub_Unsubscribe_def Hub_Publish_def subscriptions_def fun_eq_iff comp_def image_iff
    list_ex_iff split: prod.splits)

text \<open>Any sequence of operations on a fresh hub, readers included.\<close>

datatype 'a HubOp = HubSubscribe string string | HubUnsubscribe string nat | HubPublish string "string \<Rightarrow> 'a" | HubReceive nat

fun hub_step :: "'a HubOp \<Rightarrow> 'a Hub \<Rightarrow> (unit, 'a Hub) outcome" where
  "hub_step (HubSubscribe k u) h = Ok (snd (Hub_Subscribe k u h))"
| "hub_step (HubUnsubscribe k ch) h = Hub_Unsubscribe k ch h"
| "hub_step (HubPublish k fn) h = Hub_Publish k fn h"
| "hub_step (HubReceive ch) h = Ok (h\<lparr>hb_chans := snd (receive ch (hb_chans h))\<rparr>)"

fun hub_run :: "'a HubOp list \<Rightarrow> 'a Hub \<Rightarrow> (unit, 'a Hub) outcome" where
  "hub_run [] h = Ok h"
| "hub_run (x # xs) h = bind_outcome (hub_step x h) (hub_run xs)"

lemma subscriptions_chans [simp]: "subscriptions (h\<lparr>hb_chans := c\<rparr>) = subscriptions h"
  by (simp add: subscriptions_def fun_eq_iff)

lemma hub_step_live:
  assumes "live (subscriptions h) (hb_chans h)"
  shows "\<exists>h'. hub_step x h = Ok h' \<and> live (subscriptions h') (hb_chans h')"
proof (cases x)
  case (HubSubscribe k u)
  then show ?thesis using table_hub.subscribe_fit(1) [OF assms, of k u] by (metis hub_step.simps(1) prod.collapse)
next
  case (HubReceive ch)
  have "live (subscriptions h) (snd (receive ch (hb_chans h)))"
    using assms by (simp add: receive_def live_def split: list.splits)
  then show ?thesis using HubReceive by simp
next
  case (HubUnsubscribe k ch)
  then show ?thesis using table_hub.unsubscribe_fit [OF assms, of k ch] by auto
next
  case (HubPublish k fn)
  then show ?thesis using table_hub.publish_fit [OF assms, of k fn] by auto
qed

lemma hub_run_live:
  "live (subscriptions h) (hb_chans h) \<Longrightarrow> \<exists>h'. hub_run xs h = Ok h' \<and> live (subscriptions h') (hb_chans h')"
proof (induction xs arbitrary: h)
  case (Cons x xs)
  obtain h1 where h1: "hub_step x h = Ok h1" "live (subscriptions h1) (hb_chans h1)" using hub_step_live [OF Cons.prems] by blast
  then show ?case using Cons.IH [OF h1(2)] by simp
qed simp

text \<open>
  What one subscriber should see, told by the calls made after it subscribed: whether it is still
  subscribed, and the queue of the views it has not read. Other subscribers do not appear.
\<close>

fun client_step :: "string \<Rightarrow> string \<Rightarrow> nat \<Rightarrow> 'a HubOp \<Rightarrow> bool \<times> 'a list \<Rightarrow> bool \<times> 'a list" where
  "client_step tableID userID ch (HubSubscribe k u) (on, q) = (on, q)"
| "client_step tableID userID ch (HubUnsubscribe k c) (on, q) = (on \<and> \<not> (k = tableID \<and> c = ch), q)"
| "client_step tableID userID ch (HubPublish k fn) (on, q) =
     (on, if on \<and> k = tableID \<and> length q < 16 then q @ [fn userID] else q)"
| "client_step tableID userID ch (HubReceive c) (on, q) = (on, if c = ch then tl q else q)"

definition sees :: "string \<Rightarrow> string \<Rightarrow> nat \<Rightarrow> bool \<times> 'a list \<Rightarrow> 'a Hub \<Rightarrow> bool" where
  "sees tableID userID ch s h \<longleftrightarrow> live (subscriptions h) (hb_chans h) \<and> ch < ch_next (hb_chans h)
     \<and> ch_open (hb_chans h) ch = fst s \<and> ch_buf (hb_chans h) ch = snd s
     \<and> (if fst s then (ch, userID) \<in> set (subscriptions h tableID) else \<forall>k. ch \<notin> fst ` set (subscriptions h k))"

lemma sees_topic: "\<lbrakk>sees t u ch s h; ch \<in> fst ` set (subscriptions h k)\<rbrakk> \<Longrightarrow> fst s \<and> k = t"
  using live_topic [of "subscriptions h" "hb_chans h" ch k t] by (force simp: sees_def split: if_splits)

lemma Hub_Subscribe_effect:
  assumes "Hub_Subscribe k u h = (ch, h')"
  shows "ch = ch_next (hb_chans h)" "subscriptions h' = (subscriptions h)(k := subscriptions h k @ [(ch, u)])"
    "hb_chans h' = (hb_chans h)\<lparr>ch_next := Suc ch, ch_buf := (ch_buf (hb_chans h))(ch := []), ch_open := (ch_open (hb_chans h))(ch := True)\<rparr>"
  using assms by (auto simp: Hub_Subscribe_def make_chan_def subscriptions_def fun_eq_iff)

lemma hub_step_sees:
  fixes h :: "'a Hub"
  assumes h: "sees t u ch s h"
  shows "\<exists>h'. hub_step x h = Ok h' \<and> sees t u ch (client_step t u ch x s) h'"
proof -
  obtain on q where s: "s = (on, q)" by fastforce
  have fit: "live (subscriptions h) (hb_chans h)" using h by (simp add: sees_def)
  show ?thesis
  proof (cases x)
    case (HubSubscribe k v)
    obtain c h' where run: "Hub_Subscribe k v h = (c, h')" by fastforce
    note e = Hub_Subscribe_effect [OF run]
    have "c \<noteq> ch" using e(1) h by (simp add: sees_def)
    then have "sees t u ch s h'"
      using h table_hub.subscribe_fit(1) [OF fit run] e by (auto simp: sees_def)
    then show ?thesis using HubSubscribe s run by simp
  next
    case (HubUnsubscribe k c)
    obtain h' where r: "Hub_Unsubscribe k c h = (Ok h' :: (unit, 'a Hub) outcome)" "live (subscriptions h') (hb_chans h')"
      "subscriptions h' = (subscriptions h)(k := filter (\<lambda>s. fst s \<noteq> c) (subscriptions h k))"
      "ch_buf (hb_chans h') = ch_buf (hb_chans h)" "ch_next (hb_chans h') = ch_next (hb_chans h)"
      "ch_open (hb_chans h') = (if c \<in> fst ` set (subscriptions h k) then (ch_open (hb_chans h))(c := False) else ch_open (hb_chans h))"
      using table_hub.unsubscribe_fit [OF fit, of k c] by blast
    have in_k: "ch \<in> fst ` set (subscriptions h k) \<longleftrightarrow> on \<and> k = t"
      using sees_topic [OF h, of k] h s by (force simp: sees_def)
    have other: "\<forall>l. \<not> (on \<and> l = t) \<longrightarrow> ch \<notin> fst ` set (subscriptions h l)"
      using sees_topic [OF h] s by fastforce
    have kept: "fst ` set (subscriptions h' l) \<subseteq> fst ` set (subscriptions h l)" for l by (auto simp: r(3))
    have "sees t u ch (on \<and> \<not> (k = t \<and> c = ch), q) h'"
    proof (cases "on \<and> k = t \<and> c = ch")
      case True
      then have "\<forall>l. ch \<notin> fst ` set (subscriptions h' l)" using other kept by (auto simp: r(3))
      then show ?thesis using h r(2) in_k True s by (simp add: sees_def r(4-6))
    next
      case False
      then have "c = ch \<Longrightarrow> ch \<in> fst ` set (subscriptions h k) \<Longrightarrow> \<not> on" using in_k by blast
      then have "ch_open (hb_chans h') ch = on" using h s in_k by (auto simp: sees_def r(6))
      moreover have "if on then (ch, u) \<in> set (subscriptions h' t) else \<forall>l. ch \<notin> fst ` set (subscriptions h' l)"
      proof (cases on)
        case True
        then show ?thesis using h s False by (auto simp: sees_def r(3))
      next
        case off: False
        then have "\<forall>l. ch \<notin> fst ` set (subscriptions h l)" using h s by (simp add: sees_def)
        then have "ch \<notin> fst ` set (subscriptions h' l)" for l using kept [of l] by blast
        then show ?thesis using off by simp
      qed
      moreover have eq: "(on \<and> \<not> (k = t \<and> c = ch)) = on" using False by blast
      ultimately show ?thesis using h r(2) s unfolding eq by (simp add: sees_def r(4,5))
    qed
    then show ?thesis using HubUnsubscribe s r(1) by simp
  next
    case (HubPublish k fn)
    obtain h' where r: "Hub_Publish k fn h = (Ok h' :: (unit, 'a Hub) outcome)" "live (subscriptions h') (hb_chans h')" "subscriptions h' = subscriptions h"
      "delivered (subscriptions h k) fn (hb_chans h) (hb_chans h')"
      using table_hub.publish_fit [OF fit, of k fn] by blast
    have "ch_buf (hb_chans h') ch = (if on \<and> k = t \<and> length q < 16 then q @ [fn u] else q)"
    proof (cases "on \<and> k = t")
      case True
      then have "(ch, u) \<in> set (subscriptions h k)" "ch_buf (hb_chans h) ch = q" using h s by (simp_all add: sees_def)
      then show ?thesis using r(4) True by (auto simp: delivered_def)
    next
      case False
      then have "ch \<notin> fst ` set (subscriptions h k)" using sees_topic [OF h, of k] s by auto
      then show ?thesis using r(4) False h s by (auto simp: delivered_def sees_def)
    qed
    then have "sees t u ch (client_step t u ch x s) h'"
      using h r(2-4) s HubPublish by (simp add: sees_def delivered_def)
    then show ?thesis using HubPublish r(1) by simp
  next
    case (HubReceive c)
    have "live (subscriptions h) (snd (receive c (hb_chans h)))"
      using fit by (simp add: receive_def live_def split: list.splits)
    then have "sees t u ch (on, if c = ch then tl q else q) (h\<lparr>hb_chans := snd (receive c (hb_chans h))\<rparr>)"
      using h s by (auto simp: sees_def receive_def split: list.splits)
    then show ?thesis using HubReceive s by simp
  qed
qed

lemma hub_run_sees:
  "sees t u ch s h \<Longrightarrow> \<exists>h'. hub_run xs h = Ok h' \<and> sees t u ch (fold (client_step t u ch) xs s) h'"
proof (induction xs arbitrary: h s)
  case (Cons x xs)
  obtain h1 where "hub_step x h = Ok h1" "sees t u ch (client_step t u ch x s) h1" using hub_step_sees [OF Cons.prems] by blast
  then show ?case using Cons.IH by simp
qed simp

lemma hub_run_append: "hub_run (xs @ ys) h = bind_outcome (hub_run xs h) (hub_run ys)"
proof (induction xs arbitrary: h)
  case (Cons x xs)
  then show ?case by (cases "hub_step x h") simp_all
qed simp

text \<open>
  C19: Every subscriber gets its own updates, whatever the others do. Take any sequence of
  subscriptions, cancellations, publications and reads on a fresh hub, and in it one subscription
  of a user to a table. Nothing panics, the subscription gets a channel of its own, and what happens
  to that channel follows from the calls after it alone: each publication for the table while the
  subscription lasts adds that user's view to its end unless sixteen views wait unread, each read
  takes the oldest, its own cancellation closes it, and nothing else changes it.
\<close>

theorem hub_delivers_to_each_subscriber:
  "\<exists>h0 ch h1 h. hub_run before NewHub = Ok h0 \<and> Hub_Subscribe tableID userID h0 = (ch, h1)
    \<and> (\<forall>k. ch \<notin> fst ` set (subscriptions h0 k))
    \<and> hub_run (before @ HubSubscribe tableID userID # after) NewHub = (Ok h :: (unit, 'a Hub) outcome)
    \<and> (let (on, queue) = fold (client_step tableID userID ch) after (True, [])
       in ch_buf (hb_chans h) ch = queue \<and> ch_open (hb_chans h) ch = on
         \<and> ((ch, userID) \<in> set (subscriptions h tableID) \<longleftrightarrow> on))"
proof -
  have "live (subscriptions NewHub) (hb_chans (NewHub :: 'a Hub))"
    by (simp add: live_def subscriptions_def NewHub_def no_chans_def)
  then obtain h0 :: "'a Hub" where h0: "hub_run before NewHub = Ok h0" "live (subscriptions h0) (hb_chans h0)" using hub_run_live by blast
  obtain ch h1 where run: "Hub_Subscribe tableID userID h0 = (ch, h1)" by fastforce
  note e = Hub_Subscribe_effect [OF run]
  have new: "\<forall>k. ch \<notin> fst ` set (subscriptions h0 k)" using live_open [OF h0(2), of ch] e(1) by auto
  have "sees tableID userID ch (True, []) h1"
    using table_hub.subscribe_fit(1) [OF h0(2) run] e by (simp add: sees_def)
  from hub_run_sees [OF this, of "after"] obtain h where
    h: "hub_run after h1 = Ok h" "sees tableID userID ch (fold (client_step tableID userID ch) after (True, [])) h" by blast
  have all: "hub_run (before @ HubSubscribe tableID userID # after) NewHub = Ok h"
    using h0(1) h(1) run by (simp add: hub_run_append)
  have "let (on, queue) = fold (client_step tableID userID ch) after (True, [])
    in ch_buf (hb_chans h) ch = queue \<and> ch_open (hb_chans h) ch = on
      \<and> ((ch, userID) \<in> set (subscriptions h tableID) \<longleftrightarrow> on)"
    using h(2) by (force simp: sees_def case_prod_beta split: if_splits)
  with h0(1) run new all show ?thesis by blast
qed

end
