(* ===== verification/EngineSane.thy ===== *)
theory EngineSane
  imports WholeHand
begin

text \<open>
  What the engine keeps of its data without any assumption on how it is called: in every hand of
  the repository the players are named and no stack, bet, pot or limit is negative. The table
  manager relies on it.
\<close>

definition sane :: "GameState \<Rightarrow> bool" where
  "sane g \<longleftrightarrow> (\<forall>p \<in> set (g_Players g). p_ID p \<noteq> '''' \<and> 0 \<le> p_Stack p \<and> 0 \<le> p_CurrentBet p)
     \<and> (\<forall>pot \<in> set (g_Pots g). 0 \<le> pot_Amount pot) \<and> 0 \<le> g_CurrentBet g
     \<and> 0 \<le> bc_SmallBet (g_BettingConfig g) \<and> 0 \<le> bc_BigBet (g_BettingConfig g)"

definition sane_rows :: "GameDB \<Rightarrow> bool" where
  "sane_rows db \<longleftrightarrow>
     (\<forall>r \<in> set (db_players db). pr_player_id r \<noteq> '''' \<and> 0 \<le> pr_stack r \<and> 0 \<le> pr_current_bet r)
     \<and> (\<forall>r \<in> set (db_pots db). 0 \<le> po_amount r)
     \<and> (\<forall>r \<in> set (db_states db). 0 \<le> gr_current_bet r \<and> 0 \<le> gr_small_bet r \<and> 0 \<le> gr_big_bet r)"

section \<open>The repository\<close>

lemma collect_mem: "\<lbrakk>collect f xs = Ok ys; y \<in> set ys\<rbrakk> \<Longrightarrow> \<exists>x \<in> set xs. f x = Ok y"
  by (induction xs arbitrary: ys) auto

lemma FindByID_sane:
  assumes run: "FindByID pg db i = Ok g" and rows: "sane_rows db" and pg: "orderly pg"
  shows "sane g"
proof -
  obtain st players board deck pots where st: "findGameState pg i (db_states db) = Ok st"
    and ps: "loadPlayers pg i (db_players db) = Ok players" and po: "loadPots pg i (db_pots db) (db_eligible db) = Ok pots"
    and g: "g = st\<lparr>g_Players := players, g_Board := board, g_Deck := Some deck, g_Pots := pots\<rparr>"
    using run by (auto simp: FindByID_def)
  have "set (pg_by_position pg rs) = set rs" for rs using pg by (metis orderly_def mset_eq_setD)
  then obtain rs where rs: "collect player_of_row rs = Ok players" "set rs \<subseteq> set (db_players db)"
    using ps by (auto simp: loadPlayers_def)
  have row: "p_ID p = pr_player_id r \<and> p_Stack p = pr_stack r \<and> p_CurrentBet p = pr_current_bet r"
    if "player_of_row r = Ok p" for r p
    using that by (auto simp: player_of_row_def)
  have players: "p_ID p \<noteq> '''' \<and> 0 \<le> p_Stack p \<and> 0 \<le> p_CurrentBet p" if "p \<in> set players" for p
    using collect_mem [OF rs(1) that] rs(2) row rows unfolding sane_rows_def by (metis subsetD)
  let ?f = "\<lambda>r. bind_outcome (loadPotEligible pg i (po_position r) (db_eligible db)) (\<lambda>ids. Ok \<lparr>pot_Amount = po_amount r, pot_Eligible = ids\<rparr>)"
  have qs: "collect ?f (sort_key po_position (filter (\<lambda>r. po_hand_id r = i) (db_pots db))) = Ok pots"
    using po by (simp add: loadPots_def)
  have amt: "pot_Amount p = po_amount r" if "?f r = Ok p" for r p
    using that by auto
  have amounts: "0 \<le> pot_Amount p" if "p \<in> set pots" for p
    using collect_mem [OF qs that] amt rows unfolding sane_rows_def by fastforce
  have "0 \<le> g_CurrentBet st" "0 \<le> bc_SmallBet (g_BettingConfig st)" "0 \<le> bc_BigBet (g_BettingConfig st)"
    using st rows by (auto simp: findGameState_def sane_rows_def find_Some_iff split: option.splits)
  then show ?thesis using players amounts by (simp add: sane_def g)
qed

lemma Save_sane:
  assumes run: "Save pg db g = Ok db'" and g: "sane g" and rows: "sane_rows db"
  shows "sane_rows db'"
proof -
  note s = Save_Ok [OF run]
  have "\<forall>r \<in> set (db_players db'). pr_player_id r \<noteq> '''' \<and> 0 \<le> pr_stack r \<and> 0 \<le> pr_current_bet r"
    using g rows by (auto simp: s(2) sane_def sane_rows_def player_row_def)
  moreover have "\<forall>r \<in> set (db_pots db'). 0 \<le> po_amount r"
    using g rows by (auto simp: s(5) sane_def sane_rows_def pot_rows_def in_set_enumerate_eq)
  moreover have "\<forall>r \<in> set (db_states db'). 0 \<le> gr_current_bet r \<and> 0 \<le> gr_small_bet r \<and> 0 \<le> gr_big_bet r"
    using s(1) g rows by (auto simp: upsertGameState_def Let_def sane_def sane_rows_def game_row_def split: if_splits)
  ultimately show ?thesis by (simp add: sane_rows_def)
qed

section \<open>The operations\<close>

lemma ApplyAction_sane:
  assumes v: "ValidateAction g a = Ok ()" and run: "ApplyAction g a = Ok g'" and g: "sane g"
  shows "sane g'"
proof -
  obtain p where i: "g_ActivePlayer g < length (g_Players g)" "p = g_Players g ! g_ActivePlayer g"
    and cases: "a_Type a = ActionFold
      \<or> a_Type a = ActionCheck \<and> g_CurrentBet g \<le> p_CurrentBet p
      \<or> a_Type a = ActionCall \<and> g_CurrentBet g \<noteq> p_CurrentBet p
      \<or> a_Type a = ActionRaise \<and> g_RaisesThisStreet g < bc_MaxRaisesPerStreet (g_BettingConfig g)
        \<and> a_Amount a = g_CurrentBet g + BetSizeForStreet g \<and> a_Amount a \<le> p_Stack p + p_CurrentBet p"
    by (rule ValidateAction_Ok [OF v])
  have p: "p_ID p \<noteq> '''' \<and> 0 \<le> p_Stack p \<and> 0 \<le> p_CurrentBet p" using i g by (auto simp: sane_def)
  have b: "0 \<le> BetSizeForStreet g" using g by (auto simp: sane_def BetSizeForStreet_def split: Street.splits)
  have "\<exists>p'. g_Players g' = (g_Players g)[g_ActivePlayer g := p'] \<and> p_ID p' \<noteq> '''' \<and> 0 \<le> p_Stack p' \<and> 0 \<le> p_CurrentBet p'"
    using run p g b cases i
    by (intro exI [of _ "g_Players g' ! g_ActivePlayer g"]; cases "a_Type a")
      (auto simp: ApplyAction_def Let_def sane_def split: if_splits)
  then obtain p' where p': "g_Players g' = (g_Players g)[g_ActivePlayer g := p']"
    "p_ID p' \<noteq> ''''" "0 \<le> p_Stack p'" "0 \<le> p_CurrentBet p'" by blast
  have "set (g_Players g') \<subseteq> insert p' (set (g_Players g))" unfolding p'(1) by (rule set_update_subset_insert)
  then have "\<forall>q \<in> set (g_Players g'). p_ID q \<noteq> '''' \<and> 0 \<le> p_Stack q \<and> 0 \<le> p_CurrentBet q"
    using g p'(2-4) by (auto simp: sane_def)
  moreover have "0 \<le> g_CurrentBet g'"
    using run g b cases i(1) by (cases "a_Type a") (auto simp: ApplyAction_def Let_def sane_def)
  ultimately show ?thesis using g ApplyAction_frame(2,11) [OF run] by (simp add: sane_def)
qed

lemma contributions_wf: "wf_gomap (contributions_of ps)"
proof -
  have "wf_gomap m \<Longrightarrow> wf_gomap (foldl (\<lambda>m p. if p_CurrentBet p > 0 then AList.update (p_ID p) (p_CurrentBet p) m else m) m ps)"
    for m by (induction ps arbitrary: m) auto
  then show ?thesis by (simp add: contributions_of_def)
qed

lemma CollectBets_sane:
  assumes g: "sane g"
  shows "sane (CollectBets iter g)"
proof -
  have "\<forall>p \<in> set (Calculate iter (contributions_of (g_Players g))). 0 \<le> pot_Amount p"
    using Calculate_amounts_pos [OF contributions_wf] less_imp_le by blast
  then have "\<forall>p \<in> set (g_Pots (CollectBets iter g)). 0 \<le> pot_Amount p"
    using g unfolding CollectBets_pots by (intro amounts_mergePots) (auto simp: sane_def)
  then show ?thesis using g by (auto simp: sane_def CollectBets_players)
qed

lemma advanceStreet_sane: "advanceStreet iter g = Ok g' \<Longrightarrow> sane g \<Longrightarrow> sane g'"
  using advanceStreet_Ok(1,2,3,6) CollectBets_sane [of g iter] by (simp add: sane_def)

lemma ApplyRake_nonneg:
  assumes "\<forall>p \<in> set pots. 0 \<le> pot_Amount p"
  shows "\<forall>p \<in> set (ApplyRake pots rake). 0 \<le> pot_Amount p"
proof -
  have "\<forall>p \<in> set ps. 0 \<le> pot_Amount p \<Longrightarrow> \<forall>p \<in> set (apply_rake_loop r ps). 0 \<le> pot_Amount p" for r ps
    by (induction r ps rule: apply_rake_loop.induct) (auto simp: Let_def)
  from this [of "rev pots" rake] show ?thesis using assms by (simp add: ApplyRake_def)
qed

lemma pay_pot_nonneg:
  assumes "0 \<le> pot_Amount pot" "\<And>k. 0 \<le> get0 m k"
  shows "0 \<le> get0 (pay_pot m pot ws) k"
proof -
  let ?s = "pot_Amount pot sdiv int (length ws)"
  have "0 \<le> ?s" if "ws \<noteq> []" using that assms(1) by (simp add: sdiv_smod_pos pos_imp_zdiv_nonneg_iff)
  then have "0 \<le> get0 (foldl (\<lambda>result (j, i). let result = AList.update i (get0 result i + ?s) result
      in if int j < r then AList.update i (get0 result i + 1) result else result) m (enumerate n vs)) k"
    if "ws \<noteq> []" for r n and vs :: "PlayerID list"
    using that assms(2) by (induction vs arbitrary: m n) (auto simp: Let_def get0_update)
  then show ?thesis using assms(2) by (simp add: pay_pot_def Let_def)
qed

lemma winnersToMap_nonneg:
  assumes "\<forall>p \<in> set pots. 0 \<le> pot_Amount p"
  shows "0 \<le> get0 (winnersToMap pots ws) k"
proof -
  have "0 \<le> get0 (foldl (\<lambda>result (pot, winners). pay_pot result pot winners) m (zip pots ws)) k" if "\<And>k. 0 \<le> get0 m k" for m
    using assms that
  proof (induction pots arbitrary: m ws)
    case (Cons pot pots)
    then show ?case by (cases ws) (auto intro: pay_pot_nonneg)
  qed simp
  then show ?thesis by (simp add: winnersToMap_def)
qed

lemma award_sane: "\<lbrakk>sane g; \<And>k. 0 \<le> get0 w k\<rbrakk> \<Longrightarrow> sane (award g w)"
  by (auto simp: sane_def award_players award_frame)

lemma settled_sane:
  assumes g: "sane g" and s: "settled d g = (rake, ws, g')"
  shows "sane g'"
proof -
  let ?c = "CollectBets (dp_iter d) g"
  let ?k = "?c\<lparr>g_Pots := ApplyRake (g_Pots ?c) rake, g_EventSequence := g_EventSequence g + 1\<rparr>"
  have k: "sane ?k" using CollectBets_sane [OF g, of "dp_iter d"] ApplyRake_nonneg [of "g_Pots ?c" rake] by (simp add: sane_def)
  then have t: "0 \<le> Total (g_Pots ?k)" by (auto simp: sane_def Total_def intro: sum_list_map_nonneg)
  have "ws = fst (determineWinners ?k)" using s by (auto simp: settled_def Let_def split: prod.splits)
  then have "0 \<le> get0 ws i" for i
    using k t winnersToMap_nonneg
    by (auto simp: determineWinners_def singleWinner_def showdown_def Let_def get0_def sane_def split: if_splits)
  then have "sane (award ?k ws)" using k by (intro award_sane) auto
  then show ?thesis unfolding settled_award [OF s] by (simp add: sane_def)
qed

section \<open>The use cases\<close>

text \<open>A call changes the repository by at most one save, of a sane hand.\<close>

definition writes :: "'db Deps \<Rightarrow> 'db World \<Rightarrow> 'db World \<Rightarrow> bool" where
  "writes d w w' \<longleftrightarrow> w_db w' = w_db w \<or> (\<exists>g. sane g \<and> dp_Save d (w_db w) g = Ok (w_db w'))"

lemma FinishHand_sane:
  assumes run: "FinishHand_Execute d g w = (r, w')" and g: "sane g"
  shows "writes d w w' \<and> (\<forall>g'. r = Ok g' \<longrightarrow> sane g')"
proof -
  obtain rake ws g1 where s: "settled d g = (rake, ws, g1)" by (metis prod_cases3)
  have "sane g1" by (rule settled_sane [OF g s])
  then show ?thesis
    using run unfolding FinishHand_Execute_settled s
    by (auto simp: writes_def Let_def save_state_def publish_def split: prod.splits outcome.splits option.splits)
qed

lemma finish_after_action_sane:
  "\<lbrakk>finish_after_action d g w = (r, w'); sane g\<rbrakk> \<Longrightarrow> writes d w w' \<and> (\<forall>g'. r = Ok g' \<longrightarrow> sane g')"
  using FinishHand_sane [of d g w] by (auto simp: finish_after_action_def split: prod.splits)

lemma save_after_action_sane:
  "\<lbrakk>save_after_action d g w = (r, w'); sane g\<rbrakk> \<Longrightarrow> writes d w w' \<and> (\<forall>g'. r = Ok g' \<longrightarrow> sane g')"
  by (auto simp: save_after_action_def save_state_def writes_def split: prod.splits outcome.splits)

lemma continue_hand_sane:
  assumes "continue_hand d g w = (r, w')" "sane g"
  shows "writes d w w' \<and> (\<forall>g'. r = Ok g' \<longrightarrow> sane g')"
proof -
  have turn: "sane (g\<lparr>g_ActivePlayer := NextActivePlayer g\<rparr>)" using assms(2) by (simp add: sane_def)
  have same: "writes d w w" by (simp add: writes_def)
  show ?thesis
    using assms advanceStreet_sane [of "dp_iter d" g] same
    by (auto simp: continue_hand_def split: if_splits outcome.splits
        dest: finish_after_action_sane save_after_action_sane save_after_action_sane [OF _ turn])
qed

lemma ApplyAction_Execute_sane:
  assumes run: "ApplyAction_Execute d input w = (r, w')"
    and found: "\<And>g. dp_FindByID d (w_db w) (ai_HandID input) = Ok g \<Longrightarrow> sane g"
  shows "writes d w w' \<and> (\<forall>g'. r = Ok g' \<longrightarrow> sane g')"
proof -
  let ?loaded = "bind_outcome (map_err (Wrapped ''apply action: find game'') (dp_FindByID d (w_db w) (ai_HandID input)))
      (\<lambda>state. bind_outcome (map_err (Wrapped ''apply action: validate'') (ValidateAction state (ai_Action input)))
      (\<lambda>_. case PlayerByID state (a_PlayerID (ai_Action input)) of
          None \<Rightarrow> Err (Wrapped ''apply action: player not found'' ErrPlayerNotFound)
        | Some acting \<Rightarrow> bind_outcome (ApplyAction state (ai_Action input)) (\<lambda>state. Ok (acting, state))))"
  have same: "writes d w w" by (simp add: writes_def)
  show ?thesis
  proof (cases ?loaded)
    case (Ok p)
    then obtain acting g1 where p: "?loaded = Ok (acting, g1)" by (cases p) simp
    then have "sane g1" using found by (auto split: option.splits intro: ApplyAction_sane)
    then have g1: "sane (fst (AdvanceEventSequence g1))" by (simp add: sane_def AdvanceEventSequence_def)
    obtain g2 n where g2: "AdvanceEventSequence g1 = (g2, n)" by fastforce
    let ?w = "w\<lparr>w_metrics := (w_metrics w)\<lparr>m_ActionsTotal := m_ActionsTotal (w_metrics w)
        @ [ActionType_String (a_Type (ai_Action input))]\<rparr>\<rparr>"
    obtain pub w2 where pub: "publish d (EvPlayerActed (acted_event (dp_Now d) (ai_Action input) acting g2 n)) ?w = (pub, w2)"
      by fastforce
    then have db: "w_db w2 = w_db w" by (auto simp: publish_def split: option.splits)
    have run': "(case pub of
        Err e \<Rightarrow> (Err (Wrapped ''apply action: publish event'' e), w2)
      | Panic m \<Rightarrow> (Panic m, w2) | Ok _ \<Rightarrow> continue_hand d g2 w2) = (r, w')"
      using run p g2 pub by (simp add: ApplyAction_Execute_def Let_def)
    have "sane g2" using g1 g2 by simp
    then show ?thesis
      using run' db continue_hand_sane [of d g2 w2 r w'] by (cases pub) (auto simp: writes_def)
  qed (use run same in \<open>auto simp: ApplyAction_Execute_def Let_def\<close>)
qed

lemma dealHoleCards_sane:
  "\<lbrakk>dealHoleCards deck ps = Ok (deck', qs); \<forall>p \<in> set ps. p_ID p \<noteq> '''' \<and> 0 \<le> p_Stack p\<rbrakk>
    \<Longrightarrow> \<forall>p \<in> set qs. p_ID p \<noteq> '''' \<and> 0 \<le> p_Stack p \<and> 0 \<le> p_CurrentBet p"
  by (induction deck ps arbitrary: deck' qs rule: dealHoleCards.induct) (auto split: outcome.splits)

lemma postBlinds_sane:
  assumes "postBlinds ps i j sb bb = Ok qs" "0 \<le> sb" "0 \<le> bb"
    and ps: "\<forall>p \<in> set ps. p_ID p \<noteq> '''' \<and> 0 \<le> p_Stack p \<and> 0 \<le> p_CurrentBet p"
  shows "\<forall>p \<in> set qs. p_ID p \<noteq> '''' \<and> 0 \<le> p_Stack p \<and> 0 \<le> p_CurrentBet p"
proof -
  let ?P = "\<lambda>p. p_ID p \<noteq> '''' \<and> 0 \<le> p_Stack p \<and> 0 \<le> p_CurrentBet p"
  have upd: "\<forall>q \<in> set (rs[k := (rs ! k)\<lparr>p_Stack := p_Stack (rs ! k) - c, p_CurrentBet := c\<rparr>]). ?P q"
    if "\<forall>q \<in> set rs. ?P q" "k < length rs" "0 \<le> c" "c \<le> p_Stack (rs ! k)" for rs :: "Player list" and k c
    using that set_update_subset_insert [of rs k "(rs ! k)\<lparr>p_Stack := p_Stack (rs ! k) - c, p_CurrentBet := c\<rparr>"] by auto
  let ?ps = "ps[i := (ps ! i)\<lparr>p_Stack := p_Stack (ps ! i) - sb, p_CurrentBet := sb\<rparr>]"
  have i: "i < length ps" "sb \<le> p_Stack (ps ! i)" "j < length ?ps" "bb \<le> p_Stack (?ps ! j)"
    and qs: "qs = ?ps[j := (?ps ! j)\<lparr>p_Stack := p_Stack (?ps ! j) - bb, p_CurrentBet := bb\<rparr>]"
    using assms(1) unfolding postBlinds_def Let_def by (auto split: if_splits)
  show ?thesis unfolding qs by (intro upd ps i assms(2,3))
qed

lemma StartHand_sane:
  assumes run: "StartHand_Execute d input w = (r, w')"
    and ps: "\<forall>p \<in> set (sh_Players input). p_ID p \<noteq> '''' \<and> 0 \<le> p_Stack p"
  shows "writes d w w' \<and> (\<forall>g. r = Ok g \<longrightarrow> sane g)"
proof -
  let ?c = "sh_BettingConfig input"
  define prepared where "prepared =
    bind_outcome (validateStartHandInput input) (\<lambda>_.
    bind_outcome (Deck_Shuffle (NewDeck (dp_shuffle d))) (\<lambda>deck.
    bind_outcome (dealHoleCards deck (sh_Players input)) (\<lambda>(deck, players).
    let button = nat (sh_Button input); (sbIndex, bbIndex) = blindIndexes button (length players)
    in bind_outcome (postBlinds players sbIndex bbIndex (bc_SmallBlind ?c) (bc_BigBlind ?c)) (\<lambda>players.
    Ok \<lparr>g_ID = show_int (dp_UnixNano d), g_TableID = sh_TableID input, g_Players = players, g_Board = [], g_Pots = [],
        g_Street = StreetPreflop, g_CurrentBet = bc_BigBlind ?c, g_ActivePlayer = nextActiveIndex bbIndex players,
        g_Button = button, g_EventSequence = 1, g_BettingConfig = ?c, g_RaisesThisStreet = 0, g_Deck = Some deck\<rparr>))))"
  have "sane g" if prep: "prepared = Ok g" for g
  proof -
    obtain deck deck' dealt players sbi bbi where v: "validateStartHandInput input = Ok ()"
      and deal: "dealHoleCards deck (sh_Players input) = Ok (deck', dealt)"
      and post: "postBlinds dealt sbi bbi (bc_SmallBlind ?c) (bc_BigBlind ?c) = Ok players"
      and g: "g_Players g = players" "g_Pots g = []" "g_CurrentBet g = bc_BigBlind ?c" "g_BettingConfig g = ?c"
      using prep unfolding prepared_def by (auto simp: Let_def case_prod_beta)
    have c: "0 \<le> bc_SmallBlind ?c" "0 \<le> bc_BigBlind ?c" "0 \<le> bc_SmallBet ?c" "0 \<le> bc_BigBet ?c"
      using v by (auto simp: validateStartHandInput_Ok)
    show ?thesis
      using postBlinds_sane [OF post c(1,2) dealHoleCards_sane [OF deal ps]] c g by (simp add: sane_def)
  qed
  then show ?thesis
    using run unfolding StartHand_Execute_def Let_def prepared_def [unfolded Let_def, symmetric]
    by (auto simp: writes_def save_state_def publish_def split: outcome.splits option.splits)
qed

end
