(* ===== verification/EngineProto.thy ===== *)
theory EngineProto
  imports Prelude
begin

text \<open>
  The messages of the engine's gRPC interface (\<open>engine.proto\<close>), which the engine serves and the
  table manager calls. A pointer to a message that may be nil is an option; numbers are in the
  ranges of their fields.
\<close>

datatype PbStreet = STREET_UNSPECIFIED | STREET_PREFLOP | STREET_FLOP | STREET_TURN | STREET_RIVER | STREET_SHOWDOWN

datatype PbPlayerStatus = PLAYER_STATUS_UNSPECIFIED | PLAYER_STATUS_ACTIVE | PLAYER_STATUS_FOLDED
  | PLAYER_STATUS_ALL_IN | PLAYER_STATUS_SITTING_OUT

datatype PbActionType = ACTION_TYPE_UNSPECIFIED | ACTION_TYPE_FOLD | ACTION_TYPE_CHECK | ACTION_TYPE_CALL
  | ACTION_TYPE_RAISE | ACTION_TYPE_ALL_IN

record PbPlayer =
  pbp_id :: string
  pbp_stack :: int
  pbp_hole_cards :: "string list"
  pbp_status :: PbPlayerStatus
  pbp_current_bet :: int
  pbp_position :: int

record PbPot =
  pbt_amount :: int
  pbt_eligible :: "string list"

record PbAction =
  pba_player_id :: string
  pba_type :: PbActionType
  pba_amount :: int

record PbGameState =
  pbg_id :: string
  pbg_table_id :: string
  pbg_players :: "PbPlayer list"
  pbg_board :: "string list"
  pbg_pots :: "PbPot list"
  pbg_street :: PbStreet
  pbg_current_bet :: int
  pbg_active_player :: int
  pbg_button :: int
  pbg_small_blind :: int
  pbg_big_blind :: int

record PbStartHandRequest =
  pbs_table_id :: string
  pbs_players :: "PbPlayer list"
  pbs_button :: int
  pbs_small_blind :: int
  pbs_big_blind :: int

record PbApplyActionRequest =
  pbr_hand_id :: string
  pbr_action :: PbAction

text \<open>The status codes the services answer with.\<close>

datatype Code = CodeInvalidArgument | CodeNotFound | CodeAlreadyExists | CodeFailedPrecondition
  | CodeInternal | CodeUnauthenticated | CodeUnavailable

end
