(* ===== verification/EngineServer.thy ===== *)
theory EngineServer
  imports EngineSane EngineProto Channels
begin

text \<open>
  The engine's gRPC server (\<open>internal/delivery/grpc\<close>): the conversion between protobuf messages and
  the domain (\<open>converter.go\<close>), the status codes (\<open>errors.go\<close>), and the four calls of \<open>server.go\<close>,
  which run the use cases and publish the new state to the hand's subscribers. A call answers with
  a response or a status code; the text of the status is left out.
\<close>

section \<open>Status codes\<close>

definition domainErrorToGRPC :: "engine_err \<Rightarrow> Code" where
  "domainErrorToGRPC err =
     (if errors_Is err ErrGameNotFound then CodeNotFound
      else if errors_Is err ErrPlayerNotFound then CodeNotFound
      else if errors_Is err ErrNotPlayerTurn then CodeFailedPrecondition
      else if errors_Is err ErrPlayerNotActive then CodeFailedPrecondition
      else if errors_Is err ErrInvalidAction then CodeInvalidArgument
      else if errors_Is err ErrInvalidRaiseAmount then CodeInvalidArgument
      else if errors_Is err ErrInsufficientStack then CodeFailedPrecondition
      else if errors_Is err ErrNotEnoughPlayers then CodeFailedPrecondition
      else if errors_Is err ErrHandAlreadyStarted then CodeAlreadyExists
      else if errors_Is err ErrHandNotStarted then CodeFailedPrecondition
      else CodeInternal)"

section \<open>Conversion\<close>

fun domainStreetToProto :: "Street \<Rightarrow> PbStreet" where
  "domainStreetToProto StreetPreflop = STREET_PREFLOP"
| "domainStreetToProto StreetFlop = STREET_FLOP"
| "domainStreetToProto StreetTurn = STREET_TURN"
| "domainStreetToProto StreetRiver = STREET_RIVER"
| "domainStreetToProto StreetShowdown = STREET_SHOWDOWN"
| "domainStreetToProto (StreetOther n) = STREET_UNSPECIFIED"

fun domainStatusToProto :: "PlayerStatus \<Rightarrow> PbPlayerStatus" where
  "domainStatusToProto PlayerStatusActive = PLAYER_STATUS_ACTIVE"
| "domainStatusToProto PlayerStatusFolded = PLAYER_STATUS_FOLDED"
| "domainStatusToProto PlayerStatusAllIn = PLAYER_STATUS_ALL_IN"
| "domainStatusToProto PlayerStatusSittingOut = PLAYER_STATUS_SITTING_OUT"
| "domainStatusToProto (PlayerStatusOther n) = PLAYER_STATUS_UNSPECIFIED"

text \<open>An unspecified action is a fold.\<close>

fun protoActionTypeToDomain :: "PbActionType \<Rightarrow> ActionType" where
  "protoActionTypeToDomain ACTION_TYPE_FOLD = ActionFold"
| "protoActionTypeToDomain ACTION_TYPE_CHECK = ActionCheck"
| "protoActionTypeToDomain ACTION_TYPE_CALL = ActionCall"
| "protoActionTypeToDomain ACTION_TYPE_RAISE = ActionRaise"
| "protoActionTypeToDomain ACTION_TYPE_ALL_IN = ActionAllIn"
| "protoActionTypeToDomain ACTION_TYPE_UNSPECIFIED = ActionFold"

definition domainHoleCardsToProto :: "Card \<times> Card \<Rightarrow> string list" where
  "domainHoleCardsToProto cards = [Card_String (fst cards), Card_String (snd cards)]"

definition domainPlayersToProto :: "Player list \<Rightarrow> PbPlayer list" where
  "domainPlayersToProto players = map (\<lambda>p.
     \<lparr>pbp_id = p_ID p, pbp_stack = p_Stack p, pbp_hole_cards = domainHoleCardsToProto (p_HoleCards p),
      pbp_status = domainStatusToProto (p_Status p), pbp_current_bet = p_CurrentBet p,
      pbp_position = wrap32 (p_Position p)\<rparr>) players"

definition domainBoardToProto :: "Card list \<Rightarrow> string list" where
  "domainBoardToProto cards = map Card_String cards"

definition domainPotsToProto :: "Pot list \<Rightarrow> PbPot list" where
  "domainPotsToProto pots = map (\<lambda>p. \<lparr>pbt_amount = pot_Amount p, pbt_eligible = pot_Eligible p\<rparr>) pots"

definition domainStateToProto :: "GameState \<Rightarrow> PbGameState" where
  "domainStateToProto state =
     \<lparr>pbg_id = g_ID state, pbg_table_id = g_TableID state, pbg_players = domainPlayersToProto (g_Players state),
      pbg_board = domainBoardToProto (g_Board state), pbg_pots = domainPotsToProto (g_Pots state),
      pbg_street = domainStreetToProto (g_Street state), pbg_current_bet = g_CurrentBet state,
      pbg_active_player = wrap32 (int (g_ActivePlayer state)), pbg_button = wrap32 (int (g_Button state)),
      pbg_small_blind = bc_SmallBlind (g_BettingConfig state), pbg_big_blind = bc_BigBlind (g_BettingConfig state)\<rparr>"

text \<open>The fields a request does not carry are Go's zero values.\<close>

definition protoPlayersToDoomain :: "PbPlayer list \<Rightarrow> Player list" where
  "protoPlayersToDoomain players = map (\<lambda>p.
     \<lparr>p_ID = pbp_id p, p_Stack = pbp_stack p, p_HoleCards = (NewCard 0 0, NewCard 0 0), p_Status = PlayerStatusActive,
      p_CurrentBet = 0, p_Position = pbp_position p\<rparr>) players"

section \<open>Calls\<close>

record 'db EngineState =
  es_world :: "'db World"
  es_pubsub :: "GameState PubSub"

definition answer_and_publish ::
    "(engine_err, GameState) outcome \<times> 'db World \<Rightarrow> 'db EngineState \<Rightarrow> (Code, PbGameState) outcome \<times> 'db EngineState" where
  "answer_and_publish run es =
     (let (r, w) = run; es = es\<lparr>es_world := w\<rparr>
      in case r of
          Err e \<Rightarrow> (Err (domainErrorToGRPC e), es)
        | Panic m \<Rightarrow> (Panic m, es)
        | Ok state \<Rightarrow>
            (case PubSub_Publish (g_ID state) state (es_pubsub es) of
               Ok ps \<Rightarrow> (Ok (domainStateToProto state), es\<lparr>es_pubsub := ps\<rparr>)
             | Err e \<Rightarrow> (Err e, es)
             | Panic m \<Rightarrow> (Panic m, es)))"

definition start_input :: "PbStartHandRequest \<Rightarrow> StartHandInput" where
  "start_input req =
     \<lparr>sh_TableID = pbs_table_id req, sh_Players = protoPlayersToDoomain (pbs_players req), sh_Button = pbs_button req,
      sh_BettingConfig = \<lparr>bc_Structure = BettingFixedLimit, bc_SmallBlind = pbs_small_blind req,
        bc_BigBlind = pbs_big_blind req, bc_SmallBet = pbs_big_blind req, bc_BigBet = wrap64 (pbs_big_blind req * 2),
        bc_MaxRaisesPerStreet = 4\<rparr>\<rparr>"

definition Server_StartHand ::
    "'db Deps \<Rightarrow> PbStartHandRequest \<Rightarrow> 'db EngineState \<Rightarrow> (Code, PbGameState) outcome \<times> 'db EngineState" where
  "Server_StartHand d req es = answer_and_publish (StartHand_Execute d (start_input req) (es_world es)) es"

definition action_input :: "PbApplyActionRequest \<Rightarrow> ApplyActionInput" where
  "action_input req =
     \<lparr>ai_HandID = pbr_hand_id req,
      ai_Action = \<lparr>a_PlayerID = pba_player_id (pbr_action req), a_Type = protoActionTypeToDomain (pba_type (pbr_action req)),
        a_Amount = pba_amount (pbr_action req)\<rparr>\<rparr>"

definition Server_ApplyAction ::
    "'db Deps \<Rightarrow> PbApplyActionRequest \<Rightarrow> 'db EngineState \<Rightarrow> (Code, PbGameState) outcome \<times> 'db EngineState" where
  "Server_ApplyAction d req es = answer_and_publish (ApplyAction_Execute d (action_input req) (es_world es)) es"

definition Server_GetGameState :: "'db Deps \<Rightarrow> HandID \<Rightarrow> 'db EngineState \<Rightarrow> (Code, PbGameState) outcome" where
  "Server_GetGameState d handID es =
     map_err domainErrorToGRPC (bind_outcome (dp_FindByID d (w_db (es_world es)) handID)
       (\<lambda>state. Ok (domainStateToProto state)))"

text \<open>
  A stream first sends the state it finds, then subscribes and forwards what it receives until its
  channel is closed and drained (None). The messages sent are the results of these two steps.
\<close>

definition StreamGameState_open ::
    "'db Deps \<Rightarrow> HandID \<Rightarrow> 'db EngineState \<Rightarrow> (Code, PbGameState \<times> nat) outcome \<times> 'db EngineState" where
  "StreamGameState_open d handID es =
     (case dp_FindByID d (w_db (es_world es)) handID of
        Err e \<Rightarrow> (Err (domainErrorToGRPC e), es)
      | Panic m \<Rightarrow> (Panic m, es)
      | Ok state \<Rightarrow>
          (let (updates, ps) = PubSub_Subscribe handID (es_pubsub es)
           in (Ok (domainStateToProto state, updates), es\<lparr>es_pubsub := ps\<rparr>)))"

definition StreamGameState_next :: "nat \<Rightarrow> 'db EngineState \<Rightarrow> PbGameState option \<times> 'db EngineState" where
  "StreamGameState_next updates es =
     (let (state, c) = receive updates (ps_chans (es_pubsub es))
      in (map_option domainStateToProto state, es\<lparr>es_pubsub := (es_pubsub es)\<lparr>ps_chans := c\<rparr>\<rparr>))"

section \<open>What a call answers\<close>

lemma players_to_proto:
  "map pbp_id (domainPlayersToProto ps) = map p_ID ps" "map pbp_stack (domainPlayersToProto ps) = map p_Stack ps"
  by (simp_all add: domainPlayersToProto_def comp_def)

lemma state_to_proto [simp]:
  "pbg_id (domainStateToProto g) = g_ID g" "pbg_players (domainStateToProto g) = domainPlayersToProto (g_Players g)"
  "pbg_street (domainStateToProto g) = domainStreetToProto (g_Street g)"
  by (simp_all add: domainStateToProto_def)

lemma street_to_proto [simp]: "domainStreetToProto s = STREET_SHOWDOWN \<longleftrightarrow> s = StreetShowdown"
  by (cases s) auto

lemma answer_and_publish_world:
  "answer_and_publish (r, w) es = (x, es') \<Longrightarrow> es_world es' = w"
  by (auto simp: answer_and_publish_def Let_def split: outcome.splits)

lemma answer_and_publish_Ok:
  "answer_and_publish (r, w) es = (Ok g, es') \<Longrightarrow> \<exists>state. r = Ok state \<and> g = domainStateToProto state"
  by (auto simp: answer_and_publish_def Let_def split: outcome.splits)

text \<open>The invariant the table manager relies on: sane rows, in the Postgres repository.\<close>

definition engine_sane :: "GameDB EngineState \<Rightarrow> bool" where
  "engine_sane es \<longleftrightarrow> sane_rows (w_db (es_world es))"

lemma writes_sane:
  "\<lbrakk>writes d w w'; sane_rows (w_db w); dp_Save d = Save pg\<rbrakk> \<Longrightarrow> sane_rows (w_db w')"
  by (auto simp: writes_def intro: Save_sane)

lemma sane_players:
  "sane g \<Longrightarrow> \<forall>p \<in> set (pbg_players (domainStateToProto g)). pbp_id p \<noteq> '''' \<and> 0 \<le> pbp_stack p"
  by (auto simp: sane_def domainPlayersToProto_def)

lemma show_int_nonempty [simp]: "show_int n \<noteq> ''''"
  by (simp add: show_int_def)

lemma Server_StartHand_sane:
  assumes run: "Server_StartHand d req es = (x, es')" and es: "engine_sane es" and d: "dp_Save d = Save pg"
    and ps: "\<forall>p \<in> set (pbs_players req). pbp_id p \<noteq> '''' \<and> 0 \<le> pbp_stack p"
  shows "engine_sane es' \<and> (\<forall>g. x = Ok g \<longrightarrow> pbg_id g \<noteq> '''')"
proof -
  obtain r w where go: "StartHand_Execute d (start_input req) (es_world es) = (r, w)" by fastforce
  have "\<forall>p \<in> set (sh_Players (start_input req)). p_ID p \<noteq> '''' \<and> 0 \<le> p_Stack p"
    using ps by (auto simp: start_input_def protoPlayersToDoomain_def)
  then have "writes d (es_world es) w" using StartHand_sane [OF go] by blast
  then have "sane_rows (w_db w)" using es d by (auto simp: engine_sane_def intro: writes_sane)
  moreover have "g_ID g \<noteq> ''''" if "r = Ok g" for g
  proof -
    have "StartHand_Execute d (start_input req) (es_world es) = (Ok g, w)" using go that by simp
    then show ?thesis by (rule StartHand_Execute_Ok) (metis GameState.select_convs(1) show_int_nonempty)
  qed
  ultimately show ?thesis
    using run answer_and_publish_world [of r w es] answer_and_publish_Ok [of r w es]
    unfolding Server_StartHand_def go engine_sane_def by (metis state_to_proto(1))
qed

lemma Server_ApplyAction_sane:
  assumes run: "Server_ApplyAction d req es = (x, es')" and es: "engine_sane es"
    and d: "dp_Save d = Save pg" "dp_FindByID d = FindByID pg" "orderly pg"
  shows "engine_sane es' \<and> (\<forall>g. x = Ok g \<longrightarrow> (\<forall>p \<in> set (pbg_players g). pbp_id p \<noteq> '''' \<and> 0 \<le> pbp_stack p))"
proof -
  obtain r w where go: "ApplyAction_Execute d (action_input req) (es_world es) = (r, w)" by fastforce
  have "writes d (es_world es) w \<and> (\<forall>g. r = Ok g \<longrightarrow> sane g)"
    using es d FindByID_sane by (intro ApplyAction_Execute_sane [OF go]) (auto simp: engine_sane_def)
  moreover from this have "sane_rows (w_db w)" using es d by (auto simp: engine_sane_def intro: writes_sane)
  ultimately show ?thesis
    using run answer_and_publish_world [of r w es] answer_and_publish_Ok [of r w es] sane_players
    unfolding Server_ApplyAction_def go engine_sane_def by metis
qed

end
