(* ===== verification/TableStore.thy ===== *)
theory TableStore
  imports EngineProto
begin

text \<open>
  The table manager's domain (\<open>internal/domain/domain.go\<close>) and its Postgres repository
  (\<open>internal/infrastructure/repository/postgres/repository.go\<close>).

  A table holds its seats in a slice; a pointer to a seat is modelled by its position in that
  slice. The database is two lists of rows with the keys of the migration; a statement fails
  when the server fails it (\<open>tp_fails\<close>, by statement and seat), when a value does not fit its
  column, or when it breaks a key. A failed transaction leaves the database as it was,
  except where only the answer to its commit is lost (\<open>tp_loses_commit\<close>).
\<close>

named_theorems tables \<open>what the operations of the table manager keep of a table\<close>

section \<open>Domain\<close>

datatype table_err =
    ErrTableNotFound
  | ErrSeatOutOfRange
  | ErrSeatOccupied
  | ErrPlayerAlreadySeated
  | ErrPlayerNotSeated
  | ErrActiveHandRequired
  | ErrLeaveDuringActiveHand
  | ErrSpectatorCannotAct
  | ErrInvalidTableConfig
  | ErrInsufficientWallet
  | TableSql
  | RpcStatus Code
  | Failure string
  | TableWrap string table_err

type_synonym 'a tres = "(table_err, 'a) outcome"

definition TableStatusIdle :: string where
  "TableStatusIdle = ''idle''"

definition TableStatusInHand :: string where
  "TableStatusInHand = ''in_hand''"

lemma status_distinct [simp]: "TableStatusIdle \<noteq> TableStatusInHand" "TableStatusInHand \<noteq> TableStatusIdle"
  by (simp_all add: TableStatusIdle_def TableStatusInHand_def)

record Seat =
  st_Index :: int
  st_PlayerID :: string
  st_Stack :: int

record Table =
  tb_ID :: string
  tb_Name :: string
  tb_SeatCount :: int
  tb_Status :: string
  tb_SmallBlind :: int
  tb_BigBlind :: int
  tb_Button :: int
  tb_ActiveHandID :: string
  tb_Seats :: "Seat list"

definition Occupied :: "Seat \<Rightarrow> bool" where
  "Occupied s \<longleftrightarrow> st_PlayerID s \<noteq> ''''"

definition SeatedPlayers :: "Table \<Rightarrow> Seat list" where
  "SeatedPlayers t = filter Occupied (tb_Seats t)"

text \<open>A seat whose player can be dealt in.\<close>

definition playable :: "Seat \<Rightarrow> bool" where
  "playable s \<longleftrightarrow> Occupied s \<and> st_Stack s > 0"

definition PlayablePlayers :: "Table \<Rightarrow> Seat list" where
  "PlayablePlayers t = filter playable (tb_Seats t)"

text \<open>The first position of the slice that fits: \<open>for i := range seats { if ... return &seats[i] }\<close>.\<close>

fun first_at :: "('a \<Rightarrow> bool) \<Rightarrow> 'a list \<Rightarrow> nat option" where
  "first_at P [] = None"
| "first_at P (x # xs) = (if P x then Some 0 else map_option Suc (first_at P xs))"

definition SeatByPlayerID :: "Table \<Rightarrow> string \<Rightarrow> nat option" where
  "SeatByPlayerID t playerID = first_at (\<lambda>s. st_PlayerID s = playerID) (tb_Seats t)"

definition SeatByIndex :: "Table \<Rightarrow> int \<Rightarrow> nat option" where
  "SeatByIndex t index = first_at (\<lambda>s. st_Index s = index) (tb_Seats t)"

definition CanAutoStart :: "Table \<Rightarrow> bool" where
  "CanAutoStart t \<longleftrightarrow> tb_Status t = TableStatusIdle \<and> length (PlayablePlayers t) \<ge> 2"

text \<open>\<open>seat := t.SeatByIndex(idx); seat != nil && seat.Occupied() && seat.Stack > 0\<close>\<close>

definition playable_at :: "Table \<Rightarrow> int \<Rightarrow> bool" where
  "playable_at t index = (case SeatByIndex t index of None \<Rightarrow> False | Some i \<Rightarrow> playable (tb_Seats t ! i))"

definition NormalizedButtonSeat :: "Table \<Rightarrow> int" where
  "NormalizedButtonSeat t =
     (if PlayablePlayers t = [] then 0
      else if playable_at t (tb_Button t) then st_Index (tb_Seats t ! the (SeatByIndex t (tb_Button t)))
      else case find playable (tb_Seats t) of None \<Rightarrow> 0 | Some s \<Rightarrow> st_Index s)"

definition AdvanceButton :: "Table \<Rightarrow> Table" where
  "AdvanceButton t =
     (if PlayablePlayers t = [] then t\<lparr>tb_Button := 0\<rparr>
      else let start = NormalizedButtonSeat t; n = int (length (tb_Seats t)) in
        case find (\<lambda>offset. playable_at t ((start + int offset) smod n)) [1..<length (tb_Seats t) + 1] of
          Some offset \<Rightarrow> t\<lparr>tb_Button := (start + int offset) smod n\<rparr>
        | None \<Rightarrow> t\<lparr>tb_Button := start\<rparr>)"

section \<open>Repository\<close>

record TableRow =
  tr_id :: string
  tr_name :: string
  tr_seat_count :: int
  tr_status :: string
  tr_small_blind :: int
  tr_big_blind :: int
  tr_button :: int
  tr_active_hand_id :: "string option"

record SeatRow =
  sr_table_id :: string
  sr_seat_index :: int
  sr_player_id :: "string option"
  sr_stack :: int

record TableDB =
  td_tables :: "TableRow list"
  td_seats :: "SeatRow list"

text \<open>
  The server: the statements it fails (those of the lookup inside \<open>SaveTable\<close> apart), whether the
  answer to a commit is lost, and the order it lists tables in, which \<open>ORDER BY created_at\<close> leaves
  open for tables of the same time.
\<close>

record TablePg =
  tp_fails :: "string \<Rightarrow> int \<Rightarrow> bool"
  tp_fails_again :: "string \<Rightarrow> int \<Rightarrow> bool"
  tp_loses_commit :: bool
  tp_order :: "TableRow list \<Rightarrow> TableRow list"

definition run_stmt :: "TablePg \<Rightarrow> string \<Rightarrow> int \<Rightarrow> string \<Rightarrow> bool \<Rightarrow> 'a \<Rightarrow> 'a tres" where
  "run_stmt pg stmt key msg allowed x =
     (if tp_fails pg stmt key \<or> \<not> allowed then Err (TableWrap msg TableSql) else Ok x)"

text \<open>When the answer to the commit is lost, the caller sees an error, and the transaction is durable.\<close>

definition withTx :: "TablePg \<Rightarrow> (TableDB \<Rightarrow> TableDB tres) \<Rightarrow> TableDB \<Rightarrow> unit tres \<times> TableDB" where
  "withTx pg fn db =
     (case bind_outcome (run_stmt pg ''begin'' 0 ''begin tx'' True db) (\<lambda>db.
           bind_outcome (fn db) (\<lambda>db. run_stmt pg ''commit'' 0 ''commit tx'' True db)) of
        Ok db' \<Rightarrow> (if tp_loses_commit pg then Err (TableWrap ''commit tx'' TableSql) else Ok (), db')
      | Err e \<Rightarrow> (Err e, db)
      | Panic m \<Rightarrow> (Panic m, db))"

definition nullableString :: "string \<Rightarrow> string option" where
  "nullableString value = (if value = '''' then None else Some value)"

definition table_row :: "Table \<Rightarrow> TableRow" where
  "table_row t = \<lparr>tr_id = tb_ID t, tr_name = tb_Name t, tr_seat_count = tb_SeatCount t, tr_status = tb_Status t,
     tr_small_blind = tb_SmallBlind t, tr_big_blind = tb_BigBlind t, tr_button = tb_Button t,
     tr_active_hand_id = nullableString (tb_ActiveHandID t)\<rparr>"

definition seat_row :: "string \<Rightarrow> Seat \<Rightarrow> SeatRow" where
  "seat_row tableID s = \<lparr>sr_table_id = tableID, sr_seat_index = st_Index s,
     sr_player_id = nullableString (st_PlayerID s), sr_stack = st_Stack s\<rparr>"

text \<open>\<open>seat_count\<close>, \<open>button\<close> and \<open>seat_index\<close> are 32-bit columns.\<close>

definition table_row_fits :: "TableRow \<Rightarrow> bool" where
  "table_row_fits r \<longleftrightarrow> in_int32 (tr_seat_count r) \<and> in_int32 (tr_button r)
     \<and> in_int64 (tr_small_blind r) \<and> in_int64 (tr_big_blind r)"

definition insertSeat :: "TablePg \<Rightarrow> string \<Rightarrow> Seat \<Rightarrow> TableDB \<Rightarrow> TableDB tres" where
  "insertSeat pg tableID seat db =
     run_stmt pg ''insert seat'' (st_Index seat) ''insert seat''
       (in_int32 (st_Index seat) \<and> in_int64 (st_Stack seat)
        \<and> list_ex (\<lambda>r. tr_id r = tableID) (td_tables db)
        \<and> \<not> list_ex (\<lambda>r. sr_table_id r = tableID \<and> sr_seat_index r = st_Index seat) (td_seats db))
       (db\<lparr>td_seats := td_seats db @ [seat_row tableID seat]\<rparr>)"

fun insert_seats :: "TablePg \<Rightarrow> string \<Rightarrow> Seat list \<Rightarrow> TableDB \<Rightarrow> TableDB tres" where
  "insert_seats pg tableID [] db = Ok db"
| "insert_seats pg tableID (seat # seats) db =
     bind_outcome (insertSeat pg tableID seat db) (insert_seats pg tableID seats)"

definition Repo_CreateTable :: "TablePg \<Rightarrow> Table \<Rightarrow> TableDB \<Rightarrow> unit tres \<times> TableDB" where
  "Repo_CreateTable pg t = withTx pg (\<lambda>db.
     bind_outcome
       (run_stmt pg ''insert table'' 0 ''insert table''
          (table_row_fits (table_row t) \<and> \<not> list_ex (\<lambda>r. tr_id r = tb_ID t) (td_tables db))
          (db\<lparr>td_tables := td_tables db @ [table_row t]\<rparr>))
       (insert_seats pg (tb_ID t) (tb_Seats t)))"

definition seat_of_row :: "SeatRow \<Rightarrow> Seat" where
  "seat_of_row r = \<lparr>st_Index = sr_seat_index r,
     st_PlayerID = (case sr_player_id r of None \<Rightarrow> '''' | Some p \<Rightarrow> p), st_Stack = sr_stack r\<rparr>"

definition loadSeats :: "TablePg \<Rightarrow> string \<Rightarrow> TableDB \<Rightarrow> Seat list tres" where
  "loadSeats pg tableID db =
     run_stmt pg ''load seats'' 0 ''load seats'' True
       (map seat_of_row (sort_key sr_seat_index (filter (\<lambda>r. sr_table_id r = tableID) (td_seats db))))"

definition table_of_row :: "TableRow \<Rightarrow> Seat list \<Rightarrow> Table" where
  "table_of_row r seats = \<lparr>tb_ID = tr_id r, tb_Name = tr_name r, tb_SeatCount = tr_seat_count r, tb_Status = tr_status r,
     tb_SmallBlind = tr_small_blind r, tb_BigBlind = tr_big_blind r, tb_Button = tr_button r,
     tb_ActiveHandID = (case tr_active_hand_id r of None \<Rightarrow> '''' | Some h \<Rightarrow> h), tb_Seats = seats\<rparr>"

definition FindTable :: "TablePg \<Rightarrow> string \<Rightarrow> TableDB \<Rightarrow> Table tres" where
  "FindTable pg tableID db =
     bind_outcome (run_stmt pg ''find table'' 0 ''find table'' True (find (\<lambda>r. tr_id r = tableID) (td_tables db))) (\<lambda>row.
       case row of
         None \<Rightarrow> Err ErrTableNotFound
       | Some r \<Rightarrow> bind_outcome (loadSeats pg tableID db) (\<lambda>seats. Ok (table_of_row r seats)))"

fun load_tables :: "TablePg \<Rightarrow> TableDB \<Rightarrow> TableRow list \<Rightarrow> Table list tres" where
  "load_tables pg db [] = Ok []"
| "load_tables pg db (r # rs) =
     bind_outcome (loadSeats pg (tr_id r) db) (\<lambda>seats.
     bind_outcome (load_tables pg db rs) (\<lambda>ts. Ok (table_of_row r seats # ts)))"

definition Repo_ListTables :: "TablePg \<Rightarrow> TableDB \<Rightarrow> Table list tres" where
  "Repo_ListTables pg db =
     bind_outcome (run_stmt pg ''list tables'' 0 ''list tables'' True (tp_order pg (td_tables db))) (load_tables pg db)"

definition SaveTable :: "TablePg \<Rightarrow> Table \<Rightarrow> TableDB \<Rightarrow> unit tres \<times> TableDB" where
  "SaveTable pg t db =
     (case FindTable (pg\<lparr>tp_fails := tp_fails_again pg\<rparr>) (tb_ID t) db of
        Err e \<Rightarrow> (Err e, db)
      | Panic m \<Rightarrow> (Panic m, db)
      | Ok _ \<Rightarrow>
          withTx pg (\<lambda>db.
            bind_outcome
              (run_stmt pg ''update table'' 0 ''update table'' (table_row_fits (table_row t))
                 (db\<lparr>td_tables := map (\<lambda>r. if tr_id r = tb_ID t then table_row t else r) (td_tables db)\<rparr>)) (\<lambda>db.
            bind_outcome
              (run_stmt pg ''delete seats'' 0 ''delete seats'' True
                 (db\<lparr>td_seats := filter (\<lambda>r. sr_table_id r \<noteq> tb_ID t) (td_seats db)\<rparr>))
            (insert_seats pg (tb_ID t) (tb_Seats t)))) db)"


section \<open>Lookup\<close>

lemma first_at_Some: "first_at P xs = Some i \<Longrightarrow> i < length xs \<and> P (xs ! i) \<and> (\<forall>j < i. \<not> P (xs ! j))"
  by (induction xs arbitrary: i) (auto simp: nth_Cons split: if_splits nat.splits)

lemma first_at_None: "first_at P xs = None \<longleftrightarrow> (\<forall>x \<in> set xs. \<not> P x)"
  by (induction xs) auto

lemma first_at_nth:
  assumes "i < length xs" "P (xs ! i)" "\<And>j. \<lbrakk>j < length xs; P (xs ! j)\<rbrakk> \<Longrightarrow> j = i"
  shows "first_at P xs = Some i"
proof (cases "first_at P xs")
  case None
  then show ?thesis using assms(1,2) by (simp add: first_at_None)
next
  case (Some j)
  then show ?thesis using first_at_Some [OF Some] assms(3) by auto
qed

section \<open>Well-formed tables\<close>

text \<open>
  Seats are numbered from 0 in order, nobody sits twice, an empty seat has no chips, the blinds
  are a small one and its double, the button is on a seat, and a table is in a hand exactly when
  it names one.
\<close>

definition seats_ok :: "Seat list \<Rightarrow> bool" where
  "seats_ok seats \<longleftrightarrow> map st_Index seats = map int [0..<length seats]
     \<and> distinct (map st_PlayerID (filter Occupied seats))
     \<and> (\<forall>s \<in> set seats. 0 \<le> st_Stack s \<and> (Occupied s \<or> st_Stack s = 0))"

definition table_ok :: "Table \<Rightarrow> bool" where
  "table_ok t \<longleftrightarrow> 2 \<le> tb_SeatCount t \<and> int (length (tb_Seats t)) = tb_SeatCount t \<and> seats_ok (tb_Seats t)
     \<and> 0 < tb_SmallBlind t \<and> tb_BigBlind t = 2 * tb_SmallBlind t
     \<and> 0 \<le> tb_Button t \<and> tb_Button t < tb_SeatCount t
     \<and> (tb_Status t = TableStatusIdle \<and> tb_ActiveHandID t = ''''
        \<or> tb_Status t = TableStatusInHand \<and> tb_ActiveHandID t \<noteq> '''')"

lemma seat_index: "\<lbrakk>seats_ok seats; i < length seats\<rbrakk> \<Longrightarrow> st_Index (seats ! i) = int i"
  by (metis (no_types, lifting) add.left_neutral length_map map_nth nth_map nth_upt seats_ok_def)

lemma SeatByIndex_ok:
  assumes "seats_ok (tb_Seats t)"
  shows "SeatByIndex t k = (if 0 \<le> k \<and> k < int (length (tb_Seats t)) then Some (nat k) else None)"
proof (cases "0 \<le> k \<and> k < int (length (tb_Seats t))")
  case True
  then have "nat k < length (tb_Seats t)" by auto
  then show ?thesis
    using True seat_index [OF assms] unfolding SeatByIndex_def by (auto intro!: first_at_nth)
next
  case False
  then have "\<forall>s \<in> set (tb_Seats t). st_Index s \<noteq> k"
    using seat_index [OF assms] by (metis in_set_conv_nth int_nat_eq of_nat_0_le_iff of_nat_less_iff)
  then have "first_at (\<lambda>s. st_Index s = k) (tb_Seats t) = None" by (simp add: first_at_None)
  then show ?thesis using False by (simp add: SeatByIndex_def)
qed

lemma distinct_filter_nth:
  "distinct (map f (filter P xs)) \<longleftrightarrow>
     (\<forall>i < length xs. \<forall>j < length xs. i \<noteq> j \<and> P (xs ! i) \<and> P (xs ! j) \<longrightarrow> f (xs ! i) \<noteq> f (xs ! j))"
proof (induction xs)
  case (Cons x xs)
  have "(\<forall>y \<in> set xs. P y \<longrightarrow> f y \<noteq> f x) \<longleftrightarrow> (\<forall>i < length xs. P (xs ! i) \<longrightarrow> f (xs ! i) \<noteq> f x)"
    by (simp add: all_set_conv_all_nth)
  with Cons.IH show ?case by (auto simp: All_less_Suc2 image_iff)
qed simp

lemma ids_unique:
  "\<lbrakk>seats_ok seats; i < length seats; j < length seats; i \<noteq> j; Occupied (seats ! i); Occupied (seats ! j)\<rbrakk>
    \<Longrightarrow> st_PlayerID (seats ! i) \<noteq> st_PlayerID (seats ! j)"
  by (simp add: seats_ok_def distinct_filter_nth)

text \<open>Reseating one seat keeps the table well formed if the newcomer does not sit elsewhere.\<close>

lemma seats_ok_update:
  assumes ok: "seats_ok seats" and i: "i < length seats" and idx: "st_Index s = st_Index (seats ! i)"
    and stack: "0 \<le> st_Stack s" "Occupied s \<or> st_Stack s = 0"
    and new: "\<And>j. \<lbrakk>Occupied s; j < length seats; j \<noteq> i\<rbrakk> \<Longrightarrow> st_PlayerID (seats ! j) \<noteq> st_PlayerID s"
  shows "seats_ok (seats[i := s])"
proof -
  have "map st_Index (seats[i := s]) = map st_Index seats" using i idx by (rule map_update_at)
  moreover have "distinct (map st_PlayerID (filter Occupied (seats[i := s])))"
    using ids_unique [OF ok] new i unfolding distinct_filter_nth length_list_update
    by (metis nth_list_update_eq nth_list_update_neq)
  moreover have "\<forall>x \<in> set (seats[i := s]). 0 \<le> st_Stack x \<and> (Occupied x \<or> st_Stack x = 0)"
    using ok stack set_update_subset_insert [of seats i s] by (auto simp: seats_ok_def)
  ultimately show ?thesis using ok by (simp add: seats_ok_def)
qed

section \<open>The button\<close>

lemma playable_at_ok:
  "seats_ok (tb_Seats t) \<Longrightarrow> playable_at t k \<longleftrightarrow> 0 \<le> k \<and> k < int (length (tb_Seats t)) \<and> playable (tb_Seats t ! nat k)"
  by (auto simp: playable_at_def SeatByIndex_ok)

lemma NormalizedButtonSeat_playable:
  assumes ok: "seats_ok (tb_Seats t)" and some: "PlayablePlayers t \<noteq> []"
  shows "playable_at t (NormalizedButtonSeat t)"
proof (cases "playable_at t (tb_Button t)")
  case True
  then show ?thesis
    using some seat_index [OF ok] by (auto simp: NormalizedButtonSeat_def playable_at_ok [OF ok] SeatByIndex_ok [OF ok])
next
  case False
  obtain s where "s \<in> set (tb_Seats t)" "playable s" using some by (auto simp: PlayablePlayers_def filter_empty_conv)
  then obtain s' where s': "find playable (tb_Seats t) = Some s'" by (cases "find playable (tb_Seats t)") (auto simp: find_None_iff)
  then obtain i where i: "i < length (tb_Seats t)" "s' = tb_Seats t ! i" "playable s'" by (auto simp: find_Some_iff)
  then have "NormalizedButtonSeat t = int i" using False s' some seat_index [OF ok i(1)] by (simp add: NormalizedButtonSeat_def)
  then show ?thesis using i by (simp add: playable_at_ok [OF ok])
qed

text \<open>
  The button moves clockwise to the nearest playable seat after the one it is on (or stands
  for); with one playable seat it stays.
\<close>

lemma AdvanceButton_next:
  assumes ok: "seats_ok (tb_Seats t)" and some: "PlayablePlayers t \<noteq> []"
  defines "n \<equiv> int (length (tb_Seats t))" and "b \<equiv> NormalizedButtonSeat t"
  obtains d where "0 < d" "d \<le> n" "AdvanceButton t = t\<lparr>tb_Button := (b + d) mod n\<rparr>"
    "playable_at t ((b + d) mod n)" "\<And>e. \<lbrakk>0 < e; e < d\<rbrakk> \<Longrightarrow> \<not> playable_at t ((b + e) mod n)"
proof -
  have b: "playable_at t b" unfolding b_def by (rule NormalizedButtonSeat_playable [OF ok some])
  then have r: "0 \<le> b" "b < n" by (simp_all add: playable_at_ok [OF ok] n_def)
  have sm: "(b + int e) smod n = (b + int e) mod n" for e
    using r by (simp add: signed_modulo_int_def sgn_if)
  let ?P = "\<lambda>offset. playable_at t ((b + int offset) smod n)"
  have "\<exists>k \<in> set [1..<length (tb_Seats t) + 1]. ?P k"
    using b r sm [of "length (tb_Seats t)"] by (intro bexI [of _ "length (tb_Seats t)"]) (auto simp: n_def)
  then obtain k where k: "find ?P [1..<length (tb_Seats t) + 1] = Some k"
    by (cases "find ?P [1..<length (tb_Seats t) + 1]") (auto simp: find_None_iff)
  note f = find_upt_Some [OF k]
  show thesis
  proof (rule that [of "int k"])
    show "0 < int k" "int k \<le> n" using f by (auto simp: n_def)
    show "AdvanceButton t = t\<lparr>tb_Button := (b + int k) mod n\<rparr>"
      using some k sm by (simp add: AdvanceButton_def Let_def b_def n_def)
    show "playable_at t ((b + int k) mod n)" using f sm by metis
    show "\<not> playable_at t ((b + e) mod n)" if "0 < e" "e < int k" for e
      using f sm [of "nat e"] that by (auto dest: spec [of _ "nat e"])
  qed
qed

lemma AdvanceButton_ok [tables]: "table_ok t \<Longrightarrow> table_ok (AdvanceButton t)"
proof (cases "PlayablePlayers t = []")
  case True
  then show "table_ok t \<Longrightarrow> ?thesis" by (simp add: AdvanceButton_def table_ok_def)
next
  case False
  assume t: "table_ok t"
  then have ok: "seats_ok (tb_Seats t)" "int (length (tb_Seats t)) = tb_SeatCount t" "2 \<le> tb_SeatCount t"
    by (simp_all add: table_ok_def)
  show ?thesis
    by (rule AdvanceButton_next [OF ok(1) False]) (use t ok in \<open>simp add: table_ok_def\<close>)
qed

lemma AdvanceButton_frame [simp]:
  "tb_ID (AdvanceButton t) = tb_ID t" "tb_Seats (AdvanceButton t) = tb_Seats t"
  "tb_Status (AdvanceButton t) = tb_Status t" "tb_ActiveHandID (AdvanceButton t) = tb_ActiveHandID t"
  "tb_SmallBlind (AdvanceButton t) = tb_SmallBlind t" "tb_BigBlind (AdvanceButton t) = tb_BigBlind t"
  by (simp_all add: AdvanceButton_def Let_def split: option.splits)

section \<open>The repository as a map of tables\<close>

text \<open>The table stored under an identifier.\<close>

definition stored :: "TableDB \<Rightarrow> string \<Rightarrow> Table option" where
  "stored db tableID = map_option
     (\<lambda>r. table_of_row r (map seat_of_row (sort_key sr_seat_index (filter (\<lambda>r. sr_table_id r = tableID) (td_seats db)))))
     (find (\<lambda>r. tr_id r = tableID) (td_tables db))"

lemma run_stmt_Ok [simp]:
  "run_stmt pg stmt key msg allowed x = Ok y \<longleftrightarrow> \<not> tp_fails pg stmt key \<and> allowed \<and> y = x"
  by (auto simp: run_stmt_def)

lemma run_stmt_not_Panic [simp]: "run_stmt pg stmt key msg allowed x \<noteq> Panic m"
  by (simp add: run_stmt_def)

lemma table_tx_cases: "withTx pg fn db = (r, db') \<Longrightarrow> r \<noteq> Ok () \<and> db' = db \<or> fn db = Ok db'"
  by (auto simp: withTx_def split: outcome.splits)

lemma FindTable_Ok: "FindTable pg tableID db = Ok t \<Longrightarrow> stored db tableID = Some t"
  by (auto simp: FindTable_def stored_def loadSeats_def split: option.splits)

text \<open>
  The constraints of \<open>table_seats\<close>: no seat belongs to a table that is not there, and a stack is a
  64-bit integer.
\<close>

definition seats_owned :: "TableDB \<Rightarrow> bool" where
  "seats_owned db \<longleftrightarrow> (\<forall>r \<in> set (td_seats db). in_int64 (sr_stack r) \<and> (\<exists>q \<in> set (td_tables db). tr_id q = sr_table_id r))"

lemma seats_owned_iff:
  "seats_owned db \<longleftrightarrow> (\<forall>r \<in> set (td_seats db). in_int64 (sr_stack r)) \<and> sr_table_id ` set (td_seats db) \<subseteq> tr_id ` set (td_tables db)"
  by (auto simp: seats_owned_def image_subset_iff image_iff eq_commute)

lemma stored_stacks: "\<lbrakk>seats_owned db; stored db i = Some t; s \<in> set (tb_Seats t)\<rbrakk> \<Longrightarrow> in_int64 (st_Stack s)"
  by (auto simp: stored_def seats_owned_def table_of_row_def seat_of_row_def)

lemma insert_seats_Ok:
  assumes "insert_seats pg tableID seats db = Ok db'"
  shows "db' = db\<lparr>td_seats := td_seats db @ map (seat_row tableID) seats\<rparr>"
    and "seats \<noteq> [] \<longrightarrow> (\<exists>q \<in> set (td_tables db). tr_id q = tableID)"
    and "\<forall>s \<in> set seats. in_int64 (st_Stack s)"
proof -
  show "\<forall>s \<in> set seats. in_int64 (st_Stack s)"
    using assms by (induction seats arbitrary: db) (simp, fastforce simp: insertSeat_def)
  show "db' = db\<lparr>td_seats := td_seats db @ map (seat_row tableID) seats\<rparr>"
    using assms by (induction seats arbitrary: db) (simp, fastforce simp: insertSeat_def)
  show "seats \<noteq> [] \<longrightarrow> (\<exists>q \<in> set (td_tables db). tr_id q = tableID)"
    using assms by (cases seats) (auto simp: insertSeat_def list_ex_iff)
qed

lemma seat_roundtrip [simp]: "seat_of_row (seat_row tableID s) = s"
  by (simp add: seat_of_row_def seat_row_def nullableString_def)

lemma table_roundtrip [simp]: "table_of_row (table_row t) (tb_Seats t) = t"
  by (simp add: table_of_row_def table_row_def nullableString_def)

lemma seat_rows_sorted:
  assumes "seats_ok seats"
  shows "map seat_of_row (sort_key sr_seat_index (map (seat_row tableID) seats)) = seats"
proof -
  have "map sr_seat_index (map (seat_row tableID) seats) = map st_Index seats"
    by (simp add: seat_row_def comp_def)
  also have "sorted \<dots>"
    using assms by (simp add: seats_ok_def sorted_map)
  finally have "sort_key sr_seat_index (map (seat_row tableID) seats) = map (seat_row tableID) seats"
    by (rule sort_key_id_if_sorted)
  then show ?thesis by (simp add: comp_def)
qed

lemma stored_id: "stored db i = Some t \<Longrightarrow> tb_ID t = i"
  by (auto simp: stored_def table_of_row_def find_Some_iff)

lemma find_replaced:
  "find (\<lambda>r. tr_id r = i) (map (\<lambda>r. if tr_id r = tb_ID t then table_row t else r) rs)
     = (if i = tb_ID t then map_option (\<lambda>_. table_row t) (find (\<lambda>r. tr_id r = i) rs) else find (\<lambda>r. tr_id r = i) rs)"
  by (induction rs) (auto simp: table_row_def)

lemma find_snoc:
  "find (\<lambda>r. tr_id r = i) (rs @ [table_row t])
     = (case find (\<lambda>r. tr_id r = i) rs of Some r \<Rightarrow> Some r | None \<Rightarrow> if i = tb_ID t then Some (table_row t) else None)"
  by (induction rs) (auto simp: table_row_def)

lemma filter_seat_rows: "filter (\<lambda>r. sr_table_id r = i) (map (seat_row j) seats) = (if i = j then map (seat_row j) seats else [])"
  by (simp add: filter_map comp_def seat_row_def)

lemma SaveTable_stored:
  assumes run: "SaveTable pg t db = (r, db')" and effect: "r = Ok () \<or> db' \<noteq> db" and ok: "seats_ok (tb_Seats t)"
  shows "stored db (tb_ID t) \<noteq> None" "stored db' = (stored db)(tb_ID t \<mapsto> t)" "seats_owned db \<Longrightarrow> seats_owned db'"
proof -
  obtain t0 where t0: "FindTable (pg\<lparr>tp_fails := tp_fails_again pg\<rparr>) (tb_ID t) db = Ok t0"
    using run effect by (auto simp: SaveTable_def split: outcome.splits)
  then show old: "stored db (tb_ID t) \<noteq> None" using FindTable_Ok [OF t0] by simp
  let ?tables = "map (\<lambda>r. if tr_id r = tb_ID t then table_row t else r) (td_tables db)"
  let ?rest = "filter (\<lambda>r. sr_table_id r \<noteq> tb_ID t) (td_seats db)"
  have db': "db' = db\<lparr>td_tables := ?tables, td_seats := ?rest @ map (seat_row (tb_ID t)) (tb_Seats t)\<rparr>"
    using run effect by (auto simp: SaveTable_def t0 dest!: table_tx_cases insert_seats_Ok(1))
  have fit: "\<forall>s \<in> set (tb_Seats t). in_int64 (st_Stack s)"
    using run effect by (auto simp: SaveTable_def t0 dest!: table_tx_cases insert_seats_Ok(3))
  have "stored db' i = ((stored db)(tb_ID t \<mapsto> t)) i" for i
  proof (cases "i = tb_ID t")
    case True
    then show ?thesis using old seat_rows_sorted [OF ok]
      by (auto simp: db' stored_def find_replaced filter_seat_rows)
  next
    case False
    then have "filter (\<lambda>r. sr_table_id r = i) ?rest = filter (\<lambda>r. sr_table_id r = i) (td_seats db)"
      by (auto intro: filter_cong)
    then show ?thesis using False by (simp add: db' stored_def find_replaced filter_seat_rows)
  qed
  then show "stored db' = (stored db)(tb_ID t \<mapsto> t)" by blast
  have ids: "tr_id ` set (td_tables db') = tr_id ` set (td_tables db)"
    by (rule arg_cong [of "map tr_id (td_tables db')" "map tr_id (td_tables db)" set, unfolded set_map])
      (simp add: db' table_row_def)
  moreover have "tb_ID t \<in> tr_id ` set (td_tables db)"
    using old by (auto simp: stored_def find_None_iff intro: rev_image_eqI)
  moreover have "sr_table_id ` set (td_seats db') \<subseteq> insert (tb_ID t) (sr_table_id ` set (td_seats db))"
    by (auto simp: db' seat_row_def)
  ultimately have "sr_table_id ` set (td_seats db') \<subseteq> tr_id ` set (td_tables db')"
    if "sr_table_id ` set (td_seats db) \<subseteq> tr_id ` set (td_tables db)"
    using that by (simp only: subset_eq insert_iff) metis
  moreover have "\<forall>r \<in> set (td_seats db'). in_int64 (sr_stack r)" if "seats_owned db"
    using that fit by (auto simp: db' seats_owned_iff seat_row_def)
  ultimately show "seats_owned db'" if "seats_owned db"
    using that unfolding seats_owned_iff by blast
qed

lemma CreateTable_stored:
  assumes run: "Repo_CreateTable pg t db = (r, db')" and effect: "r = Ok () \<or> db' \<noteq> db"
    and ok: "seats_ok (tb_Seats t)" and own: "seats_owned db"
  shows "stored db (tb_ID t) = None" "stored db' = (stored db)(tb_ID t \<mapsto> t)" "seats_owned db'"
proof -
  have new: "\<forall>r \<in> set (td_tables db). tr_id r \<noteq> tb_ID t"
    using run effect by (auto simp: Repo_CreateTable_def list_ex_iff dest!: table_tx_cases)
  then show old: "stored db (tb_ID t) = None" by (simp add: stored_def find_None_iff)
  have db': "db' = db\<lparr>td_tables := td_tables db @ [table_row t], td_seats := td_seats db @ map (seat_row (tb_ID t)) (tb_Seats t)\<rparr>"
    using run effect by (auto simp: Repo_CreateTable_def dest!: table_tx_cases insert_seats_Ok(1))
  have "filter (\<lambda>r. sr_table_id r = tb_ID t) (td_seats db) = []"
    using own new by (auto simp: seats_owned_def filter_empty_conv)
  then have "stored db' i = ((stored db)(tb_ID t \<mapsto> t)) i" for i
    using old seat_rows_sorted [OF ok]
    by (cases "i = tb_ID t") (auto simp: db' stored_def filter_seat_rows find_snoc split: option.splits)
  then show "stored db' = (stored db)(tb_ID t \<mapsto> t)" by blast
  have "\<forall>s \<in> set (tb_Seats t). in_int64 (st_Stack s)"
    using run effect by (auto simp: Repo_CreateTable_def dest!: table_tx_cases insert_seats_Ok(3))
  then show "seats_owned db'" using own by (auto simp: seats_owned_iff db' seat_row_def table_row_def)
qed

section \<open>What the service relies on\<close>

text \<open>
  The repository promises a map from identifiers to tables: a lookup that succeeds returns what
  the map holds, saving replaces one table that is there, creating adds one that is not. A call
  that fails has done this or nothing.
\<close>

locale table_repository =
  fixes lookup :: "string \<Rightarrow> 'db \<Rightarrow> Table tres"
    and save :: "Table \<Rightarrow> 'db \<Rightarrow> unit tres \<times> 'db"
    and create :: "Table \<Rightarrow> 'db \<Rightarrow> unit tres \<times> 'db"
    and held :: "'db \<Rightarrow> string \<Rightarrow> Table option"
    and valid :: "'db \<Rightarrow> bool"
  assumes lookup_held: "lookup i db = Ok t \<Longrightarrow> held db i = Some t"
    and held_id: "held db i = Some t \<Longrightarrow> tb_ID t = i"
    and save_held: "\<lbrakk>save t db = (r, db'); r = Ok () \<or> db' \<noteq> db; valid db; seats_ok (tb_Seats t)\<rbrakk>
      \<Longrightarrow> valid db' \<and> held db (tb_ID t) \<noteq> None \<and> held db' = (held db)(tb_ID t \<mapsto> t)"
    and create_held: "\<lbrakk>create t db = (r, db'); r = Ok () \<or> db' \<noteq> db; valid db; seats_ok (tb_Seats t)\<rbrakk>
      \<Longrightarrow> valid db' \<and> held db (tb_ID t) = None \<and> held db' = (held db)(tb_ID t \<mapsto> t)"
begin

lemma lookup_id: "lookup i db = Ok t \<Longrightarrow> tb_ID t = i"
  using lookup_held held_id by blast

end

interpretation pg_tables: table_repository "FindTable pg" "SaveTable pg" "Repo_CreateTable pg" stored seats_owned for pg
proof unfold_locales
  show "stored db i = Some t" if "FindTable pg i db = Ok t" for i db t using that by (rule FindTable_Ok)
  show "tb_ID t = i" if "stored db i = Some t" for db i t using that by (rule stored_id)
  fix t :: Table and db and r :: "unit tres" and db'
  assume effect: "r = Ok () \<or> db' \<noteq> db" and ok: "seats_owned db" "seats_ok (tb_Seats t)"
  show "seats_owned db' \<and> stored db (tb_ID t) \<noteq> None \<and> stored db' = (stored db)(tb_ID t \<mapsto> t)"
    if "SaveTable pg t db = (r, db')"
    using SaveTable_stored [OF that effect ok(2)] ok(1) by simp
  show "seats_owned db' \<and> stored db (tb_ID t) = None \<and> stored db' = (stored db)(tb_ID t \<mapsto> t)"
    if "Repo_CreateTable pg t db = (r, db')"
    using CreateTable_stored [OF that effect ok(2,1)] by simp
qed

end
