(* ===== verification/TableService.thy ===== *)
theory TableService
  imports TableStore
begin

text \<open>
  The table manager's application service (\<open>internal/application/service.go\<close>): creating, joining
  and leaving tables, and passing players' actions to the engine. The service holds three
  interfaces (repository, engine client, wallet client), modelled as a record of functions over
  their states; its world is the states of the three. Every call that fails on the way returns
  its error with the effects made before it.
\<close>

section \<open>The service and its world\<close>

record 'w WalletClient =
  wc_DebitForJoin :: "string \<Rightarrow> string \<Rightarrow> int \<Rightarrow> string \<Rightarrow> 'w \<Rightarrow> unit tres \<times> 'w"
  wc_CreditForCashout :: "string \<Rightarrow> string \<Rightarrow> int \<Rightarrow> string \<Rightarrow> 'w \<Rightarrow> unit tres \<times> 'w"

record ('db, 'e, 'w) Service =
  sv_CreateTable :: "Table \<Rightarrow> 'db \<Rightarrow> unit tres \<times> 'db"
  sv_SaveTable :: "Table \<Rightarrow> 'db \<Rightarrow> unit tres \<times> 'db"
  sv_FindTable :: "string \<Rightarrow> 'db \<Rightarrow> Table tres"
  sv_ListTables :: "'db \<Rightarrow> Table list tres"
  sv_StartHand :: "PbStartHandRequest \<Rightarrow> 'e \<Rightarrow> PbGameState option tres \<times> 'e"
  sv_ApplyAction :: "PbApplyActionRequest \<Rightarrow> 'e \<Rightarrow> PbGameState option tres \<times> 'e"
  sv_GetGameState :: "string \<Rightarrow> 'e \<Rightarrow> PbGameState option tres"
  sv_wallet :: "'w WalletClient option"
  sv_UnixNano :: int

record ('db, 'e, 'w) TWorld =
  tw_db :: 'db
  tw_engine :: 'e
  tw_wallet :: 'w

text \<open>\<open>if err != nil { return err }\<close> after a call that may have had effects.\<close>

fun and_then :: "'a tres \<times> 'w \<Rightarrow> ('a \<Rightarrow> 'w \<Rightarrow> 'b tres \<times> 'w) \<Rightarrow> 'b tres \<times> 'w" where
  "and_then (Ok x, w) k = k x w"
| "and_then (Err e, w) k = (Err e, w)"
| "and_then (Panic m, w) k = (Panic m, w)"

definition save_table :: "('db, 'e, 'w) Service \<Rightarrow> Table \<Rightarrow> ('db, 'e, 'w) TWorld \<Rightarrow> unit tres \<times> ('db, 'e, 'w) TWorld" where
  "save_table s t w = (let (r, db) = sv_SaveTable s t (tw_db w) in (r, w\<lparr>tw_db := db\<rparr>))"

section \<open>Operations\<close>

definition new_table :: "int \<Rightarrow> string \<Rightarrow> int \<Rightarrow> int \<Rightarrow> int \<Rightarrow> Table" where
  "new_table now name seatCount smallBlind bigBlind =
     \<lparr>tb_ID = ''table-'' @ show_int now, tb_Name = name, tb_SeatCount = seatCount, tb_Status = TableStatusIdle,
      tb_SmallBlind = smallBlind, tb_BigBlind = bigBlind, tb_Button = 0, tb_ActiveHandID = '''',
      tb_Seats = map (\<lambda>i. \<lparr>st_Index = int i, st_PlayerID = '''', st_Stack = 0\<rparr>) [0..<nat seatCount]\<rparr>"

definition CreateTable ::
    "('db, 'e, 'w) Service \<Rightarrow> string \<Rightarrow> int \<Rightarrow> int \<Rightarrow> int \<Rightarrow> ('db, 'e, 'w) TWorld \<Rightarrow> Table tres \<times> ('db, 'e, 'w) TWorld" where
  "CreateTable s name seatCount smallBlind bigBlind w =
     (if seatCount < 2 \<or> smallBlind \<le> 0 \<or> bigBlind \<le> 0 \<or> bigBlind \<noteq> wrap64 (smallBlind * 2)
      then (Err ErrInvalidTableConfig, w)
      else let table = new_table (sv_UnixNano s) name seatCount smallBlind bigBlind
           in let (r, db) = sv_CreateTable s table (tw_db w) in (bind_outcome r (\<lambda>_. Ok table), w\<lparr>tw_db := db\<rparr>))"

definition ListTables :: "('db, 'e, 'w) Service \<Rightarrow> ('db, 'e, 'w) TWorld \<Rightarrow> Table list tres" where
  "ListTables s w = sv_ListTables s (tw_db w)"

definition getGameState :: "('db, 'e, 'w) Service \<Rightarrow> Table \<Rightarrow> ('db, 'e, 'w) TWorld \<Rightarrow> PbGameState option tres" where
  "getGameState s table w =
     (if tb_ActiveHandID table = '''' then Ok None
      else map_err (TableWrap ''get game state via engine'') (sv_GetGameState s (tb_ActiveHandID table) (tw_engine w)))"

definition GetTable ::
    "('db, 'e, 'w) Service \<Rightarrow> string \<Rightarrow> ('db, 'e, 'w) TWorld \<Rightarrow> (Table \<times> PbGameState option) tres" where
  "GetTable s tableID w =
     bind_outcome (sv_FindTable s tableID (tw_db w)) (\<lambda>table.
     bind_outcome (getGameState s table w) (\<lambda>state. Ok (table, state)))"

text \<open>\<open>strings.Join\<close> of the parts of a key with colons.\<close>

definition joinIdempotencyKey :: "Table \<Rightarrow> string \<Rightarrow> int \<Rightarrow> int \<Rightarrow> string" where
  "joinIdempotencyKey table playerID seatIndex buyIn =
     Join [''join'', tb_ID table, playerID, show_int seatIndex, show_int buyIn, tb_Status table,
       tb_ActiveHandID table, show_int (tb_Button table), show_int (int (length (PlayablePlayers table)))] '':''"

definition cashoutIdempotencyKey :: "Table \<Rightarrow> string \<Rightarrow> int \<Rightarrow> int \<Rightarrow> string" where
  "cashoutIdempotencyKey table playerID seatIndex stack =
     Join [''cashout'', tb_ID table, playerID, show_int seatIndex, show_int stack, tb_Status table,
       tb_ActiveHandID table, show_int (tb_Button table)] '':''"

definition start_request :: "Table \<Rightarrow> PbStartHandRequest" where
  "start_request table =
     (let occupied = sort_key st_Index (PlayablePlayers table);
          buttonSeat = NormalizedButtonSeat table;
          button = foldl (\<lambda>b (i, seat). if st_Index seat = buttonSeat then int i else b) 0 (enumerate 0 occupied)
      in \<lparr>pbs_table_id = tb_ID table,
          pbs_players = map (\<lambda>seat. \<lparr>pbp_id = st_PlayerID seat, pbp_stack = st_Stack seat, pbp_hole_cards = [],
            pbp_status = PLAYER_STATUS_UNSPECIFIED, pbp_current_bet = 0, pbp_position = wrap32 (st_Index seat)\<rparr>) occupied,
          pbs_button = wrap32 button, pbs_small_blind = tb_SmallBlind table, pbs_big_blind = tb_BigBlind table\<rparr>)"

definition Svc_startHand ::
    "('db, 'e, 'w) Service \<Rightarrow> Table \<Rightarrow> ('db, 'e, 'w) TWorld \<Rightarrow> (Table \<times> PbGameState) tres \<times> ('db, 'e, 'w) TWorld" where
  "Svc_startHand s table w =
     (let (resp, e) = sv_StartHand s (start_request table) (tw_engine w); w = w\<lparr>tw_engine := e\<rparr>
      in case resp of
          Err e \<Rightarrow> (Err (TableWrap ''start hand via engine'' e), w)
        | Panic m \<Rightarrow> (Panic m, w)
        | Ok None \<Rightarrow> (Err (Failure ''start hand via engine: empty state''), w)
        | Ok (Some state) \<Rightarrow>
            (Ok (table\<lparr>tb_ActiveHandID := pbg_id state, tb_Status := TableStatusInHand\<rparr>, state), w))"

text \<open>\<open>if table.CanAutoStart() { state, err = s.startHand(ctx, table) }\<close>\<close>

definition auto_start ::
    "('db, 'e, 'w) Service \<Rightarrow> Table \<Rightarrow> PbGameState option \<Rightarrow> ('db, 'e, 'w) TWorld
      \<Rightarrow> (Table \<times> PbGameState option) tres \<times> ('db, 'e, 'w) TWorld" where
  "auto_start s table state w =
     (if CanAutoStart table
      then and_then (Svc_startHand s table w) (\<lambda>(table, state) w. (Ok (table, Some state), w))
      else (Ok (table, state), w))"

definition reseat :: "Table \<Rightarrow> nat \<Rightarrow> string \<Rightarrow> int \<Rightarrow> Table" where
  "reseat table i playerID stack =
     table\<lparr>tb_Seats := (tb_Seats table)[i := (tb_Seats table ! i)\<lparr>st_PlayerID := playerID, st_Stack := stack\<rparr>]\<rparr>"

definition debit_join ::
    "('db, 'e, 'w) Service \<Rightarrow> Table \<Rightarrow> string \<Rightarrow> int \<Rightarrow> int \<Rightarrow> ('db, 'e, 'w) TWorld \<Rightarrow> unit tres \<times> ('db, 'e, 'w) TWorld" where
  "debit_join s table playerID seatIndex buyIn w =
     (case sv_wallet s of
        None \<Rightarrow> (Ok (), w)
      | Some wallet \<Rightarrow>
          (let (r, wl) = wc_DebitForJoin wallet playerID (tb_ID table) buyIn
                 (joinIdempotencyKey table playerID seatIndex buyIn) (tw_wallet w)
           in (r, w\<lparr>tw_wallet := wl\<rparr>)))"

text \<open>The part of \<open>JoinTable\<close> that follows the lookup of the table.\<close>

definition join_found ::
    "('db, 'e, 'w) Service \<Rightarrow> Table \<Rightarrow> string \<Rightarrow> int \<Rightarrow> int \<Rightarrow> ('db, 'e, 'w) TWorld
      \<Rightarrow> (Table \<times> PbGameState option) tres \<times> ('db, 'e, 'w) TWorld" where
  "join_found s table playerID seatIndex buyIn w =
     (if buyIn \<le> 0 then (Err ErrInvalidTableConfig, w)
      else if seatIndex < 0 \<or> seatIndex \<ge> tb_SeatCount table then (Err ErrSeatOutOfRange, w)
      else if SeatByPlayerID table playerID \<noteq> None then (Err ErrPlayerAlreadySeated, w)
      else case SeatByIndex table seatIndex of
          None \<Rightarrow> (Err ErrSeatOutOfRange, w)
        | Some i \<Rightarrow>
            if Occupied (tb_Seats table ! i) then (Err ErrSeatOccupied, w)
            else and_then (debit_join s table playerID seatIndex buyIn w) (\<lambda>_ w.
              and_then (auto_start s (reseat table i playerID buyIn) None w) (\<lambda>(table, state) w.
              and_then (save_table s table w) (\<lambda>_ w. (Ok (table, state), w)))))"

definition JoinTable ::
    "('db, 'e, 'w) Service \<Rightarrow> string \<Rightarrow> string \<Rightarrow> int \<Rightarrow> int \<Rightarrow> ('db, 'e, 'w) TWorld
      \<Rightarrow> (Table \<times> PbGameState option) tres \<times> ('db, 'e, 'w) TWorld" where
  "JoinTable s tableID playerID seatIndex buyIn w =
     and_then (sv_FindTable s tableID (tw_db w), w) (\<lambda>table w. join_found s table playerID seatIndex buyIn w)"

definition credit_cashout ::
    "('db, 'e, 'w) Service \<Rightarrow> Table \<Rightarrow> string \<Rightarrow> Seat \<Rightarrow> ('db, 'e, 'w) TWorld \<Rightarrow> unit tres \<times> ('db, 'e, 'w) TWorld" where
  "credit_cashout s table playerID seat w =
     (case sv_wallet s of
        None \<Rightarrow> (Ok (), w)
      | Some wallet \<Rightarrow>
          (let (r, wl) = wc_CreditForCashout wallet playerID (tb_ID table) (st_Stack seat)
                 (cashoutIdempotencyKey table playerID (st_Index seat) (st_Stack seat)) (tw_wallet w)
           in (r, w\<lparr>tw_wallet := wl\<rparr>)))"

definition LeaveTable ::
    "('db, 'e, 'w) Service \<Rightarrow> string \<Rightarrow> string \<Rightarrow> ('db, 'e, 'w) TWorld
      \<Rightarrow> (Table \<times> PbGameState option) tres \<times> ('db, 'e, 'w) TWorld" where
  "LeaveTable s tableID playerID w =
     and_then (sv_FindTable s tableID (tw_db w), w) (\<lambda>table w.
       if tb_Status table = TableStatusInHand then (Err ErrLeaveDuringActiveHand, w)
       else case SeatByPlayerID table playerID of
           None \<Rightarrow> (Err ErrPlayerNotSeated, w)
         | Some i \<Rightarrow>
             and_then (credit_cashout s table playerID (tb_Seats table ! i) w) (\<lambda>_ w.
               let table = reseat table i '''' 0
               in and_then (save_table s table w) (\<lambda>_ w. (Ok (table, None), w))))"

definition applyStacksFromState :: "Table \<Rightarrow> PbGameState \<Rightarrow> Table" where
  "applyStacksFromState table state =
     foldl (\<lambda>table player.
       case SeatByPlayerID table (pbp_id player) of
         None \<Rightarrow> table
       | Some i \<Rightarrow> table\<lparr>tb_Seats := (tb_Seats table)[i := (tb_Seats table ! i)\<lparr>st_Stack := pbp_stack player\<rparr>]\<rparr>)
       table (pbg_players state)"

definition unseatBustedPlayers :: "Table \<Rightarrow> Table" where
  "unseatBustedPlayers table =
     table\<lparr>tb_Seats := map (\<lambda>s. if Occupied s \<and> st_Stack s = 0 then s\<lparr>st_PlayerID := ''''\<rparr> else s) (tb_Seats table)\<rparr>"

text \<open>The table after a hand: the stacks of the engine, the busted players gone, the button moved.\<close>

definition close_hand :: "Table \<Rightarrow> PbGameState \<Rightarrow> Table" where
  "close_hand table state =
     (let table = unseatBustedPlayers (applyStacksFromState table state)
      in AdvanceButton (table\<lparr>tb_ActiveHandID := '''', tb_Status := TableStatusIdle\<rparr>))"

definition Act ::
    "('db, 'e, 'w) Service \<Rightarrow> string \<Rightarrow> string \<Rightarrow> PbActionType \<Rightarrow> int \<Rightarrow> ('db, 'e, 'w) TWorld
      \<Rightarrow> (Table \<times> PbGameState option) tres \<times> ('db, 'e, 'w) TWorld" where
  "Act s tableID playerID actionType amount w =
     and_then (sv_FindTable s tableID (tw_db w), w) (\<lambda>table w.
       if tb_ActiveHandID table = '''' then (Err ErrActiveHandRequired, w)
       else if SeatByPlayerID table playerID = None then (Err ErrSpectatorCannotAct, w)
       else let (resp, e) = sv_ApplyAction s \<lparr>pbr_hand_id = tb_ActiveHandID table,
                  pbr_action = \<lparr>pba_player_id = playerID, pba_type = actionType, pba_amount = amount\<rparr>\<rparr> (tw_engine w);
                w = w\<lparr>tw_engine := e\<rparr>
            in case resp of
                Err e \<Rightarrow> (Err (TableWrap ''apply action via engine'' e), w)
              | Panic m \<Rightarrow> (Panic m, w)
              | Ok None \<Rightarrow> (Err (Failure ''apply action via engine: empty state''), w)
              | Ok (Some state) \<Rightarrow>
                  and_then
                    (if pbg_street state = STREET_SHOWDOWN
                     then auto_start s (close_hand table state) (Some state) w
                     else (Ok (table, Some state), w)) (\<lambda>(table, state) w.
                  and_then (save_table s table w) (\<lambda>_ w. (Ok (table, state), w))))"


section \<open>What each step keeps of a table\<close>

lemma SeatByPlayerID_Some:
  "SeatByPlayerID t p = Some i \<Longrightarrow> i < length (tb_Seats t) \<and> st_PlayerID (tb_Seats t ! i) = p"
  unfolding SeatByPlayerID_def by (auto dest: first_at_Some)

lemma SeatByPlayerID_None: "SeatByPlayerID t p = None \<longleftrightarrow> (\<forall>s \<in> set (tb_Seats t). st_PlayerID s \<noteq> p)"
  by (simp add: SeatByPlayerID_def first_at_None)

lemma table_ok_seats:
  "\<lbrakk>table_ok t; length seats = length (tb_Seats t); seats_ok seats\<rbrakk> \<Longrightarrow> table_ok (t\<lparr>tb_Seats := seats\<rparr>)"
  by (simp add: table_ok_def)

lemma double_blind:
  assumes "in_int64 sb" "0 < bb" "bb = wrap64 (sb * 2)" "0 < sb"
  shows "bb = 2 * sb"
proof (cases "2 * sb < 2 ^ 63")
  case True
  then have "in_int64 (sb * 2)" using assms by (simp add: in_int64_def)
  then show ?thesis using assms by simp
next
  case False
  have "(sb * 2 + 2 ^ 63) mod 2 ^ 64 = (sb * 2 + 2 ^ 63 - 2 ^ 64) mod 2 ^ 64" by (rule minus_mod_self2 [symmetric])
  also have "\<dots> = sb * 2 + 2 ^ 63 - 2 ^ 64"
    using False assms(1) by (intro mod_pos_pos_trivial) (simp_all add: in_int64_def)
  finally have "wrap64 (sb * 2) < 0" using assms(1) by (simp add: wrap64_def in_int64_def)
  then show ?thesis using assms by simp
qed

lemma new_table_ok [tables]:
  "\<lbrakk>2 \<le> seatCount; 0 < smallBlind; bigBlind = 2 * smallBlind\<rbrakk>
    \<Longrightarrow> table_ok (new_table now name seatCount smallBlind bigBlind)"
  by (simp add: new_table_def table_ok_def seats_ok_def Occupied_def comp_def)

lemma reseat_frame [simp]:
  "tb_ID (reseat t i p c) = tb_ID t" "tb_Status (reseat t i p c) = tb_Status t"
  "tb_ActiveHandID (reseat t i p c) = tb_ActiveHandID t"
  by (simp_all add: reseat_def)

lemma reseat_ok [tables]:
  assumes t: "table_ok t" and i: "i < length (tb_Seats t)" and c: "0 \<le> c" "p = '''' \<Longrightarrow> c = 0"
    and new: "p \<noteq> '''' \<Longrightarrow> SeatByPlayerID t p = None"
  shows "table_ok (reseat t i p c)"
  unfolding reseat_def
proof (rule table_ok_seats [OF t])
  let ?s = "(tb_Seats t ! i)\<lparr>st_PlayerID := p, st_Stack := c\<rparr>"
  show "seats_ok ((tb_Seats t)[i := ?s])"
  proof (rule seats_ok_update [OF _ i])
    show "seats_ok (tb_Seats t)" using t by (simp add: table_ok_def)
    show "st_PlayerID (tb_Seats t ! j) \<noteq> st_PlayerID ?s" if "Occupied ?s" "j < length (tb_Seats t)" "j \<noteq> i" for j
      using new that by (simp add: Occupied_def SeatByPlayerID_None)
  qed (use c in \<open>auto simp: Occupied_def\<close>)
qed simp

lemma applyStacks_step:
  assumes ok: "table_ok t" and p: "pbp_id p \<noteq> ''''" "0 \<le> pbp_stack p"
    and i: "SeatByPlayerID t (pbp_id p) = Some i"
  shows "table_ok (t\<lparr>tb_Seats := (tb_Seats t)[i := (tb_Seats t ! i)\<lparr>st_Stack := pbp_stack p\<rparr>]\<rparr>)"
proof (rule table_ok_seats [OF ok])
  note s = SeatByPlayerID_Some [OF i]
  have seats: "seats_ok (tb_Seats t)" using ok by (simp add: table_ok_def)
  have occ: "Occupied (tb_Seats t ! i)" using s p by (simp add: Occupied_def)
  show "seats_ok ((tb_Seats t)[i := (tb_Seats t ! i)\<lparr>st_Stack := pbp_stack p\<rparr>])"
  proof (rule seats_ok_update [OF seats])
    show "st_PlayerID (tb_Seats t ! j) \<noteq> st_PlayerID ((tb_Seats t ! i)\<lparr>st_Stack := pbp_stack p\<rparr>)"
      if "j < length (tb_Seats t)" "j \<noteq> i" for j
      using ids_unique [OF seats, of j i] that s occ p by (cases "Occupied (tb_Seats t ! j)") (auto simp: Occupied_def)
  qed (use s p occ in \<open>auto simp: Occupied_def\<close>)
qed simp

lemma applyStacksFromState_ok [tables]:
  "\<lbrakk>table_ok t; \<forall>p \<in> set (pbg_players g). pbp_id p \<noteq> '''' \<and> 0 \<le> pbp_stack p\<rbrakk> \<Longrightarrow> table_ok (applyStacksFromState t g)"
  unfolding applyStacksFromState_def
proof (induction "pbg_players g" arbitrary: g t)
  case (Cons p ps)
  have "table_ok (case SeatByPlayerID t (pbp_id p) of None \<Rightarrow> t
      | Some i \<Rightarrow> t\<lparr>tb_Seats := (tb_Seats t)[i := (tb_Seats t ! i)\<lparr>st_Stack := pbp_stack p\<rparr>]\<rparr>)"
    using Cons.hyps(2) Cons.prems applyStacks_step [of t p] by (auto split: option.splits simp flip: Cons.hyps(2))
  moreover have "ps = pbg_players (g\<lparr>pbg_players := ps\<rparr>)" by simp
  ultimately show ?case using Cons.hyps(1) [of "g\<lparr>pbg_players := ps\<rparr>"] Cons.prems by (simp flip: Cons.hyps(2))
qed simp

lemma unseatBustedPlayers_ok [tables]:
  assumes t: "table_ok t"
  shows "table_ok (unseatBustedPlayers t)"
  unfolding unseatBustedPlayers_def
proof (rule table_ok_seats [OF t])
  let ?f = "\<lambda>s. if Occupied s \<and> st_Stack s = 0 then s\<lparr>st_PlayerID := ''''\<rparr> else s"
  have seats: "seats_ok (tb_Seats t)" using t by (simp add: table_ok_def)
  have idx: "map st_Index (map ?f (tb_Seats t)) = map st_Index (tb_Seats t)" by simp
  have "st_PlayerID (map ?f (tb_Seats t) ! i) \<noteq> st_PlayerID (map ?f (tb_Seats t) ! j)"
    if "i < length (tb_Seats t)" "j < length (tb_Seats t)" "i \<noteq> j"
      "Occupied (map ?f (tb_Seats t) ! i)" "Occupied (map ?f (tb_Seats t) ! j)" for i j
    using that ids_unique [OF seats that(1-3)] by (auto simp: Occupied_def split: if_splits)
  then have "distinct (map st_PlayerID (filter Occupied (map ?f (tb_Seats t))))"
    unfolding distinct_filter_nth length_map by blast
  moreover have "\<forall>s \<in> set (map ?f (tb_Seats t)). 0 \<le> st_Stack s \<and> (Occupied s \<or> st_Stack s = 0)"
    using seats by (auto simp: seats_ok_def Occupied_def)
  ultimately show "seats_ok (map ?f (tb_Seats t))"
    using seats idx unfolding seats_ok_def by simp
qed simp

lemma idle_ok: "table_ok t \<Longrightarrow> table_ok (t\<lparr>tb_ActiveHandID := '''', tb_Status := TableStatusIdle\<rparr>)"
  by (simp add: table_ok_def)

lemma close_hand_ok [tables]:
  assumes "table_ok t" "\<forall>p \<in> set (pbg_players g). pbp_id p \<noteq> '''' \<and> 0 \<le> pbp_stack p"
  shows "table_ok (close_hand t g)"
proof -
  have "table_ok (unseatBustedPlayers (applyStacksFromState t g))"
    using assms by (intro unseatBustedPlayers_ok applyStacksFromState_ok)
  then show ?thesis unfolding close_hand_def Let_def by (intro AdvanceButton_ok idle_ok)
qed

text \<open>The players of a request are the playable ones: named, with chips, in seat order.\<close>

lemma start_request_players:
  "p \<in> set (pbs_players (start_request t)) \<Longrightarrow> pbp_id p \<noteq> '''' \<and> 0 < pbp_stack p"
  by (auto simp: start_request_def Let_def PlayablePlayers_def playable_def Occupied_def)

section \<open>Every table stays well formed\<close>

definition world_ok ::
    "('db \<Rightarrow> string \<Rightarrow> Table option) \<Rightarrow> ('db \<Rightarrow> bool) \<Rightarrow> ('e \<Rightarrow> bool) \<Rightarrow> ('db, 'e, 'w) TWorld \<Rightarrow> bool" where
  "world_ok held valid engine_ok w \<longleftrightarrow>
     valid (tw_db w) \<and> engine_ok (tw_engine w) \<and> (\<forall>i t. held (tw_db w) i = Some t \<longrightarrow> table_ok t)"

lemma and_then_keeps:
  "\<lbrakk>I (snd p); \<And>x w. p = (Ok x, w) \<Longrightarrow> I w \<Longrightarrow> I (snd (k x w))\<rbrakk> \<Longrightarrow> I (snd (and_then p k))"
  by (cases "(p, k)" rule: and_then.cases) auto

lemma and_then_Ok: "and_then p k = (Ok y, w') \<longleftrightarrow> (\<exists>x w. p = (Ok x, w) \<and> k x w = (Ok y, w'))"
  by (cases "(p, k)" rule: and_then.cases) auto

lemma auto_start_run:
  "\<lbrakk>CanAutoStart t; sv_StartHand s (start_request t) (tw_engine w) = (x, e)\<rbrakk>
    \<Longrightarrow> auto_start s t st w =
      (case x of
         Ok (Some g) \<Rightarrow> (Ok (t\<lparr>tb_ActiveHandID := pbg_id g, tb_Status := TableStatusInHand\<rparr>, Some g), w\<lparr>tw_engine := e\<rparr>)
       | Ok None \<Rightarrow> (Err (Failure ''start hand via engine: empty state''), w\<lparr>tw_engine := e\<rparr>)
       | Err err \<Rightarrow> (Err (TableWrap ''start hand via engine'' err), w\<lparr>tw_engine := e\<rparr>)
       | Panic m \<Rightarrow> (Panic m, w\<lparr>tw_engine := e\<rparr>))"
  by (simp add: auto_start_def Svc_startHand_def Let_def split: outcome.splits option.splits)

section \<open>What each step does to the wallet\<close>

lemma and_then_wallet [simp]:
  "(\<And>y v. tw_wallet (snd (k y v)) = tw_wallet v) \<Longrightarrow> tw_wallet (snd (and_then p k)) = tw_wallet (snd p)"
  by (cases "(p, k)" rule: and_then.cases) auto

lemma start_save_wallet [simp]:
  "tw_wallet (snd (auto_start s t st w)) = tw_wallet w" "tw_wallet (snd (save_table s t w)) = tw_wallet w"
  by (auto simp: auto_start_def Svc_startHand_def save_table_def Let_def split: outcome.splits option.splits prod.splits)

lemma JoinTable_wallet:
  assumes "sv_wallet s = Some wl"
  shows "tw_wallet (snd (JoinTable s i p k c w)) = tw_wallet w
    \<or> (\<exists>t. sv_FindTable s i (tw_db w) = Ok t \<and> tw_wallet (snd (JoinTable s i p k c w))
        = snd (wc_DebitForJoin wl p (tb_ID t) c (joinIdempotencyKey t p k c) (tw_wallet w)))"
proof (cases "sv_FindTable s i (tw_db w)")
  case (Ok t)
  have "tw_wallet (snd (and_then (debit_join s t p k c w) (\<lambda>_ w. and_then (auto_start s (reseat t j p c) None w)
      (\<lambda>(t, g) w. and_then (save_table s t w) (\<lambda>_ w. (Ok (t, g), w)))))) = tw_wallet (snd (debit_join s t p k c w))" for j
    by (simp add: case_prod_beta)
  then show ?thesis using Ok assms by (auto simp: JoinTable_def join_found_def debit_join_def case_prod_beta split: option.splits)
qed (simp_all add: JoinTable_def)

lemma LeaveTable_wallet:
  assumes "sv_wallet s = Some wl"
  shows "tw_wallet (snd (LeaveTable s i p w)) = tw_wallet w
    \<or> (\<exists>t j. sv_FindTable s i (tw_db w) = Ok t \<and> SeatByPlayerID t p = Some j \<and> tw_wallet (snd (LeaveTable s i p w))
        = snd (wc_CreditForCashout wl p (tb_ID t) (st_Stack (tb_Seats t ! j))
            (cashoutIdempotencyKey t p (st_Index (tb_Seats t ! j)) (st_Stack (tb_Seats t ! j))) (tw_wallet w)))"
proof (cases "sv_FindTable s i (tw_db w)")
  case (Ok t)
  have "tw_wallet (snd (and_then (credit_cashout s t p (tb_Seats t ! j) w) (\<lambda>_ w. let table = reseat t j '''' 0
      in and_then (save_table s table w) (\<lambda>_ w. (Ok (table, None), w)))))
    = tw_wallet (snd (credit_cashout s t p (tb_Seats t ! j) w))" for j
    by (simp add: Let_def)
  then show ?thesis using Ok assms by (auto simp: LeaveTable_def credit_cashout_def case_prod_beta split: option.splits)
qed (simp_all add: LeaveTable_def)

lemma Act_wallet [simp]: "tw_wallet (snd (Act s i p a n w)) = tw_wallet w"
  unfolding Act_def by (auto simp: Let_def case_prod_beta split: outcome.splits option.splits)

lemma CreateTable_wallet [simp]: "tw_wallet (snd (CreateTable s name n sb bb w)) = tw_wallet w"
  by (auto simp: CreateTable_def Let_def split: prod.split)

text \<open>
  What the service relies on: the repository is a map of tables, and the engine keeps an invariant
  of its own under which a started hand has an identifier and every answer names its players and
  gives them no negative stack.
\<close>

locale table_service =
  table_repository "sv_FindTable s" "sv_SaveTable s" "sv_CreateTable s" held valid
  for s :: "('db, 'e, 'w) Service" and held :: "'db \<Rightarrow> string \<Rightarrow> Table option" and valid :: "'db \<Rightarrow> bool" +
  fixes engine_ok :: "'e \<Rightarrow> bool"
  assumes start_answer: "\<lbrakk>sv_StartHand s req e = (x, e'); engine_ok e;
      \<forall>p \<in> set (pbs_players req). pbp_id p \<noteq> '''' \<and> 0 \<le> pbp_stack p\<rbrakk>
      \<Longrightarrow> engine_ok e' \<and> (\<forall>g. x = Ok (Some g) \<longrightarrow> pbg_id g \<noteq> '''')"
    and act_answer: "\<lbrakk>sv_ApplyAction s act e = (y, e'); engine_ok e\<rbrakk>
      \<Longrightarrow> engine_ok e' \<and> (\<forall>g. y = Ok (Some g) \<longrightarrow> (\<forall>p \<in> set (pbg_players g). pbp_id p \<noteq> '''' \<and> 0 \<le> pbp_stack p))"
begin

abbreviation fine :: "('db, 'e, 'w) TWorld \<Rightarrow> bool" where
  "fine \<equiv> world_ok held valid engine_ok"

lemma found_ok: "\<lbrakk>fine w; sv_FindTable s i (tw_db w) = Ok t\<rbrakk> \<Longrightarrow> table_ok t"
  using lookup_held [of i "tw_db w" t] by (auto simp: world_ok_def)

lemma save_fine: "\<lbrakk>fine w; table_ok t\<rbrakk> \<Longrightarrow> fine (snd (save_table s t w))"
  using save_held [of t "tw_db w" "fst (sv_SaveTable s t (tw_db w))" "snd (sv_SaveTable s t (tw_db w))"]
  by (cases "snd (sv_SaveTable s t (tw_db w)) = tw_db w")
    (auto simp: save_table_def world_ok_def table_ok_def case_prod_beta split: if_splits)

lemma auto_start_fine:
  assumes "fine w" "table_ok t"
  shows "fine (snd (auto_start s t st w))"
    and "auto_start s t st w = (Ok (t', st'), w') \<Longrightarrow> table_ok t'"
proof -
  obtain x e where x: "sv_StartHand s (start_request t) (tw_engine w) = (x, e)" by fastforce
  have "engine_ok e \<and> (\<forall>g. x = Ok (Some g) \<longrightarrow> pbg_id g \<noteq> '''')"
    using assms(1) start_request_players by (intro start_answer [OF x]) (auto simp: world_ok_def intro: less_imp_le)
  then have e: "fine (w\<lparr>tw_engine := e\<rparr>)" "\<forall>g. x = Ok (Some g) \<longrightarrow> pbg_id g \<noteq> ''''"
    using assms(1) by (simp_all add: world_ok_def)
  show "fine (snd (auto_start s t st w))"
  proof (cases "CanAutoStart t")
    case True
    show ?thesis unfolding auto_start_run [OF True x] using e(1) by (simp split: outcome.splits option.splits)
  qed (use assms in \<open>simp add: auto_start_def\<close>)
  show "table_ok t'" if run: "auto_start s t st w = (Ok (t', st'), w')"
  proof (cases "CanAutoStart t")
    case True
    then obtain g where "x = Ok (Some g)" "t' = t\<lparr>tb_ActiveHandID := pbg_id g, tb_Status := TableStatusInHand\<rparr>"
      using run unfolding auto_start_run [OF True x] by (auto split: outcome.splits option.splits)
    then show ?thesis using assms(2) e(2) by (simp add: table_ok_def)
  qed (use assms run in \<open>simp add: auto_start_def\<close>)
qed

lemma start_and_save_fine:
  assumes "fine w" "table_ok t"
  shows "fine (snd (and_then (auto_start s t st w) (\<lambda>(t, g) w. and_then (save_table s t w) (\<lambda>_ w. (Ok (t, g), w)))))"
proof (rule and_then_keeps)
  show "fine (snd (auto_start s t st w))" by (rule auto_start_fine(1) [OF assms])
  fix x :: "Table \<times> PbGameState option" and w1 :: "('db, 'e, 'w) TWorld"
  assume run: "auto_start s t st w = (Ok x, w1)" and w1: "fine w1"
  obtain t1 g where x: "x = (t1, g)" by fastforce
  have "fine (snd (save_table s t1 w1))" using auto_start_fine(2) [OF assms] run x by (blast intro: save_fine [OF w1])
  then show "fine (snd ((\<lambda>(t, g) w. and_then (save_table s t w) (\<lambda>_ w. (Ok (t, g), w))) x w1))"
    unfolding x prod.case by (rule and_then_keeps) simp
qed

lemma wallet_calls_fine:
  "fine w \<Longrightarrow> fine (snd (debit_join s t p i c w))" "fine w \<Longrightarrow> fine (snd (credit_cashout s t p seat w))"
  by (auto simp: debit_join_def credit_cashout_def world_ok_def split: option.splits prod.splits)

lemma CreateTable_fine:
  assumes w: "fine w" and sb: "in_int64 sb"
  shows "fine (snd (CreateTable s name n sb bb w))"
proof (cases "n < 2 \<or> sb \<le> 0 \<or> bb \<le> 0 \<or> bb \<noteq> wrap64 (sb * 2)")
  case True
  then show ?thesis using w by (auto simp: CreateTable_def)
next
  case False
  let ?t = "new_table (sv_UnixNano s) name n sb bb"
  have t: "table_ok ?t" using False double_blind [OF sb, of bb] by (intro new_table_ok) auto
  then have "seats_ok (tb_Seats ?t)" by (simp add: table_ok_def)
  then show ?thesis
    using False w t create_held [of ?t "tw_db w" "fst (sv_CreateTable s ?t (tw_db w))" "snd (sv_CreateTable s ?t (tw_db w))"]
    by (cases "snd (sv_CreateTable s ?t (tw_db w)) = tw_db w")
      (auto simp: CreateTable_def Let_def world_ok_def case_prod_beta split: if_splits)
qed

lemma JoinTable_fine:
  assumes w: "fine w"
  shows "fine (snd (JoinTable s tableID p k c w))"
  unfolding JoinTable_def
proof (rule and_then_keeps)
  show "fine (snd (sv_FindTable s tableID (tw_db w), w))" using w by simp
  fix t v assume "(sv_FindTable s tableID (tw_db w), w) = (Ok t, v)"
  then have t: "table_ok t" and v: "v = w" using found_ok [OF w] by auto
  have "fine (snd (and_then (debit_join s t p k c w) (\<lambda>_ w. and_then (auto_start s (reseat t i p c) None w)
      (\<lambda>(t, g) w. and_then (save_table s t w) (\<lambda>_ w. (Ok (t, g), w))))))"
    if i: "0 < c" "SeatByPlayerID t p = None" "SeatByIndex t k = Some i" "\<not> Occupied (tb_Seats t ! i)" for i
  proof (rule and_then_keeps)
    have len: "i < length (tb_Seats t)" using first_at_Some i(3) by (auto simp: SeatByIndex_def)
    then have "p \<noteq> ''''" using i(2,4) nth_mem by (fastforce simp: SeatByPlayerID_None Occupied_def)
    then have t1: "table_ok (reseat t i p c)" using t len i by (intro reseat_ok) auto
    show "fine (snd (debit_join s t p k c w))" by (rule wallet_calls_fine(1) [OF w])
    show "fine (snd (and_then (auto_start s (reseat t i p c) None w1)
        (\<lambda>(t, g) w. and_then (save_table s t w) (\<lambda>_ w. (Ok (t, g), w)))))" if "fine w1" for w1
      using that t1 by (rule start_and_save_fine)
  qed
  then show "fine (snd (join_found s t p k c v))"
    using w unfolding v join_found_def by (auto split: option.splits)
qed

lemma LeaveTable_fine:
  assumes w: "fine w"
  shows "fine (snd (LeaveTable s tableID p w))"
  unfolding LeaveTable_def
proof (rule and_then_keeps)
  show "fine (snd (sv_FindTable s tableID (tw_db w), w))" using w by simp
  fix t v assume "(sv_FindTable s tableID (tw_db w), w) = (Ok t, v)"
  then have t: "table_ok t" and v: "v = w" using found_ok [OF w] by auto
  have "fine (snd (and_then (credit_cashout s t p (tb_Seats t ! i) w) (\<lambda>_ w. let table = reseat t i '''' 0
      in and_then (save_table s table w) (\<lambda>_ w. (Ok (table, None), w)))))"
    if i: "SeatByPlayerID t p = Some i" for i
  proof (rule and_then_keeps)
    have t1: "table_ok (reseat t i '''' 0)" using t SeatByPlayerID_Some [OF i] by (intro reseat_ok) auto
    show "fine (snd (credit_cashout s t p (tb_Seats t ! i) w))" by (rule wallet_calls_fine(2) [OF w])
    show "fine (snd (let table = reseat t i '''' 0 in and_then (save_table s table w1) (\<lambda>_ w. (Ok (table, None), w))))"
      if "fine w1" for w1
      unfolding Let_def by (rule and_then_keeps [where I = fine, OF save_fine [OF that t1]]) simp
  qed
  then show "fine (snd (if tb_Status t = TableStatusInHand then (Err ErrLeaveDuringActiveHand, v)
      else case SeatByPlayerID t p of None \<Rightarrow> (Err ErrPlayerNotSeated, v)
        | Some i \<Rightarrow> and_then (credit_cashout s t p (tb_Seats t ! i) v) (\<lambda>_ w. let table = reseat t i '''' 0
            in and_then (save_table s table w) (\<lambda>_ w. (Ok (table, None), w)))))"
    using w unfolding v by (auto split: option.splits)
qed

lemma Act_fine:
  assumes w: "fine w"
  shows "fine (snd (Act s tableID p a n w))"
proof (cases "sv_FindTable s tableID (tw_db w)")
  case (Ok t)
  let ?req = "\<lparr>pbr_hand_id = tb_ActiveHandID t, pbr_action = \<lparr>pba_player_id = p, pba_type = a, pba_amount = n\<rparr>\<rparr>"
  obtain x e where x: "sv_ApplyAction s ?req (tw_engine w) = (x, e)" by fastforce
  have t: "table_ok t" by (rule found_ok [OF w Ok])
  have ans: "engine_ok e \<and> (\<forall>g. x = Ok (Some g) \<longrightarrow> (\<forall>p \<in> set (pbg_players g). pbp_id p \<noteq> '''' \<and> 0 \<le> pbp_stack p))"
    using w by (intro act_answer [OF x]) (simp add: world_ok_def)
  then have w1: "fine (w\<lparr>tw_engine := e\<rparr>)" using w by (simp add: world_ok_def)
  have go: "fine (snd (and_then (if pbg_street g = STREET_SHOWDOWN then auto_start s (close_hand t g) (Some g) (w\<lparr>tw_engine := e\<rparr>)
        else (Ok (t, Some g), w\<lparr>tw_engine := e\<rparr>))
      (\<lambda>(t, g) w. and_then (save_table s t w) (\<lambda>_ w. (Ok (t, g), w)))))" if g: "x = Ok (Some g)" for g
  proof (cases "pbg_street g = STREET_SHOWDOWN")
    case True
    have "table_ok (close_hand t g)" using ans g by (intro close_hand_ok [OF t]) blast
    then show ?thesis unfolding if_P [OF True] by (rule start_and_save_fine [OF w1])
  next
    case False
    show ?thesis unfolding if_not_P [OF False] and_then.simps prod.case
      by (rule and_then_keeps [where I = fine, OF save_fine [OF w1 t]]) simp
  qed
  show ?thesis
    using Ok w w1 go x by (auto simp: Act_def Let_def split: outcome.splits option.splits)
qed (use w in \<open>simp_all add: Act_def\<close>)

end

end
