(* ===== verification/Tokens.thy ===== *)
theory Tokens
  imports Base64
begin

text \<open>
  Access tokens across three services: the auth service issues and publishes keys
  (\<open>auth-service/internal/security/token.go\<close>), the wallet and the table manager verify
  (\<open>wallet-service/internal/auth/jwt.go\<close>, \<open>table-manager/internal/delivery/grpc/auth.go\<close>), each with a
  cache of the published keys.

  SHA-256, RSA and the JSON encodings of the header and the claims are functions of the
  environment. Keys are a modulus and an exponent; times are nanoseconds since the epoch.
\<close>

section \<open>Strings and numbers\<close>

text \<open>\<open>strings.Split(s, sep)\<close> for a separator of one byte.\<close>

fun Split :: "char \<Rightarrow> string \<Rightarrow> string list" where
  "Split c [] = [[]]"
| "Split c (x # s) =
     (if x = c then [] # Split c s else (case Split c s of p # ps \<Rightarrow> (x # p) # ps | [] \<Rightarrow> [[x]]))"

text \<open>\<open>big.Int\<close>'s \<open>SetBytes\<close> and \<open>Bytes\<close>: big-endian, without leading zeros.\<close>

definition SetBytes :: "string \<Rightarrow> nat" where
  "SetBytes bs = foldl (\<lambda>n b. n * 256 + of_char b) 0 bs"

fun Bytes :: "nat \<Rightarrow> string" where
  "Bytes n = (if n = 0 then [] else Bytes (n div 256) @ [char_of (n mod 256)])"

declare Bytes.simps [simp del]

section \<open>Keys, claims and cryptography\<close>

record PublicKey =
  pk_N :: nat
  pk_E :: int

record JWK =
  jw_Kty :: string
  jw_Use :: string
  jw_Kid :: string
  jw_Alg :: string
  jw_N :: string
  jw_E :: string

record TokenHeader =
  th_Alg :: string
  th_Kid :: string

record TokenClaims =
  tc_Iss :: string
  tc_Sub :: string
  tc_IsAdmin :: bool
  tc_Iat :: int
  tc_Exp :: int

record Crypto =
  cr_sha256 :: "string \<Rightarrow> string"
  cr_Sign :: "string \<Rightarrow> string option"
  cr_Verify :: "PublicKey \<Rightarrow> string \<Rightarrow> string \<Rightarrow> bool"
  cr_MarshalHeader :: "TokenHeader \<Rightarrow> string option"
  cr_MarshalClaims :: "TokenClaims \<Rightarrow> string option"
  cr_UnmarshalHeader :: "string \<Rightarrow> TokenHeader option"
  cr_UnmarshalClaims :: "string \<Rightarrow> TokenClaims option"

definition Unix :: "int \<Rightarrow> int" where
  "Unix now = now div 1000000000"

section \<open>The auth service: issuing\<close>

record TokenManager =
  tm_issuer :: string
  tm_keyID :: string
  tm_accessTTL :: int
  tm_refreshTTL :: int
  tm_publicKey :: PublicKey

datatype token_err = ErrUnauthenticated | ErrInvalidToken | ErrToken string

definition encodeSegment :: "string \<Rightarrow> string" where
  "encodeSegment data = EncodeToString data"

definition decodeSegment :: "string \<Rightarrow> string option" where
  "decodeSegment value = DecodeString value"

definition signingInput :: "string \<Rightarrow> string \<Rightarrow> string" where
  "signingInput headerJSON claimsJSON = encodeSegment headerJSON @ ''.'' @ encodeSegment claimsJSON"

definition IssueAccessToken ::
    "Crypto \<Rightarrow> TokenManager \<Rightarrow> int \<Rightarrow> string \<Rightarrow> bool \<Rightarrow> (token_err, string) outcome" where
  "IssueAccessToken cr m now userID isAdmin =
     (let claims = \<lparr>tc_Iss = tm_issuer m, tc_Sub = userID, tc_IsAdmin = isAdmin, tc_Iat = Unix now,
            tc_Exp = Unix (now + tm_accessTTL m)\<rparr>;
          header = \<lparr>th_Alg = ''RS256'', th_Kid = tm_keyID m\<rparr>
      in case cr_MarshalHeader cr header of
          None \<Rightarrow> Err (ErrToken ''marshal header'')
        | Some headerJSON \<Rightarrow>
            (case cr_MarshalClaims cr claims of
               None \<Rightarrow> Err (ErrToken ''marshal claims'')
             | Some claimsJSON \<Rightarrow>
                 (let input = signingInput headerJSON claimsJSON
                  in case cr_Sign cr (cr_sha256 cr input) of
                      None \<Rightarrow> Err (ErrToken ''sign token'')
                    | Some signature \<Rightarrow> Ok (input @ ''.'' @ encodeSegment signature))))"

definition VerifyTokenWithKey ::
    "Crypto \<Rightarrow> int \<Rightarrow> string \<Rightarrow> string \<Rightarrow> PublicKey \<Rightarrow> (token_err, TokenClaims) outcome" where
  "VerifyTokenWithKey cr now token issuer publicKey =
     (case Split CHR ''.'' token of
        [p0, p1, p2] \<Rightarrow>
          (case decodeSegment p0 of None \<Rightarrow> Err (ErrToken ''decode header'') | Some headerData \<Rightarrow>
          (case cr_UnmarshalHeader cr headerData of None \<Rightarrow> Err (ErrToken ''unmarshal header'') | Some header \<Rightarrow>
           if th_Alg header \<noteq> ''RS256'' then Err (ErrToken ''unsupported alg'') else
          (case decodeSegment p1 of None \<Rightarrow> Err (ErrToken ''decode claims'') | Some claimsData \<Rightarrow>
          (case cr_UnmarshalClaims cr claimsData of None \<Rightarrow> Err (ErrToken ''unmarshal claims'') | Some claims \<Rightarrow>
           if tc_Iss claims \<noteq> issuer then Err (ErrToken ''invalid issuer'')
           else if tc_Exp claims < Unix now then Err (ErrToken ''token expired'') else
          (case decodeSegment p2 of None \<Rightarrow> Err (ErrToken ''decode signature'') | Some signature \<Rightarrow>
           if \<not> cr_Verify cr publicKey (cr_sha256 cr (p0 @ ''.'' @ p1)) signature then Err (ErrToken ''verify token'')
           else Ok claims)))))
      | _ \<Rightarrow> Err (ErrToken ''token must have 3 segments''))"

definition ParseAccessToken :: "Crypto \<Rightarrow> TokenManager \<Rightarrow> int \<Rightarrow> string \<Rightarrow> (token_err, TokenClaims) outcome" where
  "ParseAccessToken cr m now token = VerifyTokenWithKey cr now token (tm_issuer m) (tm_publicKey m)"

definition encodeBigInt :: "nat \<Rightarrow> string" where
  "encodeBigInt value = EncodeToString (Bytes value)"

definition JWKS :: "TokenManager \<Rightarrow> JWK list" where
  "JWKS m = [\<lparr>jw_Kty = ''RSA'', jw_Use = ''sig'', jw_Kid = tm_keyID m, jw_Alg = ''RS256'',
     jw_N = encodeBigInt (pk_N (tm_publicKey m)), jw_E = encodeBigInt (nat (abs (pk_E (tm_publicKey m))))\<rparr>]"

text \<open>A refresh token is 32 random bytes; only its hash is stored.\<close>

definition HashRefreshToken :: "Crypto \<Rightarrow> string \<Rightarrow> string" where
  "HashRefreshToken cr token = EncodeToString (cr_sha256 cr token)"

definition NewRefreshToken ::
    "Crypto \<Rightarrow> TokenManager \<Rightarrow> int \<Rightarrow> string option \<Rightarrow> (token_err, string \<times> string \<times> int) outcome" where
  "NewRefreshToken cr m now rand =
     (case rand of
        None \<Rightarrow> Err (ErrToken ''generate refresh token'')
      | Some raw \<Rightarrow>
          (let token = EncodeToString raw
           in Ok (token, EncodeToString (cr_sha256 cr token), now + tm_refreshTTL m)))"

section \<open>The verifying services: the key cache\<close>

record Validator =
  v_issuer :: string
  v_keys :: "(string, PublicKey) gomap"
  v_fetchedAt :: "int option"

text \<open>The exponent is accumulated in a 64-bit integer.\<close>

definition publicKeyFromJWK :: "JWK \<Rightarrow> PublicKey option" where
  "publicKeyFromJWK key =
     (case decodeSegment (jw_N key) of None \<Rightarrow> None | Some modulusBytes \<Rightarrow>
     (case decodeSegment (jw_E key) of None \<Rightarrow> None | Some exponentBytes \<Rightarrow>
       (let exponent = foldl (\<lambda>e b. wrap64 (wrap64 (e * 256) + int (of_char b))) 0 exponentBytes
        in if exponent = 0 then None else Some \<lparr>pk_N = SetBytes modulusBytes, pk_E = exponent\<rparr>)))"

fun collect_keys :: "JWK list \<Rightarrow> (string, PublicKey) gomap \<Rightarrow> (string, PublicKey) gomap option" where
  "collect_keys [] keys = Some keys"
| "collect_keys (key # rest) keys =
     (if jw_Kty key \<noteq> ''RSA'' \<or> jw_Alg key \<noteq> ''RS256'' \<or> jw_Kid key = '''' then collect_keys rest keys
      else case publicKeyFromJWK key of
          None \<Rightarrow> None
        | Some k \<Rightarrow> collect_keys rest (AList.update (jw_Kid key) k keys))"

text \<open>What the key endpoint answers: no response, a status, or a document.\<close>

datatype JwksAnswer = NoResponse | Status int | BadDocument | Document "JWK list"

definition refreshKeys :: "int \<Rightarrow> JwksAnswer \<Rightarrow> Validator \<Rightarrow> bool \<times> Validator" where
  "refreshKeys now answer v =
     (case answer of
        Document doc \<Rightarrow>
          (case collect_keys doc [] of
             None \<Rightarrow> (False, v)
           | Some keys \<Rightarrow> (True, v\<lparr>v_keys := keys, v_fetchedAt := Some now\<rparr>))
      | _ \<Rightarrow> (False, v))"

definition keyFor :: "int \<Rightarrow> JwksAnswer \<Rightarrow> string \<Rightarrow> Validator \<Rightarrow> PublicKey option \<times> Validator" where
  "keyFor now answer kid v =
     (let key = map_of (v_keys v) kid;
          needsRefresh = (case v_fetchedAt v of None \<Rightarrow> True | Some t \<Rightarrow> now - t > 5 * 60 * 1000000000)
      in if key \<noteq> None \<and> \<not> needsRefresh then (key, v)
         else let (refreshed, v) = refreshKeys now answer v
              in if \<not> refreshed then (key, v) else (map_of (v_keys v) kid, v))"

section \<open>The verifying services: tokens\<close>

text \<open>The table manager's \<open>verifyToken\<close>; the key is looked up after the claims are checked.\<close>

definition verifyToken ::
    "Crypto \<Rightarrow> int \<Rightarrow> JwksAnswer \<Rightarrow> string \<Rightarrow> Validator \<Rightarrow> (token_err, TokenClaims) outcome \<times> Validator" where
  "verifyToken cr now answer token v =
     (case Split CHR ''.'' token of
        [p0, p1, p2] \<Rightarrow>
          (case decodeSegment p0 of None \<Rightarrow> (Err ErrInvalidToken, v) | Some headerData \<Rightarrow>
          (case cr_UnmarshalHeader cr headerData of None \<Rightarrow> (Err ErrInvalidToken, v) | Some header \<Rightarrow>
           if th_Alg header \<noteq> ''RS256'' \<or> th_Kid header = '''' then (Err ErrInvalidToken, v) else
          (case decodeSegment p1 of None \<Rightarrow> (Err ErrInvalidToken, v) | Some claimsData \<Rightarrow>
          (case cr_UnmarshalClaims cr claimsData of None \<Rightarrow> (Err ErrInvalidToken, v) | Some claims \<Rightarrow>
           if tc_Iss claims \<noteq> v_issuer v \<or> tc_Sub claims = '''' \<or> tc_Exp claims < Unix now then (Err ErrInvalidToken, v) else
          (case keyFor now answer (th_Kid header) v of (None, v) \<Rightarrow> (Err ErrInvalidToken, v) | (Some key, v) \<Rightarrow>
          (case decodeSegment p2 of None \<Rightarrow> (Err ErrInvalidToken, v) | Some signature \<Rightarrow>
           if \<not> cr_Verify cr key (cr_sha256 cr (p0 @ ''.'' @ p1)) signature then (Err ErrInvalidToken, v)
           else (Ok claims, v)))))))
      | _ \<Rightarrow> (Err ErrInvalidToken, v))"

record WalletClaims =
  wc_UserID :: string
  wc_IsAdmin :: bool

text \<open>The wallet's \<open>verify\<close>.\<close>

definition wallet_verify ::
    "Crypto \<Rightarrow> int \<Rightarrow> JwksAnswer \<Rightarrow> string \<Rightarrow> Validator \<Rightarrow> (token_err, WalletClaims) outcome \<times> Validator" where
  "wallet_verify cr now answer token v =
     (case Split CHR ''.'' token of
        [p0, p1, p2] \<Rightarrow>
          (case decodeSegment p0 of None \<Rightarrow> (Err ErrUnauthenticated, v) | Some headerData \<Rightarrow>
          (case cr_UnmarshalHeader cr headerData of None \<Rightarrow> (Err ErrUnauthenticated, v) | Some header \<Rightarrow>
           if th_Alg header \<noteq> ''RS256'' \<or> th_Kid header = '''' then (Err ErrUnauthenticated, v) else
          (case decodeSegment p1 of None \<Rightarrow> (Err ErrUnauthenticated, v) | Some claimsData \<Rightarrow>
          (case cr_UnmarshalClaims cr claimsData of None \<Rightarrow> (Err ErrUnauthenticated, v) | Some parsed \<Rightarrow>
           if tc_Iss parsed \<noteq> v_issuer v \<or> tc_Sub parsed = '''' \<or> tc_Exp parsed < Unix now then (Err ErrUnauthenticated, v) else
          (case keyFor now answer (th_Kid header) v of (None, v) \<Rightarrow> (Err ErrUnauthenticated, v) | (Some key, v) \<Rightarrow>
          (case decodeSegment p2 of None \<Rightarrow> (Err ErrUnauthenticated, v) | Some signature \<Rightarrow>
           if \<not> cr_Verify cr key (cr_sha256 cr (p0 @ ''.'' @ p1)) signature then (Err ErrUnauthenticated, v)
           else (Ok \<lparr>wc_UserID = tc_Sub parsed, wc_IsAdmin = tc_IsAdmin parsed\<rparr>, v)))))))
      | _ \<Rightarrow> (Err ErrUnauthenticated, v))"

definition bearerToken :: "string \<Rightarrow> string" where
  "bearerToken header = (if \<not> HasPrefix header ''Bearer '' then '''' else TrimSpace (drop 7 header))"

definition wallet_AuthenticateRequest ::
    "Crypto \<Rightarrow> int \<Rightarrow> JwksAnswer \<Rightarrow> string \<Rightarrow> Validator \<Rightarrow> (token_err, WalletClaims) outcome \<times> Validator" where
  "wallet_AuthenticateRequest cr now answer authorization v =
     (let token = bearerToken authorization
      in if token = '''' then (Err ErrUnauthenticated, v) else wallet_verify cr now answer token v)"


section \<open>Segments and key material\<close>

lemma Split_nonempty [simp]: "Split c s \<noteq> []"
  by (induction s) (auto split: list.splits)

lemma Split_single: "c \<notin> set s \<Longrightarrow> Split c s = [s]"
  by (induction s) auto

lemma Split_append: "c \<notin> set s \<Longrightarrow> Split c (s @ c # t) = s # Split c t"
  by (induction s) auto

lemma Split_parts: "p \<in> set (Split c s) \<Longrightarrow> c \<notin> set p"
  by (induction s arbitrary: p) (auto split: list.splits if_splits)

lemma Split_two: "Split c s = [p] \<Longrightarrow> s = p"
  by (induction s arbitrary: p) (auto split: list.splits if_splits)

lemma Split_Cons: "Split c s = p # q # ps \<Longrightarrow> \<exists>t. s = p @ c # t \<and> Split c t = q # ps"
proof (induction s arbitrary: p)
  case (Cons x s)
  show ?case
  proof (cases "x = c")
    case True
    then show ?thesis using Cons.prems by auto
  next
    case False
    then obtain p' where "Split c s = p' # q # ps" "p = x # p'"
      using Cons.prems by (auto split: list.splits)
    then show ?thesis using Cons.IH by fastforce
  qed
qed simp

lemma Split_three: "Split c s = [p, q, r] \<longleftrightarrow> s = p @ c # q @ c # r \<and> c \<notin> set p \<and> c \<notin> set q \<and> c \<notin> set r"
proof
  assume split: "Split c s = [p, q, r]"
  then obtain t where t: "s = p @ c # t" "Split c t = [q, r]" using Split_Cons by blast
  then obtain t' where t': "t = q @ c # t'" "Split c t' = [r]" using Split_Cons by blast
  have "t' = r" using t'(2) by (rule Split_two)
  moreover have "x \<in> set [p, q, r] \<Longrightarrow> c \<notin> set x" for x using Split_parts [of x c s] unfolding split .
  ultimately show "s = p @ c # q @ c # r \<and> c \<notin> set p \<and> c \<notin> set q \<and> c \<notin> set r" using t t' by simp
qed (simp add: Split_append Split_single)

lemma no_dot [simp]: "CHR ''.'' \<notin> set (EncodeToString s)"
  using EncodeToString_alphabet [of s] by (auto simp: alphabet_def)

lemma segments [simp]: "decodeSegment (encodeSegment s) = Some s" "CHR ''.'' \<notin> set (encodeSegment s)"
  by (simp_all add: decodeSegment_def encodeSegment_def)

lemma SetBytes_snoc: "SetBytes (bs @ [b]) = SetBytes bs * 256 + of_char b"
  by (simp add: SetBytes_def)

lemma SetBytes_Bytes [simp]: "SetBytes (Bytes n) = n"
proof (induction n rule: less_induct)
  case (less n)
  show ?case
  proof (cases "n = 0")
    case True
    then show ?thesis by (simp add: Bytes.simps SetBytes_def)
  next
    case False
    then have "SetBytes (Bytes (n div 256)) = n div 256" by (intro less) simp
    then show ?thesis using False by (subst Bytes.simps) (simp add: SetBytes_snoc)
  qed
qed

lemma exponent_fold:
  "n < 2 ^ 63 \<Longrightarrow> foldl (\<lambda>e b. wrap64 (wrap64 (e * 256) + int (of_char b))) 0 (Bytes n) = int n"
proof (induction n rule: less_induct)
  case (less n)
  show ?case
  proof (cases "n = 0")
    case True
    then show ?thesis by (simp add: Bytes.simps)
  next
    case False
    have "foldl (\<lambda>e b. wrap64 (wrap64 (e * 256) + int (of_char b))) 0 (Bytes (n div 256)) = int (n div 256)"
      using False less.prems by (intro less.IH) (auto intro: le_less_trans [OF div_le_dividend])
    moreover have "in_int64 (int (n div 256) * 256)" "in_int64 (int n)"
      using less.prems by (auto simp: in_int64_def intro: le_less_trans)
    moreover have "int (n div 256) * 256 + int (n mod 256) = int n"
      by (metis div_mult_mod_eq of_nat_add of_nat_mult of_nat_numeral)
    ultimately show ?thesis using False by (subst Bytes.simps) simp
  qed
qed

text \<open>A published key is read back as the key it was.\<close>

definition sound_key :: "PublicKey \<Rightarrow> bool" where
  "sound_key k \<longleftrightarrow> 0 < pk_E k \<and> pk_E k < 2 ^ 63"

lemma publicKeyFromJWK_JWKS:
  assumes "sound_key (tm_publicKey m)"
  shows "map publicKeyFromJWK (JWKS m) = [Some (tm_publicKey m)]"
proof -
  have "foldl (\<lambda>e b. wrap64 (wrap64 (e * 256) + int (of_char b))) 0 (Bytes (nat (pk_E (tm_publicKey m)))) = pk_E (tm_publicKey m)"
    using exponent_fold [of "nat (pk_E (tm_publicKey m))"] assms by (simp add: sound_key_def nat_less_iff)
  then show ?thesis
    using assms by (simp add: publicKeyFromJWK_def JWKS_def encodeBigInt_def decodeSegment_def sound_key_def)
qed

lemma collect_JWKS:
  "\<lbrakk>sound_key (tm_publicKey m); tm_keyID m \<noteq> ''''\<rbrakk> \<Longrightarrow> collect_keys (JWKS m) [] = Some [(tm_keyID m, tm_publicKey m)]"
  using publicKeyFromJWK_JWKS [of m] by (simp add: JWKS_def)


section \<open>Issued tokens and accepted tokens\<close>

definition access_claims :: "TokenManager \<Rightarrow> int \<Rightarrow> string \<Rightarrow> bool \<Rightarrow> TokenClaims" where
  "access_claims m now u adm = \<lparr>tc_Iss = tm_issuer m, tc_Sub = u, tc_IsAdmin = adm, tc_Iat = Unix now,
     tc_Exp = Unix (now + tm_accessTTL m)\<rparr>"

text \<open>The string that is signed for a user.\<close>

definition signed_input :: "Crypto \<Rightarrow> TokenManager \<Rightarrow> int \<Rightarrow> string \<Rightarrow> bool \<Rightarrow> string option" where
  "signed_input cr m now u adm =
     (case cr_MarshalHeader cr \<lparr>th_Alg = ''RS256'', th_Kid = tm_keyID m\<rparr> of None \<Rightarrow> None | Some h \<Rightarrow>
     (case cr_MarshalClaims cr (access_claims m now u adm) of None \<Rightarrow> None | Some c \<Rightarrow> Some (signingInput h c)))"

text \<open>What is documented of the encoders and of RSA: decoding inverts encoding, and a signature verifies.\<close>

definition sound_crypto :: "Crypto \<Rightarrow> PublicKey \<Rightarrow> bool" where
  "sound_crypto cr pub \<longleftrightarrow>
     (\<forall>h j. cr_MarshalHeader cr h = Some j \<longrightarrow> cr_UnmarshalHeader cr j = Some h)
     \<and> (\<forall>c j. cr_MarshalClaims cr c = Some j \<longrightarrow> cr_UnmarshalClaims cr j = Some c)
     \<and> (\<forall>h s. cr_Sign cr h = Some s \<longrightarrow> cr_Verify cr pub h s)"

text \<open>A signature that verifies was made for one of the tokens issued so far.\<close>

definition unforgeable :: "Crypto \<Rightarrow> TokenManager \<Rightarrow> (int \<times> string \<times> bool) set \<Rightarrow> bool" where
  "unforgeable cr m issued \<longleftrightarrow>
     (\<forall>i s. cr_Verify cr (tm_publicKey m) (cr_sha256 cr i) s \<longrightarrow> (\<exists>(t, u, adm) \<in> issued. signed_input cr m t u adm = Some i))"

text \<open>A validator that has fetched no other key than the manager's.\<close>

definition trusts :: "TokenManager \<Rightarrow> Validator \<Rightarrow> bool" where
  "trusts m v \<longleftrightarrow> v_issuer v = tm_issuer m \<and> set (v_keys v) \<subseteq> {(tm_keyID m, tm_publicKey m)}"

definition publishes :: "TokenManager \<Rightarrow> JwksAnswer \<Rightarrow> bool" where
  "publishes m answer \<longleftrightarrow> (\<forall>doc. answer = Document doc \<longrightarrow> doc = JWKS m)"

lemma trusted_key: "\<lbrakk>trusts m v; map_of (v_keys v) kid = Some k\<rbrakk> \<Longrightarrow> kid = tm_keyID m \<and> k = tm_publicKey m"
  by (auto simp: trusts_def dest!: map_of_SomeD)

lemma refreshKeys_trusts:
  assumes "trusts m v" "publishes m answer" "sound_key (tm_publicKey m)" "tm_keyID m \<noteq> ''''"
    and run: "refreshKeys now answer v = (b, v')"
  shows "trusts m v'" "b \<Longrightarrow> map_of (v_keys v') (tm_keyID m) = Some (tm_publicKey m)"
    "answer = Document (JWKS m) \<Longrightarrow> b"
  using assms collect_JWKS [OF assms(3,4)]
  by (auto simp: refreshKeys_def publishes_def trusts_def split: JwksAnswer.splits option.splits)

lemma keyFor_trusts:
  assumes m: "trusts m v" "publishes m answer" "sound_key (tm_publicKey m)" "tm_keyID m \<noteq> ''''"
    and run: "keyFor now answer kid v = (k, v')"
  shows "trusts m v'" "k = None \<or> k = Some (tm_publicKey m)"
    "\<lbrakk>answer = Document (JWKS m); kid = tm_keyID m\<rbrakk> \<Longrightarrow> k = Some (tm_publicKey m)"
proof -
  obtain b v1 where r: "refreshKeys now answer v = (b, v1)" by fastforce
  note rf = refreshKeys_trusts [OF m r]
  have k: "map_of (v_keys x) kid = None \<or> map_of (v_keys x) kid = Some (tm_publicKey m)" if "trusts m x" for x
    using trusted_key [OF that, of kid] by (cases "map_of (v_keys x) kid") auto
  have k': "map_of (v_keys v) kid = Some y \<Longrightarrow> y = tm_publicKey m" for y using trusted_key [OF m(1)] by blast
  have same: "\<not> b \<Longrightarrow> v1 = v" using r by (auto simp: refreshKeys_def split: JwksAnswer.splits option.splits)
  show "trusts m v'" using run r rf(1) m(1) by (auto simp: keyFor_def Let_def split: if_splits)
  show "k = None \<or> k = Some (tm_publicKey m)"
    using run r k [OF m(1)] k [OF rf(1)] by (auto simp: keyFor_def Let_def split: if_splits)
  show "k = Some (tm_publicKey m)" if "answer = Document (JWKS m)" "kid = tm_keyID m"
    using run r rf(2,3) k' that by (auto simp: keyFor_def Let_def split: if_splits)
qed

text \<open>The two services accept the same tokens.\<close>

lemma wallet_verify_alt:
  "wallet_verify cr now answer token v =
     (case verifyToken cr now answer token v of
        (Ok c, v') \<Rightarrow> (Ok \<lparr>wc_UserID = tc_Sub c, wc_IsAdmin = tc_IsAdmin c\<rparr>, v')
      | (Err e, v') \<Rightarrow> (Err ErrUnauthenticated, v') | (Panic m, v') \<Rightarrow> (Panic m, v'))"
  by (simp add: wallet_verify_def verifyToken_def split: list.split option.split prod.split)

lemma verifyToken_Ok:
  assumes "verifyToken cr now answer token v = (Ok c, v')"
  obtains p0 p1 p2 hd header cd sg key where "Split CHR ''.'' token = [p0, p1, p2]"
    "decodeSegment p0 = Some hd" "cr_UnmarshalHeader cr hd = Some header" "th_Alg header = ''RS256''"
    "decodeSegment p1 = Some cd" "cr_UnmarshalClaims cr cd = Some c"
    "tc_Iss c = v_issuer v" "tc_Sub c \<noteq> ''''" "Unix now \<le> tc_Exp c"
    "keyFor now answer (th_Kid header) v = (Some key, v')" "decodeSegment p2 = Some sg"
    "cr_Verify cr key (cr_sha256 cr (p0 @ ''.'' @ p1)) sg"
  using assms that by (auto simp: verifyToken_def not_less split: list.splits option.splits prod.splits if_splits)

lemma IssueAccessToken_Ok:
  assumes "IssueAccessToken cr m now u adm = Ok token"
  obtains h c s where "cr_MarshalHeader cr \<lparr>th_Alg = ''RS256'', th_Kid = tm_keyID m\<rparr> = Some h"
    "cr_MarshalClaims cr (access_claims m now u adm) = Some c"
    "cr_Sign cr (cr_sha256 cr (signingInput h c)) = Some s"
    "token = signingInput h c @ ''.'' @ encodeSegment s"
  using assms that by (auto simp: IssueAccessToken_def access_claims_def Let_def split: option.splits)

lemma issued_parts:
  assumes cr: "sound_crypto cr (tm_publicKey m)" and issued: "IssueAccessToken cr m now u adm = Ok token"
  obtains p0 p1 p2 hd cd sg where "Split CHR ''.'' token = [p0, p1, p2]" "decodeSegment p0 = Some hd"
    "cr_UnmarshalHeader cr hd = Some \<lparr>th_Alg = ''RS256'', th_Kid = tm_keyID m\<rparr>" "decodeSegment p1 = Some cd"
    "cr_UnmarshalClaims cr cd = Some (access_claims m now u adm)" "decodeSegment p2 = Some sg"
    "cr_Verify cr (tm_publicKey m) (cr_sha256 cr (p0 @ ''.'' @ p1)) sg"
proof (rule IssueAccessToken_Ok [OF issued])
  fix h c s
  assume "cr_MarshalHeader cr \<lparr>th_Alg = ''RS256'', th_Kid = tm_keyID m\<rparr> = Some h"
      "cr_MarshalClaims cr (access_claims m now u adm) = Some c"
      "cr_Sign cr (cr_sha256 cr (signingInput h c)) = Some s" "token = signingInput h c @ ''.'' @ encodeSegment s"
  then show thesis
    using cr by (intro that [of "encodeSegment h" "encodeSegment c" "encodeSegment s" h c s])
      (simp_all add: sound_crypto_def signingInput_def Split_three)
qed

lemma issued_verifies:
  assumes cr: "sound_crypto cr (tm_publicKey m)" and key: "sound_key (tm_publicKey m)" "tm_keyID m \<noteq> ''''"
    and v: "trusts m v" and issued: "IssueAccessToken cr m now u adm = Ok token" and u: "u \<noteq> ''''"
    and time: "Unix later \<le> Unix (now + tm_accessTTL m)"
  shows "fst (verifyToken cr later (Document (JWKS m)) token v) = Ok (access_claims m now u adm)"
proof (rule issued_parts [OF cr issued])
  fix p0 p1 p2 hd cd sg
  assume parts: "Split CHR ''.'' token = [p0, p1, p2]" "decodeSegment p0 = Some hd"
    "cr_UnmarshalHeader cr hd = Some \<lparr>th_Alg = ''RS256'', th_Kid = tm_keyID m\<rparr>" "decodeSegment p1 = Some cd"
    "cr_UnmarshalClaims cr cd = Some (access_claims m now u adm)" "decodeSegment p2 = Some sg"
    "cr_Verify cr (tm_publicKey m) (cr_sha256 cr (p0 @ ''.'' @ p1)) sg"
  obtain k v' where k: "keyFor later (Document (JWKS m)) (tm_keyID m) v = (k, v')" by fastforce
  have "k = Some (tm_publicKey m)" using keyFor_trusts(3) [OF v _ key k] by (simp add: publishes_def)
  then show ?thesis
    using parts k u time v key by (simp add: verifyToken_def access_claims_def trusts_def)
qed

lemma issued_parses:
  assumes cr: "sound_crypto cr (tm_publicKey m)" and issued: "IssueAccessToken cr m now u adm = Ok token"
    and time: "Unix later \<le> Unix (now + tm_accessTTL m)"
  shows "ParseAccessToken cr m later token = Ok (access_claims m now u adm)"
  by (rule issued_parts [OF cr issued]) (use time in \<open>simp add: ParseAccessToken_def VerifyTokenWithKey_def access_claims_def\<close>)

text \<open>
  C27: A token that the auth service issued is accepted by all three services until it expires, and
  they read from it the user and the admin flag it was issued for. The wallet and the table
  manager take the key from the auth service's published keys, whether their cache was empty or
  already held that key, and however old it is.
\<close>

theorem issued_token_is_accepted:
  assumes "sound_crypto cr (tm_publicKey m)" "sound_key (tm_publicKey m)" "tm_keyID m \<noteq> ''''"
    and "trusts m v" "IssueAccessToken cr m now u adm = Ok token" "u \<noteq> ''''"
    and "Unix later \<le> Unix (now + tm_accessTTL m)"
  shows "fst (verifyToken cr later (Document (JWKS m)) token v) = Ok (access_claims m now u adm)
    \<and> fst (wallet_verify cr later (Document (JWKS m)) token v) = Ok \<lparr>wc_UserID = u, wc_IsAdmin = adm\<rparr>
    \<and> ParseAccessToken cr m later token = Ok (access_claims m now u adm)"
  using issued_verifies [OF assms] issued_parses [OF assms(1,5,7)]
  by (auto simp: wallet_verify_alt access_claims_def split: prod.splits)

text \<open>
  C14: Nobody gets in with anything else. Every token the wallet or the table manager accepts was
  issued by the auth service and has not expired, and the user and admin flag read from it are
  those it was issued for, provided the key endpoint publishes the auth service's key (or fails)
  and signatures cannot be forged.
\<close>

theorem accepted_token_was_issued:
  assumes cr: "sound_crypto cr (tm_publicKey m)" "unforgeable cr m issued"
    and key: "sound_key (tm_publicKey m)" "tm_keyID m \<noteq> ''''"
    and v: "trusts m v" "publishes m answer"
    and run: "verifyToken cr later answer token v = (Ok c, v') \<or> wallet_verify cr later answer token v = (Ok w, v')
      \<and> tc_Sub c = wc_UserID w \<and> tc_IsAdmin c = wc_IsAdmin w"
  shows "trusts m v' \<and> (\<exists>(t, u, adm) \<in> issued. tc_Sub c = u \<and> tc_IsAdmin c = adm \<and> u \<noteq> '''' \<and> Unix later \<le> Unix (t + tm_accessTTL m))"
proof -
  obtain c1 where c1: "verifyToken cr later answer token v = (Ok c1, v')" "tc_Sub c = tc_Sub c1" "tc_IsAdmin c = tc_IsAdmin c1"
    using run by (auto simp: wallet_verify_alt split: outcome.splits prod.splits)
  show ?thesis
  proof (rule verifyToken_Ok [OF c1(1)])
    fix p0 p1 p2 hd header cd sg k
    assume split: "Split CHR ''.'' token = [p0, p1, p2]" and cd: "decodeSegment p1 = Some cd" "cr_UnmarshalClaims cr cd = Some c1"
      and ok: "tc_Sub c1 \<noteq> ''''" "Unix later \<le> tc_Exp c1"
      and k: "keyFor later answer (th_Kid header) v = (Some k, v')"
      and sg: "cr_Verify cr k (cr_sha256 cr (p0 @ ''.'' @ p1)) sg"
    note kt = keyFor_trusts [OF v key k]
    have "k = tm_publicKey m" using kt(2) by simp
    then obtain t u adm where i: "(t, u, adm) \<in> issued" "signed_input cr m t u adm = Some (p0 @ ''.'' @ p1)"
      using cr(2) sg by (auto simp: unforgeable_def)
    then obtain h j where j: "cr_MarshalClaims cr (access_claims m t u adm) = Some j" "signingInput h j = p0 @ ''.'' @ p1"
      by (auto simp: signed_input_def split: option.splits)
    have "CHR ''.'' \<notin> set p0" "CHR ''.'' \<notin> set p1" using split by (simp_all add: Split_three)
    then have "Split CHR ''.'' (p0 @ ''.'' @ p1) = [p0, p1]" by (simp add: Split_append Split_single)
    moreover have "Split CHR ''.'' (signingInput h j) = [encodeSegment h, encodeSegment j]"
      by (simp add: signingInput_def Split_append Split_single)
    ultimately have "p1 = encodeSegment j" using j(2) by simp
    then have "c1 = access_claims m t u adm" using cd j(1) cr(1) by (auto simp: sound_crypto_def)
    then have "tc_Sub c = u" "tc_IsAdmin c = adm" "u \<noteq> ''''" "Unix later \<le> Unix (t + tm_accessTTL m)"
      using ok c1(2,3) by (simp_all add: access_claims_def)
    then show ?thesis using kt(1) by (intro conjI bexI [OF _ i(1)]) simp_all
  qed
qed

section \<open>A concrete key\<close>

definition ex_manager :: TokenManager where
  "ex_manager = \<lparr>tm_issuer = ''holdem'', tm_keyID = ''k1'', tm_accessTTL = 900 * 1000000000, tm_refreshTTL = 3600 * 1000000000,
     tm_publicKey = \<lparr>pk_N = 3233, pk_E = 65537\<rparr>\<rparr>"

definition ex_claims :: TokenClaims where
  "ex_claims = access_claims ex_manager 5000000000 ''u'' True"

definition ex_header :: TokenHeader where
  "ex_header = \<lparr>th_Alg = ''RS256'', th_Kid = ''k1''\<rparr>"

definition ex_crypto :: Crypto where
  "ex_crypto = \<lparr>cr_sha256 = (\<lambda>s. s), cr_Sign = (\<lambda>h. if h = signingInput ''h'' ''c'' then Some ''sig'' else None),
     cr_Verify = (\<lambda>k h s. h = signingInput ''h'' ''c'' \<and> s = ''sig''),
     cr_MarshalHeader = (\<lambda>h. if h = ex_header then Some ''h'' else None),
     cr_MarshalClaims = (\<lambda>c. if c = ex_claims then Some ''c'' else None),
     cr_UnmarshalHeader = (\<lambda>s. if s = ''h'' then Some ex_header else None),
     cr_UnmarshalClaims = (\<lambda>s. if s = ''c'' then Some ex_claims else None)\<rparr>"

definition ex_validator :: Validator where
  "ex_validator = \<lparr>v_issuer = ''holdem'', v_keys = [], v_fetchedAt = None\<rparr>"

definition ex_token :: string where
  "ex_token = signingInput ''h'' ''c'' @ ''.'' @ encodeSegment ''sig''"

lemma ex_sound:
  "sound_crypto ex_crypto (tm_publicKey ex_manager)" "sound_key (tm_publicKey ex_manager)" "tm_keyID ex_manager \<noteq> ''''"
  "trusts ex_manager ex_validator" "IssueAccessToken ex_crypto ex_manager 5000000000 ''u'' True = Ok ex_token"
  "unforgeable ex_crypto ex_manager {(5000000000, ''u'', True)}" "publishes ex_manager (Document (JWKS ex_manager))"
proof -
  show "sound_crypto ex_crypto (tm_publicKey ex_manager)" by (simp add: sound_crypto_def ex_crypto_def split: if_splits)
  show "sound_key (tm_publicKey ex_manager)" "tm_keyID ex_manager \<noteq> ''''" "trusts ex_manager ex_validator"
    by (simp_all add: sound_key_def ex_manager_def trusts_def ex_validator_def)
  have j: "cr_MarshalHeader ex_crypto \<lparr>th_Alg = ''RS256'', th_Kid = tm_keyID ex_manager\<rparr> = Some ''h''"
    "cr_MarshalClaims ex_crypto (access_claims ex_manager 5000000000 ''u'' True) = Some ''c''"
    by (simp add: ex_crypto_def ex_header_def ex_manager_def) (simp add: ex_crypto_def ex_claims_def)
  have sg: "cr_Sign ex_crypto (cr_sha256 ex_crypto (signingInput ''h'' ''c'')) = Some ''sig''" by (simp add: ex_crypto_def)
  show "IssueAccessToken ex_crypto ex_manager 5000000000 ''u'' True = Ok ex_token"
    using j sg by (simp add: IssueAccessToken_def access_claims_def Let_def ex_token_def)
  show "unforgeable ex_crypto ex_manager {(5000000000, ''u'', True)}"
    unfolding unforgeable_def signed_input_def j option.case by (simp add: ex_crypto_def ex_claims_def)
  show "publishes ex_manager (Document (JWKS ex_manager))" by (simp add: publishes_def)
qed

theorem issued_token_is_accepted_witness:
  "IssueAccessToken ex_crypto ex_manager 5000000000 ''u'' True = Ok ex_token
    \<and> fst (wallet_verify ex_crypto 6000000000 (Document (JWKS ex_manager)) ex_token ex_validator)
      = Ok \<lparr>wc_UserID = ''u'', wc_IsAdmin = True\<rparr>"
  using issued_token_is_accepted [OF ex_sound(1-5), of 6000000000] ex_sound(5) by (simp add: Unix_def ex_manager_def)

theorem accepted_token_was_issued_witness:
  "\<exists>c v'. verifyToken ex_crypto 6000000000 (Document (JWKS ex_manager)) ex_token ex_validator = (Ok c, v')
    \<and> tc_Sub c = ''u'' \<and> tc_IsAdmin c"
proof -
  have "fst (verifyToken ex_crypto 6000000000 (Document (JWKS ex_manager)) ex_token ex_validator) = Ok (access_claims ex_manager 5000000000 ''u'' True)"
    by (rule issued_verifies [OF ex_sound(1-5)]) (simp_all add: Unix_def ex_manager_def)
  then obtain c v' where run: "verifyToken ex_crypto 6000000000 (Document (JWKS ex_manager)) ex_token ex_validator = (Ok c, v')"
    by (metis prod.collapse)
  show ?thesis
    using accepted_token_was_issued [OF ex_sound(1,6,2,3,4,7) disjI1 [OF run]] run by auto
qed

end
