(* ===== verification/TableServer.thy ===== *)
theory TableServer
  imports TableService Channels Tokens
begin

text \<open>
  The table manager's outer layer (\<open>internal/delivery/grpc\<close> and \<open>cmd/server/grpc.go\<close>): who the caller
  is, the gRPC calls around the service, the view of a table for one viewer, and the web socket
  on which the views are pushed. A call answers with a response or a status code.

  Headers and gRPC metadata are maps from names in lower case to lists of values.
\<close>

section \<open>Messages\<close>

datatype TmTableStatus = TABLE_STATUS_UNSPECIFIED | TABLE_STATUS_IDLE | TABLE_STATUS_IN_HAND

datatype TmSeatStatus = SEAT_STATUS_EMPTY | SEAT_STATUS_OCCUPIED

datatype TmStreet = TM_STREET_UNSPECIFIED | TM_STREET_PREFLOP | TM_STREET_FLOP | TM_STREET_TURN | TM_STREET_RIVER
  | TM_STREET_SHOWDOWN

datatype TmPlayerStatus = TM_PLAYER_STATUS_UNSPECIFIED | TM_PLAYER_STATUS_ACTIVE | TM_PLAYER_STATUS_FOLDED
  | TM_PLAYER_STATUS_ALL_IN | TM_PLAYER_STATUS_SITTING_OUT

datatype TmActionType = TM_ACTION_TYPE_UNSPECIFIED | TM_ACTION_TYPE_FOLD | TM_ACTION_TYPE_CHECK | TM_ACTION_TYPE_CALL
  | TM_ACTION_TYPE_RAISE | TM_ACTION_TYPE_ALL_IN

record SeatView =
  sw_SeatIndex :: int
  sw_Status :: TmSeatStatus
  sw_PlayerId :: string
  sw_Stack :: int
  sw_PlayerStatus :: TmPlayerStatus
  sw_CurrentBet :: int
  sw_HoleCards :: "string list"
  sw_IsViewer :: bool

record HandView =
  hw_HandId :: string
  hw_Board :: "string list"
  hw_Pots :: "PbPot list"
  hw_Street :: TmStreet
  hw_CurrentBet :: int
  hw_ActivePlayer :: int
  hw_Button :: int
  hw_SmallBlind :: int
  hw_BigBlind :: int

record TableView =
  vw_TableId :: string
  vw_Name :: string
  vw_Status :: TmTableStatus
  vw_SeatCount :: int
  vw_SmallBlind :: int
  vw_BigBlind :: int
  vw_Button :: int
  vw_ActiveHandId :: string
  vw_Seats :: "SeatView list"
  vw_Hand :: "HandView option"

section \<open>Conversion\<close>

definition domainTableStatusToProto :: "string \<Rightarrow> TmTableStatus" where
  "domainTableStatusToProto status =
     (if status = TableStatusIdle then TABLE_STATUS_IDLE
      else if status = TableStatusInHand then TABLE_STATUS_IN_HAND else TABLE_STATUS_UNSPECIFIED)"

fun engineStreetToProto :: "PbStreet \<Rightarrow> TmStreet" where
  "engineStreetToProto STREET_PREFLOP = TM_STREET_PREFLOP"
| "engineStreetToProto STREET_FLOP = TM_STREET_FLOP"
| "engineStreetToProto STREET_TURN = TM_STREET_TURN"
| "engineStreetToProto STREET_RIVER = TM_STREET_RIVER"
| "engineStreetToProto STREET_SHOWDOWN = TM_STREET_SHOWDOWN"
| "engineStreetToProto STREET_UNSPECIFIED = TM_STREET_UNSPECIFIED"

fun enginePlayerStatusToProto :: "PbPlayerStatus \<Rightarrow> TmPlayerStatus" where
  "enginePlayerStatusToProto PLAYER_STATUS_ACTIVE = TM_PLAYER_STATUS_ACTIVE"
| "enginePlayerStatusToProto PLAYER_STATUS_FOLDED = TM_PLAYER_STATUS_FOLDED"
| "enginePlayerStatusToProto PLAYER_STATUS_ALL_IN = TM_PLAYER_STATUS_ALL_IN"
| "enginePlayerStatusToProto PLAYER_STATUS_SITTING_OUT = TM_PLAYER_STATUS_SITTING_OUT"
| "enginePlayerStatusToProto PLAYER_STATUS_UNSPECIFIED = TM_PLAYER_STATUS_UNSPECIFIED"

fun tableActionTypeToEngine :: "TmActionType \<Rightarrow> PbActionType" where
  "tableActionTypeToEngine TM_ACTION_TYPE_FOLD = ACTION_TYPE_FOLD"
| "tableActionTypeToEngine TM_ACTION_TYPE_CHECK = ACTION_TYPE_CHECK"
| "tableActionTypeToEngine TM_ACTION_TYPE_CALL = ACTION_TYPE_CALL"
| "tableActionTypeToEngine TM_ACTION_TYPE_RAISE = ACTION_TYPE_RAISE"
| "tableActionTypeToEngine TM_ACTION_TYPE_ALL_IN = ACTION_TYPE_ALL_IN"
| "tableActionTypeToEngine TM_ACTION_TYPE_UNSPECIFIED = ACTION_TYPE_UNSPECIFIED"

definition engineStateToProto :: "PbGameState \<Rightarrow> HandView" where
  "engineStateToProto state =
     \<lparr>hw_HandId = pbg_id state, hw_Board = pbg_board state, hw_Pots = pbg_pots state,
      hw_Street = engineStreetToProto (pbg_street state), hw_CurrentBet = pbg_current_bet state,
      hw_ActivePlayer = pbg_active_player state, hw_Button = pbg_button state,
      hw_SmallBlind = pbg_small_blind state, hw_BigBlind = pbg_big_blind state\<rparr>"

text \<open>The engine's players by identifier; a later one replaces an earlier one.\<close>

definition players_by_id :: "PbGameState option \<Rightarrow> (string, PbPlayer) gomap" where
  "players_by_id state =
     (case state of None \<Rightarrow> [] | Some g \<Rightarrow> foldl (\<lambda>m p. AList.update (pbp_id p) p m) [] (pbg_players g))"

definition seat_view :: "(string, PbPlayer) gomap \<Rightarrow> string \<Rightarrow> Seat \<Rightarrow> SeatView" where
  "seat_view playerByID viewerID seat =
     (let v = \<lparr>sw_SeatIndex = wrap32 (st_Index seat), sw_Status = SEAT_STATUS_EMPTY, sw_PlayerId = '''', sw_Stack = st_Stack seat,
            sw_PlayerStatus = TM_PLAYER_STATUS_UNSPECIFIED, sw_CurrentBet = 0, sw_HoleCards = [], sw_IsViewer = False\<rparr>;
          v = (if Occupied seat
               then v\<lparr>sw_Status := SEAT_STATUS_OCCUPIED, sw_PlayerId := st_PlayerID seat,
                      sw_IsViewer := (st_PlayerID seat = viewerID)\<rparr>
               else v)
      in case map_of playerByID (st_PlayerID seat) of
          None \<Rightarrow> v
        | Some player \<Rightarrow>
            (let v = v\<lparr>sw_Stack := pbp_stack player, sw_CurrentBet := pbp_current_bet player,
                       sw_PlayerStatus := enginePlayerStatusToProto (pbp_status player)\<rparr>
             in if st_PlayerID seat = viewerID then v\<lparr>sw_HoleCards := pbp_hole_cards player\<rparr> else v))"

definition domainTableToProto :: "Table \<Rightarrow> PbGameState option \<Rightarrow> string \<Rightarrow> TableView" where
  "domainTableToProto table state viewerID =
     \<lparr>vw_TableId = tb_ID table, vw_Name = tb_Name table, vw_Status = domainTableStatusToProto (tb_Status table),
      vw_SeatCount = wrap32 (tb_SeatCount table), vw_SmallBlind = tb_SmallBlind table, vw_BigBlind = tb_BigBlind table,
      vw_Button = wrap32 (tb_Button table), vw_ActiveHandId = tb_ActiveHandID table,
      vw_Seats = map (seat_view (players_by_id state) viewerID) (tb_Seats table),
      vw_Hand = map_option engineStateToProto state\<rparr>"

section \<open>Who is calling\<close>

type_synonym Metadata = "(string, string list) gomap"

definition userIDMetadataKey :: string where
  "userIDMetadataKey = ''x-user-id''"

definition first_value :: "Metadata \<Rightarrow> string \<Rightarrow> string" where
  "first_value md key = (case map_of md key of Some (x # xs) \<Rightarrow> x | _ \<Rightarrow> '''')"

definition userIDFromContext :: "Metadata option \<Rightarrow> string" where
  "userIDFromContext ctx = (case ctx of None \<Rightarrow> '''' | Some md \<Rightarrow> first_value md userIDMetadataKey)"

text \<open>The environment of a request: cryptography, clock and the answer of the key endpoint.\<close>

record AuthEnv =
  ae_crypto :: Crypto
  ae_now :: int
  ae_jwks :: JwksAnswer

definition legacy_or_required :: "bool \<Rightarrow> bool \<Rightarrow> string \<Rightarrow> (token_err, string) outcome" where
  "legacy_or_required required allowLegacy userID =
     (if allowLegacy \<and> userID \<noteq> '''' then Ok userID else if required then Err ErrUnauthenticated else Ok '''')"

definition AuthenticateMetadata ::
    "AuthEnv \<Rightarrow> Metadata option \<Rightarrow> bool \<Rightarrow> bool \<Rightarrow> Validator \<Rightarrow> (token_err, string) outcome \<times> Validator" where
  "AuthenticateMetadata env ctx required allowLegacy v =
     (let token = (case ctx of None \<Rightarrow> '''' | Some md \<Rightarrow> bearerToken (first_value md ''authorization''))
      in if token \<noteq> ''''
         then (case verifyToken (ae_crypto env) (ae_now env) (ae_jwks env) token v of
             (Ok claims, v) \<Rightarrow> (Ok (tc_Sub claims), v)
           | (Err e, v) \<Rightarrow> (Err e, v)
           | (Panic m, v) \<Rightarrow> (Panic m, v))
         else (legacy_or_required required allowLegacy (userIDFromContext ctx), v))"

record Authenticator =
  au_validator :: "Validator option"
  au_allowLegacy :: bool

definition OptionalUserID ::
    "AuthEnv \<Rightarrow> Metadata option \<Rightarrow> Authenticator option \<Rightarrow> (token_err, string) outcome \<times> Authenticator option" where
  "OptionalUserID env ctx a =
     (case a of
        None \<Rightarrow> (Ok '''', a)
      | Some au \<Rightarrow>
          (case au_validator au of
             None \<Rightarrow> (Ok (if au_allowLegacy au then userIDFromContext ctx else ''''), a)
           | Some v \<Rightarrow>
               (let (r, v) = AuthenticateMetadata env ctx False (au_allowLegacy au) v
                in (r, Some (au\<lparr>au_validator := Some v\<rparr>)))))"

definition RequiredUserID ::
    "AuthEnv \<Rightarrow> Metadata option \<Rightarrow> Authenticator option \<Rightarrow> (token_err, string) outcome \<times> Authenticator option" where
  "RequiredUserID env ctx a =
     (case a of
        None \<Rightarrow> (Err ErrUnauthenticated, a)
      | Some au \<Rightarrow>
          (case au_validator au of
             None \<Rightarrow>
               (let userID = userIDFromContext ctx
                in (if userID \<noteq> '''' \<and> au_allowLegacy au then Ok userID else Err ErrUnauthenticated, a))
           | Some v \<Rightarrow>
               (let (r, v) = AuthenticateMetadata env ctx True (au_allowLegacy au) v
                in (r, Some (au\<lparr>au_validator := Some v\<rparr>)))))"

section \<open>HTTP requests\<close>

record HttpRequest =
  rq_method :: string
  rq_path :: string
  rq_headers :: Metadata
  rq_context :: "Metadata option"

definition AuthenticateHTTPRequest ::
    "AuthEnv \<Rightarrow> HttpRequest \<Rightarrow> bool \<Rightarrow> bool \<Rightarrow> Validator \<Rightarrow> (token_err, string) outcome \<times> Validator" where
  "AuthenticateHTTPRequest env r required allowLegacy v =
     (let token = bearerToken (first_value (rq_headers r) ''authorization'')
      in if token \<noteq> ''''
         then (case verifyToken (ae_crypto env) (ae_now env) (ae_jwks env) token v of
             (Ok claims, v) \<Rightarrow> (Ok (tc_Sub claims), v)
           | (Err e, v) \<Rightarrow> (Err e, v)
           | (Panic m, v) \<Rightarrow> (Panic m, v))
         else (legacy_or_required required allowLegacy (TrimSpace (first_value (rq_headers r) userIDMetadataKey)), v))"

text \<open>The header is replaced and the context gets new metadata.\<close>

definition InjectUserID :: "HttpRequest \<Rightarrow> string \<Rightarrow> HttpRequest" where
  "InjectUserID r userID =
     (if userID = '''' then r
      else r\<lparr>rq_headers := AList.update userIDMetadataKey [userID] (rq_headers r),
             rq_context := Some [(userIDMetadataKey, [userID])]\<rparr>)"

definition routeRequiresAuth :: "HttpRequest \<Rightarrow> bool" where
  "routeRequiresAuth r =
     (if rq_method r = ''POST'' \<and> (rq_path r = ''/v1/tables'' \<or> HasPrefix (rq_path r) ''/v1/tables/'') then True
      else rq_method r = ''GET'' \<and> HasSuffix (rq_path r) ''/ws'')"

text \<open>The middleware answers 401 (None) or passes a request on.\<close>

definition authHTTPMiddleware ::
    "AuthEnv \<Rightarrow> bool \<Rightarrow> HttpRequest \<Rightarrow> Validator \<Rightarrow> HttpRequest option \<times> Validator" where
  "authHTTPMiddleware env allowLegacy r v =
     (case AuthenticateHTTPRequest env r (routeRequiresAuth r) allowLegacy v of
        (Ok userID, v) \<Rightarrow> (Some (if userID \<noteq> '''' then InjectUserID r userID else r), v)
      | (_, v) \<Rightarrow> (None, v))"

text \<open>The table of a web socket request, and the viewer its handler subscribes.\<close>

definition ws_table :: "HttpRequest \<Rightarrow> string option" where
  "ws_table r =
     (let path = rq_path r; prefix = length ''/v1/tables/''
      in if rq_method r = ''GET'' \<and> length path > prefix \<and> drop (length path - 3) path = ''/ws''
         then Some (drop prefix (take (length path - 3) path)) else None)"

definition ws_viewer :: "HttpRequest \<Rightarrow> string" where
  "ws_viewer r = first_value (rq_headers r) userIDMetadataKey"

section \<open>The calls\<close>

fun table_Is :: "table_err \<Rightarrow> table_err \<Rightarrow> bool" where
  "table_Is (TableWrap m e) target \<longleftrightarrow> TableWrap m e = target \<or> table_Is e target"
| "table_Is e target \<longleftrightarrow> e = target"

definition domainErr :: "table_err \<Rightarrow> Code" where
  "domainErr err =
     (if table_Is err ErrTableNotFound then CodeNotFound
      else if list_ex (table_Is err) [ErrSeatOutOfRange, ErrSeatOccupied, ErrPlayerAlreadySeated, ErrPlayerNotSeated,
          ErrActiveHandRequired, ErrLeaveDuringActiveHand, ErrSpectatorCannotAct, ErrInvalidTableConfig, ErrInsufficientWallet]
        then CodeInvalidArgument
      else CodeInternal)"

record ('db, 'e, 'w) TServer =
  ts_world :: "('db, 'e, 'w) TWorld"
  ts_hub :: "TableView Hub"
  ts_auth :: "Authenticator option"

text \<open>The view each subscriber gets; without a state in hand the current one is read again.\<close>

definition published_view ::
    "('db, 'e, 'w) Service \<Rightarrow> Table \<Rightarrow> PbGameState option \<Rightarrow> ('db, 'e, 'w) TWorld \<Rightarrow> string \<Rightarrow> TableView" where
  "published_view s table state w viewerID =
     (if state = None \<and> tb_ActiveHandID table \<noteq> ''''
      then case GetTable s (tb_ID table) w of
          Ok (currentTable, currentState) \<Rightarrow> domainTableToProto currentTable currentState viewerID
        | _ \<Rightarrow> domainTableToProto table state viewerID
      else domainTableToProto table state viewerID)"

definition publishTable ::
    "('db, 'e, 'w) Service \<Rightarrow> Table \<Rightarrow> PbGameState option \<Rightarrow> ('db, 'e, 'w) TServer \<Rightarrow> (Code, ('db, 'e, 'w) TServer) outcome" where
  "publishTable s table state ts =
     bind_outcome (Hub_Publish (tb_ID table) (published_view s table state (ts_world ts)) (ts_hub ts))
       (\<lambda>h. Ok (ts\<lparr>ts_hub := h\<rparr>))"

text \<open>Join, leave and act share their frame: authenticate, call, publish, answer with the caller's view.\<close>

definition changing_call ::
    "('db, 'e, 'w) Service \<Rightarrow> AuthEnv \<Rightarrow> Metadata option
      \<Rightarrow> (string \<Rightarrow> ('db, 'e, 'w) TWorld \<Rightarrow> (Table \<times> PbGameState option) tres \<times> ('db, 'e, 'w) TWorld)
      \<Rightarrow> ('db, 'e, 'w) TServer \<Rightarrow> (Code, TableView) outcome \<times> ('db, 'e, 'w) TServer" where
  "changing_call s env ctx call ts =
     (case RequiredUserID env ctx (ts_auth ts) of
        (Err e, a) \<Rightarrow> (Err CodeUnauthenticated, ts\<lparr>ts_auth := a\<rparr>)
      | (Panic m, a) \<Rightarrow> (Panic m, ts\<lparr>ts_auth := a\<rparr>)
      | (Ok userID, a) \<Rightarrow>
          (let (r, w) = call userID (ts_world ts); ts = ts\<lparr>ts_auth := a, ts_world := w\<rparr>
           in case r of
               Err e \<Rightarrow> (Err (domainErr e), ts)
             | Panic m \<Rightarrow> (Panic m, ts)
             | Ok (table, state) \<Rightarrow>
                 (case publishTable s table state ts of
                    Ok ts \<Rightarrow> (Ok (domainTableToProto table state userID), ts)
                  | Err e \<Rightarrow> (Err e, ts)
                  | Panic m \<Rightarrow> (Panic m, ts))))"

definition Tm_JoinTable where
  "Tm_JoinTable s env ctx tableID seatIndex buyIn =
     changing_call s env ctx (\<lambda>userID. JoinTable s tableID userID seatIndex buyIn)"

definition Tm_LeaveTable where
  "Tm_LeaveTable s env ctx tableID = changing_call s env ctx (\<lambda>userID. LeaveTable s tableID userID)"

definition Tm_Act where
  "Tm_Act s env ctx tableID actionType amount =
     changing_call s env ctx (\<lambda>userID. Act s tableID userID (tableActionTypeToEngine actionType) amount)"

definition Tm_CreateTable ::
    "('db, 'e, 'w) Service \<Rightarrow> AuthEnv \<Rightarrow> Metadata option \<Rightarrow> string \<Rightarrow> int \<Rightarrow> int \<Rightarrow> int
      \<Rightarrow> ('db, 'e, 'w) TServer \<Rightarrow> (Code, TableView) outcome \<times> ('db, 'e, 'w) TServer" where
  "Tm_CreateTable s env ctx name seatCount smallBlind bigBlind ts =
     (case RequiredUserID env ctx (ts_auth ts) of
        (Err e, a) \<Rightarrow> (Err CodeUnauthenticated, ts\<lparr>ts_auth := a\<rparr>)
      | (Panic m, a) \<Rightarrow> (Panic m, ts\<lparr>ts_auth := a\<rparr>)
      | (Ok viewerID, a) \<Rightarrow>
          (let (r, w) = CreateTable s name seatCount smallBlind bigBlind (ts_world ts); ts = ts\<lparr>ts_auth := a, ts_world := w\<rparr>
           in case r of
               Err e \<Rightarrow> (Err (domainErr e), ts)
             | Panic m \<Rightarrow> (Panic m, ts)
             | Ok table \<Rightarrow> (Ok (domainTableToProto table None viewerID), ts)))"

definition Tm_ListTables ::
    "('db, 'e, 'w) Service \<Rightarrow> AuthEnv \<Rightarrow> Metadata option \<Rightarrow> ('db, 'e, 'w) TServer
      \<Rightarrow> (Code, TableView list) outcome \<times> ('db, 'e, 'w) TServer" where
  "Tm_ListTables s env ctx ts =
     (case OptionalUserID env ctx (ts_auth ts) of
        (Err e, a) \<Rightarrow> (Err CodeUnauthenticated, ts\<lparr>ts_auth := a\<rparr>)
      | (Panic m, a) \<Rightarrow> (Panic m, ts\<lparr>ts_auth := a\<rparr>)
      | (Ok viewerID, a) \<Rightarrow>
          (map_err domainErr (bind_outcome (ListTables s (ts_world ts)) (\<lambda>tables.
             Ok (map (\<lambda>table. domainTableToProto table None viewerID) tables))), ts\<lparr>ts_auth := a\<rparr>))"

definition Tm_GetTable ::
    "('db, 'e, 'w) Service \<Rightarrow> AuthEnv \<Rightarrow> Metadata option \<Rightarrow> string \<Rightarrow> ('db, 'e, 'w) TServer
      \<Rightarrow> (Code, TableView) outcome \<times> ('db, 'e, 'w) TServer" where
  "Tm_GetTable s env ctx tableID ts =
     (case OptionalUserID env ctx (ts_auth ts) of
        (Err e, a) \<Rightarrow> (Err CodeUnauthenticated, ts\<lparr>ts_auth := a\<rparr>)
      | (Panic m, a) \<Rightarrow> (Panic m, ts\<lparr>ts_auth := a\<rparr>)
      | (Ok viewerID, a) \<Rightarrow>
          (map_err domainErr (bind_outcome (GetTable s tableID (ts_world ts)) (\<lambda>(table, state).
             Ok (domainTableToProto table state viewerID))), ts\<lparr>ts_auth := a\<rparr>))"

text \<open>
  A web socket: the snapshot that is sent first, if it can be read, and the subscription whose
  channel is drained from then on. The snapshot is for the caller in the request's context.
\<close>

definition ws_open ::
    "('db, 'e, 'w) Service \<Rightarrow> AuthEnv \<Rightarrow> HttpRequest \<Rightarrow> string \<Rightarrow> ('db, 'e, 'w) TServer
      \<Rightarrow> (TableView option \<times> nat) \<times> ('db, 'e, 'w) TServer" where
  "ws_open s env r tableID ts =
     (let (initial, ts) = Tm_GetTable s env (rq_context r) tableID ts;
          (updates, h) = Hub_Subscribe tableID (ws_viewer r) (ts_hub ts)
      in ((case initial of Ok view \<Rightarrow> Some view | _ \<Rightarrow> None, updates), ts\<lparr>ts_hub := h\<rparr>))"


section \<open>Hole cards\<close>

text \<open>A view that shows hole cards only on the seats of one player, and only this player's cards.\<close>

definition shows_only :: "string \<Rightarrow> PbGameState option \<Rightarrow> TableView \<Rightarrow> bool" where
  "shows_only u state view \<longleftrightarrow> (\<forall>seat \<in> set (vw_Seats view). sw_HoleCards seat \<noteq> [] \<longrightarrow>
     sw_PlayerId seat = u \<and> sw_IsViewer seat \<and> (\<exists>g p. state = Some g \<and> p \<in> set (pbg_players g) \<and> pbp_id p = u
       \<and> sw_HoleCards seat = pbp_hole_cards p))"

lemma players_by_id_Some:
  assumes "map_of (players_by_id state) i = Some p"
  shows "\<exists>g. state = Some g \<and> p \<in> set (pbg_players g) \<and> pbp_id p = i"
proof -
  have "map_of (foldl (\<lambda>m p. AList.update (pbp_id p) p m) m ps) i = Some p
      \<Longrightarrow> map_of m i = Some p \<or> p \<in> set ps \<and> pbp_id p = i" for m ps
    by (induction ps arbitrary: m) (fastforce simp: update_conv' split: if_splits)+
  then show ?thesis using assms by (fastforce simp: players_by_id_def split: option.splits)
qed

lemma domainTableToProto_shows_only: "u \<noteq> '''' \<Longrightarrow> shows_only u state (domainTableToProto table state u)"
  by (auto simp: shows_only_def domainTableToProto_def seat_view_def Let_def Occupied_def
      dest!: players_by_id_Some split: option.splits if_splits)

lemma RequiredUserID_verified:
  assumes "RequiredUserID env ctx a = (Ok u, a')" "a = Some au" "au_validator au = Some v" "\<not> au_allowLegacy au"
  shows "\<exists>md claims v'. ctx = Some md \<and> u = tc_Sub claims
    \<and> verifyToken (ae_crypto env) (ae_now env) (ae_jwks env) (bearerToken (first_value md ''authorization'')) v = (Ok claims, v')"
  using assms
  by (auto simp: RequiredUserID_def AuthenticateMetadata_def legacy_or_required_def Let_def
      split: option.splits prod.splits if_splits outcome.splits)

lemma verified_subject: "verifyToken cr now answer token v = (Ok c, v') \<Longrightarrow> tc_Sub c \<noteq> ''''"
  by (erule verifyToken_Ok) simp

lemma middleware_verified:
  assumes "authHTTPMiddleware env False r v = (Some r', v')" "routeRequiresAuth r"
  shows "\<exists>claims. verifyToken (ae_crypto env) (ae_now env) (ae_jwks env)
      (bearerToken (first_value (rq_headers r) ''authorization'')) v = (Ok claims, v')
    \<and> r' = InjectUserID r (tc_Sub claims)"
  using assms
  by (auto simp: authHTTPMiddleware_def AuthenticateHTTPRequest_def legacy_or_required_def Let_def InjectUserID_def
      split: prod.splits if_splits outcome.splits)

lemma ws_viewer_InjectUserID [simp]: "u \<noteq> '''' \<Longrightarrow> ws_viewer (InjectUserID r u) = u"
  by (simp add: ws_viewer_def InjectUserID_def first_value_def update_conv')


lemma published_view_shows_only:
  "u \<noteq> '''' \<Longrightarrow> \<exists>st. (st = state \<or> (\<exists>t. GetTable s (tb_ID table) w = Ok (t, st)))
    \<and> shows_only u st (published_view s table state w u)"
  unfolding published_view_def by (auto intro: domainTableToProto_shows_only split: outcome.splits)

lemma changing_call_answer:
  assumes "changing_call s env ctx call ts = (Ok view, ts')"
  shows "\<exists>u a w table state. RequiredUserID env ctx (ts_auth ts) = (Ok u, a) \<and> call u (ts_world ts) = (Ok (table, state), w)
    \<and> view = domainTableToProto table state u"
  using assms unfolding changing_call_def by (auto simp: Let_def split: prod.splits outcome.splits)

text \<open>Players with an identifier: the empty one, of a free seat and of a caller without a token, is nobody's.\<close>

definition named :: "PbGameState option \<Rightarrow> bool" where
  "named state \<longleftrightarrow> (\<forall>g p. state = Some g \<longrightarrow> p \<in> set (pbg_players g) \<longrightarrow> pbp_id p \<noteq> '''')"

text \<open>The user a bearer token among the headers, or the metadata, was issued for, once it is verified.\<close>

definition verified_user :: "AuthEnv \<Rightarrow> Validator \<Rightarrow> Metadata \<Rightarrow> string \<Rightarrow> bool" where
  "verified_user env v md u \<longleftrightarrow> (\<exists>claims v'. u = tc_Sub claims
     \<and> verifyToken (ae_crypto env) (ae_now env) (ae_jwks env) (bearerToken (first_value md ''authorization'')) v = (Ok claims, v'))"

lemma verified_user_named: "verified_user env v md u \<Longrightarrow> u \<noteq> ''''"
  using verified_subject by (auto simp: verified_user_def)

text \<open>A view for nobody, and a view without a hand, show no hole cards.\<close>

lemma view_for_nobody: "named state \<Longrightarrow> shows_only u None (domainTableToProto table state '''')"
  by (auto simp: shows_only_def domainTableToProto_def seat_view_def Let_def Occupied_def named_def
      dest!: players_by_id_Some split: option.splits if_splits)

lemma view_without_hand: "shows_only u None (domainTableToProto table None viewer)"
  by (auto simp: shows_only_def domainTableToProto_def seat_view_def Let_def players_by_id_def)

lemma shows_only_none: "shows_only u None view \<Longrightarrow> shows_only u' state view"
  by (auto simp: shows_only_def)

lemma OptionalUserID_cases:
  assumes "OptionalUserID env ctx a = (Ok u, a')" "a = Some au" "au_validator au = Some v" "\<not> au_allowLegacy au"
  shows "u = '''' \<or> (\<exists>md. ctx = Some md \<and> verified_user env v md u)"
  using assms
  by (auto simp: OptionalUserID_def AuthenticateMetadata_def legacy_or_required_def Let_def verified_user_def
      split: option.splits prod.splits if_splits outcome.splits)

lemma Tm_GetTable_cases:
  assumes "Tm_GetTable s env ctx tableID ts = (Ok view, ts')"
  shows "\<exists>u a table state. OptionalUserID env ctx (ts_auth ts) = (Ok u, a) \<and> ts' = ts\<lparr>ts_auth := a\<rparr>
    \<and> GetTable s tableID (ts_world ts) = Ok (table, state) \<and> view = domainTableToProto table state u"
  using assms unfolding Tm_GetTable_def by (auto split: prod.splits outcome.splits)

lemma Tm_GetTable_kept: "Tm_GetTable s env ctx tableID ts = (r, ts') \<Longrightarrow> ts_hub ts' = ts_hub ts"
  unfolding Tm_GetTable_def by (auto split: prod.splits outcome.splits)

lemma answered_view_shows_only:
  assumes auth: "ts_auth ts = Some au" "au_validator au = Some v" "\<not> au_allowLegacy au"
    and run: "Tm_GetTable s env ctx tableID ts = (Ok view, ts')"
  shows "\<exists>table state. GetTable s tableID (ts_world ts) = Ok (table, state)
    \<and> ((\<exists>md u. ctx = Some md \<and> verified_user env v md u \<and> shows_only u state view)
       \<or> (named state \<longrightarrow> (\<forall>u. shows_only u None view)))"
  using Tm_GetTable_cases [OF run] OptionalUserID_cases [OF _ auth] verified_user_named domainTableToProto_shows_only view_for_nobody
  by metis

lemma ws_open_subscribes:
  assumes "ws_open s env r tableID ts = ((initial, ch), ts')"
  shows "hb_subs (ts_hub ts') = (hb_subs (ts_hub ts))(tableID := hb_subs (ts_hub ts) tableID @ [\<lparr>sb_userID = ws_viewer r, sb_ch = ch\<rparr>])"
    and "initial = Some view \<Longrightarrow> \<exists>ts1. Tm_GetTable s env (rq_context r) tableID ts = (Ok view, ts1)"
  using assms Tm_GetTable_kept
  by (fastforce simp: ws_open_def Hub_Subscribe_def make_chan_def Let_def split: prod.splits outcome.splits)+


section \<open>A concrete call\<close>

definition ex_env :: AuthEnv where
  "ex_env = \<lparr>ae_crypto = ex_crypto, ae_now = 6000000000, ae_jwks = Document (JWKS ex_manager)\<rparr>"

definition ex_table :: Table where
  "ex_table = \<lparr>tb_ID = ''t'', tb_Name = ''n'', tb_SeatCount = 2, tb_Status = TableStatusInHand, tb_SmallBlind = 1,
     tb_BigBlind = 2, tb_Button = 0, tb_ActiveHandID = ''h'',
     tb_Seats = [\<lparr>st_Index = 0, st_PlayerID = ''u'', st_Stack = 10\<rparr>, \<lparr>st_Index = 1, st_PlayerID = ''x'', st_Stack = 10\<rparr>]\<rparr>"

definition ex_player :: "string \<Rightarrow> string list \<Rightarrow> PbPlayer" where
  "ex_player i cards = \<lparr>pbp_id = i, pbp_stack = 10, pbp_hole_cards = cards, pbp_status = PLAYER_STATUS_ACTIVE,
     pbp_current_bet = 0, pbp_position = 0\<rparr>"

definition ex_state :: PbGameState where
  "ex_state = \<lparr>pbg_id = ''h'', pbg_table_id = ''t'', pbg_players = [ex_player ''u'' [''As'', ''Ad''], ex_player ''x'' [''2c'', ''7d'']],
     pbg_board = [], pbg_pots = [], pbg_street = STREET_PREFLOP, pbg_current_bet = 2, pbg_active_player = 0,
     pbg_button = 0, pbg_small_blind = 1, pbg_big_blind = 2\<rparr>"


definition ex_service :: "(unit, unit, unit) Service" where
  "ex_service = \<lparr>sv_CreateTable = (\<lambda>t d. (Ok (), d)), sv_SaveTable = (\<lambda>t d. (Ok (), d)), sv_FindTable = (\<lambda>i d. Ok ex_table),
     sv_ListTables = (\<lambda>d. Ok [ex_table]), sv_StartHand = (\<lambda>r e. (Ok (Some ex_state), e)),
     sv_ApplyAction = (\<lambda>r e. (Ok (Some ex_state), e)), sv_GetGameState = (\<lambda>i e. Ok (Some ex_state)),
     sv_wallet = None, sv_UnixNano = 0\<rparr>"

definition ex_metadata :: Metadata where
  "ex_metadata = [(''authorization'', [''Bearer '' @ ex_token])]"

definition ex_server :: "(unit, unit, unit) TServer" where
  "ex_server = \<lparr>ts_world = \<lparr>tw_db = (), tw_engine = (), tw_wallet = ()\<rparr>, ts_hub = NewHub,
     ts_auth = Some \<lparr>au_validator = Some ex_validator, au_allowLegacy = False\<rparr>\<rparr>"

lemma ex_required:
  obtains a where "RequiredUserID ex_env (Some ex_metadata) (ts_auth ex_server) = (Ok ''u'', a)"
proof -
  have tok: "bearerToken (first_value ex_metadata ''authorization'') = ex_token" "ex_token \<noteq> ''''"
    unfolding first_value_def ex_metadata_def by (simp_all, code_simp+)
  have "fst (verifyToken ex_crypto 6000000000 (Document (JWKS ex_manager)) ex_token ex_validator)
      = Ok (access_claims ex_manager 5000000000 ''u'' True)"
    by (rule issued_verifies [OF ex_sound(1-5)]) (simp_all add: Unix_def ex_manager_def)
  then obtain v where "verifyToken ex_crypto 6000000000 (Document (JWKS ex_manager)) ex_token ex_validator
      = (Ok (access_claims ex_manager 5000000000 ''u'' True), v)" by (metis prod.collapse)
  then have "RequiredUserID ex_env (Some ex_metadata) (ts_auth ex_server)
      = (Ok ''u'', Some \<lparr>au_validator = Some v, au_allowLegacy = False\<rparr>)"
    using tok by (simp add: RequiredUserID_def AuthenticateMetadata_def ex_server_def ex_env_def Let_def access_claims_def)
  then show thesis by (rule that)
qed


end
