(* ===== verification/WalletApi.thy ===== *)
theory WalletApi
  imports WalletRun TableService Tokens
begin

text \<open>
  The wallet's HTTP server (\<open>internal/delivery/http/server.go\<close>) and the table manager's client of
  its two internal calls (\<open>internal/walletclient/client.go\<close>): who may call what, the status a
  failed call answers with, and how the client reads the answer.

  A response is a status with a body; bodies are the values that are encoded, with times as
  RFC 3339 text. The decoded request body, or the decoder's error text, is an argument. A panic
  of a handler aborts its connection.
\<close>

section \<open>Responses\<close>

datatype WalletBody =
    BodyNone
  | BodyText string
  | BodyError string
  | BodyBalance string int string
  | BodyDepositAddress string string string string
  | BodyAddresses "(string \<times> string \<times> string \<times> string) list"
  | BodyChallenge string string string string
  | BodyLinked string string string
  | BodyDeposits "Deposit list"
  | BodyWithdrawal WithdrawalRequest
  | BodyWithdrawals "WithdrawalRequest list"
  | BodyTransfer FaucetTransfer
  | BodyTransfers "FaucetTransfer list"

datatype WalletAnswer = Answer int WalletBody | Aborted

type_synonym 'a body = "(string, 'a) outcome"

text \<open>The texts of the errors; those of the database and the chain are parameters.\<close>

record ErrorTexts =
  et_sql :: string
  et_unique :: string
  et_aborted :: string

fun wallet_Error :: "ErrorTexts \<Rightarrow> wallet_err \<Rightarrow> string" where
  "wallet_Error et ErrInvalidInput = ''invalid input''"
| "wallet_Error et ErrAccountNotFound = ''wallet account not found''"
| "wallet_Error et ErrInsufficientFunds = ''insufficient wallet balance''"
| "wallet_Error et ErrAddressAlreadyLinked = ''address already linked''"
| "wallet_Error et ErrAddressNotLinked = ''address not linked''"
| "wallet_Error et ErrChallengeNotFound = ''link challenge not found''"
| "wallet_Error et ErrChallengeExpired = ''link challenge expired''"
| "wallet_Error et ErrInvalidChallengeProof = ''invalid challenge proof''"
| "wallet_Error et SqlError = et_sql et"
| "wallet_Error et UniqueViolation = et_unique et"
| "wallet_Error et TxAborted = et_aborted et"
| "wallet_Error et (ErrChain m) = m"
| "wallet_Error et (Wrap m e) = m @ '': '' @ wallet_Error et e"

fun wallet_Is :: "wallet_err \<Rightarrow> wallet_err \<Rightarrow> bool" where
  "wallet_Is (Wrap m e) target \<longleftrightarrow> Wrap m e = target \<or> wallet_Is e target"
| "wallet_Is e target \<longleftrightarrow> e = target"

definition writeError :: "int \<Rightarrow> string \<Rightarrow> WalletAnswer" where
  "writeError statusCode text = Answer statusCode (BodyError text)"

definition writeDomainError :: "ErrorTexts \<Rightarrow> wallet_err \<Rightarrow> WalletAnswer" where
  "writeDomainError et err =
     writeError
       (if wallet_Is err ErrInvalidInput then 400
        else if wallet_Is err ErrInsufficientFunds \<or> wallet_Is err ErrAddressAlreadyLinked \<or> wallet_Is err ErrAddressNotLinked
          then 409
        else if wallet_Is err ErrChallengeNotFound then 404
        else if wallet_Is err ErrChallengeExpired \<or> wallet_Is err ErrInvalidChallengeProof then 401
        else if wallet_Is err ErrAccountNotFound then 404
        else 500)
       (wallet_Error et err)"

section \<open>The server\<close>

text \<open>The environment of a request: that of the service, the cryptography and the key endpoint.\<close>

record ApiEnv =
  pe_env :: WalletEnv
  pe_crypto :: Crypto
  pe_jwks :: JwksAnswer
  pe_texts :: ErrorTexts
  pe_internalToken :: string

record WalletServer =
  ws_db :: WalletDB
  ws_auth :: Validator

record ApiRequest =
  ar_authorization :: string
  ar_internalToken :: string

definition answer :: "ApiEnv \<Rightarrow> ('a \<Rightarrow> WalletAnswer) \<Rightarrow> 'a result \<times> WalletDB \<Rightarrow> WalletServer \<Rightarrow> WalletAnswer \<times> WalletServer" where
  "answer pe f run ws =
     (let (r, db) = run; ws = ws\<lparr>ws_db := db\<rparr>
      in case r of
          Ok x \<Rightarrow> (f x, ws)
        | Err e \<Rightarrow> (writeDomainError (pe_texts pe) e, ws)
        | Panic m \<Rightarrow> (Aborted, ws))"

text \<open>The decoded body, or a bad request.\<close>

definition decoded :: "'a body \<Rightarrow> ('a \<Rightarrow> WalletServer \<Rightarrow> WalletAnswer \<times> WalletServer) \<Rightarrow> WalletServer \<Rightarrow> WalletAnswer \<times> WalletServer" where
  "decoded b k ws =
     (case b of Ok req \<Rightarrow> k req ws | Err text \<Rightarrow> (writeError 400 text, ws) | Panic m \<Rightarrow> (Aborted, ws))"

definition authenticate :: "ApiEnv \<Rightarrow> ApiRequest \<Rightarrow> WalletServer \<Rightarrow> (token_err, WalletClaims) outcome \<times> WalletServer" where
  "authenticate pe r ws =
     (let (c, v) = wallet_AuthenticateRequest (pe_crypto pe) (we_now (pe_env pe)) (pe_jwks pe) (ar_authorization r) (ws_auth ws)
      in (c, ws\<lparr>ws_auth := v\<rparr>))"

definition authenticatedUserID ::
    "ApiEnv \<Rightarrow> ApiRequest \<Rightarrow> (string \<Rightarrow> WalletServer \<Rightarrow> WalletAnswer \<times> WalletServer) \<Rightarrow> WalletServer \<Rightarrow> WalletAnswer \<times> WalletServer" where
  "authenticatedUserID pe r k ws =
     (case authenticate pe r ws of
        (Ok user, ws) \<Rightarrow> k (wc_UserID user) ws
      | (Err e, ws) \<Rightarrow> (writeError 401 ''authentication required'', ws)
      | (Panic m, ws) \<Rightarrow> (Aborted, ws))"

definition authenticatedAdmin ::
    "ApiEnv \<Rightarrow> ApiRequest \<Rightarrow> (WalletClaims \<Rightarrow> WalletServer \<Rightarrow> WalletAnswer \<times> WalletServer) \<Rightarrow> WalletServer \<Rightarrow> WalletAnswer \<times> WalletServer" where
  "authenticatedAdmin pe r k ws =
     (case authenticate pe r ws of
        (Ok user, ws) \<Rightarrow>
          if \<not> wc_IsAdmin user then (writeError 403 ''admin access required'', ws) else k user ws
      | (Err e, ws) \<Rightarrow> (writeError 401 ''authentication required'', ws)
      | (Panic m, ws) \<Rightarrow> (Aborted, ws))"

definition internalAuthorized ::
    "ApiEnv \<Rightarrow> ApiRequest \<Rightarrow> (WalletServer \<Rightarrow> WalletAnswer \<times> WalletServer) \<Rightarrow> WalletServer \<Rightarrow> WalletAnswer \<times> WalletServer" where
  "internalAuthorized pe r k ws =
     (if pe_internalToken pe = '''' \<or> TrimSpace (ar_internalToken r) \<noteq> pe_internalToken pe
      then (writeError 401 ''invalid internal token'', ws) else k ws)"

definition Http_Balance :: "ApiEnv \<Rightarrow> ApiRequest \<Rightarrow> WalletServer \<Rightarrow> WalletAnswer \<times> WalletServer" where
  "Http_Balance pe r = authenticatedUserID pe r (\<lambda>userID ws.
     answer pe (\<lambda>b. Answer 200 (BodyBalance (bl_UserID b) (bl_AvailableGwei b) (we_rfc3339 (pe_env pe) (bl_UpdatedAt b))))
       (Svc_Balance (pe_env pe) userID (ws_db ws), ws_db ws) ws)"

definition Http_DepositAddress :: "ApiEnv \<Rightarrow> ApiRequest \<Rightarrow> WalletServer \<Rightarrow> WalletAnswer \<times> WalletServer" where
  "Http_DepositAddress pe r = authenticatedUserID pe r (\<lambda>userID ws.
     answer pe (\<lambda>a. Answer 200 (BodyDepositAddress (da_UserID a) (da_Address a) (da_Chain a)
         (we_rfc3339 (pe_env pe) (da_CreatedAt a))))
       (Svc_DepositAddress (pe_env pe) userID (ws_db ws), ws_db ws) ws)"

definition Http_LinkedAddresses :: "ApiEnv \<Rightarrow> ApiRequest \<Rightarrow> WalletServer \<Rightarrow> WalletAnswer \<times> WalletServer" where
  "Http_LinkedAddresses pe r = authenticatedUserID pe r (\<lambda>userID ws.
     answer pe (\<lambda>as. Answer 200 (BodyAddresses (map (\<lambda>a. (la_ID a, la_Address a, we_rfc3339 (pe_env pe) (la_CreatedAt a),
         we_rfc3339 (pe_env pe) (la_VerifiedAt a))) as)))
       (Svc_LinkedAddresses (pe_env pe) userID (ws_db ws), ws_db ws) ws)"

definition Http_CreateLinkChallenge ::
    "ApiEnv \<Rightarrow> ApiRequest \<Rightarrow> string body \<Rightarrow> WalletServer \<Rightarrow> WalletAnswer \<times> WalletServer" where
  "Http_CreateLinkChallenge pe r b = authenticatedUserID pe r (\<lambda>userID. decoded b (\<lambda>address ws.
     answer pe (\<lambda>c. Answer 201 (BodyChallenge (lc_ID c) (lc_Address c) (lc_Challenge c)
         (we_rfc3339 (pe_env pe) (lc_ExpiresAt c))))
       (Svc_CreateLinkChallenge (pe_env pe) userID address (ws_db ws)) ws))"

record ConfirmLinkRequest =
  cl_ChallengeID :: string
  cl_Address :: string
  cl_Signature :: string

definition Http_ConfirmLink ::
    "ApiEnv \<Rightarrow> ApiRequest \<Rightarrow> ConfirmLinkRequest body \<Rightarrow> WalletServer \<Rightarrow> WalletAnswer \<times> WalletServer" where
  "Http_ConfirmLink pe r b = authenticatedUserID pe r (\<lambda>userID. decoded b (\<lambda>req ws.
     answer pe (\<lambda>l. Answer 201 (BodyLinked (la_ID l) (la_Address l) (we_rfc3339 (pe_env pe) (la_VerifiedAt l))))
       (ConfirmLink (pe_env pe) userID (cl_ChallengeID req) (cl_Address req) (cl_Signature req) (ws_db ws)) ws))"

definition Http_Deposits :: "ApiEnv \<Rightarrow> ApiRequest \<Rightarrow> WalletServer \<Rightarrow> WalletAnswer \<times> WalletServer" where
  "Http_Deposits pe r = authenticatedUserID pe r (\<lambda>userID ws.
     answer pe (\<lambda>ds. Answer 200 (BodyDeposits ds)) (Svc_Deposits (pe_env pe) userID (ws_db ws), ws_db ws) ws)"

definition Http_CreateWithdrawal ::
    "ApiEnv \<Rightarrow> ApiRequest \<Rightarrow> (string \<times> int) body \<Rightarrow> WalletServer \<Rightarrow> WalletAnswer \<times> WalletServer" where
  "Http_CreateWithdrawal pe r b = authenticatedUserID pe r (\<lambda>userID. decoded b (\<lambda>(address, amountGwei) ws.
     answer pe (\<lambda>w. Answer 201 (BodyWithdrawal w))
       (RequestWithdrawal (pe_env pe) userID address amountGwei (ws_db ws)) ws))"

definition Http_Withdrawals :: "ApiEnv \<Rightarrow> ApiRequest \<Rightarrow> WalletServer \<Rightarrow> WalletAnswer \<times> WalletServer" where
  "Http_Withdrawals pe r = authenticatedUserID pe r (\<lambda>userID ws.
     answer pe (\<lambda>x. Answer 200 (BodyWithdrawals x)) (Svc_Withdrawals (pe_env pe) userID (ws_db ws), ws_db ws) ws)"

definition Http_AdminFaucet ::
    "ApiEnv \<Rightarrow> ApiRequest \<Rightarrow> (string \<times> int) body \<Rightarrow> WalletServer \<Rightarrow> WalletAnswer \<times> WalletServer" where
  "Http_AdminFaucet pe r b = authenticatedAdmin pe r (\<lambda>admin. decoded b (\<lambda>(userID, amountGwei) ws.
     answer pe (\<lambda>t. Answer 201 (BodyTransfer t))
       (CreateAdminFaucetTransfer (pe_env pe) (wc_UserID admin) userID amountGwei (ws_db ws)) ws))"

definition Http_ListAdminFaucetTransfers :: "ApiEnv \<Rightarrow> ApiRequest \<Rightarrow> WalletServer \<Rightarrow> WalletAnswer \<times> WalletServer" where
  "Http_ListAdminFaucetTransfers pe r = authenticatedAdmin pe r (\<lambda>_ ws.
     answer pe (\<lambda>x. Answer 200 (BodyTransfers x)) (Svc_FaucetTransfers (pe_env pe) (ws_db ws), ws_db ws) ws)"

record MoneyRequest =
  mr_UserID :: string
  mr_TableID :: string
  mr_AmountGwei :: int
  mr_IdempotencyKey :: string

definition Http_DebitForJoin ::
    "ApiEnv \<Rightarrow> ApiRequest \<Rightarrow> MoneyRequest body \<Rightarrow> WalletServer \<Rightarrow> WalletAnswer \<times> WalletServer" where
  "Http_DebitForJoin pe r b = internalAuthorized pe r (decoded b (\<lambda>req ws.
     answer pe (\<lambda>_. Answer 204 BodyNone)
       (DebitForJoin (pe_env pe) (mr_UserID req) (mr_TableID req) (mr_AmountGwei req) (mr_IdempotencyKey req) (ws_db ws)) ws))"

definition Http_CreditForCashout ::
    "ApiEnv \<Rightarrow> ApiRequest \<Rightarrow> MoneyRequest body \<Rightarrow> WalletServer \<Rightarrow> WalletAnswer \<times> WalletServer" where
  "Http_CreditForCashout pe r b = internalAuthorized pe r (decoded b (\<lambda>req ws.
     answer pe (\<lambda>_. Answer 204 BodyNone)
       (CreditForCashout (pe_env pe) (mr_UserID req) (mr_TableID req) (mr_AmountGwei req) (mr_IdempotencyKey req) (ws_db ws)) ws))"

section \<open>The client\<close>

text \<open>
  The connection of a call: a request can be lost before it reaches the wallet, and a response
  after; the client's timeout makes both a transport error. JSON carries the request unchanged.
\<close>

record Link =
  lk_internalToken :: string
  lk_request_lost :: bool
  lk_response_lost :: bool
  lk_transport_error :: string
  lk_status_text :: "int \<Rightarrow> string"

definition read_answer :: "Link \<Rightarrow> WalletAnswer \<Rightarrow> unit tres" where
  "read_answer lk a =
     (case a of
        Aborted \<Rightarrow> Err (TableWrap ''wallet request failed'' (Failure (lk_transport_error lk)))
      | Answer statusCode b \<Rightarrow>
          if statusCode = 204 then Ok ()
          else let text = (case b of BodyError m \<Rightarrow> m | _ \<Rightarrow> '''')
               in if statusCode = 409 \<and> Contains (ToLower text) ''insufficient'' then Err ErrInsufficientWallet
                  else Err (Failure (''wallet request failed: '' @ (if text = '''' then lk_status_text lk statusCode else text))))"

definition postMoney ::
    "Link \<Rightarrow> (ApiRequest \<Rightarrow> MoneyRequest body \<Rightarrow> WalletServer \<Rightarrow> WalletAnswer \<times> WalletServer)
      \<Rightarrow> MoneyRequest \<Rightarrow> WalletServer \<Rightarrow> unit tres \<times> WalletServer" where
  "postMoney lk path payload ws =
     (let lost = Err (TableWrap ''wallet request failed'' (Failure (lk_transport_error lk)))
      in if lk_request_lost lk then (lost, ws)
         else let (a, ws) = path \<lparr>ar_authorization = '''', ar_internalToken = lk_internalToken lk\<rparr> (Ok payload) ws
              in (if lk_response_lost lk then lost else read_answer lk a, ws))"

definition Client_DebitForJoin ::
    "ApiEnv \<Rightarrow> Link \<Rightarrow> string \<Rightarrow> string \<Rightarrow> int \<Rightarrow> string \<Rightarrow> WalletServer \<Rightarrow> unit tres \<times> WalletServer" where
  "Client_DebitForJoin pe lk userID tableID amountGwei idempotencyKey =
     postMoney lk (Http_DebitForJoin pe)
       \<lparr>mr_UserID = userID, mr_TableID = tableID, mr_AmountGwei = amountGwei, mr_IdempotencyKey = idempotencyKey\<rparr>"

definition Client_CreditForCashout ::
    "ApiEnv \<Rightarrow> Link \<Rightarrow> string \<Rightarrow> string \<Rightarrow> int \<Rightarrow> string \<Rightarrow> WalletServer \<Rightarrow> unit tres \<times> WalletServer" where
  "Client_CreditForCashout pe lk userID tableID amountGwei idempotencyKey =
     postMoney lk (Http_CreditForCashout pe)
       \<lparr>mr_UserID = userID, mr_TableID = tableID, mr_AmountGwei = amountGwei, mr_IdempotencyKey = idempotencyKey\<rparr>"

definition wallet_client :: "ApiEnv \<Rightarrow> Link \<Rightarrow> WalletServer WalletClient" where
  "wallet_client pe lk = \<lparr>wc_DebitForJoin = Client_DebitForJoin pe lk, wc_CreditForCashout = Client_CreditForCashout pe lk\<rparr>"


section \<open>What the two internal calls do\<close>

definition buyin_entry :: "WalletEnv \<Rightarrow> string \<Rightarrow> string \<Rightarrow> int \<Rightarrow> string \<Rightarrow> LedgerEntry" where
  "buyin_entry env userID tableID amountGwei key =
     \<lparr>le_ID = newID env ''ledger'', le_UserID = TrimSpace userID, le_EntryKind = EntryKindTableBuyInDebit,
      le_AmountGwei = - amountGwei, le_ReferenceID = TrimSpace tableID, le_IdempotencyKey = TrimSpace key,
      le_CreatedAt = we_now env\<rparr>"

definition cashout_entry :: "WalletEnv \<Rightarrow> string \<Rightarrow> string \<Rightarrow> int \<Rightarrow> string \<Rightarrow> LedgerEntry" where
  "cashout_entry env userID tableID amountGwei key =
     (buyin_entry env userID tableID amountGwei key)\<lparr>le_EntryKind := EntryKindTableCashout, le_AmountGwei := amountGwei\<rparr>"

lemma DebitForJoin_effect:
  assumes "DebitForJoin env u t n k db = (r, db')"
  shows "0 < n \<and> posted (buyin_entry env u t n k) db db' \<or> r \<noteq> Ok () \<and> db' = db"
proof (cases "TrimSpace u = '''' \<or> TrimSpace t = '''' \<or> TrimSpace k = '''' \<or> n \<le> 0")
  case False
  have "ApplyLedgerEntry (we_sv env) (buyin_entry env u t n k) db = (r, db')"
    using assms False by (simp add: DebitForJoin_def buyin_entry_def)
  from ApplyLedgerEntry_cases [OF this] show ?thesis using False by (cases "r = Ok ()") auto
qed (use assms in \<open>auto simp: DebitForJoin_def\<close>)

lemma CreditForCashout_effect:
  assumes "CreditForCashout env u t n k db = (r, db')"
  shows "n = 0 \<and> db' = db \<or> 0 < n \<and> posted (cashout_entry env u t n k) db db' \<or> r \<noteq> Ok () \<and> db' = db"
proof (cases "TrimSpace u = '''' \<or> TrimSpace t = '''' \<or> TrimSpace k = '''' \<or> n \<le> 0")
  case False
  have "ApplyLedgerEntry (we_sv env) (cashout_entry env u t n k) db = (r, db')"
    using assms False by (simp add: CreditForCashout_def cashout_entry_def buyin_entry_def)
  from ApplyLedgerEntry_cases [OF this] show ?thesis using False by (cases "r = Ok ()") auto
qed (use assms in \<open>auto simp: CreditForCashout_def Let_def split: if_splits\<close>)

lemma read_answer_Ok: "read_answer lk a = Ok () \<Longrightarrow> \<exists>b. a = Answer 204 b"
  by (auto simp: read_answer_def Let_def split: WalletAnswer.splits if_splits)

lemma postMoney_effect:
  assumes run: "postMoney lk path payload ws = (r, ws')"
    and path: "\<forall>req a ws'. path req (Ok payload) ws = (a, ws') \<longrightarrow> ws_auth ws' = ws_auth ws
      \<and> (P (ws_db ws') \<or> (\<forall>b. a \<noteq> Answer 204 b) \<and> ws_db ws' = ws_db ws)"
  shows "r = Ok () \<Longrightarrow> P (ws_db ws')" "r \<noteq> Ok () \<Longrightarrow> ws' = ws \<or> P (ws_db ws')"
    "ws_auth ws' = ws_auth ws" "r \<noteq> Panic m"
proof -
  have sv: "ws' = ws" if "ws_auth ws' = ws_auth ws" "ws_db ws' = ws_db ws" using that by simp
  obtain a ws1 where p: "path \<lparr>ar_authorization = '''', ar_internalToken = lk_internalToken lk\<rparr> (Ok payload) ws = (a, ws1)"
    by fastforce
  note eff = path [rule_format, OF p]
  show "r = Ok () \<Longrightarrow> P (ws_db ws')"
    using run eff read_answer_Ok [of lk a] by (auto simp: postMoney_def Let_def p split: if_splits)
  show "ws_auth ws' = ws_auth ws"
    using run eff by (auto simp: postMoney_def Let_def p split: if_splits)
  show "r \<noteq> Ok () \<Longrightarrow> ws' = ws \<or> P (ws_db ws')"
    using run eff sv by (auto simp: postMoney_def Let_def p read_answer_def split: if_splits)
  show "r \<noteq> Panic m"
    using run by (auto simp: postMoney_def Let_def p read_answer_def split: if_splits WalletAnswer.splits)
qed

lemma domain_error_status: "writeDomainError et e \<noteq> Answer 204 b"
  by (simp add: writeDomainError_def writeError_def)

lemma Http_DebitForJoin_effect:
  assumes "Http_DebitForJoin pe req (Ok m) ws = (a, ws')"
  shows "ws_auth ws' = ws_auth ws \<and> (0 < mr_AmountGwei m \<and> posted (buyin_entry (pe_env pe) (mr_UserID m) (mr_TableID m) (mr_AmountGwei m) (mr_IdempotencyKey m)) (ws_db ws) (ws_db ws')
    \<or> (\<forall>b. a \<noteq> Answer 204 b) \<and> ws_db ws' = ws_db ws)"
proof -
  obtain r db' where run: "DebitForJoin (pe_env pe) (mr_UserID m) (mr_TableID m) (mr_AmountGwei m) (mr_IdempotencyKey m) (ws_db ws) = (r, db')"
    by fastforce
  show ?thesis
    using assms DebitForJoin_effect [OF run]
    by (auto simp: Http_DebitForJoin_def internalAuthorized_def decoded_def answer_def run writeError_def Let_def domain_error_status
        split: if_splits outcome.splits)
qed

lemma Http_CreditForCashout_effect:
  assumes "Http_CreditForCashout pe req (Ok m) ws = (a, ws')"
  shows "ws_auth ws' = ws_auth ws \<and> (mr_AmountGwei m = 0 \<and> ws_db ws' = ws_db ws \<or> 0 < mr_AmountGwei m
      \<and> posted (cashout_entry (pe_env pe) (mr_UserID m) (mr_TableID m) (mr_AmountGwei m) (mr_IdempotencyKey m)) (ws_db ws) (ws_db ws')
    \<or> (\<forall>b. a \<noteq> Answer 204 b) \<and> ws_db ws' = ws_db ws)"
proof -
  obtain r db' where run: "CreditForCashout (pe_env pe) (mr_UserID m) (mr_TableID m) (mr_AmountGwei m) (mr_IdempotencyKey m) (ws_db ws) = (r, db')"
    by fastforce
  show ?thesis
    using assms CreditForCashout_effect [OF run]
    by (auto simp: Http_CreditForCashout_def internalAuthorized_def decoded_def answer_def run writeError_def Let_def domain_error_status
        split: if_splits outcome.splits)
qed

lemma Client_DebitForJoin_effect:
  assumes "Client_DebitForJoin pe lk u t n k ws = (r, ws')"
  shows "r = Ok () \<Longrightarrow> 0 < n \<and> posted (buyin_entry (pe_env pe) u t n k) (ws_db ws) (ws_db ws')"
    "r \<noteq> Ok () \<Longrightarrow> ws' = ws \<or> 0 < n \<and> posted (buyin_entry (pe_env pe) u t n k) (ws_db ws) (ws_db ws')"
    "ws_auth ws' = ws_auth ws"
proof -
  let ?m = "\<lparr>mr_UserID = u, mr_TableID = t, mr_AmountGwei = n, mr_IdempotencyKey = k\<rparr>"
  let ?P = "\<lambda>db'. 0 < n \<and> posted (buyin_entry (pe_env pe) u t n k) (ws_db ws) db'"
  have "ws_auth ws1 = ws_auth ws \<and> (?P (ws_db ws1) \<or> (\<forall>b. a \<noteq> Answer 204 b) \<and> ws_db ws1 = ws_db ws)"
    if "Http_DebitForJoin pe req (Ok ?m) ws = (a, ws1)" for req a ws1
    using Http_DebitForJoin_effect [OF that] by simp
  then have "\<forall>req a ws1. Http_DebitForJoin pe req (Ok ?m) ws = (a, ws1) \<longrightarrow> ws_auth ws1 = ws_auth ws
      \<and> (?P (ws_db ws1) \<or> (\<forall>b. a \<noteq> Answer 204 b) \<and> ws_db ws1 = ws_db ws)" by blast
  note e = postMoney_effect [where P = ?P, OF assms [unfolded Client_DebitForJoin_def] this]
  show "r = Ok () \<Longrightarrow> ?P (ws_db ws')" by (rule e(1))
  show "r \<noteq> Ok () \<Longrightarrow> ws' = ws \<or> ?P (ws_db ws')"
    using e(2) by blast
  show "ws_auth ws' = ws_auth ws" by (rule e(3))
qed

lemma Client_CreditForCashout_effect:
  assumes "Client_CreditForCashout pe lk u t n k ws = (r, ws')"
  shows "r = Ok () \<Longrightarrow> n = 0 \<and> ws_db ws' = ws_db ws \<or> 0 < n \<and> posted (cashout_entry (pe_env pe) u t n k) (ws_db ws) (ws_db ws')"
    "r \<noteq> Ok () \<Longrightarrow> ws_db ws' = ws_db ws \<or> posted (cashout_entry (pe_env pe) u t n k) (ws_db ws) (ws_db ws')"
    "ws_auth ws' = ws_auth ws"
proof -
  let ?m = "\<lparr>mr_UserID = u, mr_TableID = t, mr_AmountGwei = n, mr_IdempotencyKey = k\<rparr>"
  let ?P = "\<lambda>db'. n = 0 \<and> db' = ws_db ws \<or> 0 < n \<and> posted (cashout_entry (pe_env pe) u t n k) (ws_db ws) db'"
  have "ws_auth ws1 = ws_auth ws \<and> (?P (ws_db ws1) \<or> (\<forall>b. a \<noteq> Answer 204 b) \<and> ws_db ws1 = ws_db ws)"
    if "Http_CreditForCashout pe req (Ok ?m) ws = (a, ws1)" for req a ws1
    using Http_CreditForCashout_effect [OF that] by simp
  then have "\<forall>req a ws1. Http_CreditForCashout pe req (Ok ?m) ws = (a, ws1) \<longrightarrow> ws_auth ws1 = ws_auth ws
      \<and> (?P (ws_db ws1) \<or> (\<forall>b. a \<noteq> Answer 204 b) \<and> ws_db ws1 = ws_db ws)" by blast
  note e = postMoney_effect [where P = ?P, OF assms [unfolded Client_CreditForCashout_def] this]
  show "r = Ok () \<Longrightarrow> ?P (ws_db ws')" by (rule e(1))
  show "r \<noteq> Ok () \<Longrightarrow> ws_db ws' = ws_db ws \<or> posted (cashout_entry (pe_env pe) u t n k) (ws_db ws) (ws_db ws')"
    using e(2) by blast
  show "ws_auth ws' = ws_auth ws" by (rule e(3))
qed

text \<open>A posting at the level of balances.\<close>

definition balance :: "WalletDB \<Rightarrow> string \<Rightarrow> int option" where
  "balance db u = bk_balance (abs_bank db) u"

lemma posted_balance:
  assumes "ledger_ok db" "in_int64 (le_AmountGwei e)" "posted e db db'"
  shows "if le_IdempotencyKey e \<in> keys_of db then db' = db
    else (\<exists>b. balance db (le_UserID e) = Some b \<and> 0 \<le> b + le_AmountGwei e
      \<and> balance db' = (balance db)(le_UserID e \<mapsto> b + le_AmountGwei e))"
proof (cases "find_entry (le_IdempotencyKey e) db")
  case (Some x)
  then have "le_IdempotencyKey e \<in> keys_of db" by (metis find_entry_None keys_of_def option.distinct(1))
  then show ?thesis using Some assms(3) by (simp add: posted_def)
next
  case None
  then obtain b where b: "find_balance (le_UserID e) db = Some b" "0 \<le> wrap64 (bl_AvailableGwei b + le_AmountGwei e)"
    and db': "db' = set_balance (le_UserID e) (wrap64 (bl_AvailableGwei b + le_AmountGwei e)) (le_CreatedAt e) (insert_entry e db)"
    using assms(3) by (auto simp: posted_def)
  have "0 \<le> bl_AvailableGwei b" "bl_AvailableGwei b < 2 ^ 63"
    using assms(1) find_balance_Some [OF b(1)] by (auto simp: ledger_ok_def)
  note w = wrap64_add_nonneg [OF this assms(2)]
  have "balance db' = (balance db)(le_UserID e \<mapsto> bl_AvailableGwei b + le_AmountGwei e)"
    unfolding db' balance_def using abs_bank_posted [OF b(1)] w(2) [OF b(2)] by (simp add: fun_eq_iff)
  moreover have "balance db (le_UserID e) = Some (bl_AvailableGwei b)" using b(1) by (simp add: balance_def abs_bank_def)
  moreover have "le_IdempotencyKey e \<notin> keys_of db" using None by (simp add: find_entry_None keys_of_def)
  ultimately show ?thesis using w(1) b(2) by simp
qed

end
