(* ===== verification/AuthStore.thy ===== *)
theory AuthStore
  imports Prelude
begin

text \<open>
  The auth service's domain (\<open>internal/domain/domain.go\<close>) and its Postgres repository
  (\<open>internal/infrastructure/repository/postgres/repository.go\<close>): users, their password hashes and
  the refresh sessions.

  The three tables are lists of rows with the keys of the migration. A statement fails when the
  server fails it (\<open>ap_fails\<close>, by statement and key) or when it breaks a key; a failed statement
  or transaction leaves the database as it was. The answer to a statement, or to a commit, can be
  lost (\<open>ap_loses\<close>): the caller sees an error, and the change is durable. Times are nanoseconds, stored in the
  microseconds of their columns.
\<close>

section \<open>Domain\<close>

datatype auth_err =
    ErrEmailTaken
  | ErrInvalidCredentials
  | ErrInvalidRefreshToken
  | ErrInvalidInput
  | ErrUserNotFound
  | AuthSql
  | AuthUnique
  | AuthText string
  | AuthWrap string auth_err

type_synonym 'a ares = "(auth_err, 'a) outcome"

record User =
  us_ID :: string
  us_Email :: string
  us_IsAdmin :: bool
  us_CreatedAt :: int

record UserWithPassword =
  up_User :: User
  up_PasswordHash :: string

record RefreshSession =
  rs_ID :: string
  rs_UserID :: string
  rs_TokenHash :: string
  rs_ExpiresAt :: int
  rs_RevokedAt :: "int option"

section \<open>Repository\<close>

record AuthDB =
  ad_users :: "User list"
  ad_passwords :: "(string \<times> string) list"
  ad_sessions :: "RefreshSession list"

text \<open>The server, and the order it lists users of the same time in.\<close>

record AuthPg =
  ap_fails :: "string \<Rightarrow> string \<Rightarrow> bool"
  ap_loses :: "string \<Rightarrow> string \<Rightarrow> bool"
  ap_order :: "User list \<Rightarrow> User list"

definition microseconds :: "int \<Rightarrow> int" where
  "microseconds t = t - t mod 1000"

definition run_sql :: "AuthPg \<Rightarrow> string \<Rightarrow> string \<Rightarrow> auth_err option \<Rightarrow> 'a \<Rightarrow> 'a ares" where
  "run_sql pg stmt key violation x =
     (if ap_fails pg stmt key then Err AuthSql else case violation of Some e \<Rightarrow> Err e | None \<Rightarrow> Ok x)"

text \<open>
  What the caller sees of a statement, or of a commit, that brings the database to \<open>r\<close>: when the
  answer is lost it sees an error, and the change is durable.
\<close>

definition answered :: "AuthPg \<Rightarrow> string \<Rightarrow> string \<Rightarrow> string \<Rightarrow> AuthDB \<Rightarrow> AuthDB ares \<Rightarrow> unit ares \<times> AuthDB" where
  "answered pg stmt key what db r =
     (case r of
        Ok db' \<Rightarrow> (if ap_loses pg stmt key then Err (AuthWrap what AuthSql) else Ok (), db')
      | Err e \<Rightarrow> (Err e, db)
      | Panic m \<Rightarrow> (Panic m, db))"

definition withTx :: "AuthPg \<Rightarrow> string \<Rightarrow> (AuthDB \<Rightarrow> AuthDB ares) \<Rightarrow> AuthDB \<Rightarrow> unit ares \<times> AuthDB" where
  "withTx pg key fn db = answered pg ''commit'' key ''commit tx'' db (
     bind_outcome (map_err (AuthWrap ''begin tx'') (run_sql pg ''begin'' key None db)) (\<lambda>db.
     bind_outcome (fn db) (\<lambda>db. map_err (AuthWrap ''commit tx'') (run_sql pg ''commit'' key None db))))"

definition isUniqueViolation :: "auth_err \<Rightarrow> bool" where
  "isUniqueViolation e \<longleftrightarrow> e = AuthUnique"

definition CreateUser :: "AuthPg \<Rightarrow> User \<Rightarrow> string \<Rightarrow> AuthDB \<Rightarrow> unit ares \<times> AuthDB" where
  "CreateUser pg user passwordHash = withTx pg (us_ID user) (\<lambda>db.
     bind_outcome
       (map_err (\<lambda>e. if isUniqueViolation e then ErrEmailTaken else AuthWrap ''insert user'' e)
          (run_sql pg ''insert user'' (us_ID user)
             (if list_ex (\<lambda>u. us_ID u = us_ID user \<or> us_Email u = us_Email user) (ad_users db) then Some AuthUnique else None)
             (db\<lparr>ad_users := ad_users db @ [user\<lparr>us_CreatedAt := microseconds (us_CreatedAt user)\<rparr>]\<rparr>))) (\<lambda>db.
     map_err (AuthWrap ''insert password credentials'')
       (run_sql pg ''insert password credentials'' (us_ID user)
          (if list_ex (\<lambda>p. fst p = us_ID user) (ad_passwords db) then Some AuthUnique else None)
          (db\<lparr>ad_passwords := ad_passwords db @ [(us_ID user, passwordHash)]\<rparr>))))"

definition FindUserWithPasswordByEmail :: "AuthPg \<Rightarrow> string \<Rightarrow> AuthDB \<Rightarrow> UserWithPassword ares" where
  "FindUserWithPasswordByEmail pg email db =
     bind_outcome
       (map_err (AuthWrap ''find user by email'') (run_sql pg ''find user by email'' email None
          [(u, snd p). u \<leftarrow> ad_users db, p \<leftarrow> ad_passwords db, fst p = us_ID u \<and> us_Email u = ToLower email])) (\<lambda>rows.
     case rows of [] \<Rightarrow> Err ErrInvalidCredentials | (u, h) # _ \<Rightarrow> Ok \<lparr>up_User = u, up_PasswordHash = h\<rparr>)"

definition FindUserByID :: "AuthPg \<Rightarrow> string \<Rightarrow> AuthDB \<Rightarrow> User ares" where
  "FindUserByID pg userID db =
     bind_outcome (map_err (AuthWrap ''find user'') (run_sql pg ''find user'' userID None
         (find (\<lambda>u. us_ID u = userID) (ad_users db)))) (\<lambda>row.
     case row of None \<Rightarrow> Err ErrUserNotFound | Some u \<Rightarrow> Ok u)"

text \<open>SQL's \<open>LIKE\<close>: per cent stands for any text, underscore for one character, a backslash escapes.\<close>

fun like :: "string \<Rightarrow> string \<Rightarrow> bool" where
  "like [] s \<longleftrightarrow> s = []"
| "like (p # ps) [] \<longleftrightarrow> p = CHR ''%'' \<and> like ps []"
| "like (p # ps) (c # s) \<longleftrightarrow>
     (if p = CHR ''%'' then like ps (c # s) \<or> like (p # ps) s
      else if p = CHR 0x5C then (case ps of [] \<Rightarrow> False | q # qs \<Rightarrow> q = c \<and> like qs s)
      else (p = CHR ''_'' \<or> p = c) \<and> like ps s)"

definition SearchUsersByEmail :: "AuthPg \<Rightarrow> string \<Rightarrow> nat \<Rightarrow> AuthDB \<Rightarrow> User list ares" where
  "SearchUsersByEmail pg query limit db =
     map_err (AuthWrap ''search users'') (run_sql pg ''search users'' query None
       (take limit (ap_order pg (filter (\<lambda>u. like (''%'' @ ToLower query @ ''%'') (us_Email u)) (ad_users db)))))"

text \<open>The keys of \<open>refresh_sessions\<close>: identifier, token hash, and a user that exists.\<close>

definition session_violates :: "RefreshSession \<Rightarrow> AuthDB \<Rightarrow> auth_err option" where
  "session_violates session db =
     (if list_ex (\<lambda>x. rs_ID x = rs_ID session \<or> rs_TokenHash x = rs_TokenHash session) (ad_sessions db) then Some AuthUnique
      else if \<not> list_ex (\<lambda>u. us_ID u = rs_UserID session) (ad_users db) then Some AuthSql else None)"

definition insert_session :: "RefreshSession \<Rightarrow> AuthDB \<Rightarrow> AuthDB" where
  "insert_session session db =
     db\<lparr>ad_sessions := ad_sessions db @ [session\<lparr>rs_ExpiresAt := microseconds (rs_ExpiresAt session), rs_RevokedAt := None\<rparr>]\<rparr>"

definition CreateRefreshSession :: "AuthPg \<Rightarrow> RefreshSession \<Rightarrow> AuthDB \<Rightarrow> unit ares \<times> AuthDB" where
  "CreateRefreshSession pg session db =
     answered pg ''insert refresh session'' (rs_ID session) ''insert refresh session'' db
       (map_err (AuthWrap ''insert refresh session'') (run_sql pg ''insert refresh session'' (rs_ID session)
         (session_violates session db) (insert_session session db)))"

definition FindRefreshSessionByTokenHash :: "AuthPg \<Rightarrow> string \<Rightarrow> AuthDB \<Rightarrow> RefreshSession ares" where
  "FindRefreshSessionByTokenHash pg tokenHash db =
     bind_outcome (map_err (AuthWrap ''find refresh session'') (run_sql pg ''find refresh session'' tokenHash None
         (find (\<lambda>x. rs_TokenHash x = tokenHash) (ad_sessions db)))) (\<lambda>row.
     case row of None \<Rightarrow> Err ErrInvalidRefreshToken | Some x \<Rightarrow> Ok x)"

text \<open>\<open>SET revoked_at = now ... WHERE revoked_at IS NULL\<close> on the rows that fit.\<close>

definition revoke_row :: "(RefreshSession \<Rightarrow> bool) \<Rightarrow> int \<Rightarrow> RefreshSession \<Rightarrow> RefreshSession" where
  "revoke_row P now x = (if P x \<and> rs_RevokedAt x = None then x\<lparr>rs_RevokedAt := Some (microseconds now)\<rparr> else x)"

definition revoke :: "(RefreshSession \<Rightarrow> bool) \<Rightarrow> int \<Rightarrow> AuthDB \<Rightarrow> AuthDB" where
  "revoke P now db = db\<lparr>ad_sessions := map (revoke_row P now) (ad_sessions db)\<rparr>"

definition RotateRefreshSession :: "AuthPg \<Rightarrow> int \<Rightarrow> string \<Rightarrow> RefreshSession \<Rightarrow> AuthDB \<Rightarrow> unit ares \<times> AuthDB" where
  "RotateRefreshSession pg now oldSessionID newSession = withTx pg oldSessionID (\<lambda>db.
     bind_outcome (map_err (AuthWrap ''revoke refresh session'')
       (run_sql pg ''revoke refresh session'' oldSessionID None (revoke (\<lambda>x. rs_ID x = oldSessionID) now db))) (\<lambda>db.
     map_err (AuthWrap ''insert rotated refresh session'')
       (run_sql pg ''insert rotated refresh session'' (rs_ID newSession) (session_violates newSession db)
         (insert_session newSession db))))"

definition RevokeRefreshSession :: "AuthPg \<Rightarrow> int \<Rightarrow> string \<Rightarrow> AuthDB \<Rightarrow> unit ares \<times> AuthDB" where
  "RevokeRefreshSession pg now tokenHash db =
     (case run_sql pg ''revoke refresh session'' tokenHash None (revoke (\<lambda>x. rs_TokenHash x = tokenHash) now db) of
        Err e \<Rightarrow> (Err (AuthWrap ''revoke refresh session'' e), db)
      | Panic m \<Rightarrow> (Panic m, db)
      | Ok db' \<Rightarrow>
          (if ap_loses pg ''revoke refresh session'' tokenHash then Err (AuthWrap ''revoke refresh session'' AuthSql)
           else if list_ex (\<lambda>x. rs_TokenHash x = tokenHash \<and> rs_RevokedAt x = None) (ad_sessions db) then Ok ()
           else Err ErrInvalidRefreshToken, db'))"

section \<open>What the statements keep\<close>

text \<open>Session identifiers and token hashes are unique, and every session belongs to a user.\<close>

definition sessions_ok :: "AuthDB \<Rightarrow> bool" where
  "sessions_ok db \<longleftrightarrow> distinct (map rs_ID (ad_sessions db)) \<and> distinct (map rs_TokenHash (ad_sessions db))
     \<and> rs_UserID ` set (ad_sessions db) \<subseteq> us_ID ` set (ad_users db)"

text \<open>A token is dead when a revoked session carries its hash.\<close>

definition dead :: "string \<Rightarrow> AuthDB \<Rightarrow> bool" where
  "dead h db \<longleftrightarrow> (\<exists>x \<in> set (ad_sessions db). rs_TokenHash x = h \<and> rs_RevokedAt x \<noteq> None)"

named_theorems sessions \<open>what the statements keep of the refresh sessions\<close>

lemma run_sql_Ok [simp]: "run_sql pg stmt key v x = Ok y \<longleftrightarrow> \<not> ap_fails pg stmt key \<and> v = None \<and> y = x"
  by (auto simp: run_sql_def split: option.splits)

lemma answered_cases:
  "answered pg stmt key what db r = (x, db') \<Longrightarrow> x \<noteq> Ok () \<and> db' = db \<or> r = Ok db'"
  by (auto simp: answered_def split: outcome.splits)

lemma auth_tx_cases: "withTx pg key fn db = (x, db') \<Longrightarrow> x \<noteq> Ok () \<and> db' = db \<or> fn db = Ok db'"
  by (auto simp: withTx_def dest!: answered_cases)

lemma session_violates_None:
  "session_violates x db = None \<longleftrightarrow> rs_ID x \<notin> rs_ID ` set (ad_sessions db)
    \<and> rs_TokenHash x \<notin> rs_TokenHash ` set (ad_sessions db) \<and> rs_UserID x \<in> us_ID ` set (ad_users db)"
  unfolding session_violates_def list_ex_iff image_iff by (simp add: eq_commute) blast

lemma revoke_row_simps [simp]:
  "rs_ID (revoke_row P n x) = rs_ID x" "rs_TokenHash (revoke_row P n x) = rs_TokenHash x"
  "rs_UserID (revoke_row P n x) = rs_UserID x" "rs_RevokedAt x \<noteq> None \<Longrightarrow> revoke_row P n x = x"
  "P x \<Longrightarrow> rs_RevokedAt (revoke_row P n x) \<noteq> None"
  by (auto simp: revoke_row_def)

lemma insert_session_simps [simp]:
  "ad_users (insert_session x db) = ad_users db" "map rs_ID (ad_sessions (insert_session x db)) = map rs_ID (ad_sessions db) @ [rs_ID x]"
  "map rs_TokenHash (ad_sessions (insert_session x db)) = map rs_TokenHash (ad_sessions db) @ [rs_TokenHash x]"
  by (simp_all add: insert_session_def)

lemma revoke_simps [simp]:
  "ad_users (revoke P n db) = ad_users db" "map rs_ID (ad_sessions (revoke P n db)) = map rs_ID (ad_sessions db)"
  "map rs_TokenHash (ad_sessions (revoke P n db)) = map rs_TokenHash (ad_sessions db)"
  "rs_UserID ` set (ad_sessions (revoke P n db)) = rs_UserID ` set (ad_sessions db)"
  by (simp_all add: revoke_def comp_def image_image)

lemma revoke_ok [sessions]: "sessions_ok db \<Longrightarrow> sessions_ok (revoke P n db)"
  by (simp add: sessions_ok_def)

lemma insert_session_ok [sessions]:
  "\<lbrakk>sessions_ok db; session_violates x db = None\<rbrakk> \<Longrightarrow> sessions_ok (insert_session x db)"
  unfolding sessions_ok_def session_violates_None by (auto simp: insert_session_def)

lemma dead_kept [sessions]:
  "dead h db \<Longrightarrow> dead h (revoke P n db)" "dead h db \<Longrightarrow> dead h (insert_session x db)"
  by (fastforce simp: dead_def revoke_def insert_session_def)+

lemma CreateUser_sessions:
  assumes "CreateUser pg u h db = (r, db')"
  shows "ad_sessions db' = ad_sessions db" "set (ad_users db) \<subseteq> set (ad_users db')"
    "r = Ok () \<Longrightarrow> us_ID u \<in> us_ID ` set (ad_users db')"
  using assms by (auto simp: CreateUser_def dest!: auth_tx_cases)

lemma CreateUser_ok [sessions]: "CreateUser pg u h db = (r, db') \<Longrightarrow> sessions_ok db \<Longrightarrow> sessions_ok db'"
  using CreateUser_sessions [of pg u h db r db'] unfolding sessions_ok_def by (metis (no_types, lifting) dual_order.trans image_mono)

lemma CreateUser_dead [sessions]: "CreateUser pg u h db = (r, db') \<Longrightarrow> dead k db \<Longrightarrow> dead k db'"
  using CreateUser_sessions [of pg u h db r db'] by (simp add: dead_def)

lemma CreateRefreshSession_cases:
  "CreateRefreshSession pg x db = (r, db') \<Longrightarrow> r \<noteq> Ok () \<and> db' = db \<or> session_violates x db = None \<and> db' = insert_session x db"
  by (auto simp: CreateRefreshSession_def dest!: answered_cases)

lemma RotateRefreshSession_cases:
  "RotateRefreshSession pg n i x db = (r, db')
    \<Longrightarrow> r \<noteq> Ok () \<and> db' = db \<or> session_violates x (revoke (\<lambda>x. rs_ID x = i) n db) = None \<and> db' = insert_session x (revoke (\<lambda>x. rs_ID x = i) n db)"
  by (auto simp: RotateRefreshSession_def dest!: auth_tx_cases)

text \<open>Rotating and revoking make the old token dead.\<close>

lemma revoke_dead: "\<lbrakk>x \<in> set (ad_sessions db); P x\<rbrakk> \<Longrightarrow> dead (rs_TokenHash x) (revoke P n db)"
  unfolding dead_def by (intro bexI [of _ "revoke_row P n x"]) (auto simp: revoke_def)

lemma dead_not_live:
  assumes "sessions_ok db" "dead h db" "FindRefreshSessionByTokenHash pg h db = Ok x"
  shows "rs_RevokedAt x \<noteq> None"
proof -
  have x: "x \<in> set (ad_sessions db)" "rs_TokenHash x = h"
    using assms(3) by (auto simp: FindRefreshSessionByTokenHash_def find_Some_iff split: option.splits)
  obtain y where y: "y \<in> set (ad_sessions db)" "rs_TokenHash y = h" "rs_RevokedAt y \<noteq> None"
    using assms(2) by (auto simp: dead_def)
  have "inj_on rs_TokenHash (set (ad_sessions db))" using assms(1) by (simp add: sessions_ok_def distinct_map)
  then have "x = y" using x y by (auto dest: inj_onD)
  then show ?thesis using y(3) by simp
qed

end
