(* ===== verification/AuthService.thy ===== *)
theory AuthService
  imports AuthStore Tokens
begin

text \<open>
  The auth service (\<open>internal/application/service.go\<close>) and its HTTP server
  (\<open>internal/delivery/http/server.go\<close>): registration, login, rotation and revocation of refresh
  tokens, and the lookups of users. The password hash, the random source, the clock and the
  database server of a call are parameters.
\<close>

section \<open>The service\<close>

record AuthService =
  as_crypto :: Crypto
  as_tokens :: TokenManager
  as_CheckPassword :: "string \<Rightarrow> string \<Rightarrow> bool"
  as_publisher :: bool
  as_admins :: "string list"

record AuthCtx =
  ax_pg :: AuthPg
  ax_now :: int
  ax_HashPassword :: "string \<Rightarrow> string option"
  ax_rand_id :: "string \<Rightarrow> string option"
  ax_rand_token :: "string option"
  ax_publish_fails :: bool

text \<open>The world: the database and the users announced on the \<open>user created\<close> topic.\<close>

record AuthWorld =
  aw_db :: AuthDB
  aw_published :: "User list"

record AuthResult =
  at_AccessToken :: string
  at_RefreshToken :: string
  at_User :: User

definition normalizeEmail :: "string \<Rightarrow> string" where
  "normalizeEmail email = ToLower (TrimSpace email)"

definition isValidEmail :: "string \<Rightarrow> bool" where
  "isValidEmail email \<longleftrightarrow> Contains email ''@'' \<and> \<not> HasPrefix email ''@'' \<and> \<not> HasSuffix email ''@''"

definition newID :: "AuthCtx \<Rightarrow> string \<Rightarrow> string" where
  "newID c prefix =
     (case ax_rand_id c prefix of
        None \<Rightarrow> prefix @ ''-'' @ show_int (ax_now c)
      | Some raw \<Rightarrow> prefix @ ''-'' @ ToLower (EncodeToString raw))"

definition NewService ::
    "Crypto \<Rightarrow> TokenManager \<Rightarrow> (string \<Rightarrow> string \<Rightarrow> bool) \<Rightarrow> bool \<Rightarrow> string list \<Rightarrow> AuthService" where
  "NewService cr tokens check publisher adminEmails =
     \<lparr>as_crypto = cr, as_tokens = tokens, as_CheckPassword = check, as_publisher = publisher,
      as_admins = map normalizeEmail adminEmails\<rparr>"

definition isAdminEmail :: "AuthService \<Rightarrow> string \<Rightarrow> bool" where
  "isAdminEmail s email \<longleftrightarrow> normalizeEmail email \<in> set (as_admins s)"

definition token_step :: "string \<Rightarrow> (token_err, 'a) outcome \<Rightarrow> 'a ares" where
  "token_step m r = map_err (\<lambda>e. AuthWrap m (AuthText (case e of ErrToken t \<Rightarrow> t | _ \<Rightarrow> ''''))) r"

text \<open>The access token and the new refresh session of a user.\<close>

definition new_tokens :: "AuthService \<Rightarrow> AuthCtx \<Rightarrow> User \<Rightarrow> (AuthResult \<times> RefreshSession) ares" where
  "new_tokens s c user =
     bind_outcome (token_step ''issue access token''
       (IssueAccessToken (as_crypto s) (as_tokens s) (ax_now c) (us_ID user) (us_IsAdmin user))) (\<lambda>accessToken.
     bind_outcome (token_step ''issue refresh token''
       (NewRefreshToken (as_crypto s) (as_tokens s) (ax_now c) (ax_rand_token c))) (\<lambda>(refreshToken, refreshHash, refreshExpiresAt).
     Ok (\<lparr>at_AccessToken = accessToken, at_RefreshToken = refreshToken, at_User = user\<rparr>,
         \<lparr>rs_ID = newID c ''refresh'', rs_UserID = us_ID user, rs_TokenHash = refreshHash,
          rs_ExpiresAt = refreshExpiresAt, rs_RevokedAt = None\<rparr>)))"

definition on_auth_db :: "AuthWorld \<Rightarrow> 'a \<Rightarrow> unit ares \<times> AuthDB \<Rightarrow> 'a ares \<times> AuthWorld" where
  "on_auth_db w x rd = (case rd of (r, db) \<Rightarrow> (bind_outcome r (\<lambda>_. Ok x), w\<lparr>aw_db := db\<rparr>))"

definition issueSession :: "AuthService \<Rightarrow> AuthCtx \<Rightarrow> User \<Rightarrow> AuthWorld \<Rightarrow> AuthResult ares \<times> AuthWorld" where
  "issueSession s c user w =
     (case new_tokens s c user of
        Ok (r, session) \<Rightarrow> on_auth_db w r (CreateRefreshSession (ax_pg c) session (aw_db w))
      | Err e \<Rightarrow> (Err e, w)
      | Panic m \<Rightarrow> (Panic m, w))"

definition Register :: "AuthService \<Rightarrow> AuthCtx \<Rightarrow> string \<Rightarrow> string \<Rightarrow> AuthWorld \<Rightarrow> AuthResult ares \<times> AuthWorld" where
  "Register s c email password w =
     (let email = normalizeEmail email
      in if \<not> isValidEmail email \<or> length password < 8 then (Err ErrInvalidInput, w)
         else case ax_HashPassword c password of
             None \<Rightarrow> (Err (AuthWrap ''hash password'' (AuthText ''bcrypt'')), w)
           | Some passwordHash \<Rightarrow>
               (let user = \<lparr>us_ID = newID c ''user'', us_Email = email, us_IsAdmin = isAdminEmail s email, us_CreatedAt = ax_now c\<rparr>
                in case CreateUser (ax_pg c) user passwordHash (aw_db w) of
                    (Err e, db) \<Rightarrow> (Err e, w\<lparr>aw_db := db\<rparr>)
                  | (Panic m, db) \<Rightarrow> (Panic m, w\<lparr>aw_db := db\<rparr>)
                  | (Ok _, db) \<Rightarrow>
                      issueSession s c user
                        (w\<lparr>aw_db := db, aw_published :=
                            aw_published w @ (if as_publisher s \<and> \<not> ax_publish_fails c then [user] else [])\<rparr>)))"

definition Login :: "AuthService \<Rightarrow> AuthCtx \<Rightarrow> string \<Rightarrow> string \<Rightarrow> AuthWorld \<Rightarrow> AuthResult ares \<times> AuthWorld" where
  "Login s c email password w =
     (case FindUserWithPasswordByEmail (ax_pg c) (normalizeEmail email) (aw_db w) of
        Err e \<Rightarrow> (Err e, w)
      | Panic m \<Rightarrow> (Panic m, w)
      | Ok rec \<Rightarrow>
          if \<not> as_CheckPassword s (up_PasswordHash rec) password then (Err ErrInvalidCredentials, w)
          else issueSession s c (up_User rec) w)"

text \<open>
  A refresh reads the session and its user and makes the new tokens; then it rotates the session.
  The two parts are separate statements on the database, so other calls can run in between.
\<close>

definition refresh_read ::
    "AuthService \<Rightarrow> AuthCtx \<Rightarrow> string \<Rightarrow> AuthDB \<Rightarrow> (RefreshSession \<times> AuthResult \<times> RefreshSession) ares" where
  "refresh_read s c refreshToken db =
     (if TrimSpace refreshToken = '''' then Err ErrInvalidRefreshToken
      else bind_outcome (FindRefreshSessionByTokenHash (ax_pg c) (HashRefreshToken (as_crypto s) refreshToken) db) (\<lambda>session.
        if rs_RevokedAt session \<noteq> None \<or> rs_ExpiresAt session < ax_now c then Err ErrInvalidRefreshToken
        else bind_outcome (FindUserByID (ax_pg c) (rs_UserID session) db) (\<lambda>user.
          bind_outcome (new_tokens s c user) (\<lambda>(r, newSession). Ok (session, r, newSession)))))"

definition refresh_write ::
    "AuthCtx \<Rightarrow> RefreshSession \<times> AuthResult \<times> RefreshSession \<Rightarrow> AuthWorld \<Rightarrow> AuthResult ares \<times> AuthWorld" where
  "refresh_write c p w =
     (case p of (session, r, newSession) \<Rightarrow>
        on_auth_db w r (RotateRefreshSession (ax_pg c) (ax_now c) (rs_ID session) newSession (aw_db w)))"

definition Refresh :: "AuthService \<Rightarrow> AuthCtx \<Rightarrow> string \<Rightarrow> AuthWorld \<Rightarrow> AuthResult ares \<times> AuthWorld" where
  "Refresh s c refreshToken w =
     (case refresh_read s c refreshToken (aw_db w) of
        Ok p \<Rightarrow> refresh_write c p w
      | Err e \<Rightarrow> (Err e, w)
      | Panic m \<Rightarrow> (Panic m, w))"

definition Me :: "AuthCtx \<Rightarrow> string \<Rightarrow> AuthWorld \<Rightarrow> User ares" where
  "Me c userID w = (if TrimSpace userID = '''' then Err ErrUserNotFound else FindUserByID (ax_pg c) userID (aw_db w))"

definition Svc_SearchUsersByEmail :: "AuthCtx \<Rightarrow> string \<Rightarrow> int \<Rightarrow> AuthWorld \<Rightarrow> User list ares" where
  "Svc_SearchUsersByEmail c query limit w =
     (let query = normalizeEmail query
      in if query = '''' then Err ErrInvalidInput
         else SearchUsersByEmail (ax_pg c) query (nat (if limit \<le> 0 then 20 else limit)) (aw_db w))"

definition Logout :: "AuthService \<Rightarrow> AuthCtx \<Rightarrow> string \<Rightarrow> AuthWorld \<Rightarrow> unit ares \<times> AuthWorld" where
  "Logout s c refreshToken w =
     (if TrimSpace refreshToken = '''' then (Err ErrInvalidRefreshToken, w)
      else let (r, db) = RevokeRefreshSession (ax_pg c) (ax_now c) (HashRefreshToken (as_crypto s) refreshToken) (aw_db w)
           in (r, w\<lparr>aw_db := db\<rparr>))"

section \<open>The HTTP server\<close>

text \<open>
  An answer is a status with a body. A request body that does not decode is None; the text of an
  error body is not modelled.
\<close>

datatype AuthBody =
    AuthNone
  | AuthError
  | AuthTokens string string User
  | AuthUser User
  | AuthUsers "User list"
  | AuthKeys "JWK list"

datatype AuthAnswer = AuthAnswer int AuthBody | AuthAborted

fun auth_Is :: "auth_err \<Rightarrow> auth_err \<Rightarrow> bool" where
  "auth_Is (AuthWrap m e) target \<longleftrightarrow> AuthWrap m e = target \<or> auth_Is e target"
| "auth_Is e target \<longleftrightarrow> e = target"

definition writeDomainError :: "auth_err \<Rightarrow> AuthAnswer" where
  "writeDomainError err =
     AuthAnswer
       (if auth_Is err ErrInvalidInput then 400
        else if auth_Is err ErrEmailTaken then 409
        else if auth_Is err ErrInvalidCredentials \<or> auth_Is err ErrInvalidRefreshToken then 401
        else if auth_Is err ErrUserNotFound then 404
        else 500) AuthError"

definition auth_reply :: "('a \<Rightarrow> AuthAnswer) \<Rightarrow> 'a ares \<Rightarrow> AuthAnswer" where
  "auth_reply f r = (case r of Ok x \<Rightarrow> f x | Err e \<Rightarrow> writeDomainError e | Panic m \<Rightarrow> AuthAborted)"

definition toAuthResponse :: "int \<Rightarrow> AuthResult \<Rightarrow> AuthAnswer" where
  "toAuthResponse status r = AuthAnswer status (AuthTokens (at_AccessToken r) (at_RefreshToken r) (at_User r))"

definition Http_Register :: "AuthService \<Rightarrow> AuthCtx \<Rightarrow> (string \<times> string) option \<Rightarrow> AuthWorld \<Rightarrow> AuthAnswer \<times> AuthWorld" where
  "Http_Register s c req w =
     (case req of None \<Rightarrow> (AuthAnswer 400 AuthError, w)
      | Some (email, password) \<Rightarrow> apfst (auth_reply (toAuthResponse 201)) (Register s c email password w))"

definition Http_Login :: "AuthService \<Rightarrow> AuthCtx \<Rightarrow> (string \<times> string) option \<Rightarrow> AuthWorld \<Rightarrow> AuthAnswer \<times> AuthWorld" where
  "Http_Login s c req w =
     (case req of None \<Rightarrow> (AuthAnswer 400 AuthError, w)
      | Some (email, password) \<Rightarrow> apfst (auth_reply (toAuthResponse 200)) (Login s c email password w))"

definition Http_Refresh :: "AuthService \<Rightarrow> AuthCtx \<Rightarrow> string option \<Rightarrow> AuthWorld \<Rightarrow> AuthAnswer \<times> AuthWorld" where
  "Http_Refresh s c req w =
     (case req of None \<Rightarrow> (AuthAnswer 400 AuthError, w)
      | Some token \<Rightarrow> apfst (auth_reply (toAuthResponse 200)) (Refresh s c token w))"

definition Http_Logout :: "AuthService \<Rightarrow> AuthCtx \<Rightarrow> string option \<Rightarrow> AuthWorld \<Rightarrow> AuthAnswer \<times> AuthWorld" where
  "Http_Logout s c req w =
     (case req of None \<Rightarrow> (AuthAnswer 400 AuthError, w)
      | Some token \<Rightarrow> apfst (auth_reply (\<lambda>_. AuthAnswer 204 AuthNone)) (Logout s c token w))"

text \<open>The claims of the bearer token, or the answer 401.\<close>

definition bearer_claims :: "AuthService \<Rightarrow> AuthCtx \<Rightarrow> string \<Rightarrow> TokenClaims option" where
  "bearer_claims s c authorization =
     (let token = bearerToken authorization
      in if token = '''' then None
         else case ParseAccessToken (as_crypto s) (as_tokens s) (ax_now c) token of Ok claims \<Rightarrow> Some claims | _ \<Rightarrow> None)"

definition Http_Me :: "AuthService \<Rightarrow> AuthCtx \<Rightarrow> string \<Rightarrow> AuthWorld \<Rightarrow> AuthAnswer" where
  "Http_Me s c authorization w =
     (case bearer_claims s c authorization of
        None \<Rightarrow> AuthAnswer 401 AuthError
      | Some claims \<Rightarrow> auth_reply (\<lambda>u. AuthAnswer 200 (AuthUser u)) (Me c (tc_Sub claims) w))"

definition Http_JWKS :: "AuthService \<Rightarrow> AuthAnswer" where
  "Http_JWKS s = AuthAnswer 200 (AuthKeys (JWKS (as_tokens s)))"

definition Http_AdminUsersSearch :: "AuthService \<Rightarrow> AuthCtx \<Rightarrow> string \<Rightarrow> string \<Rightarrow> AuthWorld \<Rightarrow> AuthAnswer" where
  "Http_AdminUsersSearch s c authorization email w =
     (case bearer_claims s c authorization of
        None \<Rightarrow> AuthAnswer 401 AuthError
      | Some claims \<Rightarrow>
          if \<not> tc_IsAdmin claims then AuthAnswer 403 AuthError
          else auth_reply (\<lambda>us. AuthAnswer 200 (AuthUsers us)) (Svc_SearchUsersByEmail c email 20 w))"


section \<open>Sequences of calls\<close>

datatype AuthCall =
    CallRegister AuthCtx string string
  | CallLogin AuthCtx string string
  | CallRefresh AuthCtx string
  | CallLogout AuthCtx string

fun auth_step :: "AuthService \<Rightarrow> AuthCall \<Rightarrow> AuthWorld \<Rightarrow> AuthWorld" where
  "auth_step s (CallRegister c email password) w = snd (Register s c email password w)"
| "auth_step s (CallLogin c email password) w = snd (Login s c email password w)"
| "auth_step s (CallRefresh c token) w = snd (Refresh s c token w)"
| "auth_step s (CallLogout c token) w = snd (Logout s c token w)"

definition auth_run :: "AuthService \<Rightarrow> AuthCall list \<Rightarrow> AuthWorld \<Rightarrow> AuthWorld" where
  "auth_run s calls w = fold (auth_step s) calls w"

definition empty_auth :: AuthWorld where
  "empty_auth = \<lparr>aw_db = \<lparr>ad_users = [], ad_passwords = [], ad_sessions = []\<rparr>, aw_published = []\<rparr>"

text \<open>What every call keeps of the sessions: a predicate of the database.\<close>

definition kept :: "(AuthDB \<Rightarrow> bool) \<Rightarrow> bool" where
  "kept P \<longleftrightarrow> (\<forall>pg u h db r db'. CreateUser pg u h db = (r, db') \<longrightarrow> P db \<longrightarrow> P db')
     \<and> (\<forall>x db. session_violates x db = None \<longrightarrow> P db \<longrightarrow> P (insert_session x db))
     \<and> (\<forall>Q n db. P db \<longrightarrow> P (revoke Q n db))"

lemma kept_sessions_ok: "kept sessions_ok" and kept_dead: "kept (dead h)"
  unfolding kept_def by (blast intro: sessions)+

lemma on_auth_db_cases:
  "on_auth_db w x rd = (y, w') \<Longrightarrow> \<exists>r db. rd = (r, db) \<and> w' = w\<lparr>aw_db := db\<rparr> \<and> (r = Ok () \<and> y = Ok x \<or> r \<noteq> Ok () \<and> (\<forall>x. y \<noteq> Ok x))"
  by (cases "fst rd") (auto simp: on_auth_db_def split: prod.splits)

lemma issueSession_kept:
  assumes P: "kept P" "P (aw_db w)"
  shows "P (aw_db (snd (issueSession s c user w)))"
  using assms by (auto simp: issueSession_def on_auth_db_def kept_def split: outcome.split prod.split dest!: CreateRefreshSession_cases)

lemma refresh_write_kept:
  assumes P: "kept P" "P (aw_db w)"
  shows "P (aw_db (snd (refresh_write c p w)))"
  using assms
  by (auto simp: refresh_write_def on_auth_db_def kept_def split: outcome.split prod.split dest!: RotateRefreshSession_cases)

lemma auth_step_kept:
  assumes P: "kept P" "P (aw_db w)"
  shows "P (aw_db (auth_step s call w))"
proof (cases call)
  case (CallRegister c email password)
  have "P db" if "CreateUser pg u h (aw_db w) = (r, db)" for pg u h r db
    using P that unfolding kept_def by blast
  then show ?thesis
    using P issueSession_kept [OF P(1)] unfolding CallRegister
    by (auto simp: Register_def Let_def split: outcome.split option.split prod.split)
next
  case (CallLogin c email password)
  then show ?thesis using P issueSession_kept [OF P] by (auto simp: Login_def split: outcome.split)
next
  case (CallRefresh c token)
  then show ?thesis using P refresh_write_kept [OF P] by (auto simp: Refresh_def split: outcome.split)
next
  case (CallLogout c token)
  then show ?thesis
    using P by (auto simp: Logout_def RevokeRefreshSession_def kept_def Let_def run_sql_def split: outcome.splits option.splits prod.splits)
qed

lemma auth_run_kept: "\<lbrakk>kept P; P (aw_db w)\<rbrakk> \<Longrightarrow> P (aw_db (auth_run s calls w))"
  unfolding auth_run_def by (induction calls arbitrary: w) (simp_all add: auth_step_kept)

lemma reachable_sessions_ok: "sessions_ok (aw_db (auth_run s calls empty_auth))"
  by (rule auth_run_kept [OF kept_sessions_ok]) (simp add: empty_auth_def sessions_ok_def)

section \<open>Refresh tokens\<close>

lemma refresh_read_Ok:
  assumes "refresh_read s c token db = Ok (session, r, new)"
  shows "session \<in> set (ad_sessions db)" "rs_TokenHash session = HashRefreshToken (as_crypto s) token"
    "rs_RevokedAt session = None" "rs_TokenHash new = HashRefreshToken (as_crypto s) (at_RefreshToken r)"
  using assms
  by (auto simp: refresh_read_def FindRefreshSessionByTokenHash_def find_Some_iff new_tokens_def NewRefreshToken_def
      HashRefreshToken_def token_step_def Let_def split: if_splits option.splits)

lemma refresh_kills_token:
  assumes "Refresh s c token w = (Ok r, w')"
  shows "dead (HashRefreshToken (as_crypto s) token) (aw_db w')"
proof -
  obtain session r' new where read: "refresh_read s c token (aw_db w) = Ok (session, r', new)"
    and rot: "refresh_write c (session, r', new) w = (Ok r, w')"
    using assms by (auto simp: Refresh_def split: outcome.splits)
  obtain db' where db': "RotateRefreshSession (ax_pg c) (ax_now c) (rs_ID session) new (aw_db w) = (Ok (), db')" "w' = w\<lparr>aw_db := db'\<rparr>"
    using rot on_auth_db_cases by (fastforce simp: refresh_write_def)
  have "dead (rs_TokenHash session) (revoke (\<lambda>x. rs_ID x = rs_ID session) (ax_now c) (aw_db w))"
    by (rule revoke_dead [OF refresh_read_Ok(1) [OF read]]) simp
  then show ?thesis
    using RotateRefreshSession_cases [OF db'(1)] db'(2) refresh_read_Ok(2) [OF read] by (simp add: sessions)
qed

lemma logout_kills_token:
  assumes "Logout s c token w = (Ok (), w')"
  shows "dead (HashRefreshToken (as_crypto s) token) (aw_db w')"
proof -
  let ?h = "HashRefreshToken (as_crypto s) token"
  obtain x where x: "x \<in> set (ad_sessions (aw_db w))" "rs_TokenHash x = ?h"
    and w': "aw_db w' = revoke (\<lambda>x. rs_TokenHash x = ?h) (ax_now c) (aw_db w)"
    using assms
    by (auto simp: Logout_def RevokeRefreshSession_def run_sql_def list_ex_iff Let_def split: if_splits outcome.splits prod.splits)
  show ?thesis unfolding w' using revoke_dead [OF x(1), of "\<lambda>x. rs_TokenHash x = ?h"] x(2) by simp
qed

lemma dead_refused:
  assumes "sessions_ok (aw_db w)" "dead (HashRefreshToken (as_crypto s) token) (aw_db w)"
  shows "\<exists>e. Refresh s c token w = (Err e, w)"
proof -
  have "\<exists>e. refresh_read s c token (aw_db w) = Err e"
  proof (cases "FindRefreshSessionByTokenHash (ax_pg c) (HashRefreshToken (as_crypto s) token) (aw_db w)")
    case (Ok x)
    then have "rs_RevokedAt x \<noteq> None" by (rule dead_not_live [OF assms])
    then show ?thesis using Ok by (simp add: refresh_read_def)
  next
    case (Panic m)
    then have False by (auto simp: FindRefreshSessionByTokenHash_def run_sql_def split: if_splits option.splits)
    then show ?thesis ..
  qed (simp add: refresh_read_def)
  then show ?thesis by (auto simp: Refresh_def)
qed

text \<open>
  C16: A refresh token works once. After a refresh or a logout with a token succeeded, in any state
  the service can reach, every later refresh with that token fails and changes nothing, whatever
  calls were made in between.
\<close>

theorem refresh_token_works_once:
  assumes "w = auth_run s before empty_auth"
    and "Refresh s c token w = (Ok r, w') \<or> Logout s c token w = (Ok (), w')"
  shows "\<exists>e. Refresh s c' token (auth_run s after w') = (Err e, auth_run s after w')"
proof -
  have "w' = auth_run s (before @ [if Refresh s c token w = (Ok r, w') then CallRefresh c token else CallLogout c token]) empty_auth"
    using assms by (auto simp: auth_run_def)
  then have "sessions_ok (aw_db w')" using reachable_sessions_ok by metis
  moreover have "dead (HashRefreshToken (as_crypto s) token) (aw_db w')"
    using assms(2) refresh_kills_token logout_kills_token by blast
  ultimately show ?thesis
    by (intro dead_refused auth_run_kept [OF kept_dead] auth_run_kept [OF kept_sessions_ok])
qed


text \<open>
  Two refreshes at once double a session. When two requests with the same token both read the
  session before either rotates it, both succeed as long as their new tokens are fresh: the second
  rotation finds no live row to revoke and inserts its session all the same. Afterwards both
  new refresh tokens are live.
\<close>

theorem concurrent_refreshes_both_succeed:
  assumes read: "refresh_read s c1 token (aw_db w) = Ok (x1, r1, new1)" "refresh_read s c2 token (aw_db w) = Ok (x2, r2, new2)"
    and first: "refresh_write c1 (x1, r1, new1) w = (Ok r1, w1)"
    and fresh: "session_violates new2 (aw_db w1) = None"
    and up: "\<And>stmt key. \<not> ap_fails (ax_pg c2) stmt key \<and> \<not> ap_loses (ax_pg c2) stmt key"
  shows "\<exists>w2. refresh_write c2 (x2, r2, new2) w1 = (Ok r2, w2)
    \<and> (\<exists>y1 \<in> set (ad_sessions (aw_db w2)). \<exists>y2 \<in> set (ad_sessions (aw_db w2)). rs_ID y1 \<noteq> rs_ID y2
      \<and> rs_RevokedAt y1 = None \<and> rs_TokenHash y1 = HashRefreshToken (as_crypto s) (at_RefreshToken r1)
      \<and> rs_RevokedAt y2 = None \<and> rs_TokenHash y2 = HashRefreshToken (as_crypto s) (at_RefreshToken r2))"
proof -
  let ?db1 = "insert_session new1 (revoke (\<lambda>x. rs_ID x = rs_ID x1) (ax_now c1) (aw_db w))"
  let ?db2 = "insert_session new2 (revoke (\<lambda>x. rs_ID x = rs_ID x2) (ax_now c2) ?db1)"
  obtain db where "RotateRefreshSession (ax_pg c1) (ax_now c1) (rs_ID x1) new1 (aw_db w) = (Ok (), db)" "w1 = w\<lparr>aw_db := db\<rparr>"
    using first on_auth_db_cases by (fastforce simp: refresh_write_def)
  then have v1: "session_violates new1 (revoke (\<lambda>x. rs_ID x = rs_ID x1) (ax_now c1) (aw_db w)) = None" and db1: "aw_db w1 = ?db1"
    using RotateRefreshSession_cases by fastforce+
  have v2: "session_violates new2 (revoke P n ?db1) = None" for P n
    using fresh unfolding db1 session_violates_None by (metis list.set_map revoke_simps(1,2,3))
  have run: "refresh_write c2 (x2, r2, new2) w1 = (Ok r2, w1\<lparr>aw_db := ?db2\<rparr>)"
    using up v2 by (simp add: refresh_write_def RotateRefreshSession_def withTx_def answered_def run_sql_def on_auth_db_def db1)
  have "rs_ID x2 \<in> rs_ID ` set (ad_sessions (aw_db w))" using refresh_read_Ok(1) [OF read(2)] by simp
  moreover have "rs_ID new1 \<notin> rs_ID ` set (ad_sessions (aw_db w))"
    using v1 unfolding session_violates_None by (metis list.set_map revoke_simps(2))
  ultimately have other: "rs_ID new1 \<noteq> rs_ID x2" by metis
  let ?stored = "\<lambda>x. x\<lparr>rs_ExpiresAt := microseconds (rs_ExpiresAt x), rs_RevokedAt := None\<rparr>"
  have "?stored new1 \<in> set (ad_sessions ?db2)" "?stored new2 \<in> set (ad_sessions ?db2)"
    using other by (auto simp: insert_session_def revoke_def revoke_row_def)
  moreover have "rs_ID new1 \<noteq> rs_ID new2"
    using fresh unfolding db1 session_violates_None by (auto simp: insert_session_def)
  ultimately show ?thesis
    using run refresh_read_Ok(4) [OF read(1)] refresh_read_Ok(4) [OF read(2)]
    by (intro exI [of _ "w1\<lparr>aw_db := ?db2\<rparr>"] conjI bexI [of _ "?stored new1"] bexI [of _ "?stored new2"]) simp_all
qed

section \<open>A concrete service\<close>

definition ex_service :: AuthService where
  "ex_service = NewService
     \<lparr>cr_sha256 = (\<lambda>s. s), cr_Sign = (\<lambda>h. Some ''sig''), cr_Verify = (\<lambda>k h s. s = ''sig''),
      cr_MarshalHeader = (\<lambda>h. Some ''h''), cr_MarshalClaims = (\<lambda>c. Some (tc_Sub c)),
      cr_UnmarshalHeader = (\<lambda>s. None), cr_UnmarshalClaims = (\<lambda>s. None)\<rparr> ex_manager (=) True [''A@x '']"

definition ex_ctx :: "string \<Rightarrow> AuthCtx" where
  "ex_ctx r = \<lparr>ax_pg = \<lparr>ap_fails = (\<lambda>_ _. False), ap_loses = (\<lambda>_ _. False), ap_order = (\<lambda>us. us)\<rparr>, ax_now = 5000000000, ax_HashPassword = Some,
     ax_rand_id = (\<lambda>_. Some r), ax_rand_token = Some r, ax_publish_fails = False\<rparr>"

definition ex_world :: AuthWorld where
  "ex_world = auth_run ex_service [CallRegister (ex_ctx ''r0'') '' a@X'' ''password''] empty_auth"

lemma ex_world_code:
  "is_ok (fst (Refresh ex_service (ex_ctx ''r1'') (EncodeToString ''r0'') ex_world))"
  "is_ok (refresh_read ex_service (ex_ctx ''r1'') (EncodeToString ''r0'') (aw_db ex_world))"
  "is_ok (refresh_read ex_service (ex_ctx ''r2'') (EncodeToString ''r0'') (aw_db ex_world))"
  "case (refresh_read ex_service (ex_ctx ''r1'') (EncodeToString ''r0'') (aw_db ex_world),
        refresh_read ex_service (ex_ctx ''r2'') (EncodeToString ''r0'') (aw_db ex_world)) of
     (Ok (x, r, new), Ok (x2, r2, new2)) \<Rightarrow>
       fst (refresh_write (ex_ctx ''r1'') (x, r, new) ex_world) = Ok r
       \<and> session_violates new2 (aw_db (snd (refresh_write (ex_ctx ''r1'') (x, r, new) ex_world))) = None
   | _ \<Rightarrow> False"
  by code_simp+

theorem refresh_token_works_once_witness:
  "\<exists>r w'. Refresh ex_service (ex_ctx ''r1'') (EncodeToString ''r0'') ex_world = (Ok r, w')
    \<and> (\<exists>e. Refresh ex_service (ex_ctx ''r3'') (EncodeToString ''r0'')
        (auth_run ex_service [CallLogin (ex_ctx ''r2'') ''a@x'' ''password''] w')
      = (Err e, auth_run ex_service [CallLogin (ex_ctx ''r2'') ''a@x'' ''password''] w'))"
proof -
  obtain r w' where run: "Refresh ex_service (ex_ctx ''r1'') (EncodeToString ''r0'') ex_world = (Ok r, w')"
    using ex_world_code(1) by (metis is_ok_iff prod.collapse)
  show ?thesis using run refresh_token_works_once [OF ex_world_def disjI1 [OF run]] by blast
qed

theorem concurrent_refreshes_both_succeed_witness:
  "\<exists>x1 r1 new1 w1 x2 r2 new2 w2. refresh_read ex_service (ex_ctx ''r1'') (EncodeToString ''r0'') (aw_db ex_world) = Ok (x1, r1, new1)
    \<and> refresh_read ex_service (ex_ctx ''r2'') (EncodeToString ''r0'') (aw_db ex_world) = Ok (x2, r2, new2)
    \<and> refresh_write (ex_ctx ''r1'') (x1, r1, new1) ex_world = (Ok r1, w1)
    \<and> refresh_write (ex_ctx ''r2'') (x2, r2, new2) w1 = (Ok r2, w2)"
proof -
  obtain x1 r1 new1 x2 r2 new2 where
    read: "refresh_read ex_service (ex_ctx ''r1'') (EncodeToString ''r0'') (aw_db ex_world) = Ok (x1, r1, new1)"
      "refresh_read ex_service (ex_ctx ''r2'') (EncodeToString ''r0'') (aw_db ex_world) = Ok (x2, r2, new2)"
    using ex_world_code(2,3) unfolding is_ok_iff by (metis prod_cases3)
  then obtain w1 where run: "refresh_write (ex_ctx ''r1'') (x1, r1, new1) ex_world = (Ok r1, w1)" "session_violates new2 (aw_db w1) = None"
    using ex_world_code(4) unfolding read by (simp add: prod_eq_iff)
  have up: "\<not> ap_fails (ax_pg (ex_ctx r)) stmt key \<and> \<not> ap_loses (ax_pg (ex_ctx r)) stmt key" for r stmt key by (simp add: ex_ctx_def)
  show ?thesis using concurrent_refreshes_both_succeed [OF read run up] read run(1) by blast
qed

end
