(* ===== verification/Engine64.thy ===== *)
theory Engine64
  imports EngineSane
begin

text \<open>
  The chip arithmetic of the engine at the width Go gives it: every \<open>+\<close>, \<open>-\<close> and \<open>*\<close> on an
  \<open>int\<close> wraps at 64 bits (\<^const>\<open>wrap64\<close>). The definitions follow \<open>pot.go\<close>, \<open>rake.go\<close>,
  \<open>betting.go\<close>, \<open>finish_hand.go\<close>, \<open>start_hand.go\<close> and \<open>apply_action.go\<close> line by line, as the
  definitions on unbounded integers of the theories before do; those are the specification.
  The lemmas \<open>..._exact\<close> show when the two agree: as long as the chips of the hand stay below
  \<open>2 ^ 63\<close> no operation wraps. The two properties on pots and bets are stated over the code's
  64-bit definitions.
\<close>

named_theorems exact64 \<open>operations that do not wrap on the amounts at hand\<close>

section \<open>Pots and rake\<close>

definition Total64 :: "Pot list \<Rightarrow> int" where
  "Total64 pots = foldl (\<lambda>total p. wrap64 (total + pot_Amount p)) 0 pots"

definition subtract_min64 :: "int \<Rightarrow> (PlayerID, int) gomap \<Rightarrow> (PlayerID, int) gomap" where
  "subtract_min64 m remaining =
     filter (\<lambda>(i, a). a \<noteq> 0) (map (\<lambda>(i, a). (i, wrap64 (a - m))) remaining)"

lemma wrap64_0 [simp]: "wrap64 0 = 0"
  by (simp add: in_int64_def)

lemma length_subtract_min64:
  assumes "m \<in> snd ` set remaining"
  shows "length (subtract_min64 m remaining) < length remaining"
proof -
  obtain i where "(i, m) \<in> set remaining" using assms by auto
  then have "length (filter (\<lambda>p. wrap64 (snd p - m) \<noteq> 0) remaining) < length remaining"
    by (rule length_filter_less) simp
  then show ?thesis by (simp add: subtract_min64_def filter_map comp_def case_prod_unfold)
qed

function calculate_loop64 ::
    "(PlayerID list \<Rightarrow> PlayerID list) \<Rightarrow> (PlayerID, int) gomap \<Rightarrow> Pot list" where
  "calculate_loop64 iter remaining =
     (if remaining = [] then []
      else let minContrib = min_scan (-1) (map snd remaining)
           in \<lparr>pot_Amount = wrap64 (minContrib * int (length remaining)),
               pot_Eligible = iter (map fst remaining)\<rparr>
              # calculate_loop64 iter (subtract_min64 minContrib remaining))"
  by pat_completeness auto
termination
proof (relation "measure (\<lambda>(iter, remaining). length remaining)")
  fix iter :: "PlayerID list \<Rightarrow> PlayerID list" and remaining :: "(PlayerID, int) gomap" and m
  assume "remaining \<noteq> []" and m: "m = min_scan (-1) (map snd remaining)"
  then have "m \<in> snd ` set remaining" using min_scan_mem [of "map snd remaining"] by simp
  then show "((iter, subtract_min64 m remaining), iter, remaining)
      \<in> measure (\<lambda>(iter, remaining). length remaining)"
    by (simp add: length_subtract_min64)
qed simp

declare calculate_loop64.simps [simp del]

definition Calculate64 ::
    "(PlayerID list \<Rightarrow> PlayerID list) \<Rightarrow> (PlayerID, int) gomap \<Rightarrow> Pot list" where
  "Calculate64 iter contributions =
     (if contributions = [] then []
      else calculate_loop64 iter (filter (\<lambda>(i, amount). amount > 0) contributions))"

definition CalculateRake64 :: "(rat \<Rightarrow> rat) \<Rightarrow> Pot list \<Rightarrow> Street \<Rightarrow> RakeConfig \<Rightarrow> int" where
  "CalculateRake64 fl pots street config =
     (if rc_NoFlopNoDrop config \<and> street = StreetPreflop then 0
      else let total = Total64 pots
           in if total = 0 then 0
              else let rake = trunc_int (fl (fl (of_int total) * rc_Percent config))
                   in if rake > rc_Cap config then rc_Cap config else rake)"

fun apply_rake_loop64 :: "int \<Rightarrow> Pot list \<Rightarrow> Pot list" where
  "apply_rake_loop64 remaining [] = []"
| "apply_rake_loop64 remaining (p # ps) =
     (if remaining > 0
      then let deduct = (if remaining > pot_Amount p then pot_Amount p else remaining)
           in p\<lparr>pot_Amount := wrap64 (pot_Amount p - deduct)\<rparr> # apply_rake_loop64 (wrap64 (remaining - deduct)) ps
      else p # ps)"

definition ApplyRake64 :: "Pot list \<Rightarrow> int \<Rightarrow> Pot list" where
  "ApplyRake64 pots rake =
     (if rake = 0 \<or> pots = [] then pots else rev (apply_rake_loop64 rake (rev pots)))"

text \<open>What does not wrap.\<close>

definition amounts_ok :: "Pot list \<Rightarrow> bool" where
  "amounts_ok pots \<longleftrightarrow> (\<forall>p \<in> set pots. 0 \<le> pot_Amount p)"

lemma amounts_ok_simps [simp]:
  "amounts_ok []" "amounts_ok (p # ps) \<longleftrightarrow> 0 \<le> pot_Amount p \<and> amounts_ok ps"
  "amounts_ok (ps @ qs) \<longleftrightarrow> amounts_ok ps \<and> amounts_ok qs" "amounts_ok (rev ps) = amounts_ok ps"
  by (auto simp: amounts_ok_def)

lemma amounts_ok_Total: "amounts_ok pots \<Longrightarrow> 0 \<le> Total pots"
  unfolding amounts_ok_def by (rule Total_nonneg)

lemma wrap64_small: "\<lbrakk>0 \<le> x; x < 2 ^ 63\<rbrakk> \<Longrightarrow> wrap64 x = x"
  by (simp add: in_int64_def)

lemma Total64_exact [exact64]:
  assumes "amounts_ok pots" "Total pots < 2 ^ 63"
  shows "Total64 pots = Total pots"
proof -
  have "foldl (\<lambda>total p. wrap64 (total + pot_Amount p)) t pots = t + Total pots"
    if "0 \<le> t" "t + Total pots < 2 ^ 63" for t
    using assms(1) that
  proof (induction pots arbitrary: t)
    case (Cons p ps)
    have "0 \<le> Total ps" using Cons.prems(1) by (simp add: amounts_ok_Total)
    then have "wrap64 (t + pot_Amount p) = t + pot_Amount p" using Cons.prems by (intro wrap64_small) auto
    then show ?case using Cons by simp
  qed simp
  from this [of 0] show ?thesis using assms(2) by (simp add: Total64_def)
qed

lemma Total64_range: "in_int64 (Total64 pots)"
proof -
  have "in_int64 (foldl (\<lambda>total p. wrap64 (total + pot_Amount p)) t pots)" if "in_int64 t" for t
    using that by (induction pots arbitrary: t) (simp_all add: wrap64_range)
  then show ?thesis by (simp add: Total64_def in_int64_def)
qed

lemma gosum_pos: "all_pos r \<Longrightarrow> 0 \<le> gosum r"
  unfolding gosum_def all_pos_def by (intro sum_list_nonneg) auto

lemma member_le_gosum:
  assumes "all_pos r" "(i, a) \<in> set r"
  shows "a \<le> gosum r"
proof -
  have "\<forall>p \<in> set r. 0 \<le> snd p" using assms(1) by (auto simp: all_pos_def)
  from sum_list_member_le [OF this assms(2)] show ?thesis by (simp add: gosum_def)
qed

lemma subtract_min64_exact:
  assumes "all_pos r" "\<forall>(i, a) \<in> set r. m \<le> a \<and> a < 2 ^ 63" "0 \<le> m"
  shows "subtract_min64 m r = subtract_min m r"
proof -
  have "map (\<lambda>(i, a). (i, wrap64 (a - m))) r = map (\<lambda>(i, a). (i, a - m)) r"
    using assms by (intro map_cong) (auto intro!: wrap64_small)
  then show ?thesis unfolding subtract_min64_def subtract_min_def by (rule arg_cong)
qed

lemma calculate_loop64_exact:
  assumes "all_pos r" "gosum r < 2 ^ 63"
  shows "calculate_loop64 iter r = calculate_loop iter r"
  using assms
proof (induction r rule: calculate_induct)
  case Nil
  then show ?case by (simp add: calculate_loop64.simps calculate_loop.simps)
next
  case (Peel r)
  let ?m = "Min (snd ` set r)"
  let ?r = "subtract_min ?m r"
  have m0: "0 < ?m" using Peel(1,2) by (rule min_contrib(2))
  have rest: "gosum ?r = gosum r - ?m * int (length r)" by (rule gosum_subtract_min)
  have "0 \<le> gosum ?r" using all_pos_subtract_min [OF Peel(1,2)] by (rule gosum_pos)
  then have "wrap64 (?m * int (length r)) = ?m * int (length r)"
    using rest m0 Peel.prems by (intro wrap64_small) auto
  moreover have "gosum ?r < 2 ^ 63" using rest m0 Peel.prems mult_nonneg_nonneg [of ?m "int (length r)"] by linarith
  moreover have "subtract_min64 ?m r = ?r"
    using Peel(1) m0 Peel.prems min_contrib(3) [OF Peel(1,2)] member_le_gosum [OF Peel(1)]
    by (intro subtract_min64_exact) fastforce+
  moreover have "min_scan (-1) (map snd r) = ?m" using Peel(1,2) by (rule min_contrib(1))
  ultimately show ?case
    using Peel(2,3) by (subst calculate_loop64.simps) (simp add: calculate_loop_step [OF Peel(1,2)])
qed

lemma Calculate64_exact [exact64]:
  assumes "gosum (filter (\<lambda>(i, a). 0 < a) m) < 2 ^ 63"
  shows "Calculate64 iter m = Calculate iter m"
proof -
  have "all_pos (filter (\<lambda>(i, a). 0 < a) m)" by (auto simp: all_pos_def)
  then show ?thesis using assms calculate_loop64_exact by (simp add: Calculate64_def Calculate_def)
qed

lemma apply_rake_loop64_exact:
  assumes "amounts_ok ps" "Total ps < 2 ^ 63" "r < 2 ^ 63"
  shows "apply_rake_loop64 r ps = apply_rake_loop r ps"
  using assms
proof (induction ps arbitrary: r)
  case (Cons p ps)
  have t: "0 \<le> Total ps" "0 \<le> pot_Amount p" "pot_Amount p + Total ps < 2 ^ 63"
    using Cons.prems by (simp_all add: amounts_ok_Total)
  let ?d = "if r > pot_Amount p then pot_Amount p else r"
  show ?case
  proof (cases "0 < r")
    case True
    have "wrap64 (pot_Amount p - ?d) = pot_Amount p - ?d" "wrap64 (r - ?d) = r - ?d"
      using True t Cons.prems(3) by (auto intro!: wrap64_small)
    moreover have "apply_rake_loop64 (r - ?d) ps = apply_rake_loop (r - ?d) ps"
      using True t Cons.prems by (intro Cons.IH) auto
    ultimately show ?thesis using True by (simp add: Let_def)
  qed simp
qed simp

lemma ApplyRake64_exact [exact64]:
  assumes "amounts_ok pots" "Total pots < 2 ^ 63" "r < 2 ^ 63"
  shows "ApplyRake64 pots r = ApplyRake pots r"
  using apply_rake_loop64_exact [of "rev pots" r] assms by (simp add: ApplyRake64_def ApplyRake_def)

lemma CalculateRake64_exact [exact64]:
  "\<lbrakk>amounts_ok pots; Total pots < 2 ^ 63\<rbrakk> \<Longrightarrow> CalculateRake64 fl pots street config = CalculateRake fl pots street config"
  by (simp add: CalculateRake64_def CalculateRake_def Total64_exact)

section \<open>Side pots\<close>

lemma gosum_filter_pos: "\<forall>(j, a) \<in> set m. 0 \<le> a \<Longrightarrow> gosum (filter (\<lambda>(i, a). 0 < a) m) = gosum m"
  by (induction m) (auto simp: gosum_def)

lemma Calculate_amounts_ok: "wf_gomap m \<Longrightarrow> amounts_ok (Calculate iter m)"
  unfolding amounts_ok_def using Calculate_amounts_pos less_imp_le by blast

text \<open>
  C10: Side pots are fair. Whatever order Go ranges over the map in, the pots that \<open>Calculate\<close>
  makes in 64-bit arithmetic from contributions whose sum is below \<open>2 ^ 63\<close> list player \<open>i\<close> for
  exactly as many chips as the poker rule gives him: from every contributor \<open>j\<close>, the smaller of
  \<open>i\<close>'s and \<open>j\<close>'s contribution (nothing for a player who put in nothing). Together the pots hold
  exactly what was contributed.
\<close>

theorem Calculate_side_pots_fair:
  assumes "permuting iter" "wf_gomap contributions" "\<forall>(j, a) \<in> set contributions. 0 \<le> a" "gosum contributions < 2 ^ 63"
  shows "winnable i (Calculate64 iter contributions)
      = sum_list (map (\<lambda>(j, a). min (get0 contributions i) a) contributions)
    \<and> Total64 (Calculate64 iter contributions) = gosum contributions"
proof -
  have sum: "gosum (filter (\<lambda>(i, a). 0 < a) contributions) = gosum contributions"
    by (rule gosum_filter_pos [OF assms(3)])
  then have eq: "Calculate64 iter contributions = Calculate iter contributions"
    using assms(4) by (simp add: exact64)
  have tot: "Total (Calculate iter contributions) = gosum contributions" using sum by (simp add: Total_Calculate)
  show ?thesis
    using side_pots_fair [OF assms(1-3), of i] Calculate_amounts_ok [OF assms(2), of iter] assms(4)
    by (simp add: eq tot exact64)
qed

theorem Calculate_side_pots_fair_witness:
  "winnable ''a'' (Calculate64 rev [(''a'', 10), (''b'', 30), (''c'', 50)]) = 30
    \<and> winnable ''b'' (Calculate64 rev [(''a'', 10), (''b'', 30), (''c'', 50)]) = 70
    \<and> Total64 (Calculate64 rev [(''a'', 10), (''b'', 30), (''c'', 50)]) = 90"
  using Calculate_side_pots_fair [of rev "[(''a'', 10), (''b'', 30), (''c'', 50)]" "''a''"]
    Calculate_side_pots_fair [of rev "[(''a'', 10), (''b'', 30), (''c'', 50)]" "''b''"]
  by (simp add: wf_gomap_def get0_def gosum_def)

text \<open>Beyond the range the sum wraps: two contributions of \<open>2 ^ 62\<close> make a pot of \<open>- (2 ^ 63)\<close>.\<close>

lemma side_pot_wraps:
  "map pot_Amount (Calculate64 (\<lambda>ids. ids) [(''a'', 2 ^ 62), (''b'', 2 ^ 62)]) = [- (2 ^ 63)]"
  by (simp add: Calculate64_def calculate_loop64.simps subtract_min64_def wrap64_def)

section \<open>Betting\<close>

definition ValidateAction64 :: "GameState \<Rightarrow> Action \<Rightarrow> (engine_err, unit) outcome" where
  "ValidateAction64 state action =
     (if g_ActivePlayer state \<ge> length (g_Players state) then Panic ''index out of range''
      else let player = g_Players state ! g_ActivePlayer state
      in if p_ID player \<noteq> a_PlayerID action then Err ErrNotPlayerTurn
      else if \<not> CanAct player then Err ErrPlayerNotActive
      else case a_Type action of
          ActionCheck \<Rightarrow>
            if g_CurrentBet state > p_CurrentBet player then Err ErrInvalidAction else Ok ()
        | ActionCall \<Rightarrow>
            if g_CurrentBet state = p_CurrentBet player then Err ErrInvalidAction else Ok ()
        | ActionRaise \<Rightarrow>
            if g_RaisesThisStreet state \<ge> bc_MaxRaisesPerStreet (g_BettingConfig state)
              then Err ErrRaiseCapReached
            else let expectedRaiseTo = wrap64 (g_CurrentBet state + BetSizeForStreet state)
            in if a_Amount action \<noteq> expectedRaiseTo then Err ErrInvalidRaiseAmount
            else if a_Amount action > wrap64 (p_Stack player + p_CurrentBet player) then Err ErrInsufficientStack
            else Ok ()
        | ActionFold \<Rightarrow> Ok ()
        | ActionAllIn \<Rightarrow> Err ErrInvalidAction
        | ActionOther n \<Rightarrow> Err ErrInvalidAction)"

definition ApplyAction64 :: "GameState \<Rightarrow> Action \<Rightarrow> (engine_err, GameState) outcome" where
  "ApplyAction64 state action =
     (if g_ActivePlayer state \<ge> length (g_Players state) then Panic ''index out of range''
      else let i = g_ActivePlayer state; player = g_Players state ! i
      in Ok (case a_Type action of
          ActionFold \<Rightarrow>
            state\<lparr>g_Players := (g_Players state)[i := player\<lparr>p_Status := PlayerStatusFolded\<rparr>]\<rparr>
        | ActionCall \<Rightarrow>
            (let owed = wrap64 (g_CurrentBet state - p_CurrentBet player);
                 allin = owed \<ge> p_Stack player;
                 amount = (if allin then p_Stack player else owed);
                 player = (if allin then player\<lparr>p_Status := PlayerStatusAllIn\<rparr> else player);
                 player = player\<lparr>p_Stack := wrap64 (p_Stack player - amount),
                                 p_CurrentBet := wrap64 (p_CurrentBet player + amount)\<rparr>
             in state\<lparr>g_Players := (g_Players state)[i := player]\<rparr>)
        | ActionRaise \<Rightarrow>
            (let amount = wrap64 (a_Amount action - p_CurrentBet player);
                 player = player\<lparr>p_Stack := wrap64 (p_Stack player - amount),
                                 p_CurrentBet := a_Amount action\<rparr>;
                 player = (if p_Stack player = 0 then player\<lparr>p_Status := PlayerStatusAllIn\<rparr> else player)
             in state\<lparr>g_Players := (g_Players state)[i := player],
                      g_CurrentBet := a_Amount action,
                      g_RaisesThisStreet := wrap64 (g_RaisesThisStreet state + 1)\<rparr>)
        | ActionCheck \<Rightarrow> state
        | ActionAllIn \<Rightarrow> state
        | ActionOther n \<Rightarrow> state))"

definition mergePots64 :: "Pot list \<Rightarrow> Pot list \<Rightarrow> Pot list" where
  "mergePots64 existing newPots =
     (if length existing = 0 then newPots
      else if length newPots = 0 then existing
      else let l = length existing - 1
           in existing[l := (existing ! l)\<lparr>pot_Amount := wrap64 (pot_Amount (existing ! l) + pot_Amount (newPots ! 0))\<rparr>]
              @ drop 1 newPots)"

definition CollectBets64 :: "(PlayerID list \<Rightarrow> PlayerID list) \<Rightarrow> GameState \<Rightarrow> GameState" where
  "CollectBets64 iter state =
     (let contributions = contributions_of (g_Players state);
          players = map (\<lambda>p. if p_CurrentBet p > 0 then p\<lparr>p_CurrentBet := 0\<rparr> else p) (g_Players state);
          newPots = Calculate64 iter contributions
      in if length (g_Pots state) = 0
         then state\<lparr>g_Players := players, g_Pots := newPots\<rparr>
         else state\<lparr>g_Players := players, g_Pots := mergePots64 (g_Pots state) newPots\<rparr>)"

text \<open>
  A hand in range: no chips are negative, all together stay below \<open>2 ^ 53\<close> (the bound of the exact
  float64 integers), and so do the limits; the counters stay clear of the end of their range.
\<close>

definition in_range :: "GameState \<Rightarrow> bool" where
  "in_range g \<longleftrightarrow> (\<forall>p \<in> set (g_Players g). 0 \<le> p_Stack p \<and> 0 \<le> p_CurrentBet p) \<and> amounts_ok (g_Pots g)
     \<and> chips_in_play g \<le> 2 ^ 53 \<and> 0 \<le> g_CurrentBet g \<and> g_CurrentBet g \<le> 2 ^ 53
     \<and> 0 \<le> bc_SmallBet (g_BettingConfig g) \<and> bc_SmallBet (g_BettingConfig g) \<le> 2 ^ 53
     \<and> 0 \<le> bc_BigBet (g_BettingConfig g) \<and> bc_BigBet (g_BettingConfig g) \<le> 2 ^ 53
     \<and> 0 \<le> g_RaisesThisStreet g \<and> in_int64 (bc_MaxRaisesPerStreet (g_BettingConfig g))"

lemma stacks_bets_nonneg:
  "\<forall>p \<in> set ps. 0 \<le> p_Stack p \<and> 0 \<le> p_CurrentBet p \<Longrightarrow> 0 \<le> stacks ps \<and> 0 \<le> bets ps"
  by (simp add: stacks_def bets_def sum_list_map_nonneg)

text \<open>What one player has, behind and in front, is part of the chips in play.\<close>

lemma in_range_player:
  assumes g: "in_range g" and p: "p \<in> set (g_Players g)"
  shows "0 \<le> p_Stack p" "0 \<le> p_CurrentBet p" "p_Stack p + p_CurrentBet p \<le> 2 ^ 53"
proof -
  have pos: "\<forall>p \<in> set (g_Players g). 0 \<le> p_Stack p \<and> 0 \<le> p_CurrentBet p" "0 \<le> Total (g_Pots g)"
    using g by (auto simp: in_range_def amounts_ok_Total)
  show "0 \<le> p_Stack p" "0 \<le> p_CurrentBet p" using pos p by auto
  have "p_Stack p + p_CurrentBet p \<le> sum_list (map (\<lambda>p. p_Stack p + p_CurrentBet p) (g_Players g))"
    using pos by (intro sum_list_member_le p) auto
  also have "\<dots> = stacks (g_Players g) + bets (g_Players g)"
    by (simp add: stacks_def bets_def sum_list_addf)
  finally show "p_Stack p + p_CurrentBet p \<le> 2 ^ 53" using g pos by (simp add: in_range_def chips_in_play_def)
qed

lemma BetSizeForStreet_range: "in_range g \<Longrightarrow> 0 \<le> BetSizeForStreet g \<and> BetSizeForStreet g \<le> 2 ^ 53"
  by (auto simp: in_range_def BetSizeForStreet_def split: Street.splits)

lemma ValidateAction64_exact [exact64]:
  assumes "in_range g"
  shows "ValidateAction64 g a = ValidateAction g a"
proof (cases "g_ActivePlayer g < length (g_Players g)")
  case True
  then have p: "g_Players g ! g_ActivePlayer g \<in> set (g_Players g)" by simp
  have "wrap64 (g_CurrentBet g + BetSizeForStreet g) = g_CurrentBet g + BetSizeForStreet g"
    using assms BetSizeForStreet_range [OF assms] by (intro wrap64_small) (auto simp: in_range_def)
  moreover have "wrap64 (p_Stack (g_Players g ! g_ActivePlayer g) + p_CurrentBet (g_Players g ! g_ActivePlayer g))
      = p_Stack (g_Players g ! g_ActivePlayer g) + p_CurrentBet (g_Players g ! g_ActivePlayer g)"
    using in_range_player [OF assms p] by (intro wrap64_small) auto
  ultimately show ?thesis by (cases "a_Type a") (simp_all add: ValidateAction64_def ValidateAction_def Let_def)
qed (simp add: ValidateAction64_def ValidateAction_def)

lemma ApplyAction64_exact [exact64]:
  assumes g: "in_range g" and v: "ValidateAction g a = Ok ()"
  shows "ApplyAction64 g a = ApplyAction g a"
  using v
proof (cases rule: ValidateAction_Ok)
  case (1 p)
  then have "p \<in> set (g_Players g)" by simp
  note p = in_range_player [OF g this]
  have at: "g_Players g ! g_ActivePlayer g = p" using 1(2) by simp
  have cb: "0 \<le> g_CurrentBet g" "g_CurrentBet g \<le> 2 ^ 53" using g by (simp_all add: in_range_def)
  have b: "0 \<le> BetSizeForStreet g" using BetSizeForStreet_range [OF g] by simp
  have owed: "wrap64 (g_CurrentBet g - p_CurrentBet p) = g_CurrentBet g - p_CurrentBet p"
    using p cb by (intro wrap64_id) (auto simp: in_int64_def)
  show ?thesis
  proof (cases "a_Type a")
    case ActionCall
    let ?o = "g_CurrentBet g - p_CurrentBet p"
    have "wrap64 (p_Stack p - ?o) = p_Stack p - ?o" "wrap64 (p_CurrentBet p + ?o) = p_CurrentBet p + ?o"
      "wrap64 (p_CurrentBet p + p_Stack p) = p_CurrentBet p + p_Stack p"
      using p cb by (auto intro!: wrap64_id simp: in_int64_def)
    then show ?thesis using ActionCall 1(1) at by (simp add: ApplyAction64_def ApplyAction_def Let_def owed)
  next
    case ActionRaise
    then have a: "0 \<le> a_Amount a" "a_Amount a \<le> p_Stack p + p_CurrentBet p"
      "g_RaisesThisStreet g < bc_MaxRaisesPerStreet (g_BettingConfig g)"
      using 1(5) cb b by auto
    let ?m = "a_Amount a - p_CurrentBet p"
    have "wrap64 ?m = ?m" "wrap64 (p_Stack p - ?m) = p_Stack p - ?m"
      using p a by (auto intro!: wrap64_id simp: in_int64_def)
    moreover have "wrap64 (g_RaisesThisStreet g + 1) = g_RaisesThisStreet g + 1"
      using a(3) g by (intro wrap64_id) (auto simp: in_int64_def in_range_def)
    ultimately show ?thesis using ActionRaise 1(1) at by (simp add: ApplyAction64_def ApplyAction_def Let_def)
  qed (use 1(1) in \<open>simp_all add: ApplyAction64_def ApplyAction_def Let_def\<close>)
qed

lemma mergePots64_exact [exact64]:
  assumes "amounts_ok ps" "amounts_ok qs" "Total ps + Total qs < 2 ^ 63"
  shows "mergePots64 ps qs = mergePots ps qs"
proof (cases "ps = [] \<or> qs = []")
  case False
  have "pot_Amount (ps ! (length ps - 1)) \<le> Total ps" "pot_Amount (qs ! 0) \<le> Total qs"
    using assms(1,2) False unfolding Total_def by (auto intro!: sum_list_member_le simp: amounts_ok_def)
  moreover have "0 \<le> pot_Amount (ps ! (length ps - 1))" "0 \<le> pot_Amount (qs ! 0)"
    using assms(1,2) False by (auto simp: amounts_ok_def)
  ultimately have "wrap64 (pot_Amount (ps ! (length ps - 1)) + pot_Amount (qs ! 0))
      = pot_Amount (ps ! (length ps - 1)) + pot_Amount (qs ! 0)"
    using assms(3) by (intro wrap64_small) auto
  then show ?thesis by (simp add: mergePots64_def mergePots_def Let_def)
qed (auto simp: mergePots64_def mergePots_def)

lemma set_alist_update: "set (AList.update k v m) \<subseteq> insert (k, v) (set m)"
  by (induction m) auto

text \<open>Even with an identifier twice, the contributions are no more than the bets.\<close>

lemma gosum_contributions_le:
  assumes "\<forall>p \<in> set ps. 0 \<le> p_CurrentBet p"
  shows "gosum (contributions_of ps) \<le> bets ps" "\<forall>(i, a) \<in> set (contributions_of ps). 0 < a"
proof -
  let ?f = "\<lambda>m p. if p_CurrentBet p > 0 then AList.update (p_ID p) (p_CurrentBet p) m else m"
  have "wf_gomap m \<and> all_pos m \<Longrightarrow> gosum (foldl ?f m ps) \<le> gosum m + bets ps \<and> all_pos (foldl ?f m ps)" for m
    using assms
  proof (induction ps arbitrary: m)
    case (Cons p ps)
    have "0 \<le> get0 m k" for k using Cons.prems(1) by (intro get0_nonneg) (auto simp: all_pos_def)
    then have "gosum (?f m p) \<le> gosum m + p_CurrentBet p" "wf_gomap (?f m p)"
      using Cons.prems by (auto simp: gosum_update)
    moreover have "all_pos (?f m p)"
      using Cons.prems set_alist_update [of "p_ID p" "p_CurrentBet p" m] by (auto simp: all_pos_def)
    ultimately show ?case using Cons.IH [of "?f m p"] Cons.prems by fastforce
  qed simp
  from this [of "[]"] show "gosum (contributions_of ps) \<le> bets ps" "\<forall>(i, a) \<in> set (contributions_of ps). 0 < a"
    by (simp_all add: contributions_of_def all_pos_def gosum_def)
qed

lemma collected_Total:
  assumes "\<forall>p \<in> set (g_Players g). 0 \<le> p_CurrentBet p"
  shows "amounts_ok (Calculate iter (contributions_of (g_Players g)))"
    and "Total (Calculate iter (contributions_of (g_Players g))) = gosum (contributions_of (g_Players g))"
    and "Total (g_Pots (CollectBets iter g)) \<le> Total (g_Pots g) + bets (g_Players g)"
proof -
  have pos: "\<forall>(i, a) \<in> set (contributions_of (g_Players g)). 0 < a" using gosum_contributions_le(2) [OF assms] .
  show "amounts_ok (Calculate iter (contributions_of (g_Players g)))" by (rule Calculate_amounts_ok [OF contributions_wf])
  show t: "Total (Calculate iter (contributions_of (g_Players g))) = gosum (contributions_of (g_Players g))"
    using gosum_filter_pos [of "contributions_of (g_Players g)"] pos by (auto simp: Total_Calculate)
  show "Total (g_Pots (CollectBets iter g)) \<le> Total (g_Pots g) + bets (g_Players g)"
    using gosum_contributions_le(1) [OF assms] by (simp add: CollectBets_pots Total_mergePots t)
qed

lemma CollectBets64_exact [exact64]:
  assumes "\<forall>p \<in> set (g_Players g). 0 \<le> p_CurrentBet p" "amounts_ok (g_Pots g)"
    and "Total (g_Pots g) + bets (g_Players g) < 2 ^ 63"
  shows "CollectBets64 iter g = CollectBets iter g"
proof -
  let ?m = "contributions_of (g_Players g)"
  have pos: "\<forall>(i, a) \<in> set ?m. 0 < a" using gosum_contributions_le(2) [OF assms(1)] .
  then have f: "gosum (filter (\<lambda>(i, a). 0 < a) ?m) = gosum ?m" by (intro gosum_filter_pos) auto
  have le: "gosum ?m \<le> bets (g_Players g)" using gosum_contributions_le(1) [OF assms(1)] .
  have "Calculate64 iter ?m = Calculate iter ?m"
    using f le assms(3) amounts_ok_Total [OF assms(2)] by (intro Calculate64_exact) simp
  moreover have "mergePots64 (g_Pots g) (Calculate iter ?m) = mergePots (g_Pots g) (Calculate iter ?m)"
    using collected_Total [OF assms(1), of iter] assms(2,3) le by (intro mergePots64_exact) auto
  ultimately show ?thesis by (simp add: CollectBets64_def CollectBets_def Let_def)
qed

text \<open>
  C32: Collecting the bets loses no chip: with distinct player identifiers, no negative bet or pot
  and less than \<open>2 ^ 63\<close> chips in them together, \<open>CollectBets\<close>, computed in 64 bits, moves exactly
  the chips bet on the street into the pots, leaves no bet in front of a player and leaves every
  stack as it was; the 64-bit total of the pots is the true one.
\<close>

theorem CollectBets_conserves_chips:
  assumes "distinct (map p_ID (g_Players g))" "\<forall>p \<in> set (g_Players g). 0 \<le> p_CurrentBet p"
    and "\<forall>pot \<in> set (g_Pots g). 0 \<le> pot_Amount pot" "Total (g_Pots g) + bets (g_Players g) < 2 ^ 63"
  shows "chips_in_play (CollectBets64 iter g) = chips_in_play g
    \<and> Total64 (g_Pots (CollectBets64 iter g)) = Total (g_Pots g) + bets (g_Players g)
    \<and> (\<forall>p \<in> set (g_Players (CollectBets64 iter g)). p_CurrentBet p = 0)
    \<and> map p_Stack (g_Players (CollectBets64 iter g)) = map p_Stack (g_Players g)"
proof -
  have ok: "amounts_ok (g_Pots g)" using assms(3) by (simp add: amounts_ok_def)
  note eq = CollectBets64_exact [OF assms(2) ok assms(4), of iter]
  have tot: "Total (g_Pots (CollectBets iter g)) = Total (g_Pots g) + bets (g_Players g)"
    by (rule Total_CollectBets [OF assms(1,2)])
  have "amounts_ok (g_Pots (CollectBets iter g))"
    using amounts_mergePots assms(3) collected_Total(1) [OF assms(2), of iter]
    unfolding CollectBets_pots amounts_ok_def by blast
  then have "Total64 (g_Pots (CollectBets iter g)) = Total (g_Pots g) + bets (g_Players g)"
    using tot assms(4) by (simp add: Total64_exact)
  then show ?thesis
    using tot CollectBets_bets [OF assms(2), of iter] bets_zero [OF CollectBets_bets [OF assms(2)], of iter]
    by (simp add: eq chips_in_play_def)
qed

theorem CollectBets_conserves_chips_witness:
  defines "p i s b \<equiv> \<lparr>p_ID = i, p_Stack = s, p_HoleCards = (NewCard 2 0, NewCard 3 0),
      p_Status = PlayerStatusActive, p_CurrentBet = b, p_Position = 0\<rparr>"
  defines "g \<equiv> \<lparr>g_ID = ''h'', g_TableID = ''t'', g_Players = [p ''a'' 5 10, p ''b'' 0 4, p ''c'' 7 10],
      g_Board = [], g_Pots = [\<lparr>pot_Amount = 6, pot_Eligible = [''a'', ''b'', ''c'']\<rparr>],
      g_Street = StreetPreflop, g_CurrentBet = 10, g_ActivePlayer = 0,
      g_Button = 0, g_EventSequence = 1,
      g_BettingConfig = \<lparr>bc_Structure = BettingFixedLimit, bc_SmallBlind = 1, bc_BigBlind = 2,
        bc_SmallBet = 2, bc_BigBet = 4, bc_MaxRaisesPerStreet = 4\<rparr>,
      g_RaisesThisStreet = 0, g_Deck = None\<rparr>"
  shows "Total64 (g_Pots (CollectBets64 rev g)) = 30"
  using CollectBets_conserves_chips [of g rev] by (simp add: g_def p_def)

section \<open>Paying out\<close>

definition pay_pot64 :: "(PlayerID, int) gomap \<Rightarrow> Pot \<Rightarrow> PlayerID list \<Rightarrow> (PlayerID, int) gomap" where
  "pay_pot64 result pot winners =
     (if length winners = 0 then result
      else let share = pot_Amount pot sdiv int (length winners);
               remainder = pot_Amount pot smod int (length winners)
           in foldl (\<lambda>result (j, i).
                let result = AList.update i (wrap64 (get0 result i + share)) result
                in if int j < remainder then AList.update i (wrap64 (get0 result i + 1)) result else result)
              result (enumerate 0 winners))"

definition winnersToMap64 :: "Pot list \<Rightarrow> PlayerID list list \<Rightarrow> (PlayerID, int) gomap" where
  "winnersToMap64 pots winnersByPot =
     foldl (\<lambda>result (pot, winners). pay_pot64 result pot winners) [] (zip pots winnersByPot)"

definition award64 :: "GameState \<Rightarrow> (PlayerID, int) gomap \<Rightarrow> GameState" where
  "award64 state winners =
     state\<lparr>g_Players := map (\<lambda>p. case map_of winners (p_ID p) of
        Some amount \<Rightarrow> p\<lparr>p_Stack := wrap64 (p_Stack p + amount)\<rparr>
      | None \<Rightarrow> p) (g_Players state)\<rparr>"

definition singleWinner64 :: "GameState \<Rightarrow> PlayerID \<Rightarrow> (PlayerID, int) gomap \<times> GameState" where
  "singleWinner64 state playerID =
     (let total = Total64 (g_Pots state); result = [(playerID, total)]
      in (result, award64 state result))"

definition showdown64 :: "GameState \<Rightarrow> Player list \<Rightarrow> (PlayerID, int) gomap \<times> GameState" where
  "showdown64 state activePlayers =
     (let results = showdown_results state activePlayers;
          winnersByPot = map (\<lambda>pot. bestHandsInPot Compare (pot_Eligible pot) results) (g_Pots state);
          winners = winnersToMap64 (g_Pots state) winnersByPot
      in (winners, award64 state winners))"

definition determineWinners64 :: "GameState \<Rightarrow> (PlayerID, int) gomap \<times> GameState" where
  "determineWinners64 state =
     (let activePlayers = ActivePlayers state
      in if length activePlayers = 1 then singleWinner64 state (p_ID (activePlayers ! 0))
         else showdown64 state activePlayers)"

text \<open>A map of non-negative amounts; no entry exceeds the sum.\<close>

definition nonneg :: "(PlayerID, int) gomap \<Rightarrow> bool" where
  "nonneg m \<longleftrightarrow> wf_gomap m \<and> (\<forall>v \<in> snd ` set m. 0 \<le> v)"

lemma nonneg_update: "\<lbrakk>nonneg m; 0 \<le> v\<rbrakk> \<Longrightarrow> nonneg (AList.update k v m)"
  using set_alist_update [of k v m] by (auto simp: nonneg_def)

lemma nonneg_get0: "nonneg m \<Longrightarrow> 0 \<le> get0 m k" "nonneg m \<Longrightarrow> get0 m k \<le> gosum m"
proof -
  show "0 \<le> get0 m k" if "nonneg m" using that by (intro get0_nonneg) (simp add: nonneg_def)
  have pos: "\<forall>p \<in> set m. 0 \<le> snd p" if "nonneg m" using that by (auto simp: nonneg_def)
  show "get0 m k \<le> gosum m" if "nonneg m"
    using sum_list_member_le [OF pos [OF that]] sum_list_map_nonneg [OF pos [OF that]] map_of_SomeD [of m k]
    by (fastforce simp: get0_def gosum_def split: option.splits)
qed

lemma pay_fold64:
  fixes share r :: int
  defines "f \<equiv> \<lambda>result (j, i). let result = AList.update i (wrap64 (get0 result i + share)) result
      in if int j < r then AList.update i (wrap64 (get0 result i + 1)) result else result"
  defines "g \<equiv> \<lambda>result (j, i). let result = AList.update i (get0 result i + share) result
      in if int j < r then AList.update i (get0 result i + 1) result else result"
  assumes "nonneg m" "0 \<le> share" "gosum m + share * int (length ws) + max 0 (min r (int (k + length ws)) - int k) < 2 ^ 63"
  shows "foldl f m (enumerate k ws) = foldl g m (enumerate k ws)" and "nonneg (foldl g m (enumerate k ws))"
proof -
  have "foldl f m (enumerate k ws) = foldl g m (enumerate k ws) \<and> nonneg (foldl g m (enumerate k ws))"
    using assms(3,5)
  proof (induction ws arbitrary: m k)
    case (Cons i ws)
    define q where "q = share * int (length ws)"
    have pos: "0 \<le> q" using assms(4) by (simp add: q_def)
    have ex: "share * int (length (i # ws)) = share + q" by (simp add: q_def algebra_simps)
    note i = nonneg_get0 [OF Cons.prems(1), of i]
    have nn: "nonneg (g m (k, i))"
      using i Cons.prems(1) assms(4) by (simp add: f_def g_def Let_def nonneg_update get0_update)
    have sum: "gosum (g m (k, i)) = gosum m + share + (if int k < r then 1 else 0)"
      using Cons.prems(1) by (simp add: f_def g_def Let_def gosum_update get0_update nonneg_def)
    have "wrap64 (get0 m i + share) = get0 m i + share"
      "int k < r \<Longrightarrow> wrap64 (get0 m i + share + 1) = get0 m i + share + 1"
      using i pos Cons.prems(2) [unfolded ex] assms(4) by (intro wrap64_small; force simp: max_def min_def split: if_splits)+
    then have head: "f m (k, i) = g m (k, i)" by (simp add: f_def g_def Let_def get0_update)
    have "gosum (g m (k, i)) + share * int (length ws) + max 0 (min r (int (Suc k + length ws)) - int (Suc k)) < 2 ^ 63"
      using Cons.prems(2) [unfolded ex] unfolding sum q_def [symmetric] by (auto simp: max_def min_def split: if_splits)
    from Cons.IH [OF nn this] show ?case using head by (simp only: enumerate_simps foldl_Cons)
  qed simp
  then show "foldl f m (enumerate k ws) = foldl g m (enumerate k ws)" "nonneg (foldl g m (enumerate k ws))" by blast+
qed

lemma pay_pot64_exact:
  assumes "nonneg m" "0 \<le> pot_Amount pot" "gosum m + pot_Amount pot < 2 ^ 63"
  shows "pay_pot64 m pot ws = pay_pot m pot ws" "nonneg (pay_pot m pot ws)"
proof -
  let ?n = "int (length ws)" and ?a = "pot_Amount pot"
  have "pay_pot64 m pot ws = pay_pot m pot ws \<and> nonneg (pay_pot m pot ws)"
  proof (cases "ws = []")
    case False
    have s: "0 \<le> ?a sdiv ?n" using False assms(2) by (simp add: sdiv_smod_pos pos_imp_zdiv_nonneg_iff)
    have "?a sdiv ?n * ?n + ?a smod ?n = ?a" "0 \<le> ?a smod ?n" "?a smod ?n < ?n"
      using False assms(2) by (simp_all add: sdiv_smod_pos)
    then have "gosum m + ?a sdiv ?n * ?n + max 0 (min (?a smod ?n) (int (0 + length ws)) - int 0) < 2 ^ 63"
      using assms(3) by simp
    note f = pay_fold64 [OF assms(1) s this]
    show ?thesis using f False by (simp add: pay_pot64_def pay_pot_def Let_def)
  qed (simp add: pay_pot64_def pay_pot_def assms(1))
  then show "pay_pot64 m pot ws = pay_pot m pot ws" "nonneg (pay_pot m pot ws)" by blast+
qed

lemma winnersToMap64_exact:
  assumes "amounts_ok pots" "Total pots < 2 ^ 63"
  shows "winnersToMap64 pots ws = winnersToMap pots ws" "nonneg (winnersToMap pots ws)" "gosum (winnersToMap pots ws) \<le> Total pots"
proof -
  let ?f = "\<lambda>result (pot, winners). pay_pot64 result pot winners" and ?g = "\<lambda>result (pot, winners). pay_pot result pot winners"
  have "foldl ?f m (zip pots ws) = foldl ?g m (zip pots ws) \<and> nonneg (foldl ?g m (zip pots ws))
      \<and> gosum (foldl ?g m (zip pots ws)) \<le> gosum m + Total pots" if "nonneg m" "gosum m + Total pots < 2 ^ 63" for m
    using assms(1) that
  proof (induction pots ws arbitrary: m rule: list_induct2')
    case (4 pot pots w ws)
    have t: "0 \<le> Total pots" "0 \<le> pot_Amount pot" using "4.prems"(1) by (simp_all add: amounts_ok_Total)
    have "gosum m + pot_Amount pot < 2 ^ 63" using "4.prems"(3) t by simp
    note p = pay_pot64_exact [OF "4.prems"(2) t(2) this, of w]
    have "gosum (pay_pot m pot w) \<le> gosum m + pot_Amount pot"
      using pay_pot_spec(3) [of m pot w] "4.prems"(2) t(2) by (simp add: nonneg_def)
    then show ?case using "4.IH" [of "pay_pot m pot w"] "4.prems" p by simp
  qed (auto simp: amounts_ok_Total)
  from this [of "[]"] assms(2)
  show "winnersToMap64 pots ws = winnersToMap pots ws" "nonneg (winnersToMap pots ws)" "gosum (winnersToMap pots ws) \<le> Total pots"
    by (simp_all add: winnersToMap64_def winnersToMap_def nonneg_def gosum_def)
qed

lemma award64_exact:
  assumes "\<forall>p \<in> set (g_Players g). 0 \<le> p_Stack p \<and> p_Stack p \<le> 2 ^ 62" "nonneg w" "gosum w < 2 ^ 62"
  shows "award64 g w = award g w"
proof -
  have "wrap64 (p_Stack p + a) = p_Stack p + a" if p: "p \<in> set (g_Players g)" "map_of w (p_ID p) = Some a" for p a
    using nonneg_get0 [OF assms(2), of "p_ID p"] p assms by (intro wrap64_small) (auto simp: get0_def)
  then have "map (\<lambda>p. case map_of w (p_ID p) of Some amount \<Rightarrow> p\<lparr>p_Stack := wrap64 (p_Stack p + amount)\<rparr> | None \<Rightarrow> p) (g_Players g)
      = map (\<lambda>p. case map_of w (p_ID p) of Some amount \<Rightarrow> p\<lparr>p_Stack := p_Stack p + amount\<rparr> | None \<Rightarrow> p) (g_Players g)"
    by (intro map_cong) (auto split: option.split)
  then show ?thesis by (simp add: award64_def award_def)
qed

lemma determineWinners64_exact [exact64]:
  assumes "\<forall>p \<in> set (g_Players g). 0 \<le> p_Stack p \<and> p_Stack p \<le> 2 ^ 62" "amounts_ok (g_Pots g)" "Total (g_Pots g) < 2 ^ 62"
  shows "determineWinners64 g = determineWinners g"
proof -
  have t: "0 \<le> Total (g_Pots g)" "Total (g_Pots g) < 2 ^ 63" using assms(2,3) by (simp_all add: amounts_ok_Total)
  have "award64 g [(i, Total (g_Pots g))] = award g [(i, Total (g_Pots g))]" for i
    using assms t by (intro award64_exact) (auto simp: nonneg_def gosum_def wf_gomap_def)
  then have one: "singleWinner64 g i = singleWinner g i" for i
    using t assms(2) by (simp add: singleWinner64_def singleWinner_def Let_def Total64_exact)
  have "award64 g (winnersToMap (g_Pots g) ws) = award g (winnersToMap (g_Pots g) ws)" for ws
    using assms winnersToMap64_exact [OF assms(2) t(2), of ws] by (intro award64_exact) auto
  then have "showdown64 g ps = showdown g ps" for ps
    using winnersToMap64_exact(1) [OF assms(2) t(2)] by (simp add: showdown64_def showdown_def Let_def)
  with one show ?thesis by (simp add: determineWinners64_def determineWinners_def Let_def)
qed

section \<open>The use cases\<close>

definition AdvanceEventSequence64 :: "GameState \<Rightarrow> GameState \<times> int" where
  "AdvanceEventSequence64 g =
     (let g' = g\<lparr>g_EventSequence := wrap64 (g_EventSequence g + 1)\<rparr> in (g', g_EventSequence g'))"

definition FinishHand_Execute64 ::
    "'db Deps \<Rightarrow> GameState \<Rightarrow> 'db World \<Rightarrow> (engine_err, GameState) outcome \<times> 'db World" where
  "FinishHand_Execute64 d state w =
     (let state = CollectBets64 (dp_iter d) state;
          occurredAt = dp_Now d;
          shown = (g_Street state = StreetShowdown);
          grossPot = Total64 (g_Pots state);
          rake = CalculateRake64 (dp_fl d) (g_Pots state) (g_Street state) (dp_rakeConfig d);
          state = state\<lparr>g_Pots := ApplyRake64 (g_Pots state) rake\<rparr>;
          netPot = Total64 (g_Pots state);
          (state, sequenceNumber) = AdvanceEventSequence64 state;
          (winners, state) = determineWinners64 state;
          state = state\<lparr>g_Street := StreetShowdown\<rparr>;
          w = w\<lparr>w_metrics := count_finish shown netPot rake (w_metrics w)\<rparr>;
          (saved, w) = save_state d state w
      in case saved of
          Err e \<Rightarrow> (Err (Wrapped ''finish hand: save state'' e), w)
        | Panic m \<Rightarrow> (Panic m, w)
        | Ok _ \<Rightarrow>
            (let (published, w) = publish d (EvHandEnded
                   \<lparr>he_EventID = event_id (g_ID state) sequenceNumber,
                    he_EventVersion = 1,
                    he_HandID = g_ID state,
                    he_TableID = g_TableID state,
                    he_SequenceNumber = sequenceNumber,
                    he_PlayerCount = int (length (g_Players state)),
                    he_Button = int (g_Button state),
                    he_SmallBlind = bc_SmallBlind (g_BettingConfig state),
                    he_BigBlind = bc_BigBlind (g_BettingConfig state),
                    he_Showdown = shown,
                    he_GrossPot = grossPot,
                    he_NetPot = netPot,
                    he_Winners = winners,
                    he_Rake = rake,
                    he_Board = g_Board state,
                    he_OccurredAt = occurredAt\<rparr>) w
             in case published of
                 Ok _ \<Rightarrow> (Ok state, w)
               | Err e \<Rightarrow> (Err (Wrapped ''finish hand: publish event'' e), w)
               | Panic m \<Rightarrow> (Panic m, w)))"

definition advanceStreet64 ::
    "(PlayerID list \<Rightarrow> PlayerID list) \<Rightarrow> GameState \<Rightarrow> (engine_err, GameState) outcome" where
  "advanceStreet64 iter state =
     (let state = CollectBets64 iter state;
          state = state\<lparr>g_CurrentBet := 0, g_RaisesThisStreet := 0\<rparr>;
          state = state\<lparr>g_ActivePlayer := FirstActiveAfterButton state\<rparr>
      in case g_Street state of
          StreetPreflop \<Rightarrow> deal_to_board ''advance street: deal flop'' 3 StreetFlop state
        | StreetFlop \<Rightarrow> deal_to_board ''advance street: deal turn'' 1 StreetTurn state
        | StreetTurn \<Rightarrow> deal_to_board ''advance street: deal river'' 1 StreetRiver state
        | StreetRiver \<Rightarrow> Ok (state\<lparr>g_Street := StreetShowdown\<rparr>)
        | _ \<Rightarrow> Ok state)"

definition finish_after_action64 ::
    "'db Deps \<Rightarrow> GameState \<Rightarrow> 'db World \<Rightarrow> (engine_err, GameState) outcome \<times> 'db World" where
  "finish_after_action64 d state w =
     (let (r, w) = FinishHand_Execute64 d state w
      in (map_err (Wrapped ''apply action: finish hand'') r, w))"

definition continue_hand64 ::
    "'db Deps \<Rightarrow> GameState \<Rightarrow> 'db World \<Rightarrow> (engine_err, GameState) outcome \<times> 'db World" where
  "continue_hand64 d state w =
     (if length (PlayersWhoCanAct state) \<le> 1 then finish_after_action64 d state w
      else if IsBettingRoundOver state then
        (case advanceStreet64 (dp_iter d) state of
           Err e \<Rightarrow> (Err e, w)
         | Panic m \<Rightarrow> (Panic m, w)
         | Ok state \<Rightarrow>
             if g_Street state = StreetShowdown then finish_after_action64 d state w
             else save_after_action d state w)
      else save_after_action d (state\<lparr>g_ActivePlayer := NextActivePlayer state\<rparr>) w)"

definition ApplyAction_Execute64 ::
    "'db Deps \<Rightarrow> ApplyActionInput \<Rightarrow> 'db World \<Rightarrow> (engine_err, GameState) outcome \<times> 'db World" where
  "ApplyAction_Execute64 d input w =
     (let action = ai_Action input;
          loaded =
            bind_outcome (map_err (Wrapped ''apply action: find game'') (dp_FindByID d (w_db w) (ai_HandID input)))
              (\<lambda>state. bind_outcome (map_err (Wrapped ''apply action: validate'') (ValidateAction64 state action))
              (\<lambda>_. case PlayerByID state (a_PlayerID action) of
                  None \<Rightarrow> Err (Wrapped ''apply action: player not found'' ErrPlayerNotFound)
                | Some acting \<Rightarrow> bind_outcome (ApplyAction64 state action) (\<lambda>state. Ok (acting, state))))
      in case loaded of
          Err e \<Rightarrow> (Err e, w)
        | Panic m \<Rightarrow> (Panic m, w)
        | Ok (acting, state) \<Rightarrow>
            (let (state, sequenceNumber) = AdvanceEventSequence64 state;
                 w = w\<lparr>w_metrics := (w_metrics w)
                   \<lparr>m_ActionsTotal := m_ActionsTotal (w_metrics w) @ [ActionType_String (a_Type action)]\<rparr>\<rparr>;
                 (published, w) =
                   publish d (EvPlayerActed (acted_event (dp_Now d) action acting state sequenceNumber)) w
             in case published of
                 Err e \<Rightarrow> (Err (Wrapped ''apply action: publish event'' e), w)
               | Panic m \<Rightarrow> (Panic m, w)
               | Ok _ \<Rightarrow> continue_hand64 d state w))"

text \<open>Of a hand in range every step stays in range, so no operation of an action wraps.\<close>

lemma in_range_parts:
  assumes "in_range g"
  shows "\<forall>p \<in> set (g_Players g). 0 \<le> p_CurrentBet p" "\<forall>p \<in> set (g_Players g). 0 \<le> p_Stack p \<and> p_Stack p \<le> 2 ^ 62"
    "amounts_ok (g_Pots g)" "Total (g_Pots g) + bets (g_Players g) \<le> 2 ^ 53"
proof -
  have pos: "\<forall>p \<in> set (g_Players g). 0 \<le> p_Stack p \<and> 0 \<le> p_CurrentBet p" and c: "chips_in_play g \<le> 2 ^ 53" using assms by (simp_all add: in_range_def)
  show "\<forall>p \<in> set (g_Players g). 0 \<le> p_CurrentBet p" using pos by simp
  show "\<forall>p \<in> set (g_Players g). 0 \<le> p_Stack p \<and> p_Stack p \<le> 2 ^ 62"
    using in_range_player [OF assms] by fastforce
  show "amounts_ok (g_Pots g)" using assms by (simp add: in_range_def)
  show "Total (g_Pots g) + bets (g_Players g) \<le> 2 ^ 53"
    using c stacks_bets_nonneg [OF pos] by (simp add: chips_in_play_def)
qed

lemma FinishHand_Execute64_exact:
  assumes g: "in_range g" "0 \<le> g_EventSequence g" "g_EventSequence g < 2 ^ 63 - 1" and d: "sound_deps d"
  shows "FinishHand_Execute64 d g w = FinishHand_Execute d g w"
proof -
  note parts = in_range_parts [OF g(1)]
  have seq: "wrap64 (g_EventSequence g + 1) = g_EventSequence g + 1" using g(2,3) by (intro wrap64_small) simp_all
  let ?c = "CollectBets (dp_iter d) g"
  let ?rake = "CalculateRake (dp_fl d) (g_Pots ?c) (g_Street ?c) (dp_rakeConfig d)"
  have c: "CollectBets64 (dp_iter d) g = ?c" using parts by (intro CollectBets64_exact) auto
  have pots: "amounts_ok (g_Pots ?c)"
    using amounts_mergePots parts(3) collected_Total(1) [OF parts(1), of "dp_iter d"]
    unfolding CollectBets_pots amounts_ok_def by blast
  have tot: "0 \<le> Total (g_Pots ?c)" "Total (g_Pots ?c) \<le> 2 ^ 53"
    using amounts_ok_Total [OF pots] collected_Total(3) [OF parts(1), of "dp_iter d"] parts(4) by linarith+
  have fl: "float64_rounding (dp_fl d)" "wf_rake (dp_rakeConfig d)" using d by (simp_all add: sound_deps_def)
  define r where "r = ?rake"
  have r: "0 \<le> r" "r \<le> Total (g_Pots ?c)" using CalculateRake_bounds(1,2) [OF fl tot] unfolding r_def by blast+
  have t64: "Total64 (g_Pots ?c) = Total (g_Pots ?c)" using pots tot by (simp add: Total64_exact)
  have rake: "CalculateRake64 (dp_fl d) (g_Pots ?c) (g_Street ?c) (dp_rakeConfig d) = r"
    using pots tot unfolding r_def by (intro CalculateRake64_exact) simp_all
  have apply_r: "ApplyRake64 (g_Pots ?c) r = ApplyRake (g_Pots ?c) r"
    using pots tot r by (intro ApplyRake64_exact) simp_all
  let ?raked = "ApplyRake (g_Pots ?c) r"
  have raked: "amounts_ok ?raked" "Total ?raked = Total (g_Pots ?c) - r"
    using ApplyRake_spec [OF _ r] pots unfolding amounts_ok_def by blast+
  have n64: "Total64 (g_Pots (?c\<lparr>g_Pots := ?raked\<rparr>)) = Total (g_Pots (?c\<lparr>g_Pots := ?raked\<rparr>))"
    using raked tot r by (intro Total64_exact) simp_all
  have adv: "AdvanceEventSequence64 (?c\<lparr>g_Pots := ?raked\<rparr>) = AdvanceEventSequence (?c\<lparr>g_Pots := ?raked\<rparr>)"
    by (simp add: AdvanceEventSequence64_def AdvanceEventSequence_def seq)
  have "\<forall>p \<in> set (g_Players ?c). 0 \<le> p_Stack p \<and> p_Stack p \<le> 2 ^ 62"
    using parts(2) by (auto simp: CollectBets_players)
  then have win: "determineWinners64 (?c\<lparr>g_Pots := ?raked, g_EventSequence := n\<rparr>)
      = determineWinners (?c\<lparr>g_Pots := ?raked, g_EventSequence := n\<rparr>)" for n
    using raked tot r by (intro determineWinners64_exact) simp_all
  show ?thesis
    unfolding FinishHand_Execute64_def FinishHand_Execute_def Let_def c t64 rake r_def [symmetric] apply_r n64 adv
    by (simp add: AdvanceEventSequence_def win)
qed

lemma in_range_ApplyAction:
  assumes v: "ValidateAction g a = Ok ()" and run: "ApplyAction g a = Ok g'" and g: "in_range g"
  shows "in_range g'"
  using v
proof (cases rule: ValidateAction_Ok)
  case (1 p)
  then have "p \<in> set (g_Players g)" by simp
  note p = in_range_player [OF g this]
  have b: "0 \<le> BetSizeForStreet g" "0 \<le> g_CurrentBet g" "g_CurrentBet g \<le> 2 ^ 53" "0 \<le> g_RaisesThisStreet g"
    using BetSizeForStreet_range [OF g] g by (simp_all add: in_range_def)
  have at: "g_Players g ! g_ActivePlayer g = p" using 1(2) by simp
  have "\<exists>p'. g_Players g' = (g_Players g)[g_ActivePlayer g := p'] \<and> 0 \<le> p_Stack p' \<and> 0 \<le> p_CurrentBet p'"
    using run p b 1(1,5) at
    by (intro exI [of _ "g_Players g' ! g_ActivePlayer g"]; cases "a_Type a")
      (auto simp: ApplyAction_def Let_def split: if_splits)
  then obtain p' where p': "g_Players g' = (g_Players g)[g_ActivePlayer g := p']" "0 \<le> p_Stack p'" "0 \<le> p_CurrentBet p'"
    by blast
  have "set (g_Players g') \<subseteq> insert p' (set (g_Players g))" unfolding p'(1) by (rule set_update_subset_insert)
  then have "\<forall>q \<in> set (g_Players g'). 0 \<le> p_Stack q \<and> 0 \<le> p_CurrentBet q"
    using g p'(2,3) by (auto simp: in_range_def)
  moreover have "0 \<le> g_CurrentBet g' \<and> g_CurrentBet g' \<le> 2 ^ 53 \<and> 0 \<le> g_RaisesThisStreet g'"
    using run b p 1(1,5) by (cases "a_Type a") (auto simp: ApplyAction_def Let_def split: if_splits)
  ultimately show ?thesis
    using g ApplyAction_frame(2,11) [OF run] ApplyAction_chips [OF run] by (simp add: in_range_def)
qed

lemma in_range_CollectBets:
  assumes g: "in_range g"
  shows "in_range ((CollectBets iter g)\<lparr>g_CurrentBet := 0, g_RaisesThisStreet := 0, g_ActivePlayer := k\<rparr>)"
proof -
  note parts = in_range_parts [OF g]
  let ?c = "CollectBets iter g"
  have pots: "amounts_ok (g_Pots ?c)"
    using amounts_mergePots parts(3) collected_Total(1) [OF parts(1), of iter]
    unfolding CollectBets_pots amounts_ok_def by blast
  have "bets (g_Players ?c) = 0" by (rule bets_zero [OF CollectBets_bets [OF parts(1)]])
  then have "chips_in_play ?c \<le> 2 ^ 53"
    using collected_Total(3) [OF parts(1), of iter] g by (simp add: chips_in_play_def in_range_def)
  moreover have "\<forall>p \<in> set (g_Players ?c). 0 \<le> p_Stack p \<and> 0 \<le> p_CurrentBet p"
    using parts(1,2) by (auto simp: CollectBets_players)
  ultimately show ?thesis using g pots by (simp add: in_range_def chips_in_play_def)
qed

lemma advanceStreet64_exact:
  assumes g: "in_range g"
  shows "advanceStreet64 iter g = advanceStreet iter g"
proof -
  have "CollectBets64 iter g = CollectBets iter g"
    using in_range_parts [OF g] by (intro CollectBets64_exact) auto
  then show ?thesis by (simp add: advanceStreet64_def advanceStreet_def Let_def)
qed

lemma in_range_advanceStreet:
  assumes g: "in_range g" and adv: "advanceStreet iter g = Ok g'"
  shows "in_range g'"
proof -
  note a = advanceStreet_Ok [OF adv]
  show ?thesis
    using in_range_CollectBets [OF g, where iter = iter and k = 0] a by (simp add: in_range_def chips_in_play_def)
qed

lemma continue_hand64_exact:
  assumes g: "in_range g" "0 \<le> g_EventSequence g" "g_EventSequence g < 2 ^ 63 - 1" and d: "sound_deps d"
  shows "continue_hand64 d g w = continue_hand d g w"
proof -
  have "finish_after_action64 d g1 w = finish_after_action d g1 w"
    if "in_range g1" "g_EventSequence g1 = g_EventSequence g" for g1
    using FinishHand_Execute64_exact [OF that(1) _ _ d] that(2) g(2,3) by (simp add: finish_after_action64_def finish_after_action_def)
  then show ?thesis
    using g(1) in_range_advanceStreet [OF g(1)] advanceStreet_Ok(8) advanceStreet64_exact [OF g(1)]
    by (auto simp: continue_hand64_def continue_hand_def split: outcome.split)
qed

text \<open>
  An action on a hand in range is the same in 64 bits: the code does exactly what the unbounded
  definitions say, errors and failures included.
\<close>

lemma ApplyAction_Execute64_exact:
  assumes d: "sound_deps d"
    and g: "\<And>g. dp_FindByID d (w_db w) (ai_HandID input) = Ok g \<Longrightarrow>
      in_range g \<and> 0 \<le> g_EventSequence g \<and> g_EventSequence g < 2 ^ 63 - 2"
  shows "ApplyAction_Execute64 d input w = ApplyAction_Execute d input w"
proof (cases "dp_FindByID d (w_db w) (ai_HandID input)")
  case (Ok g)
  let ?a = "ai_Action input"
  have r: "in_range g" "0 \<le> g_EventSequence g" "g_EventSequence g < 2 ^ 63 - 2" using assms(2) [OF Ok] by blast+
  have v: "ValidateAction64 g ?a = ValidateAction g ?a" using r(1) by (rule ValidateAction64_exact)
  show ?thesis
  proof (cases "ValidateAction g ?a = Ok () \<and> PlayerByID g (a_PlayerID ?a) \<noteq> None")
    case True
    then obtain k g1 where k: "PlayerByID g (a_PlayerID ?a) = Some k" and g1: "ApplyAction g ?a = Ok g1"
      using ApplyAction_total by blast
    have val: "ValidateAction g ?a = Ok ()" using True by blast
    have r1: "in_range g1" by (rule in_range_ApplyAction [OF val g1 r(1)])
    have s1: "g_EventSequence g1 = g_EventSequence g" using ApplyAction_frame(10) [OF g1] .
    have w1: "wrap64 (g_EventSequence g + 1) = g_EventSequence g + 1" using r(2,3) by (intro wrap64_small) simp_all
    let ?g2 = "g1\<lparr>g_EventSequence := g_EventSequence g + 1\<rparr>"
    have "in_range ?g2" using r1 by (simp add: in_range_def)
    then have "continue_hand64 d ?g2 w = continue_hand d ?g2 w" for w
      using r(2,3) by (intro continue_hand64_exact d) simp_all
    then show ?thesis
      using Ok v val k g1 ApplyAction64_exact [OF r(1) val]
      by (simp add: ApplyAction_Execute64_def ApplyAction_Execute_def AdvanceEventSequence64_def
          AdvanceEventSequence_def s1 w1 Let_def split: prod.split outcome.split)
  next
    case False
    then show ?thesis
      using Ok v by (cases "ValidateAction g ?a")
        (auto simp: ApplyAction_Execute64_def ApplyAction_Execute_def split: option.splits)
  qed
qed (simp_all add: ApplyAction_Execute64_def ApplyAction_Execute_def)

section \<open>Starting a hand\<close>

definition validateStartHandInput64 :: "StartHandInput \<Rightarrow> (engine_err, unit) outcome" where
  "validateStartHandInput64 input =
     (let c = sh_BettingConfig input
      in if length (sh_Players input) < 2 then Err ErrNotEnoughPlayers
      else if bc_Structure c \<noteq> BettingFixedLimit then Err (ErrText ''unsupported betting structure'')
      else if bc_SmallBlind c \<le> 0 \<or> bc_BigBlind c \<le> 0 then Err (ErrText ''blinds must be positive'')
      else if bc_SmallBet c \<le> 0 \<or> bc_BigBet c \<le> 0 then Err (ErrText ''bet sizes must be positive'')
      else if bc_BigBlind c \<noteq> wrap64 (bc_SmallBlind c * 2)
        then Err (ErrText ''big blind must be twice the small blind'')
      else if bc_SmallBet c < bc_BigBlind c
        then Err (ErrText ''small bet must be greater than or equal to big blind'')
      else if bc_BigBet c < bc_SmallBet c
        then Err (ErrText ''big bet must be greater than or equal to small bet'')
      else if bc_MaxRaisesPerStreet c \<le> 0
        then Err (ErrText ''max raises per street must be positive'')
      else if sh_Button input < 0 \<or> sh_Button input \<ge> int (length (sh_Players input))
        then Err (ErrText ''invalid button position'')
      else Ok ())"

definition postBlinds64 ::
    "Player list \<Rightarrow> nat \<Rightarrow> nat \<Rightarrow> int \<Rightarrow> int \<Rightarrow> (engine_err, Player list) outcome" where
  "postBlinds64 players sbIndex bbIndex sb bb =
     (if sbIndex \<ge> length players then Panic ''index out of range''
      else let sbPlayer = players ! sbIndex
      in if p_Stack sbPlayer < sb then Err ErrInsufficientStack
      else let players = players[sbIndex := sbPlayer\<lparr>p_Stack := wrap64 (p_Stack sbPlayer - sb), p_CurrentBet := sb\<rparr>]
      in if bbIndex \<ge> length players then Panic ''index out of range''
      else let bbPlayer = players ! bbIndex
      in if p_Stack bbPlayer < bb then Err ErrInsufficientStack
      else Ok (players[bbIndex := bbPlayer\<lparr>p_Stack := wrap64 (p_Stack bbPlayer - bb), p_CurrentBet := bb\<rparr>]))"

text \<open>The two checks and the blinds are all the arithmetic a start has; no 64-bit input makes it wrap.\<close>

lemma twice_wraps: "\<lbrakk>0 < n; in_int64 n; 0 < m; in_int64 m\<rbrakk> \<Longrightarrow> m = wrap64 (n * 2) \<longleftrightarrow> m = n * 2"
proof -
  assume n: "0 < n" "in_int64 n" and m: "0 < m" "in_int64 m"
  show ?thesis
  proof (cases "n < 2 ^ 62")
    case True
    then show ?thesis using n by (simp add: wrap64_small)
  next
    case False
    have "(n * 2 + 2 ^ 63) mod 2 ^ 64 = (n * 2 + 2 ^ 63 - 2 ^ 64) mod 2 ^ 64" by (rule minus_mod_self2 [symmetric])
    also have "\<dots> = n * 2 + 2 ^ 63 - 2 ^ 64"
      using False n(2) by (intro mod_pos_pos_trivial) (simp_all add: in_int64_def)
    finally have "wrap64 (n * 2) \<le> 0"
      using n(2) by (simp add: wrap64_def in_int64_def)
    then show ?thesis using m False by (simp add: in_int64_def)
  qed
qed

lemma validateStartHandInput64_exact:
  assumes "in_int64 (bc_SmallBlind (sh_BettingConfig input))" "in_int64 (bc_BigBlind (sh_BettingConfig input))"
  shows "validateStartHandInput64 input = validateStartHandInput input"
  using twice_wraps [OF _ assms(1) _ assms(2)]
  by (simp add: validateStartHandInput64_def validateStartHandInput_def Let_def not_le)

lemma postBlinds64_exact:
  assumes "0 < sb" "0 < bb" "\<forall>p \<in> set ps. in_int64 (p_Stack p)"
  shows "postBlinds64 ps i j sb bb = postBlinds ps i j sb bb"
proof -
  have w: "wrap64 (s - c) = s - c" if "c \<le> s" "0 < c" "in_int64 s" for s c
    using that by (intro wrap64_small) (auto simp: in_int64_def)
  show ?thesis
  proof (cases "i < length ps \<and> sb \<le> p_Stack (ps ! i) \<and> j < length ps")
    case True
    let ?ps = "ps[i := (ps ! i)\<lparr>p_Stack := p_Stack (ps ! i) - sb, p_CurrentBet := sb\<rparr>]"
    have "in_int64 (p_Stack (ps ! i))" "in_int64 (p_Stack (ps ! j))" using True assms(3) by auto
    then have "in_int64 (p_Stack (?ps ! j))" "wrap64 (p_Stack (ps ! i) - sb) = p_Stack (ps ! i) - sb"
      using True assms(1) w by (auto simp: nth_list_update in_int64_def)
    then show ?thesis
      using True assms(2) w [of bb "p_Stack (?ps ! j)"] by (simp add: postBlinds64_def postBlinds_def Let_def not_less)
  qed (auto simp: postBlinds64_def postBlinds_def Let_def)
qed

definition StartHand_Execute64 ::
    "'db Deps \<Rightarrow> StartHandInput \<Rightarrow> 'db World \<Rightarrow> (engine_err, GameState) outcome \<times> 'db World" where
  "StartHand_Execute64 d input w =
     (let c = sh_BettingConfig input; occurredAt = dp_Now d;
          prepared =
            bind_outcome (validateStartHandInput64 input) (\<lambda>_.
            bind_outcome (Deck_Shuffle (NewDeck (dp_shuffle d))) (\<lambda>deck.
            bind_outcome (dealHoleCards deck (sh_Players input)) (\<lambda>(deck, players).
            let button = nat (sh_Button input);
                (sbIndex, bbIndex) = blindIndexes button (length players)
            in bind_outcome (postBlinds64 players sbIndex bbIndex (bc_SmallBlind c) (bc_BigBlind c)) (\<lambda>players.
            Ok \<lparr>g_ID = show_int (dp_UnixNano d),
                g_TableID = sh_TableID input,
                g_Players = players,
                g_Board = [],
                g_Pots = [],
                g_Street = StreetPreflop,
                g_CurrentBet = bc_BigBlind c,
                g_ActivePlayer = nextActiveIndex bbIndex players,
                g_Button = button,
                g_EventSequence = 1,
                g_BettingConfig = c,
                g_RaisesThisStreet = 0,
                g_Deck = Some deck\<rparr>))))
      in case prepared of
          Err e \<Rightarrow> (Err e, w)
        | Panic m \<Rightarrow> (Panic m, w)
        | Ok state \<Rightarrow>
            (let (saved, w) = save_state d state w
             in case saved of
                 Err e \<Rightarrow> (Err (Wrapped ''start hand: save state'' e), w)
               | Panic m \<Rightarrow> (Panic m, w)
               | Ok _ \<Rightarrow>
                   (let (published, w) = publish d (EvHandStarted
                          \<lparr>hs_EventID = event_id (g_ID state) (g_EventSequence state),
                           hs_EventVersion = 1,
                           hs_HandID = g_ID state,
                           hs_TableID = g_TableID state,
                           hs_SequenceNumber = g_EventSequence state,
                           hs_Players = map p_ID (g_Players state),
                           hs_PlayerCount = int (length (g_Players state)),
                           hs_Button = sh_Button input,
                           hs_BettingStructure = BettingStructure_EventValue (bc_Structure c),
                           hs_SmallBlind = bc_SmallBlind c,
                           hs_BigBlind = bc_BigBlind c,
                           hs_OccurredAt = occurredAt\<rparr>) w
                    in case published of
                        Err e \<Rightarrow> (Err (Wrapped ''start hand: publish event'' e), w)
                      | Panic m \<Rightarrow> (Panic m, w)
                      | Ok _ \<Rightarrow>
                          (Ok state, w\<lparr>w_metrics := count_start (int (length (g_Players state))) (w_metrics w)\<rparr>))))"

text \<open>A start with 64-bit stacks and blinds is the same in 64 bits, on every branch.\<close>

lemma StartHand_Execute64_exact:
  assumes "in_int64 (bc_SmallBlind (sh_BettingConfig input))" "in_int64 (bc_BigBlind (sh_BettingConfig input))"
    and ps: "\<forall>p \<in> set (sh_Players input). in_int64 (p_Stack p)"
  shows "StartHand_Execute64 d input w = StartHand_Execute d input w"
proof (cases "validateStartHandInput input = Ok ()")
  case True
  let ?c = "sh_BettingConfig input"
  have b: "0 < bc_SmallBlind ?c" "0 < bc_BigBlind ?c" using True by (auto simp: validateStartHandInput_Ok)
  have post: "postBlinds64 dealt i j (bc_SmallBlind ?c) (bc_BigBlind ?c) = postBlinds dealt i j (bc_SmallBlind ?c) (bc_BigBlind ?c)"
    if "dealHoleCards deck (sh_Players input) = Ok (deck', dealt)" for deck deck' dealt i j
  proof (rule postBlinds64_exact [OF b])
    have "p_Stack ` set dealt = p_Stack ` set (sh_Players input)"
      using dealHoleCards_Ok(3) [OF that] by (metis set_map)
    then show "\<forall>p \<in> set dealt. in_int64 (p_Stack p)" using ps by (metis (mono_tags, lifting) imageE imageI)
  qed
  show ?thesis
  proof (cases "Deck_Shuffle (NewDeck (dp_shuffle d))")
    case (Ok deck)
    then show ?thesis
      using True post [of deck] validateStartHandInput64_exact [OF assms(1,2)]
      by (cases "dealHoleCards deck (sh_Players input)")
        (auto simp: StartHand_Execute64_def StartHand_Execute_def Let_def)
  qed (use True validateStartHandInput64_exact [OF assms(1,2)] in \<open>simp_all add: StartHand_Execute64_def StartHand_Execute_def\<close>)
next
  case False
  then show ?thesis
    using validateStartHandInput64_exact [OF assms(1,2)]
    by (cases "validateStartHandInput input") (simp_all add: StartHand_Execute64_def StartHand_Execute_def)
qed

end
