(* ===== verification/TableSystem.thy ===== *)
theory TableSystem
  imports EngineServer TableServer WalletApi Engine64
begin

text \<open>
  The platform put together: the table manager's service on its Postgres repository, with the
  engine's gRPC server and the wallet's HTTP server behind its two clients. A call of the service
  is one step; calls can fail at every statement and connection, with the effects made before.
\<close>

section \<open>The composed service\<close>

text \<open>
  The connection to the engine: a request can be lost before it reaches the engine, a response
  after. A panic ends the engine's process, not its database; the caller sees the connection break.
\<close>

record EngineLink =
  el_request_lost :: bool
  el_response_lost :: bool

definition engine_call ::
    "EngineLink \<Rightarrow> ('r \<Rightarrow> 'e \<Rightarrow> (Code, PbGameState) outcome \<times> 'e) \<Rightarrow> 'r \<Rightarrow> 'e \<Rightarrow> PbGameState option tres \<times> 'e" where
  "engine_call el f req e =
     (if el_request_lost el then (Err (RpcStatus CodeUnavailable), e)
      else let (r, e) = f req e
           in (if el_response_lost el then Err (RpcStatus CodeUnavailable)
               else case r of
                   Ok g \<Rightarrow> Ok (Some g)
                 | Err c \<Rightarrow> Err (RpcStatus c)
                 | Panic m \<Rightarrow> Err (RpcStatus CodeUnavailable), e))"

text \<open>The engine's dependencies with the Postgres repository.\<close>

definition on_postgres :: "Pg \<Rightarrow> GameDB Deps \<Rightarrow> GameDB Deps" where
  "on_postgres pg d = d\<lparr>dp_FindByID := FindByID pg, dp_Save := Save pg\<rparr>"

text \<open>Everything a call depends on besides the state: servers, connections, clock and chance.\<close>

record Env =
  en_tables :: TablePg
  en_games :: Pg
  en_engine :: "GameDB Deps"
  en_link :: EngineLink
  en_wallet :: ApiEnv
  en_money :: Link
  en_UnixNano :: int

type_synonym Platform = "(TableDB, GameDB EngineState, WalletServer) TWorld"

definition platform :: "Env \<Rightarrow> (TableDB, GameDB EngineState, WalletServer) Service" where
  "platform en =
     (let d = on_postgres (en_games en) (en_engine en)
      in \<lparr>sv_CreateTable = Repo_CreateTable (en_tables en), sv_SaveTable = SaveTable (en_tables en),
          sv_FindTable = FindTable (en_tables en), sv_ListTables = Repo_ListTables (en_tables en),
          sv_StartHand = engine_call (en_link en) (Server_StartHand d),
          sv_ApplyAction = engine_call (en_link en) (Server_ApplyAction d),
          sv_GetGameState = (\<lambda>handID e. fst (engine_call (en_link en) (\<lambda>i e. (Server_GetGameState d i e, e)) handID e)),
          sv_wallet = Some (wallet_client (en_wallet en) (en_money en)), sv_UnixNano = en_UnixNano en\<rparr>)"

lemma platform_simps [simp]:
  "sv_CreateTable (platform en) = Repo_CreateTable (en_tables en)" "sv_SaveTable (platform en) = SaveTable (en_tables en)"
  "sv_FindTable (platform en) = FindTable (en_tables en)"
  "sv_StartHand (platform en) = engine_call (en_link en) (Server_StartHand (on_postgres (en_games en) (en_engine en)))"
  "sv_ApplyAction (platform en) = engine_call (en_link en) (Server_ApplyAction (on_postgres (en_games en) (en_engine en)))"
  "sv_wallet (platform en) = Some (wallet_client (en_wallet en) (en_money en))"
  by (simp_all add: platform_def Let_def)

lemma on_postgres_simps [simp]: "dp_FindByID (on_postgres pg d) = FindByID pg" "dp_Save (on_postgres pg d) = Save pg"
  by (simp_all add: on_postgres_def)

lemma engine_call_cases:
  assumes "engine_call el f req e = (x, e')"
  shows "e' = e \<and> (\<forall>g. x \<noteq> Ok g) \<or> (\<exists>r. f req e = (r, e') \<and> (\<forall>g. x = Ok g \<longrightarrow> (\<exists>s. r = Ok s \<and> g = Some s)))"
  using assms by (auto simp: engine_call_def Let_def split: if_splits prod.splits outcome.splits)

definition engine_fine :: "Pg \<Rightarrow> GameDB EngineState \<Rightarrow> bool" where
  "engine_fine pg es \<longleftrightarrow> orderly pg \<and> engine_sane es"

lemma platform_start:
  assumes run: "sv_StartHand (platform en) req e = (x, e')" and e: "engine_fine (en_games en) e"
    and ps: "\<forall>p \<in> set (pbs_players req). pbp_id p \<noteq> '''' \<and> 0 \<le> pbp_stack p"
  shows "engine_fine (en_games en) e' \<and> (\<forall>g. x = Ok (Some g) \<longrightarrow> pbg_id g \<noteq> '''')"
  using engine_call_cases [OF run [unfolded platform_simps]]
proof
  assume "\<exists>r. Server_StartHand (on_postgres (en_games en) (en_engine en)) req e = (r, e')
    \<and> (\<forall>g. x = Ok g \<longrightarrow> (\<exists>s. r = Ok s \<and> g = Some s))"
  then obtain r where r: "Server_StartHand (on_postgres (en_games en) (en_engine en)) req e = (r, e')"
    "\<And>g. x = Ok g \<Longrightarrow> \<exists>s. r = Ok s \<and> g = Some s" by blast
  show ?thesis
    using Server_StartHand_sane [OF r(1) _ on_postgres_simps(2) ps] e r(2) by (fastforce simp: engine_fine_def)
qed (use e in auto)

lemma platform_act:
  assumes run: "sv_ApplyAction (platform en) act e = (y, e')" and e: "engine_fine (en_games en) e"
  shows "engine_fine (en_games en) e'
    \<and> (\<forall>g. y = Ok (Some g) \<longrightarrow> (\<forall>p \<in> set (pbg_players g). pbp_id p \<noteq> '''' \<and> 0 \<le> pbp_stack p))"
  using engine_call_cases [OF run [unfolded platform_simps]]
proof
  assume "\<exists>r. Server_ApplyAction (on_postgres (en_games en) (en_engine en)) act e = (r, e')
    \<and> (\<forall>g. y = Ok g \<longrightarrow> (\<exists>s. r = Ok s \<and> g = Some s))"
  then obtain r where r: "Server_ApplyAction (on_postgres (en_games en) (en_engine en)) act e = (r, e')"
    "\<And>g. y = Ok g \<Longrightarrow> \<exists>s. r = Ok s \<and> g = Some s" by blast
  show ?thesis
    using Server_ApplyAction_sane [OF r(1) _ on_postgres_simps(2,1)] e r(2) by (fastforce simp: engine_fine_def)
qed (use e in auto)

interpretation on_platform: table_service "platform en" stored seats_owned "engine_fine (en_games en)" for en
proof (unfold_locales, goal_cases)
  case (1 i db t)
  then show ?case by (simp add: pg_tables.lookup_held)
next
  case (2 db i t)
  then show ?case by (simp add: pg_tables.held_id)
next
  case (3 t db db')
  then show ?case using pg_tables.save_held by simp
next
  case (4 t db db')
  then show ?case using pg_tables.create_held by simp
next
  case (5 req e x e')
  then show ?case by (rule platform_start)
next
  case (6 act e y e')
  then show ?case by (rule platform_act)
qed


section \<open>Keys of the table manager\<close>

text \<open>A text that starts with other than white space keeps its first character.\<close>

lemma TrimSpace_hd: "\<not> is_space c \<Longrightarrow> \<exists>s'. TrimSpace (c # s) = c # s'"
proof -
  assume c: "\<not> is_space c"
  then have "TrimSpace (c # s) = rev (dropWhile is_space (rev s @ [c]))" by (simp add: TrimSpace_def)
  also have "dropWhile is_space (rev s @ [c]) = (if \<forall>x \<in> set s. is_space x then [c] else dropWhile is_space (rev s) @ [c])"
    using c by (auto simp: dropWhile_append)
  finally show ?thesis by (auto intro: exI [of _ "rev (dropWhile is_space (rev s))"])
qed

lemma foreign_first: "TrimSpace k = c # s \<Longrightarrow> c \<noteq> CHR ''d'' \<Longrightarrow> c \<noteq> CHR ''w'' \<Longrightarrow> foreign_key (TrimSpace k)"
  by (simp add: foreign_key_def deposit_key_def withdrawal_key_def compensation_key_def)

lemma table_keys_foreign:
  "foreign_key (TrimSpace (joinIdempotencyKey t p k c))" "foreign_key (TrimSpace (cashoutIdempotencyKey t p k c))"
proof -
  have "\<exists>s. joinIdempotencyKey t p k c = CHR ''j'' # s" "\<exists>s. cashoutIdempotencyKey t p k c = CHR ''c'' # s"
    by (simp_all add: joinIdempotencyKey_def cashoutIdempotencyKey_def)
  then show "foreign_key (TrimSpace (joinIdempotencyKey t p k c))" "foreign_key (TrimSpace (cashoutIdempotencyKey t p k c))"
    using TrimSpace_hd [of "CHR ''j''"] TrimSpace_hd [of "CHR ''c''"] foreign_first
    by (fastforce simp: is_space_def)+
qed

section \<open>Reachable states of the platform\<close>

text \<open>
  The steps: the four calls that change a table, and any step of the wallet's own. The amounts of
  requests are 64-bit integers; a call may run in any environment whose database orders rows as asked.
\<close>

inductive platform_step :: "Platform \<Rightarrow> Platform \<Rightarrow> bool" where
  create: "\<lbrakk>orderly (en_games en); in_int64 sb\<rbrakk> \<Longrightarrow> platform_step w (snd (CreateTable (platform en) name n sb bb w))"
| join: "\<lbrakk>orderly (en_games en); in_int64 c\<rbrakk> \<Longrightarrow> platform_step w (snd (JoinTable (platform en) i p k c w))"
| leave: "orderly (en_games en) \<Longrightarrow> platform_step w (snd (LeaveTable (platform en) i p w))"
| act: "orderly (en_games en) \<Longrightarrow> platform_step w (snd (Act (platform en) i p a n w))"
| wallet: "\<lbrakk>ch_db v = ws_db (tw_wallet w); wallet_step v v'\<rbrakk>
    \<Longrightarrow> platform_step w (w\<lparr>tw_wallet := (tw_wallet w)\<lparr>ws_db := ch_db v'\<rparr>\<rparr>)"

inductive platform_reachable :: "Platform \<Rightarrow> bool" where
  init: "\<lbrakk>tw_db w = \<lparr>td_tables = [], td_seats = []\<rparr>; w_db (es_world (tw_engine w)) = empty_db; ws_db (tw_wallet w) = empty_wallet\<rbrakk>
    \<Longrightarrow> platform_reachable w"
| step: "\<lbrakk>platform_reachable v; platform_step v w\<rbrakk> \<Longrightarrow> platform_reachable w"

inductive_cases platform_stepE: "platform_step v w"

definition platform_ok :: "Platform \<Rightarrow> bool" where
  "platform_ok w \<longleftrightarrow> world_ok stored seats_owned engine_sane w \<and> wallet_ok (ws_db (tw_wallet w))"

lemma world_ok_engine_fine:
  "orderly (en_games en) \<Longrightarrow> world_ok stored seats_owned (engine_fine (en_games en)) w \<longleftrightarrow> world_ok stored seats_owned engine_sane w"
  by (simp add: world_ok_def engine_fine_def)

lemma in_int64_neg: "\<lbrakk>in_int64 n; 0 < n\<rbrakk> \<Longrightarrow> in_int64 (- n)"
  by (simp add: in_int64_def)

lemma client_wallet_ok:
  assumes ok: "wallet_ok (ws_db ws)" and n: "in_int64 n"
  shows "wallet_ok (ws_db (snd (wc_DebitForJoin (wallet_client pe lk) u i n (joinIdempotencyKey t p k c) ws)))"
    and "wallet_ok (ws_db (snd (wc_CreditForCashout (wallet_client pe lk) u i n (cashoutIdempotencyKey t p k c) ws)))"
proof -
  let ?j = "joinIdempotencyKey t p k c" and ?c = "cashoutIdempotencyKey t p k c"
  obtain r ws' where d: "Client_DebitForJoin pe lk u i n ?j ws = (r, ws')" by fastforce
  have "ws' = ws \<or> 0 < n \<and> posted (buyin_entry (pe_env pe) u i n ?j) (ws_db ws) (ws_db ws')"
    using Client_DebitForJoin_effect(1,2) [OF d] by blast
  moreover have "wallet_ok db" if "0 < n" "posted (buyin_entry (pe_env pe) u i n ?j) (ws_db ws) db" for db
    using that n table_keys_foreign(1) by (intro posted_wallet_ok [OF ok _ _ that(2)]) (simp_all add: buyin_entry_def in_int64_neg)
  ultimately show "wallet_ok (ws_db (snd (wc_DebitForJoin (wallet_client pe lk) u i n ?j ws)))"
    using ok d by (auto simp: wallet_client_def)
  obtain r ws' where d: "Client_CreditForCashout pe lk u i n ?c ws = (r, ws')" by fastforce
  have "ws_db ws' = ws_db ws \<or> posted (cashout_entry (pe_env pe) u i n ?c) (ws_db ws) (ws_db ws')"
    using Client_CreditForCashout_effect(1,2) [OF d] by blast
  moreover have "wallet_ok db" if "posted (cashout_entry (pe_env pe) u i n ?c) (ws_db ws) db" for db
    using n table_keys_foreign(2) by (intro posted_wallet_ok [OF ok _ _ that]) (simp_all add: cashout_entry_def buyin_entry_def)
  ultimately show "wallet_ok (ws_db (snd (wc_CreditForCashout (wallet_client pe lk) u i n ?c ws)))"
    using ok d by (auto simp: wallet_client_def)
qed

lemma platform_step_ok:
  assumes step: "platform_step w w'" and ok: "platform_ok w"
  shows "platform_ok w'"
  using step
proof (cases rule: platform_step.cases)
  case (create en sb name n bb)
  then show ?thesis
    using ok on_platform.CreateTable_fine [of en w sb name n bb] by (simp add: platform_ok_def world_ok_engine_fine)
next
  case (join en c i p k)
  have "wallet_ok (ws_db (tw_wallet w'))"
    using JoinTable_wallet [of "platform en" "wallet_client (en_wallet en) (en_money en)" i p k c w] client_wallet_ok(1) ok join(3)
    unfolding join(1) by (auto simp: platform_ok_def)
  then show ?thesis
    using join ok on_platform.JoinTable_fine [of en w i p k c] by (simp add: platform_ok_def world_ok_engine_fine)
next
  case (leave en i p)
  have stack: "in_int64 (st_Stack (tb_Seats t ! j))"
    if "FindTable (en_tables en) i (tw_db w) = Ok t" "SeatByPlayerID t p = Some j" for t j
    using ok FindTable_Ok [OF that(1)] SeatByPlayerID_Some [OF that(2)]
    by (intro stored_stacks) (auto simp: platform_ok_def world_ok_def)
  have "wallet_ok (ws_db (tw_wallet w'))"
    using LeaveTable_wallet [of "platform en" "wallet_client (en_wallet en) (en_money en)" i p w] client_wallet_ok(2) ok stack
    unfolding leave(1) by (fastforce simp: platform_ok_def)
  then show ?thesis
    using leave ok on_platform.LeaveTable_fine [of en w i p] by (simp add: platform_ok_def world_ok_engine_fine)
next
  case (act en i p a n)
  then show ?thesis
    using ok on_platform.Act_fine [of en w i p a n] by (simp add: platform_ok_def world_ok_engine_fine)
next
  case (wallet v v')
  then show ?thesis using ok wallet_step_ok [of v v'] by (simp add: platform_ok_def world_ok_def)
qed

lemma platform_reachable_ok: "platform_reachable w \<Longrightarrow> platform_ok w"
proof (induction rule: platform_reachable.induct)
  case (init w)
  then show ?case
    using reachable_ok [OF wallet_reachable.init, of "\<lparr>ch_db = empty_wallet, ch_sent = []\<rparr>"]
    by (simp add: platform_ok_def world_ok_def engine_sane_def stored_def seats_owned_def
        sane_rows_def empty_db_def)
qed (rule platform_step_ok)

text \<open>
  Runs within the range of the engine's 64-bit chips: every hand the engine can load after a step
  holds at most \<open>2 ^ 53\<close> chips, and its limits and its event counter are as small
  (\<^const>\<open>in_range\<close>); the rake of the engine that takes an action is configured between 0 and 1.
\<close>

definition hand_in_range :: "GameState \<Rightarrow> bool" where
  "hand_in_range g \<longleftrightarrow> in_range g \<and> 0 \<le> g_EventSequence g \<and> g_EventSequence g < 2 ^ 63 - 2"

definition hands_in_range :: "Platform \<Rightarrow> bool" where
  "hands_in_range w \<longleftrightarrow> (\<forall>pg i g. orderly pg \<and> FindByID pg (w_db (es_world (tw_engine w))) i = Ok g \<longrightarrow> hand_in_range g)"

inductive platform_run :: "Platform \<Rightarrow> bool" where
  run_init: "\<lbrakk>tw_db w = \<lparr>td_tables = [], td_seats = []\<rparr>; w_db (es_world (tw_engine w)) = empty_db; ws_db (tw_wallet w) = empty_wallet\<rbrakk>
    \<Longrightarrow> platform_run w"
| run_create: "\<lbrakk>platform_run w; orderly (en_games en); in_int64 sb; w' = snd (CreateTable (platform en) name n sb bb w);
    hands_in_range w'\<rbrakk> \<Longrightarrow> platform_run w'"
| run_join: "\<lbrakk>platform_run w; orderly (en_games en); in_int64 c; w' = snd (JoinTable (platform en) i p k c w);
    hands_in_range w'\<rbrakk> \<Longrightarrow> platform_run w'"
| run_leave: "\<lbrakk>platform_run w; orderly (en_games en); w' = snd (LeaveTable (platform en) i p w); hands_in_range w'\<rbrakk>
    \<Longrightarrow> platform_run w'"
| run_act: "\<lbrakk>platform_run w; orderly (en_games en); sound_deps (en_engine en); w' = snd (Act (platform en) i p a n w);
    hands_in_range w'\<rbrakk> \<Longrightarrow> platform_run w'"
| run_wallet: "\<lbrakk>platform_run w; ch_db v = ws_db (tw_wallet w); wallet_step v v';
    w' = w\<lparr>tw_wallet := (tw_wallet w)\<lparr>ws_db := ch_db v'\<rparr>\<rparr>\<rbrakk> \<Longrightarrow> platform_run w'"

lemma FindByID_empty: "FindByID pg empty_db i \<noteq> Ok g"
  by (simp add: FindByID_def findGameState_def empty_db_def)

lemma platform_run_reachable: "platform_run w \<Longrightarrow> platform_reachable w \<and> hands_in_range w"
proof (induction rule: platform_run.induct)
  case (run_init w)
  then show ?case using platform_reachable.init [of w] by (simp add: hands_in_range_def FindByID_empty)
next
  case (run_create w en sb w' name n bb)
  then show ?case using platform_reachable.step [OF _ platform_step.create] by metis
next
  case (run_join w en c w' i p k)
  then show ?case using platform_reachable.step [OF _ platform_step.join] by metis
next
  case (run_leave w en w' i p)
  then show ?case using platform_reachable.step [OF _ platform_step.leave] by metis
next
  case (run_act w en w' i p a n)
  then show ?case using platform_reachable.step [OF _ platform_step.act] by metis
next
  case (run_wallet w v v' w')
  then have "platform_reachable w'" using platform_reachable.step [OF _ platform_step.wallet] by metis
  then show ?case using run_wallet by (simp add: hands_in_range_def)
qed

text \<open>
  C5: The platform stays sound. In every state the platform reaches from empty databases by a run
  whose hands stay within the 64-bit range, whatever statements, connections and calls failed on
  the way, every table that is found is well formed (seats numbered in order, nobody seated twice,
  no chips on an empty seat, the blinds and the button right, in a hand exactly if it names one),
  its stacks are 64-bit numbers, and the wallet's books balance: every balance is the sum of its
  ledger entries and not negative, no key is used twice. In each such state the engine's
  arithmetic does not wrap: the 64-bit code of an action does what its exact definition says (the
  start of a hand with 64-bit stacks and blinds never wraps, \<open>Engine64.StartHand_Execute64_exact\<close>).
\<close>

theorem platform_stays_sound:
  assumes "platform_run w"
  shows "(FindTable pg i (tw_db w) = Ok t \<longrightarrow> table_ok t \<and> tb_ID t = i \<and> (\<forall>s \<in> set (tb_Seats t). in_int64 (st_Stack s)))
    \<and> ledger_ok (ws_db (tw_wallet w))
    \<and> (orderly games \<and> sound_deps d \<longrightarrow>
        ApplyAction_Execute64 (on_postgres games d) input (es_world (tw_engine w))
        = ApplyAction_Execute (on_postgres games d) input (es_world (tw_engine w)))"
proof -
  have reach: "platform_reachable w" "hands_in_range w" using platform_run_reachable [OF assms] by blast+
  have "ApplyAction_Execute64 (on_postgres games d) input (es_world (tw_engine w))
      = ApplyAction_Execute (on_postgres games d) input (es_world (tw_engine w))" if "orderly games" "sound_deps d"
    using that reach(2) by (intro ApplyAction_Execute64_exact)
      (auto simp: sound_deps_def on_postgres_def hands_in_range_def hand_in_range_def)
  then show ?thesis
    using platform_reachable_ok [OF reach(1)] FindTable_Ok [of pg i "tw_db w" t] stored_id [of "tw_db w" i t]
    by (auto simp: platform_ok_def world_ok_def wallet_ok_def intro: stored_stacks)
qed


section \<open>A concrete platform\<close>

text \<open>A platform where nothing fails; its user is provisioned and has deposited 5 gwei.\<close>

definition fine_api :: "int \<Rightarrow> ApiEnv" where
  "fine_api n = \<lparr>pe_env = WalletRun.ex_env\<lparr>we_now := n\<rparr>, pe_crypto = ex_crypto, pe_jwks = NoResponse,
     pe_texts = \<lparr>et_sql = '''', et_unique = '''', et_aborted = ''''\<rparr>, pe_internalToken = ''s3cret''\<rparr>"

definition fine_env :: "int \<Rightarrow> Env" where
  "fine_env n = \<lparr>en_tables = \<lparr>tp_fails = (\<lambda>stmt key. False), tp_fails_again = (\<lambda>stmt key. False),
     tp_loses_commit = False, tp_order = (\<lambda>rs. rs)\<rparr>, en_games = good_pg, en_engine = pg_deps,
     en_link = \<lparr>el_request_lost = False, el_response_lost = False\<rparr>, en_wallet = fine_api n,
     en_money = \<lparr>lk_internalToken = ''s3cret'', lk_request_lost = False, lk_response_lost = False,
       lk_transport_error = '''', lk_status_text = show_int\<rparr>, en_UnixNano = n\<rparr>"

definition new_platform :: "WalletDB \<Rightarrow> Platform" where
  "new_platform db = \<lparr>tw_db = \<lparr>td_tables = [], td_seats = []\<rparr>,
     tw_engine = \<lparr>es_world = pg_world, es_pubsub = NewPubSub\<rparr>,
     tw_wallet = \<lparr>ws_db = db, ws_auth = ex_validator\<rparr>\<rparr>"

lemma fine_env_orderly [simp]: "orderly (en_games (fine_env n))"
  by (simp add: fine_env_def)

lemma wallet_platform: "wallet_reachable v \<Longrightarrow> platform_run (new_platform (ch_db v))"
proof (induction rule: wallet_reachable.induct)
  case (init w)
  then show ?case by (intro platform_run.run_init) (simp_all add: new_platform_def pg_world_def)
next
  case (step v w)
  then show ?case using platform_run.run_wallet [OF step.IH _ step.hyps(2)] by (simp add: new_platform_def)
qed

definition funded :: Chain where
  "funded =
     (let w = \<lparr>ch_db = empty_wallet, ch_sent = []\<rparr>;
          w = w\<lparr>ch_db := snd (Svc_ProvisionUser WalletRun.ex_env ''u'' ''U@x'' (ch_db w))\<rparr>;
          w = snd (scanDepositsAndSubmit (ex_runner 0) w)
      in snd (scanDepositsAndSubmit (ex_runner 1) w))"

definition funded_db :: WalletDB where
  "funded_db = \<lparr>wd_accounts = [\<lparr>ac_UserID = ''u'', ac_Email = ''u@x'', ac_CreatedAt = 1, ac_ProvisionedAt = 1\<rparr>],
     wd_balances = [\<lparr>bl_UserID = ''u'', bl_AvailableGwei = 5, bl_UpdatedAt = 2\<rparr>],
     wd_ledger = [\<lparr>le_ID = ''ledger-3'', le_UserID = ''u'', le_EntryKind = ''deposit_confirmed'', le_AmountGwei = 5,
       le_ReferenceID = ''0xT'', le_IdempotencyKey = ''deposit:0xT'', le_CreatedAt = 2\<rparr>],
     wd_addresses = [\<lparr>da_UserID = ''u'', da_Address = ''0xD'', da_PrivateKeyHex = ''key'', da_Chain = ''test'',
       da_CreatedAt = 1, da_LastSweepTxHash = None, da_LastSweepAt = None, da_LastObservedBlock = Some 1\<rparr>],
     wd_challenges = [], wd_linked = [],
     wd_deposits = [\<lparr>dep_ID = ''deposit-3'', dep_UserID = ''u'', dep_Address = ''0xd'', dep_FromAddress = ''0xs'',
       dep_ToAddress = ''0xd'', dep_AmountGwei = 5, dep_RawAmountWei = ''5000000000'', dep_Status = ''confirmed'',
       dep_TxHash = ''0xT'', dep_ObservedBlock = Some 1, dep_ConfirmedBlock = Some 1, dep_Confirmations = 1,
       dep_SweepTxHash = None, dep_SweepStatus = ''failed'', dep_SweepSubmittedAt = None, dep_SweptAt = None,
       dep_SweepFailureReason = Some ''insufficient balance to sweep after gas'', dep_CreatedAt = 2, dep_UpdatedAt = 2\<rparr>],
     wd_withdrawals = [], wd_faucets = [],
     wd_chain = [\<lparr>cs_Name = ''deposit_scan_cursor'', cs_BlockNumber = 1, cs_UpdatedAt = 2\<rparr>]\<rparr>"

lemma funded_reachable: "wallet_reachable funded"
  unfolding funded_def Let_def
  by (intro wallet_reachable.step [OF _ wallet_step.scan] wallet_reachable.step [OF _ wallet_step.provision] wallet_reachable.init)
    (simp_all add: ex_runner_def)

lemma funded_rows: "ch_db funded = funded_db"
  by code_simp

definition one_table :: Platform where
  "one_table = snd (CreateTable (platform (fine_env 4)) ''T'' 2 1 2 (new_platform funded_db))"

definition one_seated :: "(Table \<times> PbGameState option) tres \<times> Platform" where
  "one_seated = JoinTable (platform (fine_env 5)) ''table-4'' ''u'' 1 3 one_table"

lemma no_hands: "w_db (es_world (tw_engine w)) = empty_db \<Longrightarrow> hands_in_range w"
  by (simp add: hands_in_range_def FindByID_empty)

lemma one_table_run: "platform_run one_table"
proof (rule platform_run.run_create [OF wallet_platform [OF funded_reachable, unfolded funded_rows] _ _ one_table_def])
  have "w_db (es_world (tw_engine one_table)) = empty_db" by code_simp
  then show "hands_in_range one_table" by (rule no_hands)
qed (simp_all add: in_int64_def)

lemma one_seated_run: "platform_run (snd one_seated)"
proof (rule platform_run.run_join [OF one_table_run])
  have "w_db (es_world (tw_engine (snd one_seated))) = empty_db" by code_simp
  then show "hands_in_range (snd one_seated)" by (rule no_hands)
qed (simp_all add: one_seated_def in_int64_def)

lemma one_table_reachable: "platform_reachable one_table"
  and one_seated_reachable: "platform_reachable (snd one_seated)"
  using platform_run_reachable one_table_run one_seated_run by blast+

lemma one_seated_rows:
  "(case FindTable (en_tables (fine_env 6)) ''table-4'' (tw_db (snd one_seated)) of
      Ok t \<Rightarrow> Some (map (\<lambda>s. (st_PlayerID s, st_Stack s)) (tb_Seats t)) | _ \<Rightarrow> None) = Some [('''', 0), (''u'', 3)]"
  by code_simp

theorem platform_stays_sound_witness:
  "\<exists>t. FindTable (en_tables (fine_env 6)) ''table-4'' (tw_db (snd one_seated)) = Ok t
    \<and> map (\<lambda>s. (st_PlayerID s, st_Stack s)) (tb_Seats t) = [('''', 0), (''u'', 3)]
    \<and> table_ok t \<and> ledger_ok (ws_db (tw_wallet (snd one_seated)))
    \<and> ApplyAction_Execute64 (on_postgres good_pg pg_deps) \<lparr>ai_HandID = ''h'', ai_Action = NewFold ''u''\<rparr> (es_world (tw_engine (snd one_seated)))
      = ApplyAction_Execute (on_postgres good_pg pg_deps) \<lparr>ai_HandID = ''h'', ai_Action = NewFold ''u''\<rparr> (es_world (tw_engine (snd one_seated)))"
proof -
  obtain t where "FindTable (en_tables (fine_env 6)) ''table-4'' (tw_db (snd one_seated)) = Ok t"
    "map (\<lambda>s. (st_PlayerID s, st_Stack s)) (tb_Seats t) = [('''', 0), (''u'', 3)]"
    using one_seated_rows by (auto split: outcome.splits)
  then show ?thesis
    using platform_stays_sound [OF one_seated_run, of "en_tables (fine_env 6)" "''table-4''" t good_pg pg_deps
        "\<lparr>ai_HandID = ''h'', ai_Action = NewFold ''u''\<rparr>"] pg_deps_sound
    by (intro exI [of _ t]) simp
qed

end
