(* ===== verification/TableMoney.thy ===== *)
theory TableMoney
  imports TableSystem
begin

text \<open>
  Money between wallet and table: what a join takes and a leave pays back, and how the
  idempotency keys of the table manager decide whether the wallet counts a call.
\<close>

section \<open>Successful calls\<close>

definition table_stacks :: "Table \<Rightarrow> int" where
  "table_stacks t = sum_list (map st_Stack (tb_Seats t))"

lemma auto_start_Ok:
  assumes "auto_start s t st w = (Ok (t', g), w')"
  shows "tb_Seats t' = tb_Seats t" "tb_ID t' = tb_ID t" "tw_db w' = tw_db w" "tw_wallet w' = tw_wallet w"
    "g = None \<longrightarrow> t' = t \<and> w' = w"
  using assms
  by (auto simp: auto_start_def Svc_startHand_def Let_def and_then_Ok split: if_splits outcome.splits option.splits prod.splits)

lemma save_table_Ok:
  "save_table s t w = (Ok x, w') \<Longrightarrow> sv_SaveTable s t (tw_db w) = (Ok (), tw_db w') \<and> tw_wallet w' = tw_wallet w"
  by (auto simp: save_table_def split: prod.splits)

lemma debit_join_Ok:
  assumes "debit_join s t p k c w = (Ok x, w')" "sv_wallet s = Some wl"
  shows "wc_DebitForJoin wl p (tb_ID t) c (joinIdempotencyKey t p k c) (tw_wallet w) = (Ok (), tw_wallet w')" "tw_db w' = tw_db w"
  using assms by (auto simp: debit_join_def Let_def split: prod.splits)

lemma credit_cashout_Ok:
  assumes "credit_cashout s t p seat w = (Ok x, w')" "sv_wallet s = Some wl"
  shows "wc_CreditForCashout wl p (tb_ID t) (st_Stack seat) (cashoutIdempotencyKey t p (st_Index seat) (st_Stack seat)) (tw_wallet w)
      = (Ok (), tw_wallet w')" "tw_db w' = tw_db w"
  using assms by (auto simp: credit_cashout_def Let_def split: prod.splits)

lemma JoinTable_Ok:
  assumes run: "JoinTable s i p k c w = (Ok (t', g), w')" and wl: "sv_wallet s = Some wl"
  obtains t j where "sv_FindTable s i (tw_db w) = Ok t" "0 < c" "SeatByPlayerID t p = None" "SeatByIndex t k = Some j"
    "\<not> Occupied (tb_Seats t ! j)" "tb_Seats t' = tb_Seats (reseat t j p c)" "tb_ID t' = tb_ID t"
    "wc_DebitForJoin wl p (tb_ID t) c (joinIdempotencyKey t p k c) (tw_wallet w) = (Ok (), tw_wallet w')"
    "sv_SaveTable s t' (tw_db w) = (Ok (), tw_db w')" "g = None \<longrightarrow> t' = reseat t j p c"
proof -
  obtain t where t: "sv_FindTable s i (tw_db w) = Ok t" and j: "join_found s t p k c w = (Ok (t', g), w')"
    using run by (auto simp: JoinTable_def and_then_Ok)
  have guards: "0 < c" "SeatByPlayerID t p = None"
    using j by (auto simp: join_found_def split: if_splits)
  obtain i where i: "SeatByIndex t k = Some i" "\<not> Occupied (tb_Seats t ! i)"
    and rest: "and_then (debit_join s t p k c w) (\<lambda>_ w. and_then (auto_start s (reseat t i p c) None w) (\<lambda>(table, state) w.
        and_then (save_table s table w) (\<lambda>_ w. (Ok (table, state), w)))) = (Ok (t', g), w')"
    using j by (auto simp: join_found_def split: if_splits option.splits)
  obtain x w1 where d: "debit_join s t p k c w = (Ok x, w1)"
    and rest1: "and_then (auto_start s (reseat t i p c) None w1) (\<lambda>(table, state) w.
        and_then (save_table s table w) (\<lambda>_ w. (Ok (table, state), w))) = (Ok (t', g), w')"
    using rest [THEN and_then_Ok [THEN iffD1]] by blast
  obtain w2 where a: "auto_start s (reseat t i p c) None w1 = (Ok (t', g), w2)"
    and sv: "save_table s t' w2 = (Ok (), w')"
    using rest1 by (auto simp: and_then_Ok)
  note f = debit_join_Ok [OF d wl] auto_start_Ok [OF a] save_table_Ok [OF sv]
  show thesis
    by (rule that [OF t guards i]) (use f in \<open>auto simp: reseat_def\<close>)
qed

lemma LeaveTable_Ok:
  assumes run: "LeaveTable s i p w = (Ok (t', g), w')" and wl: "sv_wallet s = Some wl"
  obtains t j where "sv_FindTable s i (tw_db w) = Ok t" "tb_Status t \<noteq> TableStatusInHand" "SeatByPlayerID t p = Some j"
    "t' = reseat t j '''' 0" "g = None" "sv_SaveTable s t' (tw_db w) = (Ok (), tw_db w')"
    "wc_CreditForCashout wl p (tb_ID t) (st_Stack (tb_Seats t ! j))
      (cashoutIdempotencyKey t p (st_Index (tb_Seats t ! j)) (st_Stack (tb_Seats t ! j))) (tw_wallet w) = (Ok (), tw_wallet w')"
proof -
  obtain t j where t: "sv_FindTable s i (tw_db w) = Ok t" "tb_Status t \<noteq> TableStatusInHand" "SeatByPlayerID t p = Some j"
    and rest: "and_then (credit_cashout s t p (tb_Seats t ! j) w) (\<lambda>_ w. let table = reseat t j '''' 0
      in and_then (save_table s table w) (\<lambda>_ w. (Ok (table, None), w))) = (Ok (t', g), w')"
    using run by (auto simp: LeaveTable_def and_then_Ok split: if_splits option.splits)
  obtain w1 where c: "credit_cashout s t p (tb_Seats t ! j) w = (Ok (), w1)"
    and sv: "save_table s (reseat t j '''' 0) w1 = (Ok (), w')" "t' = reseat t j '''' 0" "g = None"
    using rest unfolding and_then_Ok Let_def by (auto simp: and_then_Ok)
  note f = credit_cashout_Ok [OF c wl] save_table_Ok [OF sv(1)]
  show thesis by (rule that [OF t sv(2,3)]) (use f sv in simp_all)
qed

section \<open>Seats and stacks\<close>

lemma table_stacks_reseat:
  "j < length (tb_Seats t) \<Longrightarrow> table_stacks (reseat t j p c) = table_stacks t - st_Stack (tb_Seats t ! j) + c"
  by (simp add: table_stacks_def reseat_def sum_list_map_update)

lemma reseat_seat: "j < length (tb_Seats t) \<Longrightarrow> tb_Seats (reseat t j p c) ! j = (tb_Seats t ! j)\<lparr>st_PlayerID := p, st_Stack := c\<rparr>"
  by (simp add: reseat_def)

lemma SeatByPlayerID_reseat:
  assumes "SeatByPlayerID t p = None" "j < length (tb_Seats t)"
  shows "SeatByPlayerID (reseat t j p c) p = Some j"
  unfolding SeatByPlayerID_def
proof (rule first_at_nth)
  show "j < length (tb_Seats (reseat t j p c))" "st_PlayerID (tb_Seats (reseat t j p c) ! j) = p"
    using assms(2) by (simp_all add: reseat_def)
  fix l assume "l < length (tb_Seats (reseat t j p c))" "st_PlayerID (tb_Seats (reseat t j p c) ! l) = p"
  then have l: "l < length (tb_Seats t)" "l \<noteq> j \<Longrightarrow> st_PlayerID (tb_Seats t ! l) = p" by (simp_all add: reseat_def)
  then show "l = j" using assms(1) nth_mem [OF l(1)] unfolding SeatByPlayerID_None by blast
qed

lemma SeatByPlayerID_cong: "tb_Seats t = tb_Seats t' \<Longrightarrow> SeatByPlayerID t p = SeatByPlayerID t' p"
  by (simp add: SeatByPlayerID_def)

lemma empty_seat: "\<lbrakk>seats_ok (tb_Seats t); j < length (tb_Seats t); \<not> Occupied (tb_Seats t ! j)\<rbrakk>
    \<Longrightarrow> st_Stack (tb_Seats t ! j) = 0 \<and> st_PlayerID (tb_Seats t ! j) = ''''"
  by (auto simp: seats_ok_def Occupied_def)


section \<open>Joining and leaving\<close>

text \<open>What a call of the wallet with a key does to the books, if it succeeds.\<close>

definition moved :: "string \<Rightarrow> int \<Rightarrow> string \<Rightarrow> WalletDB \<Rightarrow> WalletDB \<Rightarrow> bool" where
  "moved key n u db db' \<longleftrightarrow>
     (if TrimSpace key \<in> keys_of db then db' = db
      else keys_of db' = insert (TrimSpace key) (keys_of db) \<and> (\<exists>b. balance db (TrimSpace u) = Some b \<and> 0 \<le> b + n
        \<and> balance db' = (balance db)(TrimSpace u \<mapsto> b + n)))"

lemma posted_keys: "posted e db db' \<Longrightarrow> keys_of db' = insert (le_IdempotencyKey e) (keys_of db)"
  using find_entry_None [of "le_IdempotencyKey e" db]
  by (auto simp: posted_def keys_of_def image_iff split: if_splits)

lemma posted_moved:
  assumes "ledger_ok db" "posted e db db'" "in_int64 n"
    and "le_AmountGwei e = n" "le_IdempotencyKey e = TrimSpace key" "le_UserID e = TrimSpace u"
  shows "moved key n u db db'"
  using posted_balance [OF assms(1) _ assms(2)] posted_keys [OF assms(2)] assms(3-6)
  by (simp add: moved_def split: if_splits)

lemma client_debit_moved:
  assumes "wc_DebitForJoin (wallet_client pe lk) u i n key ws = (Ok (), ws')" "ledger_ok (ws_db ws)" "in_int64 n"
  shows "moved key (- n) u (ws_db ws) (ws_db ws')"
proof -
  have "0 < n \<and> posted (buyin_entry (pe_env pe) u i n key) (ws_db ws) (ws_db ws')"
    using Client_DebitForJoin_effect(1) assms(1) unfolding wallet_client_def by simp
  then show ?thesis
    using assms(2,3) by (intro posted_moved) (auto simp: buyin_entry_def in_int64_neg)
qed

lemma client_credit_moved:
  assumes "wc_CreditForCashout (wallet_client pe lk) u i n key ws = (Ok (), ws')" "ledger_ok (ws_db ws)" "in_int64 n"
  shows "n = 0 \<and> ws_db ws' = ws_db ws \<or> 0 < n \<and> moved key n u (ws_db ws) (ws_db ws')"
proof -
  have "n = 0 \<and> ws_db ws' = ws_db ws \<or> 0 < n \<and> posted (cashout_entry (pe_env pe) u i n key) (ws_db ws) (ws_db ws')"
    using Client_CreditForCashout_effect(1) assms(1) unfolding wallet_client_def by simp
  moreover have "moved key n u (ws_db ws) (ws_db ws')" if "posted (cashout_entry (pe_env pe) u i n key) (ws_db ws) (ws_db ws')"
    using assms(2,3) by (intro posted_moved [OF _ that]) (simp_all add: cashout_entry_def buyin_entry_def)
  ultimately show ?thesis by blast
qed

lemma join_on_platform:
  assumes ok: "platform_ok w" and run: "JoinTable (platform en) i p k c w = (Ok (t', g), w')" and c: "in_int64 c"
  obtains t j where "stored (tw_db w) i = Some t" "j < length (tb_Seats t)" "\<not> Occupied (tb_Seats t ! j)" "SeatByPlayerID t p = None"
    "stored (tw_db w') i = Some t'" "tb_Seats t' = tb_Seats (reseat t j p c)" "g = None \<longrightarrow> t' = reseat t j p c"
    "moved (joinIdempotencyKey t p k c) (- c) p (ws_db (tw_wallet w)) (ws_db (tw_wallet w'))" "table_ok t" "SeatByIndex t k = Some j"
proof -
  have wl: "sv_wallet (platform en) = Some (wallet_client (en_wallet en) (en_money en))" by simp
  obtain t j where j: "sv_FindTable (platform en) i (tw_db w) = Ok t" "SeatByPlayerID t p = None" "SeatByIndex t k = Some j"
      "\<not> Occupied (tb_Seats t ! j)" "tb_Seats t' = tb_Seats (reseat t j p c)" "tb_ID t' = tb_ID t"
    and d: "wc_DebitForJoin (wallet_client (en_wallet en) (en_money en)) p (tb_ID t) c (joinIdempotencyKey t p k c) (tw_wallet w)
        = (Ok (), tw_wallet w')"
    and sv: "sv_SaveTable (platform en) t' (tw_db w) = (Ok (), tw_db w')" and g: "g = None \<longrightarrow> t' = reseat t j p c"
    by (rule JoinTable_Ok [OF run wl])
  have st: "stored (tw_db w) i = Some t" using j(1) FindTable_Ok by simp
  then have t: "table_ok t" "tb_ID t = i" using ok stored_id by (auto simp: platform_ok_def world_ok_def)
  have len: "j < length (tb_Seats t)" using first_at_Some j(3) by (auto simp: SeatByIndex_def)
  have "p \<noteq> ''''" using j(2,4) len nth_mem by (fastforce simp: SeatByPlayerID_None Occupied_def)
  moreover have "0 < c" using Client_DebitForJoin_effect(1) d unfolding wallet_client_def by simp
  ultimately have "table_ok (reseat t j p c)" using t(1) len j(2,4) by (intro reseat_ok) auto
  then have "seats_ok (tb_Seats t')" using j(5) by (simp add: table_ok_def)
  then have st': "stored (tw_db w') i = Some t'" using SaveTable_stored(2) [of "en_tables en" t' "tw_db w" "Ok ()" "tw_db w'"] sv j(6) t(2) by simp
  have "moved (joinIdempotencyKey t p k c) (- c) p (ws_db (tw_wallet w)) (ws_db (tw_wallet w'))"
    using client_debit_moved [OF d] ok c by (simp add: platform_ok_def wallet_ok_def)
  then show thesis using that [OF st len j(4,2) st' j(5) g _ t(1) j(3)] by blast
qed

lemma leave_on_platform:
  assumes ok: "platform_ok w" and run: "LeaveTable (platform en) i p w = (Ok (t', g), w')"
  obtains t j where "stored (tw_db w) i = Some t" "j < length (tb_Seats t)" "SeatByPlayerID t p = Some j"
    "stored (tw_db w') i = Some t'" "t' = reseat t j '''' 0" "tb_Status t \<noteq> TableStatusInHand" "table_ok t"
    "let n = st_Stack (tb_Seats t ! j); key = cashoutIdempotencyKey t p (st_Index (tb_Seats t ! j)) n
     in n = 0 \<and> ws_db (tw_wallet w') = ws_db (tw_wallet w) \<or> 0 < n \<and> moved key n p (ws_db (tw_wallet w)) (ws_db (tw_wallet w'))"
proof -
  have wl: "sv_wallet (platform en) = Some (wallet_client (en_wallet en) (en_money en))" by simp
  obtain t j where j: "sv_FindTable (platform en) i (tw_db w) = Ok t" "tb_Status t \<noteq> TableStatusInHand" "SeatByPlayerID t p = Some j"
      "t' = reseat t j '''' 0" "sv_SaveTable (platform en) t' (tw_db w) = (Ok (), tw_db w')"
    and cr: "wc_CreditForCashout (wallet_client (en_wallet en) (en_money en)) p (tb_ID t) (st_Stack (tb_Seats t ! j))
      (cashoutIdempotencyKey t p (st_Index (tb_Seats t ! j)) (st_Stack (tb_Seats t ! j))) (tw_wallet w) = (Ok (), tw_wallet w')"
    by (rule LeaveTable_Ok [OF run wl])
  have st: "stored (tw_db w) i = Some t" using j(1) FindTable_Ok by simp
  then have t: "table_ok t" "tb_ID t = i" "seats_owned (tw_db w)" using ok stored_id by (auto simp: platform_ok_def world_ok_def)
  have len: "j < length (tb_Seats t)" using SeatByPlayerID_Some [OF j(3)] by simp
  have "table_ok t'" unfolding j(4) using t(1) len by (intro reseat_ok) auto
  then have st': "stored (tw_db w') i = Some t'"
    using SaveTable_stored(2) [of "en_tables en" t' "tw_db w" "Ok ()" "tw_db w'"] j(4,5) t(2) by (simp add: table_ok_def)
  have "in_int64 (st_Stack (tb_Seats t ! j))" using stored_stacks [OF t(3) st] len by simp
  then show thesis
    using client_credit_moved [OF cr] ok
    by (intro that [OF st len j(3) st' j(4,2) t(1)]) (simp add: platform_ok_def wallet_ok_def Let_def)
qed

text \<open>
  C6: Chips and money move together. In any reachable state, a join that succeeds seats the player
  with exactly the buy-in on an empty seat, so the chips on the table grow by the buy-in, and the
  player's balance, which covers it, falls by the buy-in and no other balance changes, provided the
  wallet has not yet seen the key of this join; a leave that succeeds takes the stack off the table
  and pays exactly it, provided its key is new. If the wallet knows the key, it changes nothing.
\<close>

theorem join_and_leave_move_money:
  assumes reach: "platform_reachable w"
  shows "(JoinTable (platform en) i p k c w = (Ok (t', g), w') \<and> in_int64 c \<longrightarrow>
      (\<exists>t j. stored (tw_db w) i = Some t \<and> stored (tw_db w') i = Some t' \<and> \<not> Occupied (tb_Seats t ! j)
        \<and> SeatByPlayerID t' p = Some j \<and> st_Stack (tb_Seats t' ! j) = c \<and> table_stacks t' = table_stacks t + c
        \<and> moved (joinIdempotencyKey t p k c) (- c) p (ws_db (tw_wallet w)) (ws_db (tw_wallet w'))))
    \<and> (LeaveTable (platform en) i p w = (Ok (t', g), w') \<longrightarrow>
      (\<exists>t j n. stored (tw_db w) i = Some t \<and> stored (tw_db w') i = Some t' \<and> SeatByPlayerID t p = Some j
        \<and> n = st_Stack (tb_Seats t ! j) \<and> \<not> Occupied (tb_Seats t' ! j) \<and> table_stacks t' = table_stacks t - n
        \<and> (n = 0 \<and> ws_db (tw_wallet w') = ws_db (tw_wallet w)
           \<or> 0 < n \<and> moved (cashoutIdempotencyKey t p (st_Index (tb_Seats t ! j)) n) n p
               (ws_db (tw_wallet w)) (ws_db (tw_wallet w')))))"
proof (intro conjI impI)
  note ok = platform_reachable_ok [OF reach]
  assume "JoinTable (platform en) i p k c w = (Ok (t', g), w') \<and> in_int64 c"
  then have run: "JoinTable (platform en) i p k c w = (Ok (t', g), w')" and c: "in_int64 c" by auto
  show "\<exists>t j. stored (tw_db w) i = Some t \<and> stored (tw_db w') i = Some t' \<and> \<not> Occupied (tb_Seats t ! j)
        \<and> SeatByPlayerID t' p = Some j \<and> st_Stack (tb_Seats t' ! j) = c \<and> table_stacks t' = table_stacks t + c
        \<and> moved (joinIdempotencyKey t p k c) (- c) p (ws_db (tw_wallet w)) (ws_db (tw_wallet w'))"
  proof (rule join_on_platform [OF ok run c])
    fix t j
    assume st: "stored (tw_db w) i = Some t" "stored (tw_db w') i = Some t'" and j: "j < length (tb_Seats t)" "\<not> Occupied (tb_Seats t ! j)"
      and p: "SeatByPlayerID t p = None" and t': "tb_Seats t' = tb_Seats (reseat t j p c)" and t: "table_ok t"
      and m: "moved (joinIdempotencyKey t p k c) (- c) p (ws_db (tw_wallet w)) (ws_db (tw_wallet w'))"
    have "st_Stack (tb_Seats t ! j) = 0" using empty_seat [OF _ j] t by (simp add: table_ok_def)
    moreover have "table_stacks t' = table_stacks (reseat t j p c)" using t' by (simp add: table_stacks_def)
    ultimately show ?thesis
      using st j m SeatByPlayerID_cong [OF t', of p] SeatByPlayerID_reseat [OF p j(1), of c]
      by (intro exI [of _ t] exI [of _ j]) (simp add: t' reseat_seat table_stacks_reseat)
  qed
next
  note ok = platform_reachable_ok [OF reach]
  assume run: "LeaveTable (platform en) i p w = (Ok (t', g), w')"
  show "\<exists>t j n. stored (tw_db w) i = Some t \<and> stored (tw_db w') i = Some t' \<and> SeatByPlayerID t p = Some j
        \<and> n = st_Stack (tb_Seats t ! j) \<and> \<not> Occupied (tb_Seats t' ! j) \<and> table_stacks t' = table_stacks t - n
        \<and> (n = 0 \<and> ws_db (tw_wallet w') = ws_db (tw_wallet w)
           \<or> 0 < n \<and> moved (cashoutIdempotencyKey t p (st_Index (tb_Seats t ! j)) n) n p
               (ws_db (tw_wallet w)) (ws_db (tw_wallet w')))"
    by (rule leave_on_platform [OF ok run])
      (auto simp: table_stacks_reseat reseat_seat Occupied_def Let_def)
qed


section \<open>Keys that repeat\<close>

lemma moved_keys: "moved key n u db db' \<Longrightarrow> keys_of db' = insert (TrimSpace key) (keys_of db)"
  by (auto simp: moved_def split: if_splits)

lemma moved_known: "\<lbrakk>moved key n u db db'; TrimSpace key \<in> keys_of db\<rbrakk> \<Longrightarrow> db' = db"
  by (simp add: moved_def)

lemma moved_there_and_back:
  "\<lbrakk>moved k1 (- n) u db db1; moved k2 n u db1 db2; TrimSpace k1 \<notin> keys_of db; TrimSpace k2 \<notin> keys_of db1\<rbrakk>
    \<Longrightarrow> balance db2 = balance db"
  by (auto simp: moved_def fun_eq_iff)

text \<open>Leaving the seat just taken restores the table.\<close>

lemma reseat_back:
  assumes "seats_ok (tb_Seats t)" "j < length (tb_Seats t)" "\<not> Occupied (tb_Seats t ! j)"
  shows "reseat (reseat t j p c) j '''' 0 = t"
proof -
  have "(tb_Seats t ! j)\<lparr>st_PlayerID := '''', st_Stack := 0\<rparr> = tb_Seats t ! j"
    using empty_seat [OF assms] by simp
  then show ?thesis using assms(2) by (simp add: reseat_def)
qed

lemma join_keys_differ: "TrimSpace (joinIdempotencyKey t p k c) \<noteq> TrimSpace (cashoutIdempotencyKey t' p' k' c')"
proof -
  obtain s s' where "joinIdempotencyKey t p k c = CHR ''j'' # s" "cashoutIdempotencyKey t' p' k' c' = CHR ''c'' # s'"
    by (simp add: joinIdempotencyKey_def cashoutIdempotencyKey_def)
  then show ?thesis
    using TrimSpace_hd [of "CHR ''j''" s] TrimSpace_hd [of "CHR ''c''" s'] by (auto simp: is_space_def)
qed

text \<open>
  C39: Coming back is free. A player who joins a table alone, leaves and joins again with the same
  arguments repeats the key of the first join, because nothing in the key tells the visits apart:
  the wallet takes the second buy-in for a repetition and does not debit it, while the table seats
  the player with it. If the first two keys were new, the balances are those before the first
  visit, and the player holds the chips.
\<close>

theorem rejoin_is_free:
  assumes reach: "platform_reachable w" and c: "in_int64 c" and pg: "orderly (en_games en)" "orderly (en_games en')"
    and join: "JoinTable (platform en) i p k c w = (Ok (t1, None), w1)"
    and leave: "LeaveTable (platform en') i p w1 = (Ok (t2, g2), w2)"
    and again: "JoinTable (platform en'') i p k c w2 = (Ok (t3, g3), w3)"
  shows "ws_db (tw_wallet w3) = ws_db (tw_wallet w2)
    \<and> (\<exists>j. SeatByPlayerID t3 p = Some j \<and> st_Stack (tb_Seats t3 ! j) = c)
    \<and> (\<exists>t. stored (tw_db w) i = Some t \<and> stored (tw_db w2) i = Some t
      \<and> (TrimSpace (joinIdempotencyKey t p k c) \<notin> keys_of (ws_db (tw_wallet w))
          \<and> TrimSpace (cashoutIdempotencyKey t1 p k c) \<notin> keys_of (ws_db (tw_wallet w))
        \<longrightarrow> balance (ws_db (tw_wallet w3)) = balance (ws_db (tw_wallet w))))"
proof -
  note ok = platform_reachable_ok [OF reach]
  have ok1: "platform_ok w1" using platform_step_ok [OF platform_step.join [OF pg(1) c, where w = w]] ok join by (metis snd_conv)
  have ok2: "platform_ok w2" using platform_step_ok [OF platform_step.leave [OF pg(2), where w = w1]] ok1 leave by (metis snd_conv)
  obtain t j where t: "stored (tw_db w) i = Some t" "j < length (tb_Seats t)" "\<not> Occupied (tb_Seats t ! j)" "SeatByPlayerID t p = None"
      "table_ok t" "SeatByIndex t k = Some j" "stored (tw_db w1) i = Some (reseat t j p c)" "t1 = reseat t j p c"
    and m1: "moved (joinIdempotencyKey t p k c) (- c) p (ws_db (tw_wallet w)) (ws_db (tw_wallet w1))"
    by (rule join_on_platform [OF ok join c]) auto
  have ix: "st_Index (tb_Seats t1 ! j) = k" "st_Stack (tb_Seats t1 ! j) = c"
    using first_at_Some [of _ _ j] t(6) t(2) by (auto simp: SeatByIndex_def t(8) reseat_def)
  obtain j' where "SeatByPlayerID t1 p = Some j'" "stored (tw_db w2) i = Some (reseat t1 j' '''' 0)" "j' = j"
    and m2: "c = 0 \<and> ws_db (tw_wallet w2) = ws_db (tw_wallet w1)
      \<or> 0 < c \<and> moved (cashoutIdempotencyKey t1 p k c) c p (ws_db (tw_wallet w1)) (ws_db (tw_wallet w2))"
    by (rule leave_on_platform [OF ok1 leave]) (use t(7,8) SeatByPlayerID_reseat [OF t(4,2), of c] ix in \<open>auto simp: Let_def\<close>)
  then have st2: "stored (tw_db w2) i = Some t"
    using reseat_back [OF _ t(2,3)] t(5,8) by (simp add: table_ok_def)
  have m3: "moved (joinIdempotencyKey t p k c) (- c) p (ws_db (tw_wallet w2)) (ws_db (tw_wallet w3))"
    and s3: "tb_Seats t3 = tb_Seats (reseat t j p c)"
    by (rule join_on_platform [OF ok2 again c]; use st2 t(6) in simp)+
  have "TrimSpace (joinIdempotencyKey t p k c) \<in> keys_of (ws_db (tw_wallet w2))"
    using moved_keys [OF m1] m2 moved_keys by auto
  then have same: "ws_db (tw_wallet w3) = ws_db (tw_wallet w2)" by (rule moved_known [OF m3])
  have "SeatByPlayerID t3 p = Some j" using SeatByPlayerID_cong [OF s3, of p] SeatByPlayerID_reseat [OF t(4,2), of c] by simp
  moreover have "st_Stack (tb_Seats t3 ! j) = c" using t(2) by (simp add: s3 reseat_def)
  moreover have "balance (ws_db (tw_wallet w3)) = balance (ws_db (tw_wallet w))"
    if "TrimSpace (joinIdempotencyKey t p k c) \<notin> keys_of (ws_db (tw_wallet w))"
      "TrimSpace (cashoutIdempotencyKey t1 p k c) \<notin> keys_of (ws_db (tw_wallet w))"
    using m2
  proof
    assume "c = 0 \<and> ws_db (tw_wallet w2) = ws_db (tw_wallet w1)"
    then show ?thesis using m1 that(1) same by (auto simp: moved_def fun_eq_iff)
  next
    assume m: "0 < c \<and> moved (cashoutIdempotencyKey t1 p k c) c p (ws_db (tw_wallet w1)) (ws_db (tw_wallet w2))"
    have "TrimSpace (cashoutIdempotencyKey t1 p k c) \<notin> keys_of (ws_db (tw_wallet w1))"
      using that(2) join_keys_differ [of t p k c t1 p k c] by (simp add: moved_keys [OF m1])
    then show ?thesis using moved_there_and_back [OF m1 conjunct2 [OF m] that(1)] same by simp
  qed
  ultimately show ?thesis using same t(1) st2 by blast
qed


definition left_again :: "(Table \<times> PbGameState option) tres \<times> Platform" where
  "left_again = LeaveTable (platform (fine_env 6)) ''table-4'' ''u'' (snd one_seated)"

definition rejoined :: "(Table \<times> PbGameState option) tres \<times> Platform" where
  "rejoined = JoinTable (platform (fine_env 7)) ''table-4'' ''u'' 1 3 (snd left_again)"

text \<open>Three successful calls; the last leaves the balance at 5 with 3 chips on the table.\<close>

definition seats_and_balance :: "(Table \<times> PbGameState option) tres \<times> Platform \<Rightarrow> ((string \<times> int) list \<times> int option) option" where
  "seats_and_balance r =
     (case r of
        (Ok (t, None), w) \<Rightarrow> Some (map (\<lambda>s. (st_PlayerID s, st_Stack s)) (tb_Seats t), balance (ws_db (tw_wallet w)) ''u'')
      | _ \<Rightarrow> None)"

lemma first_visit: "seats_and_balance one_seated = Some ([('''', 0), (''u'', 3)], Some 2)"
  by code_simp

lemma after_visit: "seats_and_balance left_again = Some ([('''', 0), ('''', 0)], Some 5)"
  by code_simp

lemma second_visit: "seats_and_balance rejoined = Some ([('''', 0), (''u'', 3)], Some 5)"
  by code_simp

lemma seats_and_balance_Some:
  assumes "seats_and_balance r = Some (seats, b)"
  obtains t where "r = (Ok (t, None), snd r)" "map (\<lambda>s. (st_PlayerID s, st_Stack s)) (tb_Seats t) = seats"
    "table_stacks t = sum_list (map snd seats)" "balance (ws_db (tw_wallet (snd r))) ''u'' = b"
  using assms
  by (auto simp: seats_and_balance_def table_stacks_def comp_def split: prod.splits outcome.splits option.splits)

theorem join_and_leave_move_money_witness:
  "(\<exists>t t'. fst one_seated = Ok (t', None) \<and> stored (tw_db one_table) ''table-4'' = Some t
      \<and> table_stacks t' = table_stacks t + 3 \<and> balance (ws_db (tw_wallet (snd one_seated))) ''u'' = Some 2)
    \<and> (\<exists>t'. fst left_again = Ok (t', None) \<and> stored (tw_db (snd left_again)) ''table-4'' = Some t'
      \<and> table_stacks t' = 0 \<and> balance (ws_db (tw_wallet (snd left_again))) ''u'' = Some 5)"
proof
  have "in_int64 3" by (simp add: in_int64_def)
  moreover obtain t1 where t1: "one_seated = (Ok (t1, None), snd one_seated)"
    and b1: "balance (ws_db (tw_wallet (snd one_seated))) ''u'' = Some 2"
    by (rule seats_and_balance_Some [OF first_visit])
  ultimately obtain t where "stored (tw_db one_table) ''table-4'' = Some t" "table_stacks t1 = table_stacks t + 3"
    using join_and_leave_move_money [OF one_table_reachable] trans [OF one_seated_def [symmetric] t1] by blast
  then show "\<exists>t t'. fst one_seated = Ok (t', None) \<and> stored (tw_db one_table) ''table-4'' = Some t
      \<and> table_stacks t' = table_stacks t + 3 \<and> balance (ws_db (tw_wallet (snd one_seated))) ''u'' = Some 2"
    using t1 b1 by (metis fst_conv)
next
  obtain t2 where t2: "left_again = (Ok (t2, None), snd left_again)" "table_stacks t2 = 0"
    and b2: "balance (ws_db (tw_wallet (snd left_again))) ''u'' = Some 5"
    by (rule seats_and_balance_Some [OF after_visit]) simp
  have "stored (tw_db (snd left_again)) ''table-4'' = Some t2"
    using join_and_leave_move_money [OF one_seated_reachable] trans [OF left_again_def [symmetric] t2(1)] by blast
  then show "\<exists>t'. fst left_again = Ok (t', None) \<and> stored (tw_db (snd left_again)) ''table-4'' = Some t'
      \<and> table_stacks t' = 0 \<and> balance (ws_db (tw_wallet (snd left_again))) ''u'' = Some 5"
    using t2 b2 by (metis fst_conv)
qed

theorem rejoin_is_free_witness:
  "balance (ws_db (tw_wallet (snd rejoined))) ''u'' = Some 5 \<and> ws_db (tw_wallet (snd rejoined)) = ws_db (tw_wallet (snd left_again))
    \<and> (\<exists>t3 j. fst rejoined = Ok (t3, None) \<and> SeatByPlayerID t3 ''u'' = Some j \<and> st_Stack (tb_Seats t3 ! j) = 3)"
proof -
  obtain t1 where r1: "one_seated = (Ok (t1, None), snd one_seated)" by (rule seats_and_balance_Some [OF first_visit])
  obtain t2 where r2: "left_again = (Ok (t2, None), snd left_again)" by (rule seats_and_balance_Some [OF after_visit])
  obtain t3 where r3: "rejoined = (Ok (t3, None), snd rejoined)" and b: "balance (ws_db (tw_wallet (snd rejoined))) ''u'' = Some 5"
    by (rule seats_and_balance_Some [OF second_visit])
  have "in_int64 3" by (simp add: in_int64_def)
  note free = rejoin_is_free [OF one_table_reachable this fine_env_orderly fine_env_orderly
    trans [OF one_seated_def [symmetric] r1] trans [OF left_again_def [symmetric] r2] trans [OF rejoined_def [symmetric] r3]]
  show ?thesis using free b by (metis fst_conv r3)
qed

end
