(* ===== verification/TableHands.thy ===== *)
theory TableHands
  imports TableMoney
begin

text \<open>
  A hand as the table manager sees it: the request that starts it, and what \<open>Act\<close> writes back to
  the seats when the engine reports the showdown.
\<close>

section \<open>The players of a request\<close>

lemma playable_sorted:
  assumes "seats_ok (tb_Seats t)"
  shows "sorted_wrt (\<lambda>a b. st_Index a < st_Index b) (PlayablePlayers t)"
proof -
  have "sorted_wrt (\<lambda>a b. st_Index a < st_Index b) (tb_Seats t)"
    using seat_index [OF assms] by (auto simp: sorted_wrt_iff_nth_less)
  then show ?thesis unfolding PlayablePlayers_def by (rule sorted_wrt_filter)
qed

lemma request_players:
  assumes "table_ok t"
  shows "sort_key st_Index (PlayablePlayers t) = PlayablePlayers t"
proof -
  have "sorted_wrt (\<lambda>a b. st_Index a < st_Index b) (PlayablePlayers t)"
    using assms by (intro playable_sorted) (simp add: table_ok_def)
  then have "sorted (map st_Index (PlayablePlayers t))"
    by (simp add: sorted_map) (rule sorted_wrt_mono_rel, auto)
  then show ?thesis by (rule sort_key_id_if_sorted)
qed

definition input_of :: "Table \<Rightarrow> StartHandInput" where
  "input_of t = start_input (start_request t)"

lemma input_players:
  assumes t: "table_ok t" and n: "tb_SeatCount t \<le> 2 ^ 31"
  shows "map p_ID (sh_Players (input_of t)) = map st_PlayerID (PlayablePlayers t)"
    "map p_Stack (sh_Players (input_of t)) = map st_Stack (PlayablePlayers t)"
    "map p_Position (sh_Players (input_of t)) = map st_Index (PlayablePlayers t)"
proof -
  have "st_Index s = wrap32 (st_Index s)" if "s \<in> set (PlayablePlayers t)" for s
  proof -
    have "s \<in> set (tb_Seats t)" using that by (simp add: PlayablePlayers_def)
    then obtain j where "j < length (tb_Seats t)" "s = tb_Seats t ! j" by (metis in_set_conv_nth)
    then have "st_Index s = int j" "int j < tb_SeatCount t" using t seat_index by (auto simp: table_ok_def)
    then show ?thesis using n by (simp add: in_int32_def)
  qed
  then show "map p_ID (sh_Players (input_of t)) = map st_PlayerID (PlayablePlayers t)"
    "map p_Stack (sh_Players (input_of t)) = map st_Stack (PlayablePlayers t)"
    "map p_Position (sh_Players (input_of t)) = map st_Index (PlayablePlayers t)"
    by (simp_all add: input_of_def start_input_def start_request_def Let_def protoPlayersToDoomain_def request_players [OF t] comp_def)
qed

lemma input_config:
  "bc_BigBlind (sh_BettingConfig (input_of t)) = tb_BigBlind t" "bc_SmallBlind (sh_BettingConfig (input_of t)) = tb_SmallBlind t"
  "bc_Structure (sh_BettingConfig (input_of t)) = BettingFixedLimit"
  by (simp_all add: input_of_def start_input_def start_request_def Let_def)

text \<open>Everybody who is dealt in sits at one seat, and holds all the chips of the table.\<close>

lemma playable_ids: "table_ok t \<Longrightarrow> distinct (map st_PlayerID (PlayablePlayers t))"
  unfolding PlayablePlayers_def distinct_filter_nth playable_def
  using ids_unique [of "tb_Seats t"] by (auto simp: table_ok_def)

lemma playable_stacks: "table_ok t \<Longrightarrow> sum_list (map st_Stack (PlayablePlayers t)) = table_stacks t"
proof -
  assume t: "table_ok t"
  have "sum_list (map st_Stack (filter playable ss)) = sum_list (map st_Stack ss)"
    if "\<forall>s \<in> set ss. 0 \<le> st_Stack s \<and> (Occupied s \<or> st_Stack s = 0)" for ss
    using that by (induction ss) (auto simp: playable_def)
  then show ?thesis using t by (simp add: table_ok_def seats_ok_def PlayablePlayers_def table_stacks_def)
qed

section \<open>Writing the stacks back\<close>

text \<open>The chips of a player's seat.\<close>

definition stack_at :: "Table \<Rightarrow> string \<Rightarrow> int" where
  "stack_at t p = (case SeatByPlayerID t p of None \<Rightarrow> 0 | Some i \<Rightarrow> st_Stack (tb_Seats t ! i))"

definition write_stack :: "Table \<Rightarrow> PbPlayer \<Rightarrow> Table" where
  "write_stack t p =
     (case SeatByPlayerID t (pbp_id p) of
        None \<Rightarrow> t
      | Some i \<Rightarrow> t\<lparr>tb_Seats := (tb_Seats t)[i := (tb_Seats t ! i)\<lparr>st_Stack := pbp_stack p\<rparr>]\<rparr>)"

lemma applyStacks_fold: "applyStacksFromState t g = foldl write_stack t (pbg_players g)"
proof -
  have "write_stack = (\<lambda>table player.
       case SeatByPlayerID table (pbp_id player) of
         None \<Rightarrow> table
       | Some i \<Rightarrow> table\<lparr>tb_Seats := (tb_Seats table)[i := (tb_Seats table ! i)\<lparr>st_Stack := pbp_stack player\<rparr>]\<rparr>)"
    by (simp add: fun_eq_iff write_stack_def)
  then show ?thesis by (simp add: applyStacksFromState_def)
qed

lemma write_stack_ids: "map st_PlayerID (tb_Seats (write_stack t p)) = map st_PlayerID (tb_Seats t)"
  by (auto simp: write_stack_def map_update list_update_same_conv dest: SeatByPlayerID_Some split: option.split)

lemma first_at_map: "first_at (\<lambda>s. P (f s)) xs = first_at P (map f xs)"
  by (induction xs) auto

lemma SeatByPlayerID_ids: "map st_PlayerID (tb_Seats t) = map st_PlayerID (tb_Seats t') \<Longrightarrow> SeatByPlayerID t p = SeatByPlayerID t' p"
  by (simp only: SeatByPlayerID_def first_at_map [of "\<lambda>i. i = p" st_PlayerID])

lemma SeatByPlayerID_write [simp]: "SeatByPlayerID (write_stack t p) q = SeatByPlayerID t q"
  by (rule SeatByPlayerID_ids) (rule write_stack_ids)

lemma stack_at_write:
  "stack_at (write_stack t p) q = (if q = pbp_id p \<and> SeatByPlayerID t q \<noteq> None then pbp_stack p else stack_at t q)"
proof (cases "SeatByPlayerID t q")
  case (Some i)
  note s = SeatByPlayerID_Some [OF Some]
  show ?thesis
  proof (cases "SeatByPlayerID t (pbp_id p)")
    case None
    then show ?thesis using Some by (auto simp: stack_at_def write_stack_def)
  next
    case (Some j)
    note r = SeatByPlayerID_Some [OF Some]
    have "i = j \<longleftrightarrow> q = pbp_id p" using s r Some \<open>SeatByPlayerID t q = Some i\<close> by auto
    then show ?thesis
      using Some \<open>SeatByPlayerID t q = Some i\<close> s r
      by (cases "i = j") (simp_all add: stack_at_def, simp_all add: write_stack_def)
  qed
qed (simp add: stack_at_def)

lemma table_stacks_write:
  assumes "SeatByPlayerID t (pbp_id p) \<noteq> None"
  shows "table_stacks (write_stack t p) = table_stacks t - stack_at t (pbp_id p) + pbp_stack p"
proof -
  obtain i where "SeatByPlayerID t (pbp_id p) = Some i" using assms by blast
  then show ?thesis
    using SeatByPlayerID_Some [of t "pbp_id p" i] by (simp add: stack_at_def write_stack_def table_stacks_def sum_list_map_update)
qed

text \<open>Stacks of players at different seats are exchanged one by one.\<close>

lemma table_stacks_fold:
  assumes "distinct (map pbp_id ps)" "\<forall>p \<in> set ps. SeatByPlayerID t (pbp_id p) \<noteq> None"
  shows "table_stacks (foldl write_stack t ps) = table_stacks t - sum_list (map (\<lambda>p. stack_at t (pbp_id p)) ps) + sum_list (map pbp_stack ps)"
  using assms
proof (induction ps arbitrary: t)
  case (Cons p ps)
  have "stack_at (write_stack t p) (pbp_id q) = stack_at t (pbp_id q)" if "q \<in> set ps" for q
    using Cons.prems(1) that by (auto simp: stack_at_write image_iff)
  then have "sum_list (map (\<lambda>q. stack_at (write_stack t p) (pbp_id q)) ps) = sum_list (map (\<lambda>q. stack_at t (pbp_id q)) ps)"
    by (metis (mono_tags, lifting) map_eq_conv)
  then show ?case
    using Cons.IH [of "write_stack t p"] Cons.prems table_stacks_write [of t p] by simp
qed simp

lemma stack_at_fold:
  assumes "distinct (map pbp_id ps)" "p \<in> set ps" "SeatByPlayerID t (pbp_id p) \<noteq> None"
  shows "stack_at (foldl write_stack t ps) (pbp_id p) = pbp_stack p"
  using assms
proof (induction ps arbitrary: t)
  case (Cons q ps)
  have other: "stack_at (foldl write_stack u ps) i = stack_at u i" if "i \<notin> pbp_id ` set ps" for u i
    using that by (induction ps arbitrary: u) (auto simp: stack_at_write)
  show ?case
  proof (cases "p = q")
    case True
    then show ?thesis using Cons.prems by (simp add: other stack_at_write)
  next
    case False
    then have "p \<in> set ps" using Cons.prems(2) by simp
    then show ?thesis using Cons.IH [of "write_stack t q"] Cons.prems by simp
  qed
qed simp


section \<open>A hand settles on the table\<close>

lemma close_hand_seats:
  "table_stacks (close_hand t g) = table_stacks (applyStacksFromState t g)"
  "tb_Seats (close_hand t g) = tb_Seats (unseatBustedPlayers (applyStacksFromState t g))"
proof -
  show seats: "tb_Seats (close_hand t g) = tb_Seats (unseatBustedPlayers (applyStacksFromState t g))"
    by (simp add: close_hand_def Let_def)
  have "map st_Stack (tb_Seats (unseatBustedPlayers u)) = map st_Stack (tb_Seats u)" for u
    by (simp add: unseatBustedPlayers_def)
  then show "table_stacks (close_hand t g) = table_stacks (applyStacksFromState t g)"
    by (simp add: table_stacks_def seats)
qed

text \<open>The table may have changed during the hand, but nobody who was dealt in has left.\<close>

definition kept_seats :: "Table \<Rightarrow> Table \<Rightarrow> bool" where
  "kept_seats t u \<longleftrightarrow> length (tb_Seats u) = length (tb_Seats t)
     \<and> (\<forall>j < length (tb_Seats t). playable (tb_Seats t ! j) \<longrightarrow> tb_Seats u ! j = tb_Seats t ! j)"

lemma dealt_in_seat:
  assumes t: "table_ok t" and u: "table_ok u" and k: "kept_seats t u" and s: "s \<in> set (PlayablePlayers t)"
  shows "\<exists>j. SeatByPlayerID u (st_PlayerID s) = Some j \<and> tb_Seats u ! j = s"
proof -
  have "s \<in> set (tb_Seats t)" "playable s" using s by (simp_all add: PlayablePlayers_def)
  then obtain j where j: "j < length (tb_Seats t)" "s = tb_Seats t ! j" "playable (tb_Seats t ! j)" by (metis in_set_conv_nth)
  then have uj: "tb_Seats u ! j = s" "j < length (tb_Seats u)" using k by (auto simp: kept_seats_def)
  have "SeatByPlayerID u (st_PlayerID s) = Some j"
    unfolding SeatByPlayerID_def
  proof (rule first_at_nth)
    fix i assume i: "i < length (tb_Seats u)" "st_PlayerID (tb_Seats u ! i) = st_PlayerID s"
    then show "i = j"
      using ids_unique [of "tb_Seats u" i j] u uj j by (auto simp: table_ok_def playable_def Occupied_def)
  qed (use uj in simp_all)
  then show ?thesis using uj by blast
qed

lemma stacks_written_back:
  assumes t: "table_ok t" and u: "table_ok u" and k: "kept_seats t u"
    and ids: "map p_ID (g_Players g) = map st_PlayerID (PlayablePlayers t)"
  shows "table_stacks (close_hand u (domainStateToProto g)) = table_stacks u - table_stacks t + stacks (g_Players g)"
    and "\<And>p. p \<in> set (g_Players g) \<Longrightarrow> stack_at (applyStacksFromState u (domainStateToProto g)) (p_ID p) = p_Stack p"
proof -
  let ?ps = "domainPlayersToProto (g_Players g)"
  note pb = players_to_proto [of "g_Players g"]
  have d: "distinct (map pbp_id ?ps)" using playable_ids [OF t] pb(1) ids by simp
  have "\<forall>s \<in> set (PlayablePlayers t). SeatByPlayerID u (st_PlayerID s) \<noteq> None \<and> stack_at u (st_PlayerID s) = st_Stack s"
    using dealt_in_seat [OF t u k] by (fastforce simp: stack_at_def)
  note seated = this
  have "\<forall>i \<in> set (map pbp_id ?ps). SeatByPlayerID u i \<noteq> None" unfolding pb(1) ids using seated by simp
  then have all: "\<forall>p \<in> set ?ps. SeatByPlayerID u (pbp_id p) \<noteq> None" by simp
  have "map (\<lambda>p. stack_at u (pbp_id p)) ?ps = map (stack_at u) (map pbp_id ?ps)" by simp
  also have "\<dots> = map st_Stack (PlayablePlayers t)" unfolding pb(1) ids using seated by simp
  finally have "sum_list (map (\<lambda>p. stack_at u (pbp_id p)) ?ps) = table_stacks t" using playable_stacks [OF t] by simp
  then show "table_stacks (close_hand u (domainStateToProto g)) = table_stacks u - table_stacks t + stacks (g_Players g)"
    using table_stacks_fold [OF d all] pb(2) by (simp add: close_hand_seats applyStacks_fold stacks_def)
  show "stack_at (applyStacksFromState u (domainStateToProto g)) (p_ID p) = p_Stack p" if p: "p \<in> set (g_Players g)" for p
  proof -
    obtain q where q: "q \<in> set ?ps" "pbp_id q = p_ID p" "pbp_stack q = p_Stack p"
      using p by (force simp: domainPlayersToProto_def)
    then show ?thesis using stack_at_fold [OF d q(1) bspec [OF all q(1)]] by (simp add: applyStacks_fold)
  qed
qed

text \<open>
  C8: A hand settles on the table. Let the table manager start a hand for a table in order, all of
  whose players hold more than the big blind, and let the engine, on the Postgres repository, be
  sent any actions until it reports the showdown. Then writing the result back to the table, which
  others may have joined meanwhile, gives every player who was dealt in exactly the stack the
  engine computed, and the chips on the table are those before less the rake of the hand, which
  is the one the last event reports.
\<close>

theorem hand_settles_on_table:
  assumes db: "dp_FindByID d = FindByID pg" "dp_Save d = Save pg" "orderly pg" "reads_ok pg" and d: "sound_deps d"
    and sh: "\<And>cs cs'. dp_shuffle d cs = Ok cs' \<Longrightarrow> mset cs' = mset cs"
    and t: "table_ok t" "tb_SeatCount t \<le> 2 ^ 31" "table_stacks t \<le> 2 ^ 53"
    and deep: "\<forall>s \<in> set (PlayablePlayers t). tb_BigBlind t < st_Stack s"
    and start: "StartHand_Execute d (start_input (start_request t)) w0 = (Ok g, w)"
    and play: "plays d g w n g' w'" and over: "g_Street g' = StreetShowdown"
    and later: "table_ok u" "kept_seats t u"
  shows "(\<forall>p \<in> set (g_Players g'). stack_at (applyStacksFromState u (domainStateToProto g')) (p_ID p) = p_Stack p)
    \<and> (\<exists>evs e. w_events w' = evs @ [EvHandEnded e]
        \<and> table_stacks (close_hand u (domainStateToProto g')) = table_stacks u - he_Rake e)"
proof -
  note start' = start [folded input_of_def]
  note ps = input_players [OF t(1,2)]
  have st: "stacks (sh_Players (input_of t)) = table_stacks t"
    using ps(2) playable_stacks [OF t(1)] by (simp add: stacks_def)
  have pos: "sorted_wrt (<) (map p_Position (sh_Players (input_of t)))"
    using playable_sorted [of t] t(1) by (simp add: ps(3) sorted_wrt_map table_ok_def)
  have ids: "distinct (map p_ID (sh_Players (input_of t)))" using playable_ids [OF t(1)] ps(1) by simp
  have "\<forall>n \<in> set (map p_Stack (sh_Players (input_of t))). tb_BigBlind t < n" unfolding ps(2) using deep by simp
  then have dp: "\<forall>p \<in> set (sh_Players (input_of t)). bc_BigBlind (sh_BettingConfig (input_of t)) < p_Stack p"
    by (simp add: input_config)
  note s = started_in_play [OF db d sh start' ids pos dp input_config(3)]
  have big: "stacks (sh_Players (input_of t)) \<le> 2 ^ 53" using st t(3) by simp
  note p = hand_engine.plays_sound [OF s(1) play s(3) big]
  have "paid_out (table_stacks t) g' w'" using p over st by (auto simp: in_play_def running_def)
  then obtain evs e where e: "w_events w' = evs @ [EvHandEnded e]" "stacks (g_Players g') + he_Rake e = table_stacks t"
    by (auto simp: paid_out_def)
  have "map p_ID (g_Players g) = map p_ID (sh_Players (input_of t))" using StartHand_chips [OF start'] by simp
  then have "map p_ID (g_Players g') = map st_PlayerID (PlayablePlayers t)" using p ps(1) by simp
  note w = stacks_written_back [OF t(1) later this]
  show ?thesis using w e by force
qed


text \<open>Three players; the first two fold.\<close>

definition three_seated :: Table where
  "three_seated = \<lparr>tb_ID = ''t'', tb_Name = ''T'', tb_SeatCount = 4, tb_Status = TableStatusIdle, tb_SmallBlind = 10,
     tb_BigBlind = 20, tb_Button = 0, tb_ActiveHandID = '''',
     tb_Seats = [\<lparr>st_Index = 0, st_PlayerID = ''a'', st_Stack = 100\<rparr>, \<lparr>st_Index = 1, st_PlayerID = '''', st_Stack = 0\<rparr>,
       \<lparr>st_Index = 2, st_PlayerID = ''b'', st_Stack = 200\<rparr>, \<lparr>st_Index = 3, st_PlayerID = ''c'', st_Stack = 90\<rparr>]\<rparr>"

definition folds :: "PlayerID \<Rightarrow> (engine_err, GameState) outcome \<times> GameDB World \<Rightarrow> (engine_err, GameState) outcome \<times> GameDB World" where
  "folds p r =
     (case r of
        (Ok g, w) \<Rightarrow> if g_Street g < StreetShowdown
          then ApplyAction_Execute pg_deps \<lparr>ai_HandID = g_ID g, ai_Action = NewFold p\<rparr> w else (Panic '''', w)
      | (Err e, w) \<Rightarrow> (Err e, w)
      | (Panic m, w) \<Rightarrow> (Panic m, w))"

definition three_started :: "(engine_err, GameState) outcome \<times> GameDB World" where
  "three_started = StartHand_Execute pg_deps (start_input (start_request three_seated)) pg_world"

lemma three_run:
  "case folds ''b'' (folds ''a'' three_started) of
     (Ok g, w) \<Rightarrow> g_Street g = StreetShowdown
       \<and> map st_Stack (tb_Seats (close_hand three_seated (domainStateToProto g))) = [100, 0, 190, 100]
   | _ \<Rightarrow> False"
  by code_simp

lemma folds_Ok: "folds p r = (Ok g', w') \<Longrightarrow> \<exists>g w. r = (Ok g, w)"
  by (auto simp: folds_def split: prod.splits outcome.splits)

lemma folds_play:
  assumes "plays pg_deps g w n h v" "folds p (Ok h, v) = (Ok g', w')"
  shows "plays pg_deps g w (Suc n) g' w'"
  using assms by (auto simp: folds_def intro: plays.act split: if_splits)

theorem hand_settles_on_table_witness:
  "\<exists>g w g' w' evs e. three_started = (Ok g, w) \<and> plays pg_deps g w 2 g' w' \<and> w_events w' = evs @ [EvHandEnded e]
    \<and> table_stacks (close_hand three_seated (domainStateToProto g')) = 390 - he_Rake e
    \<and> map st_Stack (tb_Seats (close_hand three_seated (domainStateToProto g'))) = [100, 0, 190, 100]"
proof -
  obtain g' w' where run: "folds ''b'' (folds ''a'' three_started) = (Ok g', w')" and g': "g_Street g' = StreetShowdown"
    "map st_Stack (tb_Seats (close_hand three_seated (domainStateToProto g'))) = [100, 0, 190, 100]"
    using three_run by (auto split: prod.splits outcome.splits)
  obtain h v where h: "folds ''a'' three_started = (Ok h, v)" using folds_Ok [OF run] by blast
  obtain g w where s: "three_started = (Ok g, w)" using folds_Ok [OF h] by blast
  have play: "plays pg_deps g w 2 g' w'"
    using folds_play [OF folds_play [OF plays.start h [unfolded s]] run [unfolded h]] by (simp add: numeral_2_eq_2)
  have t: "table_ok three_seated" "kept_seats three_seated three_seated" "table_stacks three_seated = 390"
    by (simp_all add: three_seated_def table_ok_def seats_ok_def Occupied_def kept_seats_def table_stacks_def upt_rec)
  have dp: "dp_FindByID pg_deps = FindByID good_pg" "dp_Save pg_deps = Save good_pg" "dp_shuffle pg_deps = (\<lambda>cs. Ok cs)"
    by (simp_all add: pg_deps_def)
  have sh: "mset cs' = mset cs" if "dp_shuffle pg_deps cs = Ok cs'" for cs cs' using that by (simp add: dp(3))
  have n: "tb_SeatCount three_seated \<le> 2 ^ 31" "table_stacks three_seated \<le> 2 ^ 53" using t(3) by (simp_all add: three_seated_def)
  have deep: "\<forall>s \<in> set (PlayablePlayers three_seated). tb_BigBlind three_seated < st_Stack s"
    by (simp add: three_seated_def PlayablePlayers_def playable_def Occupied_def)
  note settles = hand_settles_on_table [OF dp(1,2) good_pg pg_deps_sound sh t(1) n deep s [unfolded three_started_def] play g'(1) t(1,2)]
  then obtain evs e where "w_events w' = evs @ [EvHandEnded e]"
    "table_stacks (close_hand three_seated (domainStateToProto g')) = 390 - he_Rake e"
    unfolding t(3) by blast
  then show ?thesis using s play g'(2) by (intro exI conjI)
qed


section \<open>A table that cannot go on\<close>

text \<open>A player who would have to post a blind of the next hand does not hold it.\<close>

definition short_blinds :: "Table \<Rightarrow> bool" where
  "short_blinds t =
     (let ps = sort_key st_Index (PlayablePlayers t);
          (sb, bb) = blindIndexes (nat (pbs_button (start_request t))) (length ps)
      in st_Stack (ps ! sb) < tb_SmallBlind t \<or> st_Stack (ps ! bb) < tb_BigBlind t)"

lemma short_blinds_refused:
  assumes short: "short_blinds t"
  shows "\<exists>r. StartHand_Execute d (start_input (start_request t)) w = (r, w) \<and> (\<forall>g. r \<noteq> Ok g)"
proof -
  let ?in = "start_input (start_request t)"
  have no: False
    if v: "validateStartHandInput ?in = Ok ()" and deal: "dealHoleCards deck (sh_Players ?in) = Ok (deck', dealt)"
      and bl: "blindIndexes (nat (sh_Button ?in)) (length dealt) = (sbi, bbi)"
      and post: "postBlinds dealt sbi bbi (bc_SmallBlind (sh_BettingConfig ?in)) (bc_BigBlind (sh_BettingConfig ?in)) = Ok qs"
    for deck deck' dealt sbi bbi qs
  proof -
    let ?ps = "sort_key st_Index (PlayablePlayers t)"
    have st: "map p_Stack dealt = map st_Stack ?ps"
      using dealHoleCards_Ok(3) [OF deal] by (simp add: start_input_def start_request_def Let_def protoPlayersToDoomain_def comp_def)
    then have len: "length dealt = length ?ps" by (metis length_map)
    have "2 \<le> length dealt" "nat (sh_Button ?in) < length dealt"
      using v dealHoleCards_Ok(2) [OF deal] by (auto simp: validateStartHandInput_Ok dest: arg_cong [where f = length])
    then have "sbi \<noteq> bbi" by (rule blindIndexes_bounds(3) [OF _ _ bl])
    note p = postBlinds_Ok [OF post this]
    have "p_Stack (dealt ! sbi) = st_Stack (?ps ! sbi)" "p_Stack (dealt ! bbi) = st_Stack (?ps ! bbi)"
      using st p(1,2) len by (metis nth_map)+
    moreover have "blindIndexes (nat (pbs_button (start_request t))) (length ?ps) = (sbi, bbi)"
      using bl len by (simp add: start_input_def)
    ultimately show False
      using p(3,4) short by (simp add: short_blinds_def input_config [unfolded input_of_def] Let_def)
  qed
  show ?thesis
    unfolding StartHand_Execute_def Let_def
    by (auto simp: case_prod_beta split: outcome.split dest: no [OF _ _ surjective_pairing, rotated])
qed

lemma short_start_refused:
  assumes "short_blinds t"
  shows "\<exists>x. sv_StartHand (platform en) (start_request t) e = (x, e) \<and> (\<forall>g. x \<noteq> Ok g)"
proof -
  let ?d = "on_postgres (en_games en) (en_engine en)"
  obtain r where r: "StartHand_Execute ?d (start_input (start_request t)) (es_world e) = (r, es_world e)" "\<forall>g. r \<noteq> Ok g"
    using short_blinds_refused [OF assms] by blast
  obtain x e' where x: "sv_StartHand (platform en) (start_request t) e = (x, e')" by fastforce
  have "\<exists>y. Server_StartHand ?d (start_request t) e = (y, e) \<and> (\<forall>g. y \<noteq> Ok g)"
    using r(2) by (cases r) (simp_all add: Server_StartHand_def answer_and_publish_def r(1))
  then show ?thesis using x engine_call_cases [OF x [unfolded platform_simps]] by auto
qed

text \<open>
  C40: A short stack stops the table. If a hand reaches the showdown and, after it, a player who
  has to post a blind of the next hand holds less than the blind, the call that ends the hand
  fails whatever else happens, and nothing of the result is saved: the table stays in the hand
  that is over, with the stacks from before it, and every attempt to leave is refused, for every
  player.
\<close>

theorem short_stack_stops_table:
  assumes found: "FindTable (en_tables en) i (tw_db w) = Ok t" and seat: "SeatByPlayerID t p \<noteq> None"
    and hand: "tb_ActiveHandID t \<noteq> ''''" "tb_Status t = TableStatusInHand"
    and over: "sv_ApplyAction (platform en) \<lparr>pbr_hand_id = tb_ActiveHandID t,
        pbr_action = \<lparr>pba_player_id = p, pba_type = a, pba_amount = n\<rparr>\<rparr> (tw_engine w) = (Ok (Some s), e)"
      "pbg_street s = STREET_SHOWDOWN"
    and short: "CanAutoStart (close_hand t s)" "short_blinds (close_hand t s)"
  shows "(\<forall>x. fst (Act (platform en) i p a n w) \<noteq> Ok x) \<and> snd (Act (platform en) i p a n w) = w\<lparr>tw_engine := e\<rparr>
    \<and> (\<forall>en' q x. fst (LeaveTable (platform en') i q (w\<lparr>tw_engine := e\<rparr>)) \<noteq> Ok x)"
proof -
  obtain x where x: "sv_StartHand (platform en) (start_request (close_hand t s)) e = (x, e)" "\<forall>g. x \<noteq> Ok g"
    using short_start_refused [OF short(2)] by blast
  have "sv_StartHand (platform en) (start_request (close_hand t s)) (tw_engine (w\<lparr>tw_engine := e\<rparr>)) = (x, e)" using x(1) by simp
  note start_run = auto_start_run [OF short(1) this]
  have start: "\<exists>r. auto_start (platform en) (close_hand t s) (Some s) (w\<lparr>tw_engine := e\<rparr>) = (r, w\<lparr>tw_engine := e\<rparr>) \<and> (\<forall>y. r \<noteq> Ok y)"
    using x(2) by (cases x) (simp_all add: start_run)
  then obtain r where r: "auto_start (platform en) (close_hand t s) (Some s) (w\<lparr>tw_engine := e\<rparr>) = (r, w\<lparr>tw_engine := e\<rparr>)"
    "\<forall>y. r \<noteq> Ok y" by blast
  have act: "\<exists>r'. Act (platform en) i p a n w = (r', w\<lparr>tw_engine := e\<rparr>) \<and> (\<forall>y. r' \<noteq> Ok y)"
    using found seat hand(1) over r by (cases r) (auto simp: Act_def Let_def)
  have "fst (LeaveTable (platform en') i q (w\<lparr>tw_engine := e\<rparr>)) \<noteq> Ok y" for en' q y
  proof (cases "FindTable (en_tables en') i (tw_db w)")
    case (Ok u)
    then have "u = t" using found FindTable_Ok by (metis option.sel)
    then show ?thesis using Ok hand(2) by (simp add: LeaveTable_def)
  qed (simp_all add: LeaveTable_def)
  with act show ?thesis by auto
qed


text \<open>
  Two players with 25 and 40 chips and blinds of 10 and 20; the first posts the small blind and
  folds, which leaves 15 for the big blind of the next hand.
\<close>

definition two_funded :: WalletDB where
  "two_funded = empty_wallet\<lparr>
     wd_accounts := [\<lparr>ac_UserID = ''a'', ac_Email = ''a@x'', ac_CreatedAt = 1, ac_ProvisionedAt = 1\<rparr>,
       \<lparr>ac_UserID = ''b'', ac_Email = ''b@x'', ac_CreatedAt = 1, ac_ProvisionedAt = 1\<rparr>],
     wd_balances := [\<lparr>bl_UserID = ''a'', bl_AvailableGwei = 25, bl_UpdatedAt = 2\<rparr>,
       \<lparr>bl_UserID = ''b'', bl_AvailableGwei = 40, bl_UpdatedAt = 2\<rparr>]\<rparr>"

definition two_playing :: Platform where
  "two_playing =
     (let w = snd (CreateTable (platform (fine_env 4)) ''T'' 2 10 20 (new_platform two_funded));
          w = snd (JoinTable (platform (fine_env 5)) ''table-4'' ''a'' 0 25 w)
      in snd (JoinTable (platform (fine_env 6)) ''table-4'' ''b'' 1 40 w))"

lemma two_playing_folds:
  "case FindTable (en_tables (fine_env 7)) ''table-4'' (tw_db two_playing) of
     Ok t \<Rightarrow> SeatByPlayerID t ''a'' \<noteq> None \<and> tb_ActiveHandID t \<noteq> '''' \<and> tb_Status t = TableStatusInHand
       \<and> map st_Stack (tb_Seats t) = [25, 40]
       \<and> (case sv_ApplyAction (platform (fine_env 7)) \<lparr>pbr_hand_id = tb_ActiveHandID t,
              pbr_action = \<lparr>pba_player_id = ''a'', pba_type = ACTION_TYPE_FOLD, pba_amount = 0\<rparr>\<rparr> (tw_engine two_playing) of
            (Ok (Some s), e) \<Rightarrow> pbg_street s = STREET_SHOWDOWN \<and> CanAutoStart (close_hand t s) \<and> short_blinds (close_hand t s)
          | _ \<Rightarrow> False)
   | _ \<Rightarrow> False"
  by code_simp

theorem short_stack_stops_table_witness:
  "\<exists>t e. FindTable (en_tables (fine_env 7)) ''table-4'' (tw_db two_playing) = Ok t \<and> map st_Stack (tb_Seats t) = [25, 40]
    \<and> snd (Act (platform (fine_env 7)) ''table-4'' ''a'' ACTION_TYPE_FOLD 0 two_playing) = two_playing\<lparr>tw_engine := e\<rparr>
    \<and> (\<forall>q x. fst (LeaveTable (platform (fine_env 8)) ''table-4'' q (two_playing\<lparr>tw_engine := e\<rparr>)) \<noteq> Ok x)"
proof -
  obtain t where t: "FindTable (en_tables (fine_env 7)) ''table-4'' (tw_db two_playing) = Ok t"
    using two_playing_folds by (auto split: outcome.splits)
  obtain s e where s: "sv_ApplyAction (platform (fine_env 7)) \<lparr>pbr_hand_id = tb_ActiveHandID t,
      pbr_action = \<lparr>pba_player_id = ''a'', pba_type = ACTION_TYPE_FOLD, pba_amount = 0\<rparr>\<rparr> (tw_engine two_playing) = (Ok (Some s), e)"
    "SeatByPlayerID t ''a'' \<noteq> None" "tb_ActiveHandID t \<noteq> ''''" "tb_Status t = TableStatusInHand" "map st_Stack (tb_Seats t) = [25, 40]"
    "pbg_street s = STREET_SHOWDOWN" "CanAutoStart (close_hand t s)" "short_blinds (close_hand t s)"
    using two_playing_folds unfolding t by (auto split: outcome.splits prod.splits option.splits)
  note stops = short_stack_stops_table [OF t s(2-4) s(1) s(6-8)]
  then have leave: "\<forall>q x. fst (LeaveTable (platform (fine_env 8)) ''table-4'' q (two_playing\<lparr>tw_engine := e\<rparr>)) \<noteq> Ok x" by metis
  show ?thesis using stops leave t s(5) by (intro exI [of _ t] exI [of _ e] conjI) simp_all
qed

end
