(* ===== verification/EventBus.thy ===== *)
theory EventBus
  imports FinishHand "HOL-Library.List_Lexorder" "HOL-Library.Char_ord" "HOL-Library.Countable"
begin

text \<open>
  The events of a hand on their way to the analytics: the engine's Kafka publisher
  (\<open>engine/internal/delivery/kafka/publisher.go\<close>) and the ingestor's decoder
  (\<open>analytics-ingestor/internal/decoder/avro/decoder.go\<close>).

  The values handed to the Avro library are Go's dynamic values, a datatype here. The library, the
  JSON encoder and the schema registry are parameters; bytes are characters.
\<close>

section \<open>Dynamic values and schemas\<close>

datatype Native =
    NString string
  | NBytes string
  | NInt int
  | NInt32 int
  | NInt64 int
  | NUint32 int
  | NUint64 int
  | NFloat rat
  | NBool bool
  | NTime int
  | NArray "Native list"
  | NMap "(string \<times> Native) list"
  | NNull

datatype Schema =
    AvroString
  | AvroInt
  | AvroLong
  | AvroLogical string Schema
  | AvroBoolean
  | AvroEnum "string list"
  | AvroArray Schema
  | AvroRecord "(string \<times> Schema) list"

definition HandStarted :: Schema where
  "HandStarted = AvroRecord
     [(''event_id'', AvroString), (''event_version'', AvroInt), (''hand_id'', AvroString), (''table_id'', AvroString),
      (''sequence_number'', AvroInt), (''players'', AvroArray AvroString), (''player_count'', AvroInt),
      (''button'', AvroInt), (''betting_structure'', AvroString), (''small_blind'', AvroLong),
      (''big_blind'', AvroLong), (''occurred_at'', AvroLogical ''timestamp-millis'' AvroLong)]"

definition PlayerActed :: Schema where
  "PlayerActed = AvroRecord
     [(''event_id'', AvroString), (''event_version'', AvroInt), (''hand_id'', AvroString), (''table_id'', AvroString),
      (''sequence_number'', AvroInt), (''player_id'', AvroString), (''street'', AvroString),
      (''player_position'', AvroInt), (''action_type'', AvroEnum [''FOLD'', ''CHECK'', ''CALL'', ''RAISE'', ''ALL_IN'']),
      (''current_bet'', AvroLong), (''player_current_bet'', AvroLong), (''amount'', AvroLong), (''occurred_at'', AvroLogical ''timestamp-millis'' AvroLong)]"

definition HandEnded :: Schema where
  "HandEnded = AvroRecord
     [(''event_id'', AvroString), (''event_version'', AvroInt), (''hand_id'', AvroString), (''table_id'', AvroString),
      (''sequence_number'', AvroInt), (''player_count'', AvroInt), (''button'', AvroInt), (''small_blind'', AvroLong),
      (''big_blind'', AvroLong), (''showdown'', AvroBoolean), (''gross_pot'', AvroLong), (''net_pot'', AvroLong),
      (''winners'', AvroArray (AvroRecord [(''player_id'', AvroString), (''amount'', AvroLong)])), (''rake'', AvroLong),
      (''board'', AvroArray AvroString), (''occurred_at'', AvroLogical ''timestamp-millis'' AvroLong)]"

text \<open>
  The libraries: compiling a schema, encoding and decoding with it, JSON, and what Go does with
  floating-point values in \<open>fmt.Sprint\<close> and in a conversion to int64. The schemas have an attribute
  \<open>logicalType\<close> on a field, beside its type: whether the library applies it there is a parameter too.
\<close>

record Avro =
  av_NewCodec :: "Schema \<Rightarrow> bool"
  av_BinaryFromNative :: "Schema \<Rightarrow> Native \<Rightarrow> string option"
  av_NativeFromBinary :: "Schema \<Rightarrow> string \<Rightarrow> Native option"
  av_Marshal :: "Native \<Rightarrow> string option"
  av_Sprint :: "Native \<Rightarrow> string"
  av_int64_of_float :: "rat \<Rightarrow> int"
  av_LogicalTypes :: bool

section \<open>The publisher\<close>

definition topicHandStarted :: string where
  "topicHandStarted = ''hand.started''"

definition topicPlayerActed :: string where
  "topicPlayerActed = ''hand.acted''"

definition topicHandEnded :: string where
  "topicHandEnded = ''hand.ended''"

definition publisherSchemas :: "(string \<times> Schema) list" where
  "publisherSchemas = [(topicHandStarted, HandStarted), (topicPlayerActed, PlayerActed), (topicHandEnded, HandEnded)]"

record Publisher =
  pu_codecs :: "string \<Rightarrow> Schema option"
  pu_schemaIDs :: "string \<Rightarrow> int option"

type_synonym 'a bus = "(string, 'a) outcome"

text \<open>The loop over the schemas; the registry answers with an identifier or fails.\<close>

fun registerSchemas ::
    "Avro \<Rightarrow> (string \<Rightarrow> Schema \<Rightarrow> int option) \<Rightarrow> (string \<times> Schema) list \<Rightarrow> Publisher \<Rightarrow> Publisher bus" where
  "registerSchemas av CreateSchema [] p = Ok p"
| "registerSchemas av CreateSchema ((topic, schema) # rest) p =
     (case CreateSchema (topic @ ''-value'') schema of
        None \<Rightarrow> Err (''register schema for '' @ topic)
      | Some schemaID \<Rightarrow>
          if \<not> av_NewCodec av schema then Err (''create codec for '' @ topic)
          else registerSchemas av CreateSchema rest
            (p\<lparr>pu_codecs := (pu_codecs p)(topic \<mapsto> schema), pu_schemaIDs := (pu_schemaIDs p)(topic \<mapsto> schemaID)\<rparr>))"

text \<open>The schemas are kept in a map: they are registered in any order.\<close>

definition NewPublisher ::
    "Avro \<Rightarrow> (string \<Rightarrow> Schema \<Rightarrow> int option) \<Rightarrow> ((string \<times> Schema) list \<Rightarrow> (string \<times> Schema) list) \<Rightarrow> Publisher bus" where
  "NewPublisher av CreateSchema iter =
     map_err (\<lambda>e. ''kafka publisher: register schemas: '' @ e)
       (registerSchemas av CreateSchema (iter publisherSchemas) \<lparr>pu_codecs = (\<lambda>_. None), pu_schemaIDs = (\<lambda>_. None)\<rparr>)"

definition UnixMilli :: "int \<Rightarrow> int" where
  "UnixMilli t = t div 1000000"

definition hand_started_payload :: "HandStartedEvent \<Rightarrow> Native" where
  "hand_started_payload event = NMap
     [(''event_id'', NString (hs_EventID event)), (''event_version'', NInt (hs_EventVersion event)),
      (''hand_id'', NString (hs_HandID event)), (''table_id'', NString (hs_TableID event)),
      (''sequence_number'', NInt (hs_SequenceNumber event)), (''players'', NArray (map NString (hs_Players event))),
      (''player_count'', NInt (hs_PlayerCount event)), (''button'', NInt (hs_Button event)),
      (''betting_structure'', NString (hs_BettingStructure event)), (''small_blind'', NInt64 (hs_SmallBlind event)),
      (''big_blind'', NInt64 (hs_BigBlind event)), (''occurred_at'', NInt64 (UnixMilli (hs_OccurredAt event)))]"

fun avroActionType :: "ActionType \<Rightarrow> string" where
  "avroActionType ActionFold = ''FOLD''"
| "avroActionType ActionCheck = ''CHECK''"
| "avroActionType ActionCall = ''CALL''"
| "avroActionType ActionRaise = ''RAISE''"
| "avroActionType ActionAllIn = ''ALL_IN''"
| "avroActionType (ActionOther n) = ''FOLD''"

definition player_acted_payload :: "PlayerActedEvent \<Rightarrow> Native" where
  "player_acted_payload event = NMap
     [(''event_id'', NString (pa_EventID event)), (''event_version'', NInt (pa_EventVersion event)),
      (''hand_id'', NString (pa_HandID event)), (''table_id'', NString (pa_TableID event)),
      (''sequence_number'', NInt (pa_SequenceNumber event)), (''player_id'', NString (pa_PlayerID event)),
      (''street'', NString (pa_Street event)), (''player_position'', NInt (pa_PlayerPosition event)),
      (''action_type'', NString (avroActionType (a_Type (pa_Action event)))),
      (''current_bet'', NInt64 (pa_CurrentBet event)), (''player_current_bet'', NInt64 (pa_PlayerCurrentBet event)),
      (''amount'', NInt64 (a_Amount (pa_Action event))), (''occurred_at'', NInt64 (UnixMilli (pa_OccurredAt event)))]"

definition winners_payload :: "(PlayerID, int) gomap \<Rightarrow> Native" where
  "winners_payload winners =
     (let winnerIDs = sort (map fst winners)
      in NArray (map (\<lambda>playerID. NMap [(''player_id'', NString playerID), (''amount'', NInt64 (get0 winners playerID))]) winnerIDs))"

definition hand_ended_payload :: "HandEndedEvent \<Rightarrow> Native" where
  "hand_ended_payload event = NMap
     [(''event_id'', NString (he_EventID event)), (''event_version'', NInt (he_EventVersion event)),
      (''hand_id'', NString (he_HandID event)), (''table_id'', NString (he_TableID event)),
      (''sequence_number'', NInt (he_SequenceNumber event)), (''player_count'', NInt (he_PlayerCount event)),
      (''button'', NInt (he_Button event)), (''small_blind'', NInt64 (he_SmallBlind event)),
      (''big_blind'', NInt64 (he_BigBlind event)), (''showdown'', NBool (he_Showdown event)),
      (''gross_pot'', NInt64 (he_GrossPot event)), (''net_pot'', NInt64 (he_NetPot event)),
      (''winners'', winners_payload (he_Winners event)), (''rake'', NInt64 (he_Rake event)),
      (''board'', NArray (map (\<lambda>card. NString (Card_String card)) (he_Board event))),
      (''occurred_at'', NInt64 (UnixMilli (he_OccurredAt event)))]"

text \<open>The message: the magic byte, the identifier of the schema in big-endian order, the payload.\<close>

definition PutUint32 :: "int \<Rightarrow> string" where
  "PutUint32 n = map (\<lambda>k. char_of (nat (n div 256 ^ k mod 256))) [3, 2, 1, 0]"

definition wrapWithSchemaID :: "int \<Rightarrow> string \<Rightarrow> string" where
  "wrapWithSchemaID schemaID data = char_of (0::nat) # PutUint32 schemaID @ data"

record BusMessage =
  bm_Topic :: string
  bm_Key :: string
  bm_Value :: string

record Bus =
  bu_log :: "BusMessage list"
  bu_KafkaPublishTotal :: "(string \<times> string) list"

text \<open>Publishing a payload; the broker may refuse a message. Headers carry only traces.\<close>

definition publish_payload ::
    "Avro \<Rightarrow> (BusMessage \<Rightarrow> bool) \<Rightarrow> Publisher \<Rightarrow> string \<Rightarrow> string \<Rightarrow> Native \<Rightarrow> Bus \<Rightarrow> unit bus \<times> Bus" where
  "publish_payload av refused p topic key payload b =
     (case pu_codecs p topic of
        None \<Rightarrow> (Err (''kafka publisher: no codec for topic '' @ topic), b)
      | Some codec \<Rightarrow>
     (case pu_schemaIDs p topic of
        None \<Rightarrow> (Err (''kafka publisher: no schema id for topic '' @ topic), b)
      | Some schemaID \<Rightarrow>
     (case av_BinaryFromNative av codec payload of
        None \<Rightarrow> (Err ''kafka publisher: encode avro'', b\<lparr>bu_KafkaPublishTotal := bu_KafkaPublishTotal b @ [(topic, ''error'')]\<rparr>)
      | Some avroBytes \<Rightarrow>
          (let msg = \<lparr>bm_Topic = topic, bm_Key = key, bm_Value = wrapWithSchemaID schemaID avroBytes\<rparr>
           in if refused msg
              then (Err (''kafka publisher: write message to '' @ topic),
                    b\<lparr>bu_KafkaPublishTotal := bu_KafkaPublishTotal b @ [(topic, ''error'')]\<rparr>)
              else (Ok (), b\<lparr>bu_log := bu_log b @ [msg],
                    bu_KafkaPublishTotal := bu_KafkaPublishTotal b @ [(topic, ''ok'')]\<rparr>)))))"

definition PublishHandStarted :: "Avro \<Rightarrow> (BusMessage \<Rightarrow> bool) \<Rightarrow> Publisher \<Rightarrow> HandStartedEvent \<Rightarrow> Bus \<Rightarrow> unit bus \<times> Bus" where
  "PublishHandStarted av refused p event =
     publish_payload av refused p topicHandStarted (hs_HandID event) (hand_started_payload event)"

definition PublishPlayerActed :: "Avro \<Rightarrow> (BusMessage \<Rightarrow> bool) \<Rightarrow> Publisher \<Rightarrow> PlayerActedEvent \<Rightarrow> Bus \<Rightarrow> unit bus \<times> Bus" where
  "PublishPlayerActed av refused p event =
     publish_payload av refused p topicPlayerActed (pa_HandID event) (player_acted_payload event)"

definition PublishHandEnded :: "Avro \<Rightarrow> (BusMessage \<Rightarrow> bool) \<Rightarrow> Publisher \<Rightarrow> HandEndedEvent \<Rightarrow> Bus \<Rightarrow> unit bus \<times> Bus" where
  "PublishHandEnded av refused p event =
     publish_payload av refused p topicHandEnded (he_HandID event) (hand_ended_payload event)"

fun publish_on_bus :: "Avro \<Rightarrow> (BusMessage \<Rightarrow> bool) \<Rightarrow> Publisher \<Rightarrow> EngineEvent \<Rightarrow> Bus \<Rightarrow> unit bus \<times> Bus" where
  "publish_on_bus av refused p (EvHandStarted event) = PublishHandStarted av refused p event"
| "publish_on_bus av refused p (EvPlayerActed event) = PublishPlayerActed av refused p event"
| "publish_on_bus av refused p (EvHandEnded event) = PublishHandEnded av refused p event"

section \<open>The decoder\<close>

record RawEvent =
  re_EventID :: string
  re_EventVersion :: int
  re_EventType :: string
  re_HandID :: string
  re_TableID :: string
  re_SequenceNumber :: int
  re_OccurredAt :: int
  re_KafkaTopic :: string
  re_KafkaPartition :: int
  re_KafkaOffset :: int
  re_PayloadJSON :: string
  re_IngestedAt :: int

record HandAction =
  ha_EventID :: string
  ha_HandID :: string
  ha_TableID :: string
  ha_SequenceNumber :: int
  ha_PlayerID :: string
  ha_Street :: string
  ha_PlayerPosition :: int
  ha_ActionType :: string
  ha_CurrentBet :: int
  ha_PlayerCurrentBet :: int
  ha_Amount :: int
  ha_OccurredAt :: int

record HandSummary =
  hy_EventID :: string
  hy_HandID :: string
  hy_TableID :: string
  hy_PlayerCount :: int
  hy_Button :: int
  hy_SmallBlind :: int
  hy_BigBlind :: int
  hy_Showdown :: bool
  hy_GrossPot :: int
  hy_NetPot :: int
  hy_Rake :: int
  hy_Board :: "string list"
  hy_WinnersJSON :: string
  hy_OccurredAt :: int

record DecodedEvent =
  de_RawEvent :: RawEvent
  de_HandAction :: "HandAction option"
  de_HandSummary :: "HandSummary option"

record MessageMeta =
  mm_Topic :: string
  mm_Partition :: int
  mm_Offset :: int

type_synonym NativeRecord = "(string \<times> Native) list"

text \<open>A value of a record that is missing or nil has the default.\<close>

definition field :: "NativeRecord \<Rightarrow> string \<Rightarrow> Native" where
  "field record key = (case map_of record key of None \<Rightarrow> NNull | Some v \<Rightarrow> v)"

definition text_of :: "Avro \<Rightarrow> Native \<Rightarrow> string" where
  "text_of av v = (case v of NString s \<Rightarrow> s | NBytes s \<Rightarrow> s | _ \<Rightarrow> av_Sprint av v)"

definition requireString :: "Avro \<Rightarrow> NativeRecord \<Rightarrow> string \<Rightarrow> string" where
  "requireString av record key = (if field record key = NNull then '''' else text_of av (field record key))"

definition requireInt64 :: "Avro \<Rightarrow> NativeRecord \<Rightarrow> string \<Rightarrow> int" where
  "requireInt64 av record key =
     (case field record key of
        NInt n \<Rightarrow> n
      | NInt32 n \<Rightarrow> n
      | NInt64 n \<Rightarrow> n
      | NUint32 n \<Rightarrow> n
      | NUint64 n \<Rightarrow> wrap64 n
      | NFloat x \<Rightarrow> av_int64_of_float av x
      | _ \<Rightarrow> 0)"

definition requireInt :: "Avro \<Rightarrow> NativeRecord \<Rightarrow> string \<Rightarrow> int" where
  "requireInt av record key = requireInt64 av record key"

definition requireBool :: "NativeRecord \<Rightarrow> string \<Rightarrow> bool" where
  "requireBool record key = (case field record key of NBool b \<Rightarrow> b | _ \<Rightarrow> False)"

text \<open>The time of a number of milliseconds, in nanoseconds.\<close>

definition requireTimestamp :: "Avro \<Rightarrow> NativeRecord \<Rightarrow> string \<Rightarrow> int" where
  "requireTimestamp av record key = requireInt64 av record key * 1000000"

definition requireStringArray :: "Avro \<Rightarrow> NativeRecord \<Rightarrow> string \<Rightarrow> string list" where
  "requireStringArray av record key = (case field record key of NArray items \<Rightarrow> map (text_of av) items | _ \<Rightarrow> [])"

definition marshalJSON :: "Avro \<Rightarrow> string \<Rightarrow> Native \<Rightarrow> string bus" where
  "marshalJSON av msg v = (case av_Marshal av v of None \<Rightarrow> Err msg | Some s \<Rightarrow> Ok s)"

definition decodeRecord :: "Avro \<Rightarrow> int \<Rightarrow> NativeRecord \<Rightarrow> MessageMeta \<Rightarrow> DecodedEvent bus" where
  "decodeRecord av now record meta =
     bind_outcome (marshalJSON av ''marshal payload json'' (NMap record)) (\<lambda>payloadJSON.
       let raw = \<lparr>re_EventID = requireString av record ''event_id'', re_EventVersion = requireInt av record ''event_version'',
             re_EventType = mm_Topic meta, re_HandID = requireString av record ''hand_id'',
             re_TableID = requireString av record ''table_id'', re_SequenceNumber = requireInt av record ''sequence_number'',
             re_OccurredAt = requireTimestamp av record ''occurred_at'', re_KafkaTopic = mm_Topic meta,
             re_KafkaPartition = mm_Partition meta, re_KafkaOffset = mm_Offset meta,
             re_PayloadJSON = payloadJSON, re_IngestedAt = now\<rparr>;
           event = \<lparr>de_RawEvent = raw, de_HandAction = None, de_HandSummary = None\<rparr>
       in if mm_Topic meta = topicHandStarted then Ok event
          else if mm_Topic meta = topicPlayerActed then
            Ok (event\<lparr>de_HandAction := Some
              \<lparr>ha_EventID = re_EventID raw, ha_HandID = re_HandID raw, ha_TableID = re_TableID raw,
               ha_SequenceNumber = re_SequenceNumber raw, ha_PlayerID = requireString av record ''player_id'',
               ha_Street = requireString av record ''street'', ha_PlayerPosition = requireInt av record ''player_position'',
               ha_ActionType = requireString av record ''action_type'', ha_CurrentBet = requireInt64 av record ''current_bet'',
               ha_PlayerCurrentBet = requireInt64 av record ''player_current_bet'', ha_Amount = requireInt64 av record ''amount'',
               ha_OccurredAt = re_OccurredAt raw\<rparr>\<rparr>)
          else if mm_Topic meta = topicHandEnded then
            bind_outcome (marshalJSON av ''marshal winners json'' (field record ''winners'')) (\<lambda>winnersJSON.
            Ok (event\<lparr>de_HandSummary := Some
              \<lparr>hy_EventID = re_EventID raw, hy_HandID = re_HandID raw, hy_TableID = re_TableID raw,
               hy_PlayerCount = requireInt av record ''player_count'', hy_Button = requireInt av record ''button'',
               hy_SmallBlind = requireInt64 av record ''small_blind'', hy_BigBlind = requireInt64 av record ''big_blind'',
               hy_Showdown = requireBool record ''showdown'', hy_GrossPot = requireInt64 av record ''gross_pot'',
               hy_NetPot = requireInt64 av record ''net_pot'', hy_Rake = requireInt64 av record ''rake'',
               hy_Board = requireStringArray av record ''board'', hy_WinnersJSON = winnersJSON,
               hy_OccurredAt = re_OccurredAt raw\<rparr>\<rparr>))
          else Err (''unsupported topic '' @ mm_Topic meta))"

definition BigEndian_Uint32 :: "string \<Rightarrow> int" where
  "BigEndian_Uint32 bs = foldl (\<lambda>n c. n * 256 + int (of_char c)) 0 bs"

definition parseConfluentMessage :: "string \<Rightarrow> (int \<times> string) bus" where
  "parseConfluentMessage value =
     (if length value < 5 then Err (''confluent message too short: '' @ show_int (int (length value)))
      else if value ! 0 \<noteq> char_of (0::nat) then Err (''unexpected confluent magic byte: '' @ show_int (int (of_char (value ! 0))))
      else Ok (BigEndian_Uint32 (take 4 (drop 1 value)), drop 5 value))"

text \<open>The decoder caches the codecs it has compiled; \<open>lookup\<close> asks the schema registry.\<close>

record Decoder =
  dc_codecs :: "int \<Rightarrow> Schema option"

definition codecForSchema ::
    "Avro \<Rightarrow> (int \<Rightarrow> Schema option) \<Rightarrow> int \<Rightarrow> Decoder \<Rightarrow> Schema bus \<times> Decoder" where
  "codecForSchema av lookup schemaID d =
     (case dc_codecs d schemaID of
        Some codec \<Rightarrow> (Ok codec, d)
      | None \<Rightarrow>
          (case lookup schemaID of
             None \<Rightarrow> (Err (''get schema '' @ show_int schemaID), d)
           | Some schema \<Rightarrow>
               if \<not> av_NewCodec av schema then (Err (''compile schema '' @ show_int schemaID), d)
               else (Ok schema, d\<lparr>dc_codecs := (dc_codecs d)(schemaID \<mapsto> schema)\<rparr>)))"

definition Decode ::
    "Avro \<Rightarrow> (int \<Rightarrow> Schema option) \<Rightarrow> int \<Rightarrow> string \<Rightarrow> MessageMeta \<Rightarrow> Decoder \<Rightarrow> DecodedEvent bus \<times> Decoder" where
  "Decode av lookup now value meta d =
     (case parseConfluentMessage value of
        Err e \<Rightarrow> (Err e, d)
      | Panic m \<Rightarrow> (Panic m, d)
      | Ok (schemaID, payload) \<Rightarrow>
          (let (codec, d) = codecForSchema av lookup schemaID d
           in (bind_outcome codec (\<lambda>codec.
                 case av_NativeFromBinary av codec payload of
                   None \<Rightarrow> Err ''decode avro payload''
                 | Some (NMap record) \<Rightarrow> decodeRecord av now record meta
                 | Some v \<Rightarrow> Err ''unexpected avro payload type''), d)))"

section \<open>What the Avro library promises\<close>

text \<open>
  The type discipline of a schema: the value read back for a value written, if it has the type of
  the schema. An \<open>int\<close> comes back as an int32, the fields of a record in the order of the schema.
\<close>

fun decoded_as :: "bool \<Rightarrow> Schema \<Rightarrow> Native \<Rightarrow> Native option" where
  "decoded_as lt AvroString v = (case v of NString s \<Rightarrow> Some v | _ \<Rightarrow> None)"
| "decoded_as lt AvroInt v = (case v of NInt n \<Rightarrow> if in_int32 n then Some (NInt32 n) else None | _ \<Rightarrow> None)"
| "decoded_as lt AvroLong v = (case v of NInt64 n \<Rightarrow> if in_int64 n then Some v else None | _ \<Rightarrow> None)"
| "decoded_as lt (AvroLogical l t) v =
     (if lt \<and> l = ''timestamp-millis'' \<and> t = AvroLong
      then (case v of NInt64 n \<Rightarrow> if in_int64 n then Some (NTime (n * 1000000)) else None | _ \<Rightarrow> None)
      else decoded_as lt t v)"
| "decoded_as lt AvroBoolean v = (case v of NBool b \<Rightarrow> Some v | _ \<Rightarrow> None)"
| "decoded_as lt (AvroEnum symbols) v = (case v of NString s \<Rightarrow> if s \<in> set symbols then Some v else None | _ \<Rightarrow> None)"
| "decoded_as lt (AvroArray t) v = (case v of NArray vs \<Rightarrow> map_option NArray (those (map (decoded_as lt t) vs)) | _ \<Rightarrow> None)"
| "decoded_as lt (AvroRecord fs) v =
     (case v of
        NMap kvs \<Rightarrow> map_option NMap (those (map (\<lambda>(k, t).
          case map_of kvs k of None \<Rightarrow> None | Some v \<Rightarrow> map_option (Pair k) (decoded_as lt t v)) fs))
      | _ \<Rightarrow> None)"

definition goavro_ok :: "Avro \<Rightarrow> bool" where
  "goavro_ok av \<longleftrightarrow> (\<forall>s v v'. decoded_as (av_LogicalTypes av) s v = Some v' \<longrightarrow> av_NewCodec av s
     \<and> (\<exists>b. av_BinaryFromNative av s v = Some b \<and> av_NativeFromBinary av s b = Some v'))"

section \<open>The payload of an event has the type of its schema\<close>

fun event_topic :: "EngineEvent \<Rightarrow> string" where
  "event_topic (EvHandStarted e) = topicHandStarted"
| "event_topic (EvPlayerActed e) = topicPlayerActed"
| "event_topic (EvHandEnded e) = topicHandEnded"

fun event_schema :: "EngineEvent \<Rightarrow> Schema" where
  "event_schema (EvHandStarted e) = HandStarted"
| "event_schema (EvPlayerActed e) = PlayerActed"
| "event_schema (EvHandEnded e) = HandEnded"

fun event_hand :: "EngineEvent \<Rightarrow> string" where
  "event_hand (EvHandStarted e) = hs_HandID e"
| "event_hand (EvPlayerActed e) = pa_HandID e"
| "event_hand (EvHandEnded e) = he_HandID e"

fun event_payload :: "EngineEvent \<Rightarrow> Native" where
  "event_payload (EvHandStarted e) = hand_started_payload e"
| "event_payload (EvPlayerActed e) = player_acted_payload e"
| "event_payload (EvHandEnded e) = hand_ended_payload e"

text \<open>The numbers of an event fit the 32 and 64 bits of their fields.\<close>

fun event_fits :: "EngineEvent \<Rightarrow> bool" where
  "event_fits (EvHandStarted e) \<longleftrightarrow>
     (\<forall>n \<in> {hs_EventVersion e, hs_SequenceNumber e, hs_PlayerCount e, hs_Button e}. in_int32 n)
     \<and> (\<forall>n \<in> {hs_SmallBlind e, hs_BigBlind e, UnixMilli (hs_OccurredAt e)}. in_int64 n)"
| "event_fits (EvPlayerActed e) \<longleftrightarrow>
     (\<forall>n \<in> {pa_EventVersion e, pa_SequenceNumber e, pa_PlayerPosition e}. in_int32 n)
     \<and> (\<forall>n \<in> {pa_CurrentBet e, pa_PlayerCurrentBet e, a_Amount (pa_Action e), UnixMilli (pa_OccurredAt e)}. in_int64 n)"
| "event_fits (EvHandEnded e) \<longleftrightarrow>
     (\<forall>n \<in> {he_EventVersion e, he_SequenceNumber e, he_PlayerCount e, he_Button e}. in_int32 n)
     \<and> (\<forall>n \<in> {he_SmallBlind e, he_BigBlind e, he_GrossPot e, he_NetPot e, he_Rake e, UnixMilli (he_OccurredAt e)}. in_int64 n)
     \<and> (\<forall>p \<in> fst ` set (he_Winners e). in_int64 (get0 (he_Winners e) p))"

lemma those_map_Some: "(\<And>x. x \<in> set xs \<Longrightarrow> f x = Some (h x)) \<Longrightarrow> those (map f xs) = Some (map h xs)"
  by (induction xs) auto

lemma those_map_None: "those (map f xs) = None \<longleftrightarrow> (\<exists>x \<in> set xs. f x = None)"
  by (induction xs) (auto split: option.splits)

lemma strings_typed [simp]: "those (map (decoded_as lt AvroString \<circ> NString) xs) = Some (map NString xs)"
  using those_map_Some [of xs "decoded_as lt AvroString \<circ> NString" NString] by simp

lemma board_typed:
  "decoded_as lt (AvroArray AvroString) (NArray (map (\<lambda>c. NString (f c)) cs)) = Some (NArray (map (\<lambda>c. NString (f c)) cs))"
  using those_map_Some [of cs "decoded_as lt AvroString \<circ> (\<lambda>c. NString (f c))" "\<lambda>c. NString (f c)"] by simp

definition winner_schema :: Schema where
  "winner_schema = AvroRecord [(''player_id'', AvroString), (''amount'', AvroLong)]"

lemma winners_typed:
  "decoded_as lt (AvroArray winner_schema) (winners_payload ws)
     = (if \<forall>p \<in> fst ` set ws. in_int64 (get0 ws p) then Some (winners_payload ws) else None)"
proof -
  let ?f = "decoded_as lt winner_schema \<circ> (\<lambda>p. NMap [(''player_id'', NString p), (''amount'', NInt64 (get0 ws p))])"
  have f: "?f p = (if in_int64 (get0 ws p) then Some (NMap [(''player_id'', NString p), (''amount'', NInt64 (get0 ws p))]) else None)" for p
    by (simp add: winner_schema_def)
  show ?thesis
  proof (cases "\<forall>p \<in> fst ` set ws. in_int64 (get0 ws p)")
    case True
    then have "those (map ?f (sort (map fst ws))) = Some (map (\<lambda>p. NMap [(''player_id'', NString p), (''amount'', NInt64 (get0 ws p))]) (sort (map fst ws)))"
      using f by (intro those_map_Some) auto
    then show ?thesis using True by (simp add: winners_payload_def Let_def)
  next
    case False
    then have "those (map ?f (sort (map fst ws))) = None" using f by (simp add: those_map_None)
    then show ?thesis using False by (simp add: winners_payload_def Let_def)
  qed
qed

lemma action_type_symbol: "avroActionType a \<in> set [''FOLD'', ''CHECK'', ''CALL'', ''RAISE'', ''ALL_IN'']"
  by (cases a) simp_all

lemma symbol_typed [simp]:
  "decoded_as lt (AvroEnum [''FOLD'', ''CHECK'', ''CALL'', ''RAISE'', ''ALL_IN'']) (NString (avroActionType a)) = Some (NString (avroActionType a))"
  by (cases a) simp_all

text \<open>A record whose fields come in the order of the schema is typed field by field.\<close>

lemma record_typed:
  assumes "distinct (map fst kvs)" "map fst fs = map fst kvs"
  shows "decoded_as lt (AvroRecord fs) (NMap kvs)
    = map_option NMap (those (map2 (\<lambda>(k, t) (k', v). map_option (Pair k) (decoded_as lt t v)) fs kvs))"
proof -
  have "map (\<lambda>(k, t). case map_of kvs k of None \<Rightarrow> None | Some v \<Rightarrow> map_option (Pair k) (decoded_as lt t v)) fs
    = map2 (\<lambda>(k, t) (k', v). map_option (Pair k) (decoded_as lt t v)) fs kvs"
  proof (rule nth_equalityI)
    show "length (map (\<lambda>(k, t). case map_of kvs k of None \<Rightarrow> None | Some v \<Rightarrow> map_option (Pair k) (decoded_as lt t v)) fs)
      = length (map2 (\<lambda>(k, t) (k', v). map_option (Pair k) (decoded_as lt t v)) fs kvs)"
      using assms(2) by (metis (no_types, lifting) length_map length_zip min.idem)
  next
    fix i assume "i < length (map (\<lambda>(k, t). case map_of kvs k of None \<Rightarrow> None | Some v \<Rightarrow> map_option (Pair k) (decoded_as lt t v)) fs)"
    then have i: "i < length fs" "i < length kvs" using assms(2) by (simp, metis length_map)
    have "fst (fs ! i) = fst (kvs ! i)" using assms(2) i by (metis nth_map)
    moreover have "map_of kvs (fst (kvs ! i)) = Some (snd (kvs ! i))" using i assms(1) by simp
    ultimately show "map (\<lambda>(k, t). case map_of kvs k of None \<Rightarrow> None | Some v \<Rightarrow> map_option (Pair k) (decoded_as lt t v)) fs ! i
      = map2 (\<lambda>(k, t) (k', v). map_option (Pair k) (decoded_as lt t v)) fs kvs ! i"
      using i by (simp add: case_prod_beta)
  qed
  then show ?thesis by simp
qed

text \<open>What comes back from the library.\<close>

definition read_time :: "bool \<Rightarrow> int \<Rightarrow> Native" where
  "read_time lt n = (if lt then NTime (n * 1000000) else NInt64 n)"

definition hand_started_read :: "bool \<Rightarrow> HandStartedEvent \<Rightarrow> NativeRecord" where
  "hand_started_read lt e =
     [(''event_id'', NString (hs_EventID e)), (''event_version'', NInt32 (hs_EventVersion e)),
      (''hand_id'', NString (hs_HandID e)), (''table_id'', NString (hs_TableID e)),
      (''sequence_number'', NInt32 (hs_SequenceNumber e)), (''players'', NArray (map NString (hs_Players e))),
      (''player_count'', NInt32 (hs_PlayerCount e)), (''button'', NInt32 (hs_Button e)),
      (''betting_structure'', NString (hs_BettingStructure e)), (''small_blind'', NInt64 (hs_SmallBlind e)),
      (''big_blind'', NInt64 (hs_BigBlind e)), (''occurred_at'', read_time lt (UnixMilli (hs_OccurredAt e)))]"

definition player_acted_read :: "bool \<Rightarrow> PlayerActedEvent \<Rightarrow> NativeRecord" where
  "player_acted_read lt e =
     [(''event_id'', NString (pa_EventID e)), (''event_version'', NInt32 (pa_EventVersion e)),
      (''hand_id'', NString (pa_HandID e)), (''table_id'', NString (pa_TableID e)),
      (''sequence_number'', NInt32 (pa_SequenceNumber e)), (''player_id'', NString (pa_PlayerID e)),
      (''street'', NString (pa_Street e)), (''player_position'', NInt32 (pa_PlayerPosition e)),
      (''action_type'', NString (avroActionType (a_Type (pa_Action e)))),
      (''current_bet'', NInt64 (pa_CurrentBet e)), (''player_current_bet'', NInt64 (pa_PlayerCurrentBet e)),
      (''amount'', NInt64 (a_Amount (pa_Action e))), (''occurred_at'', read_time lt (UnixMilli (pa_OccurredAt e)))]"

definition hand_ended_read :: "bool \<Rightarrow> HandEndedEvent \<Rightarrow> NativeRecord" where
  "hand_ended_read lt e =
     [(''event_id'', NString (he_EventID e)), (''event_version'', NInt32 (he_EventVersion e)),
      (''hand_id'', NString (he_HandID e)), (''table_id'', NString (he_TableID e)),
      (''sequence_number'', NInt32 (he_SequenceNumber e)), (''player_count'', NInt32 (he_PlayerCount e)),
      (''button'', NInt32 (he_Button e)), (''small_blind'', NInt64 (he_SmallBlind e)),
      (''big_blind'', NInt64 (he_BigBlind e)), (''showdown'', NBool (he_Showdown e)),
      (''gross_pot'', NInt64 (he_GrossPot e)), (''net_pot'', NInt64 (he_NetPot e)),
      (''winners'', winners_payload (he_Winners e)), (''rake'', NInt64 (he_Rake e)),
      (''board'', NArray (map (\<lambda>card. NString (Card_String card)) (he_Board e))),
      (''occurred_at'', read_time lt (UnixMilli (he_OccurredAt e)))]"

fun read_back :: "bool \<Rightarrow> EngineEvent \<Rightarrow> NativeRecord" where
  "read_back lt (EvHandStarted e) = hand_started_read lt e"
| "read_back lt (EvPlayerActed e) = player_acted_read lt e"
| "read_back lt (EvHandEnded e) = hand_ended_read lt e"

lemma payload_typed:
  "decoded_as lt (event_schema e) (event_payload e) = (if event_fits e then Some (NMap (read_back lt e)) else None)"
proof (cases e)
  case (EvHandStarted x)
  have "decoded_as lt HandStarted (hand_started_payload x) = (if event_fits (EvHandStarted x) then Some (NMap (hand_started_read lt x)) else None)"
    unfolding HandStarted_def hand_started_payload_def
    by (subst record_typed) (simp_all add: hand_started_read_def read_time_def)
  then show ?thesis using EvHandStarted by simp
next
  case (EvPlayerActed x)
  have "decoded_as lt PlayerActed (player_acted_payload x) = (if event_fits (EvPlayerActed x) then Some (NMap (player_acted_read lt x)) else None)"
    unfolding PlayerActed_def player_acted_payload_def
    by (subst record_typed) (simp_all add: player_acted_read_def read_time_def del: decoded_as.simps(6))
  then show ?thesis using EvPlayerActed by simp
next
  case (EvHandEnded x)
  have "decoded_as lt HandEnded (hand_ended_payload x) = (if event_fits (EvHandEnded x) then Some (NMap (hand_ended_read lt x)) else None)"
    unfolding HandEnded_def hand_ended_payload_def winner_schema_def [symmetric]
    by (subst record_typed) (simp_all add: hand_ended_read_def read_time_def winners_typed board_typed del: decoded_as.simps(7))
  then show ?thesis using EvHandEnded by simp
qed

text \<open>
  C24: Events are well typed. The payload of an event has the type of the schema registered for its
  topic exactly if its numbers fit their fields: every field of the schema is there, has the right
  kind, and the action is one of the symbols of the enumeration.
\<close>

theorem payload_well_typed: "decoded_as lt (event_schema e) (event_payload e) \<noteq> None \<longleftrightarrow> event_fits e"
  by (simp add: payload_typed)

definition header :: "RawEvent \<Rightarrow> string \<times> int \<times> string \<times> string \<times> int \<times> int" where
  "header r = (re_EventID r, re_EventVersion r, re_HandID r, re_TableID r, re_SequenceNumber r, re_OccurredAt r)"

text \<open>Times keep their milliseconds.\<close>

definition to_millis :: "int \<Rightarrow> int" where
  "to_millis t = UnixMilli t * 1000000"

text \<open>
  The decoder reads a number and has no case for a time: if the library returns a time, what the
  decoder stores is the start of the epoch.
\<close>

definition seen_at :: "Avro \<Rightarrow> int \<Rightarrow> int" where
  "seen_at av t = (if av_LogicalTypes av then 0 else to_millis t)"

fun event_header :: "Avro \<Rightarrow> EngineEvent \<Rightarrow> string \<times> int \<times> string \<times> string \<times> int \<times> int" where
  "event_header av (EvHandStarted e) =
     (hs_EventID e, hs_EventVersion e, hs_HandID e, hs_TableID e, hs_SequenceNumber e, seen_at av (hs_OccurredAt e))"
| "event_header av (EvPlayerActed e) =
     (pa_EventID e, pa_EventVersion e, pa_HandID e, pa_TableID e, pa_SequenceNumber e, seen_at av (pa_OccurredAt e))"
| "event_header av (EvHandEnded e) =
     (he_EventID e, he_EventVersion e, he_HandID e, he_TableID e, he_SequenceNumber e, seen_at av (he_OccurredAt e))"

fun event_action :: "Avro \<Rightarrow> EngineEvent \<Rightarrow> HandAction option" where
  "event_action av (EvPlayerActed e) = Some
     \<lparr>ha_EventID = pa_EventID e, ha_HandID = pa_HandID e, ha_TableID = pa_TableID e, ha_SequenceNumber = pa_SequenceNumber e,
      ha_PlayerID = pa_PlayerID e, ha_Street = pa_Street e, ha_PlayerPosition = pa_PlayerPosition e,
      ha_ActionType = avroActionType (a_Type (pa_Action e)), ha_CurrentBet = pa_CurrentBet e,
      ha_PlayerCurrentBet = pa_PlayerCurrentBet e, ha_Amount = a_Amount (pa_Action e), ha_OccurredAt = seen_at av (pa_OccurredAt e)\<rparr>"
| "event_action av _ = None"

fun event_summary :: "Avro \<Rightarrow> EngineEvent \<Rightarrow> HandSummary option" where
  "event_summary av (EvHandEnded e) = Some
     \<lparr>hy_EventID = he_EventID e, hy_HandID = he_HandID e, hy_TableID = he_TableID e, hy_PlayerCount = he_PlayerCount e,
      hy_Button = he_Button e, hy_SmallBlind = he_SmallBlind e, hy_BigBlind = he_BigBlind e, hy_Showdown = he_Showdown e,
      hy_GrossPot = he_GrossPot e, hy_NetPot = he_NetPot e, hy_Rake = he_Rake e, hy_Board = map Card_String (he_Board e),
      hy_WinnersJSON = the (av_Marshal av (winners_payload (he_Winners e))), hy_OccurredAt = seen_at av (he_OccurredAt e)\<rparr>"
| "event_summary av _ = None"

definition reports :: "Avro \<Rightarrow> EngineEvent \<Rightarrow> MessageMeta \<Rightarrow> DecodedEvent \<Rightarrow> bool" where
  "reports av e meta d \<longleftrightarrow> header (de_RawEvent d) = event_header av e \<and> re_EventType (de_RawEvent d) = event_topic e
     \<and> re_KafkaTopic (de_RawEvent d) = event_topic e \<and> re_KafkaPartition (de_RawEvent d) = mm_Partition meta
     \<and> re_KafkaOffset (de_RawEvent d) = mm_Offset meta
     \<and> de_HandAction d = event_action av e \<and> de_HandSummary d = event_summary av e"

lemma applied_times_are_lost: "av_LogicalTypes av \<Longrightarrow> reports av e meta d \<Longrightarrow> re_OccurredAt (de_RawEvent d) = 0"
  by (cases e) (simp_all add: reports_def header_def seen_at_def)

lemma topics_distinct [simp]:
  "topicHandStarted \<noteq> topicPlayerActed" "topicPlayerActed \<noteq> topicHandStarted" "topicHandStarted \<noteq> topicHandEnded"
  "topicHandEnded \<noteq> topicHandStarted" "topicPlayerActed \<noteq> topicHandEnded" "topicHandEnded \<noteq> topicPlayerActed"
  by (simp_all add: topicHandStarted_def topicPlayerActed_def topicHandEnded_def)

text \<open>The fields of the records that come back.\<close>

lemma started_fields:
  "field (hand_started_read lt e) ''event_id'' = NString (hs_EventID e)" "field (hand_started_read lt e) ''event_version'' = NInt32 (hs_EventVersion e)"
  "field (hand_started_read lt e) ''hand_id'' = NString (hs_HandID e)" "field (hand_started_read lt e) ''table_id'' = NString (hs_TableID e)"
  "field (hand_started_read lt e) ''sequence_number'' = NInt32 (hs_SequenceNumber e)"
  "field (hand_started_read lt e) ''occurred_at'' = read_time lt (UnixMilli (hs_OccurredAt e))"
  by (simp_all add: field_def hand_started_read_def)

lemma acted_fields:
  "field (player_acted_read lt e) ''event_id'' = NString (pa_EventID e)" "field (player_acted_read lt e) ''event_version'' = NInt32 (pa_EventVersion e)"
  "field (player_acted_read lt e) ''hand_id'' = NString (pa_HandID e)" "field (player_acted_read lt e) ''table_id'' = NString (pa_TableID e)"
  "field (player_acted_read lt e) ''sequence_number'' = NInt32 (pa_SequenceNumber e)" "field (player_acted_read lt e) ''player_id'' = NString (pa_PlayerID e)"
  "field (player_acted_read lt e) ''street'' = NString (pa_Street e)" "field (player_acted_read lt e) ''player_position'' = NInt32 (pa_PlayerPosition e)"
  "field (player_acted_read lt e) ''action_type'' = NString (avroActionType (a_Type (pa_Action e)))"
  "field (player_acted_read lt e) ''current_bet'' = NInt64 (pa_CurrentBet e)"
  "field (player_acted_read lt e) ''player_current_bet'' = NInt64 (pa_PlayerCurrentBet e)"
  "field (player_acted_read lt e) ''amount'' = NInt64 (a_Amount (pa_Action e))"
  "field (player_acted_read lt e) ''occurred_at'' = read_time lt (UnixMilli (pa_OccurredAt e))"
  by (simp_all add: field_def player_acted_read_def)

lemma ended_fields:
  "field (hand_ended_read lt e) ''event_id'' = NString (he_EventID e)" "field (hand_ended_read lt e) ''event_version'' = NInt32 (he_EventVersion e)"
  "field (hand_ended_read lt e) ''hand_id'' = NString (he_HandID e)" "field (hand_ended_read lt e) ''table_id'' = NString (he_TableID e)"
  "field (hand_ended_read lt e) ''sequence_number'' = NInt32 (he_SequenceNumber e)" "field (hand_ended_read lt e) ''player_count'' = NInt32 (he_PlayerCount e)"
  "field (hand_ended_read lt e) ''button'' = NInt32 (he_Button e)" "field (hand_ended_read lt e) ''small_blind'' = NInt64 (he_SmallBlind e)"
  "field (hand_ended_read lt e) ''big_blind'' = NInt64 (he_BigBlind e)" "field (hand_ended_read lt e) ''showdown'' = NBool (he_Showdown e)"
  "field (hand_ended_read lt e) ''gross_pot'' = NInt64 (he_GrossPot e)" "field (hand_ended_read lt e) ''net_pot'' = NInt64 (he_NetPot e)"
  "field (hand_ended_read lt e) ''winners'' = winners_payload (he_Winners e)" "field (hand_ended_read lt e) ''rake'' = NInt64 (he_Rake e)"
  "field (hand_ended_read lt e) ''board'' = NArray (map (\<lambda>card. NString (Card_String card)) (he_Board e))"
  "field (hand_ended_read lt e) ''occurred_at'' = read_time lt (UnixMilli (he_OccurredAt e))"
  by (simp_all add: field_def hand_ended_read_def)

lemmas readers = requireString_def requireInt_def requireInt64_def requireBool_def requireTimestamp_def requireStringArray_def
  text_of_def read_time_def seen_at_def started_fields acted_fields ended_fields

lemma decode_read_back:
  assumes json: "\<And>v. av_Marshal av v \<noteq> None" and meta: "mm_Topic meta = event_topic e"
  shows "\<exists>d. decodeRecord av now (read_back (av_LogicalTypes av) e) meta = Ok d \<and> reports av e meta d"
proof -
  have "\<forall>v. \<exists>j. av_Marshal av v = Some j" using json by auto
  then obtain js where js: "\<And>v. av_Marshal av v = Some (js v)" by (auto dest: choice)
  show ?thesis
  proof (cases e)
    case (EvHandStarted x)
    then show ?thesis
      using meta by (simp add: decodeRecord_def marshalJSON_def js reports_def header_def readers to_millis_def)
  next
    case (EvPlayerActed x)
    then show ?thesis
      using meta by (simp add: decodeRecord_def marshalJSON_def js reports_def header_def readers to_millis_def)
  next
    case (EvHandEnded x)
    then show ?thesis
      using meta by (simp add: decodeRecord_def marshalJSON_def js reports_def header_def readers to_millis_def comp_def)
  qed
qed

section \<open>From the publisher to the decoder\<close>

lemma Uint32_Put:
  assumes "0 \<le> n" "n < 2 ^ 32"
  shows "BigEndian_Uint32 (PutUint32 n) = n"
proof -
  have c: "int (of_char (char_of (nat (m mod 256)) :: char)) = m mod 256" for m :: int by simp
  have d: "n div 65536 = n div 256 div 256" "n div 16777216 = n div 256 div 256 div 256"
    using zdiv_zmult2_eq [of 256 n 256] zdiv_zmult2_eq [of 256 "n div 256" 256] zdiv_zmult2_eq [of 65536 n 256] by simp_all
  have "0 \<le> n div 16777216" "n div 16777216 < 256" using assms zdiv_mono1 [of n 4294967295 16777216]
    by (simp_all add: pos_imp_zdiv_nonneg_iff)
  then have "n div 256 div 256 div 256 mod 256 = n div 256 div 256 div 256" by (simp add: d(2))
  moreover have "BigEndian_Uint32 (PutUint32 n)
      = ((n div 256 div 256 div 256 mod 256 * 256 + n div 256 div 256 mod 256) * 256 + n div 256 mod 256) * 256 + n mod 256"
    by (simp add: BigEndian_Uint32_def PutUint32_def c d)
  moreover have "((z * 256 + w) * 256 + y) * 256 + x = n" if "n = u * 256 + x" "u = v * 256 + y" "v = z * 256 + w" for u v w x y z
    using that by simp
  ultimately show ?thesis by (metis div_mult_mod_eq)
qed

lemma parse_wrapped:
  assumes "0 \<le> n" "n < 2 ^ 32"
  shows "parseConfluentMessage (wrapWithSchemaID n bytes) = Ok (n, bytes)"
proof -
  have "length (PutUint32 n) = 4" by (simp add: PutUint32_def)
  then show ?thesis using Uint32_Put [OF assms] by (simp add: parseConfluentMessage_def wrapWithSchemaID_def)
qed

text \<open>A publisher that registered its schemas, and a decoder that asks the same registry.\<close>

definition same_registry :: "Publisher \<Rightarrow> (int \<Rightarrow> Schema option) \<Rightarrow> Decoder \<Rightarrow> bool" where
  "same_registry p lookup d \<longleftrightarrow>
     (\<forall>(topic, schema) \<in> set publisherSchemas. pu_codecs p topic = Some schema
        \<and> (\<exists>i. pu_schemaIDs p topic = Some i \<and> 0 \<le> i \<and> i < 2 ^ 32 \<and> lookup i = Some schema))
     \<and> (\<forall>i s. dc_codecs d i = Some s \<longrightarrow> lookup i = Some s)"

lemma registered_event:
  assumes "same_registry p lookup d"
  obtains i where "pu_codecs p (event_topic e) = Some (event_schema e)" "pu_schemaIDs p (event_topic e) = Some i"
    "0 \<le> i" "i < 2 ^ 32" "lookup i = Some (event_schema e)"
proof -
  have "(event_topic e, event_schema e) \<in> set publisherSchemas" by (cases e) (simp_all add: publisherSchemas_def)
  then show thesis using that assms unfolding same_registry_def by blast
qed

lemma publish_on_bus_payload:
  "publish_on_bus av refused p e = publish_payload av refused p (event_topic e) (event_hand e) (event_payload e)"
  by (cases e) (simp_all add: PublishHandStarted_def PublishPlayerActed_def PublishHandEnded_def)

lemma codecForSchema_found:
  assumes "same_registry p lookup d" "lookup i = Some schema" "av_NewCodec av schema"
  shows "fst (codecForSchema av lookup i d) = Ok schema" "same_registry p lookup (snd (codecForSchema av lookup i d))"
proof -
  show "fst (codecForSchema av lookup i d) = Ok schema"
    using assms by (auto simp: codecForSchema_def same_registry_def split: option.split)
  show "same_registry p lookup (snd (codecForSchema av lookup i d))"
    using assms by (auto simp: codecForSchema_def same_registry_def split: option.split)
qed

lemma registerSchemas_Ok:
  assumes "registerSchemas av CreateSchema xs p = Ok p'" "distinct (map fst xs)"
  shows "(\<forall>(t, s) \<in> set xs. pu_codecs p' t = Some s \<and> (\<exists>i. CreateSchema (t @ ''-value'') s = Some i \<and> pu_schemaIDs p' t = Some i))
    \<and> (\<forall>t. t \<notin> fst ` set xs \<longrightarrow> pu_codecs p' t = pu_codecs p t \<and> pu_schemaIDs p' t = pu_schemaIDs p t)"
  using assms
proof (induction av CreateSchema xs p rule: registerSchemas.induct)
  case (2 av CreateSchema topic schema rest p)
  then obtain i where i: "CreateSchema (topic @ ''-value'') schema = Some i" "av_NewCodec av schema"
    and rest: "registerSchemas av CreateSchema rest
      (p\<lparr>pu_codecs := (pu_codecs p)(topic \<mapsto> schema), pu_schemaIDs := (pu_schemaIDs p)(topic \<mapsto> i)\<rparr>) = Ok p'"
    by (auto split: option.splits if_splits)
  have "\<not> \<not> av_NewCodec av schema" "distinct (map fst rest)" "topic \<notin> fst ` set rest" using i 2(3) by auto
  with 2(1) [OF i(1) this(1) rest this(2)] i show ?case by auto
qed simp

text \<open>The registry: the identifier it answers with is a 32-bit number under which it has the schema.\<close>

definition registry_ok :: "(string \<Rightarrow> Schema \<Rightarrow> int option) \<Rightarrow> (int \<Rightarrow> Schema option) \<Rightarrow> bool" where
  "registry_ok CreateSchema lookup \<longleftrightarrow>
     (\<forall>subject s i. CreateSchema subject s = Some i \<longrightarrow> 0 \<le> i \<and> i < 2 ^ 32 \<and> lookup i = Some s)"

definition cache_ok :: "(int \<Rightarrow> Schema option) \<Rightarrow> Decoder \<Rightarrow> bool" where
  "cache_ok lookup d \<longleftrightarrow> (\<forall>i s. dc_codecs d i = Some s \<longrightarrow> lookup i = Some s)"

lemma NewPublisher_registry:
  assumes p: "NewPublisher av CreateSchema iter = Ok p" and iter: "permuting iter"
    and r: "registry_ok CreateSchema lookup" and d: "cache_ok lookup d"
  shows "same_registry p lookup d"
proof -
  have m: "mset (iter publisherSchemas) = mset publisherSchemas" using iter by (simp add: permuting_def)
  have "mset (map fst (iter publisherSchemas)) = mset (map fst publisherSchemas)" using m by simp
  moreover have "distinct (map fst publisherSchemas)" by (simp add: publisherSchemas_def)
  ultimately have dist: "distinct (map fst (iter publisherSchemas))" using mset_eq_imp_distinct_iff by blast
  have st: "set (iter publisherSchemas) = set publisherSchemas" using m by (rule mset_eq_setD)
  have "registerSchemas av CreateSchema (iter publisherSchemas) \<lparr>pu_codecs = (\<lambda>_. None), pu_schemaIDs = (\<lambda>_. None)\<rparr> = Ok p"
    using p by (simp add: NewPublisher_def)
  from registerSchemas_Ok [OF this dist] show ?thesis
    using r d unfolding same_registry_def registry_ok_def cache_ok_def st by fastforce
qed

text \<open>What the decoder makes of the message of an event.\<close>

lemma published_decodes:
  assumes lib: "goavro_ok av" "\<And>v. av_Marshal av v \<noteq> None" and same: "same_registry p lookup d"
    and fits: "event_fits e" and meta: "mm_Topic meta = event_topic e"
  shows "\<exists>m. (\<forall>refused b. publish_on_bus av refused p e b
      = (if refused m then (Err (''kafka publisher: write message to '' @ event_topic e),
             b\<lparr>bu_KafkaPublishTotal := bu_KafkaPublishTotal b @ [(event_topic e, ''error'')]\<rparr>)
         else (Ok (), b\<lparr>bu_log := bu_log b @ [m], bu_KafkaPublishTotal := bu_KafkaPublishTotal b @ [(event_topic e, ''ok'')]\<rparr>)))
    \<and> bm_Topic m = event_topic e \<and> bm_Key m = event_hand e
    \<and> (\<exists>ev. fst (Decode av lookup now (bm_Value m) meta d) = Ok ev \<and> reports av e meta ev)
    \<and> cache_ok lookup (snd (Decode av lookup now (bm_Value m) meta d))"
proof -
  obtain i where i: "pu_codecs p (event_topic e) = Some (event_schema e)" "pu_schemaIDs p (event_topic e) = Some i"
    "0 \<le> i" "i < 2 ^ 32" "lookup i = Some (event_schema e)"
    by (rule registered_event [OF same])
  have "decoded_as (av_LogicalTypes av) (event_schema e) (event_payload e) = Some (NMap (read_back (av_LogicalTypes av) e))"
    using payload_typed [of _ e] fits by simp
  then obtain bytes where lib': "av_NewCodec av (event_schema e)" "av_BinaryFromNative av (event_schema e) (event_payload e) = Some bytes"
    "av_NativeFromBinary av (event_schema e) bytes = Some (NMap (read_back (av_LogicalTypes av) e))"
    using lib(1) unfolding goavro_ok_def by blast
  let ?m = "\<lparr>bm_Topic = event_topic e, bm_Key = event_hand e, bm_Value = wrapWithSchemaID i bytes\<rparr>"
  obtain ev where ev: "decodeRecord av now (read_back (av_LogicalTypes av) e) meta = Ok ev" "reports av e meta ev"
    using decode_read_back [OF lib(2) meta] by blast
  note c = codecForSchema_found [OF same i(5) lib'(1)]
  have "fst (Decode av lookup now (bm_Value ?m) meta d) = Ok ev"
    "snd (Decode av lookup now (bm_Value ?m) meta d) = snd (codecForSchema av lookup i d)"
    using c(1) lib'(3) ev(1) by (simp_all add: Decode_def parse_wrapped [OF i(3,4)] case_prod_beta Let_def)
  moreover have "publish_on_bus av refused p e b = (if refused ?m then (Err (''kafka publisher: write message to '' @ event_topic e),
             b\<lparr>bu_KafkaPublishTotal := bu_KafkaPublishTotal b @ [(event_topic e, ''error'')]\<rparr>)
         else (Ok (), b\<lparr>bu_log := bu_log b @ [?m], bu_KafkaPublishTotal := bu_KafkaPublishTotal b @ [(event_topic e, ''ok'')]\<rparr>))"
    for refused b
    by (simp add: publish_on_bus_payload publish_payload_def i lib'(2) Let_def)
  moreover have "cache_ok lookup (snd (codecForSchema av lookup i d))" using c(2) by (simp add: same_registry_def cache_ok_def)
  ultimately show ?thesis using ev(2) by (intro exI [of _ ?m]) auto
qed

text \<open>
  C20: An event arrives as it was sent. If its numbers fit their fields and the broker takes the
  message, publishing an event appends one message to the log, on the topic of its kind and with
  the hand's identifier as its key; the analytics decoder, with the same registry and whatever it
  has cached, decodes that message into exactly the fields of the event and keeps a cache that agrees
  with the registry. The time is kept to the millisecond; if the library applies the logical type
  written on the field and returns a time, it is replaced by the start of the epoch.
\<close>

theorem published_event_is_decoded:
  assumes lib: "goavro_ok av" "\<And>v. av_Marshal av v \<noteq> None" and new: "NewPublisher av CreateSchema iter = Ok p" "permuting iter"
    and reg: "registry_ok CreateSchema lookup" "cache_ok lookup d"
    and fits: "event_fits e" and taken: "\<And>m. \<not> refused m" and meta: "mm_Topic meta = event_topic e"
  shows "\<exists>m b' ev. publish_on_bus av refused p e b = (Ok (), b') \<and> bu_log b' = bu_log b @ [m]
    \<and> bm_Topic m = event_topic e \<and> bm_Key m = event_hand e
    \<and> fst (Decode av lookup now (bm_Value m) meta d) = Ok ev \<and> reports av e meta ev
    \<and> cache_ok lookup (snd (Decode av lookup now (bm_Value m) meta d))"
proof -
  from published_decodes [OF lib NewPublisher_registry [OF new reg] fits meta, of now]
  obtain m where m: "\<forall>refused b. publish_on_bus av refused p e b
      = (if refused m then (Err (''kafka publisher: write message to '' @ event_topic e),
             b\<lparr>bu_KafkaPublishTotal := bu_KafkaPublishTotal b @ [(event_topic e, ''error'')]\<rparr>)
         else (Ok (), b\<lparr>bu_log := bu_log b @ [m], bu_KafkaPublishTotal := bu_KafkaPublishTotal b @ [(event_topic e, ''ok'')]\<rparr>))"
    "bm_Topic m = event_topic e \<and> bm_Key m = event_hand e
      \<and> (\<exists>ev. fst (Decode av lookup now (bm_Value m) meta d) = Ok ev \<and> reports av e meta ev)
      \<and> cache_ok lookup (snd (Decode av lookup now (bm_Value m) meta d))"
    by blast
  from m(1) taken have "publish_on_bus av refused p e b = (Ok (),
      b\<lparr>bu_log := bu_log b @ [m], bu_KafkaPublishTotal := bu_KafkaPublishTotal b @ [(event_topic e, ''ok'')]\<rparr>)"
    by simp
  with m(2) show ?thesis by force
qed

section \<open>A concrete library\<close>

text \<open>Values can be numbered; a value is written as its number in unary.\<close>

instance Native :: countable
  by countable_datatype

definition unary_avro :: Avro where
  "unary_avro = \<lparr>av_NewCodec = (\<lambda>s. True),
     av_BinaryFromNative = (\<lambda>s v. map_option (\<lambda>v. replicate (to_nat v) (CHR ''x'')) (decoded_as False s v)),
     av_NativeFromBinary = (\<lambda>s b. Some (from_nat (length b))), av_Marshal = (\<lambda>v. Some ''json''),
     av_Sprint = (\<lambda>v. ''''), av_int64_of_float = (\<lambda>x. 0), av_LogicalTypes = False\<rparr>"

lemma unary_avro_ok: "goavro_ok unary_avro" "av_Marshal unary_avro v \<noteq> None"
  by (auto simp: goavro_ok_def unary_avro_def)

definition ex_CreateSchema :: "string \<Rightarrow> Schema \<Rightarrow> int option" where
  "ex_CreateSchema subject s = (if s = HandStarted then Some 1 else if s = PlayerActed then Some 2 else if s = HandEnded then Some 3 else None)"

definition ex_lookup :: "int \<Rightarrow> Schema option" where
  "ex_lookup i = (if i = 1 then Some HandStarted else if i = 2 then Some PlayerActed else if i = 3 then Some HandEnded else None)"

definition ex_ended :: HandEndedEvent where
  "ex_ended = \<lparr>he_EventID = ''h:3'', he_EventVersion = 1, he_HandID = ''h'', he_TableID = ''t'', he_SequenceNumber = 3,
     he_PlayerCount = 2, he_Button = 0, he_SmallBlind = 10, he_BigBlind = 20, he_Showdown = True, he_GrossPot = 80,
     he_NetPot = 77, he_Winners = [(''b'', 77)], he_Rake = 3, he_Board = [NewCard Ace 0], he_OccurredAt = 1715512345678999999\<rparr>"

lemma ex_registry: "registry_ok ex_CreateSchema ex_lookup" "cache_ok ex_lookup \<lparr>dc_codecs = (\<lambda>_. None)\<rparr>"
  "\<exists>p. NewPublisher unary_avro ex_CreateSchema (\<lambda>xs. xs) = Ok p"
  by (auto simp: registry_ok_def ex_CreateSchema_def ex_lookup_def cache_ok_def NewPublisher_def publisherSchemas_def unary_avro_def)

theorem published_event_is_decoded_witness:
  "\<exists>p m b' ev y. NewPublisher unary_avro ex_CreateSchema (\<lambda>xs. xs) = Ok p
    \<and> publish_on_bus unary_avro (\<lambda>m. False) p (EvHandEnded ex_ended) \<lparr>bu_log = [], bu_KafkaPublishTotal = []\<rparr> = (Ok (), b')
    \<and> bu_log b' = [m] \<and> bm_Key m = ''h''
    \<and> fst (Decode unary_avro ex_lookup 5 (bm_Value m) \<lparr>mm_Topic = ''hand.ended'', mm_Partition = 0, mm_Offset = 0\<rparr>
        \<lparr>dc_codecs = (\<lambda>_. None)\<rparr>) = Ok ev
    \<and> de_HandSummary ev = Some y \<and> hy_Rake y = 3 \<and> hy_OccurredAt y = 1715512345678000000"
proof -
  obtain p where p: "NewPublisher unary_avro ex_CreateSchema (\<lambda>xs. xs) = Ok p" using ex_registry(3) by blast
  have fits: "event_fits (EvHandEnded ex_ended)" by (simp add: ex_ended_def in_int32_def in_int64_def UnixMilli_def get0_def)
  have meta: "mm_Topic \<lparr>mm_Topic = ''hand.ended'', mm_Partition = 0, mm_Offset = 0\<rparr> = event_topic (EvHandEnded ex_ended)"
    by (simp add: topicHandEnded_def)
  note arrives = published_event_is_decoded [OF unary_avro_ok p permuting_id ex_registry(1,2) fits _ meta, of "\<lambda>m. False"
      "\<lparr>bu_log = [], bu_KafkaPublishTotal = []\<rparr>" 5]
  then obtain m b' ev where r: "publish_on_bus unary_avro (\<lambda>m. False) p (EvHandEnded ex_ended) \<lparr>bu_log = [], bu_KafkaPublishTotal = []\<rparr> = (Ok (), b')"
    "bu_log b' = [m]" "bm_Key m = ''h''"
    "fst (Decode unary_avro ex_lookup 5 (bm_Value m) \<lparr>mm_Topic = ''hand.ended'', mm_Partition = 0, mm_Offset = 0\<rparr>
        \<lparr>dc_codecs = (\<lambda>_. None)\<rparr>) = Ok ev"
    "de_HandSummary ev = event_summary unary_avro (EvHandEnded ex_ended)"
    by (auto simp: reports_def ex_ended_def)
  moreover have "\<exists>y. event_summary unary_avro (EvHandEnded ex_ended) = Some y \<and> hy_Rake y = 3 \<and> hy_OccurredAt y = 1715512345678000000"
    by (simp add: ex_ended_def unary_avro_def seen_at_def to_millis_def UnixMilli_def)
  ultimately show ?thesis using p by metis
qed

end
