(* ===== verification/Analytics.thy ===== *)
theory Analytics
  imports EventBus
begin

text \<open>
  The analytics ingestor: the storage of decoded events in ClickHouse
  (\<open>internal/storage/clickhouse/storage.go\<close>) and the Kafka consumer
  (\<open>internal/consumer/kafka/consumer.go\<close>).

  A table is the list of its rows in the order of insertion. Its engine, \<open>ReplacingMergeTree\<close>, keeps
  the last row of each key; \<open>final\<close> is what a query with \<open>FINAL\<close> sees. An insert can be refused, and
  its answer can be lost after it was done.
\<close>

section \<open>Storage\<close>

record ClickDB =
  ck_raw_events :: "RawEvent list"
  ck_hand_actions :: "HandAction list"
  ck_hand_summaries :: "HandSummary list"

record Click =
  cl_refuses :: "string \<Rightarrow> bool"
  cl_loses :: "string \<Rightarrow> bool"

definition exec_insert :: "Click \<Rightarrow> string \<Rightarrow> ClickDB \<Rightarrow> ClickDB \<Rightarrow> unit bus \<times> ClickDB" where
  "exec_insert c table inserted db =
     (if cl_refuses c table then (Err (''insert '' @ table @ '' row''), db)
      else if cl_loses c table then (Err (''insert '' @ table @ '' row''), inserted)
      else (Ok (), inserted))"

definition insertRawEvent :: "Click \<Rightarrow> RawEvent \<Rightarrow> ClickDB \<Rightarrow> unit bus \<times> ClickDB" where
  "insertRawEvent c event db =
     exec_insert c ''raw_events'' (db\<lparr>ck_raw_events := ck_raw_events db @ [event]\<rparr>) db"

definition insertHandAction :: "Click \<Rightarrow> HandAction \<Rightarrow> ClickDB \<Rightarrow> unit bus \<times> ClickDB" where
  "insertHandAction c action db =
     exec_insert c ''hand_actions'' (db\<lparr>ck_hand_actions := ck_hand_actions db @ [action]\<rparr>) db"

definition insertHandSummary :: "Click \<Rightarrow> HandSummary \<Rightarrow> ClickDB \<Rightarrow> unit bus \<times> ClickDB" where
  "insertHandSummary c summary db =
     exec_insert c ''hand_summaries'' (db\<lparr>ck_hand_summaries := ck_hand_summaries db @ [summary]\<rparr>) db"

text \<open>\<open>if err := f(); err != nil { return err }\<close>, then the rest.\<close>

fun next_insert :: "unit bus \<times> ClickDB \<Rightarrow> (ClickDB \<Rightarrow> unit bus \<times> ClickDB) \<Rightarrow> unit bus \<times> ClickDB" where
  "next_insert (Ok u, db) k = k db"
| "next_insert (Err e, db) k = (Err e, db)"
| "next_insert (Panic m, db) k = (Panic m, db)"

definition InsertEvent :: "Click \<Rightarrow> DecodedEvent \<Rightarrow> ClickDB \<Rightarrow> unit bus \<times> ClickDB" where
  "InsertEvent c event db =
     next_insert (insertRawEvent c (de_RawEvent event) db) (\<lambda>db.
     next_insert (case de_HandAction event of None \<Rightarrow> (Ok (), db) | Some a \<Rightarrow> insertHandAction c a db) (\<lambda>db.
     case de_HandSummary event of None \<Rightarrow> (Ok (), db) | Some s \<Rightarrow> insertHandSummary c s db))"

text \<open>The sorting keys of the tables.\<close>

definition raw_events_key :: "RawEvent \<Rightarrow> string \<times> int \<times> int \<times> int" where
  "raw_events_key r = (re_HandID r, re_SequenceNumber r, re_KafkaPartition r, re_KafkaOffset r)"

definition hand_actions_key :: "HandAction \<Rightarrow> string \<times> int" where
  "hand_actions_key a = (ha_HandID a, ha_SequenceNumber a)"

definition hand_summaries_key :: "HandSummary \<Rightarrow> string" where
  "hand_summaries_key s = hy_HandID s"

definition final :: "('r \<Rightarrow> 'k) \<Rightarrow> 'r list \<Rightarrow> 'k \<Rightarrow> 'r option" where
  "final key rows = map_of (rev (map (\<lambda>r. (key r, r)) rows))"

section \<open>The consumer\<close>

text \<open>
  A topic is a log per partition; the group has committed a number of messages of each. A reader
  per topic fetches the next message of some partition. The consumer stops at the first error; when
  it is started again it fetches from what is committed, with an empty cache of codecs.
\<close>

record Ingest =
  ig_committed :: "string \<Rightarrow> int \<Rightarrow> nat"
  ig_db :: ClickDB
  ig_decoder :: Decoder

text \<open>What happens during one message: its topic and partition, the clock, the storage and the commit.\<close>

record Attempt =
  tt_topic :: string
  tt_partition :: int
  tt_now :: int
  tt_click :: Click
  tt_commit_refused :: bool
  tt_commit_lost :: bool

definition NewDecoder :: Decoder where
  "NewDecoder = \<lparr>dc_codecs = (\<lambda>_. None)\<rparr>"

definition CommitMessages :: "Attempt \<Rightarrow> Ingest \<Rightarrow> unit bus \<times> Ingest" where
  "CommitMessages t s =
     (let committed = s\<lparr>ig_committed := (ig_committed s)(tt_topic t := (ig_committed s (tt_topic t))
                          (tt_partition t := ig_committed s (tt_topic t) (tt_partition t) + 1))\<rparr>
      in if tt_commit_refused t then (Err ''commit kafka message'', s)
         else if tt_commit_lost t then (Err ''commit kafka message'', committed)
         else (Ok (), committed))"

definition consumeTopic ::
    "Avro \<Rightarrow> (int \<Rightarrow> Schema option) \<Rightarrow> (string \<Rightarrow> int \<Rightarrow> string list) \<Rightarrow> Attempt \<Rightarrow> Ingest \<Rightarrow> unit bus \<times> Ingest" where
  "consumeTopic av lookup msgs t s =
     (let entries = msgs (tt_topic t) (tt_partition t); k = ig_committed s (tt_topic t) (tt_partition t)
      in if length entries \<le> k then (Ok (), s)
         else let (event, d) = Decode av lookup (tt_now t) (entries ! k)
                    \<lparr>mm_Topic = tt_topic t, mm_Partition = tt_partition t, mm_Offset = int k\<rparr> (ig_decoder s);
                  s = s\<lparr>ig_decoder := d\<rparr>
              in case event of
                  Err e \<Rightarrow> (Err (''decode kafka message: '' @ e), s)
                | Panic m \<Rightarrow> (Panic m, s)
                | Ok event \<Rightarrow>
                    (let (r, db) = InsertEvent (tt_click t) event (ig_db s); s = s\<lparr>ig_db := db\<rparr>
                     in case r of
                         Err e \<Rightarrow> (Err (''persist kafka message: '' @ e), s)
                       | Panic m \<Rightarrow> (Panic m, s)
                       | Ok _ \<Rightarrow> CommitMessages t s))"

text \<open>A run of the readers: it returns the first error; the program is then started again.\<close>

fun consumer_Run ::
    "Avro \<Rightarrow> (int \<Rightarrow> Schema option) \<Rightarrow> (string \<Rightarrow> int \<Rightarrow> string list) \<Rightarrow> Attempt list \<Rightarrow> Ingest
     \<Rightarrow> unit bus \<times> Attempt list \<times> Ingest" where
  "consumer_Run av lookup msgs [] s = (Ok (), [], s)"
| "consumer_Run av lookup msgs (t # ts) s =
     (case consumeTopic av lookup msgs t s of
        (Ok _, s) \<Rightarrow> consumer_Run av lookup msgs ts s
      | (Err e, s) \<Rightarrow> (Err e, ts, s)
      | (Panic m, s) \<Rightarrow> (Panic m, ts, s))"

definition restarted :: "unit bus \<times> Ingest \<Rightarrow> Ingest" where
  "restarted r = (case r of (Ok _, s) \<Rightarrow> s | (_, s) \<Rightarrow> s\<lparr>ig_decoder := NewDecoder\<rparr>)"

definition ingest ::
    "Avro \<Rightarrow> (int \<Rightarrow> Schema option) \<Rightarrow> (string \<Rightarrow> int \<Rightarrow> string list) \<Rightarrow> Attempt list \<Rightarrow> Ingest \<Rightarrow> Ingest" where
  "ingest av lookup msgs ts s = foldl (\<lambda>s t. restarted (consumeTopic av lookup msgs t s)) s ts"

definition new_ingest :: Ingest where
  "new_ingest = \<lparr>ig_committed = (\<lambda>_ _. 0), ig_db = \<lparr>ck_raw_events = [], ck_hand_actions = [], ck_hand_summaries = []\<rparr>,
     ig_decoder = NewDecoder\<rparr>"

text \<open>
  Running the readers, restarting them after each error, until the attempts are used up is \<open>ingest\<close>.
\<close>

lemma restarted_simps [simp]:
  "restarted (Ok u, s) = s" "restarted (Err e, s) = s\<lparr>ig_decoder := NewDecoder\<rparr>"
  "restarted (Panic m, s) = s\<lparr>ig_decoder := NewDecoder\<rparr>"
  by (simp_all add: restarted_def)

lemma ingest_simps [simp]:
  "ingest av lookup msgs [] s = s"
  "ingest av lookup msgs (t # ts) s = ingest av lookup msgs ts (restarted (consumeTopic av lookup msgs t s))"
  by (simp_all add: ingest_def)

lemma consumer_Run_ingest:
  assumes "consumer_Run av lookup msgs ts s = (r, rest, s')"
  shows "ingest av lookup msgs ts s = ingest av lookup msgs rest (restarted (r, s'))"
  using assms
proof (induction av lookup msgs ts s rule: consumer_Run.induct)
  case (2 av lookup msgs t ts s)
  obtain x u where m: "consumeTopic av lookup msgs t s = (x, u)" by fastforce
  show ?case using 2 m by (cases x) auto
qed auto

section \<open>Last rows\<close>

lemma final_Some: "final key rows k = Some r \<Longrightarrow> r \<in> set rows \<and> key r = k"
  unfolding final_def by (auto dest: map_of_SomeD)

lemma final_ex: "r \<in> set rows \<Longrightarrow> \<exists>r'. final key rows (key r) = Some r'"
  by (cases "final key rows (key r)") (auto simp: final_def map_of_eq_None_iff image_iff)

lemma final_same:
  assumes "r \<in> set rows" "\<And>r'. \<lbrakk>r' \<in> set rows; key r' = key r\<rbrakk> \<Longrightarrow> f r' = f r"
  shows "\<exists>r'. final key rows (key r) = Some r' \<and> f r' = f r"
proof -
  obtain r' where r': "final key rows (key r) = Some r'" using final_ex [OF assms(1)] by blast
  with final_Some [OF r'] assms(2) show ?thesis by blast
qed

section \<open>What a log holds\<close>

text \<open>A message of the log was published for an event.\<close>

definition written :: "Avro \<Rightarrow> Publisher \<Rightarrow> string \<Rightarrow> string \<Rightarrow> EngineEvent \<Rightarrow> bool" where
  "written av p topic v e \<longleftrightarrow> event_fits e
     \<and> (\<exists>refused b b' m. publish_on_bus av refused p e b = (Ok (), b') \<and> bu_log b' = bu_log b @ [m]
        \<and> bm_Topic m = topic \<and> bm_Value m = v)"

definition logged ::
    "Avro \<Rightarrow> Publisher \<Rightarrow> (string \<Rightarrow> int \<Rightarrow> string list) \<Rightarrow> (string \<Rightarrow> int \<Rightarrow> nat \<Rightarrow> EngineEvent) \<Rightarrow> bool" where
  "logged av p msgs E \<longleftrightarrow> (\<forall>t i k. k < length (msgs t i) \<longrightarrow> written av p t (msgs t i ! k) (E t i k))"

fun event_seq :: "EngineEvent \<Rightarrow> int" where
  "event_seq (EvHandStarted e) = hs_SequenceNumber e"
| "event_seq (EvPlayerActed e) = pa_SequenceNumber e"
| "event_seq (EvHandEnded e) = he_SequenceNumber e"

text \<open>
  An event is alone if no other event of the log has its hand and its number, and none but it ends
  its hand; the same event may be in the log more than once. The engine numbers the events of a hand
  without a gap, but it publishes an action before it saves it: when the save fails, another action
  can be published under the same number.
\<close>

definition alone :: "(string \<Rightarrow> int \<Rightarrow> string list) \<Rightarrow> (string \<Rightarrow> int \<Rightarrow> nat \<Rightarrow> EngineEvent) \<Rightarrow> EngineEvent \<Rightarrow> bool" where
  "alone msgs E e \<longleftrightarrow>
     (\<forall>t i k. k < length (msgs t i) \<and> event_hand (E t i k) = event_hand e
        \<and> (event_seq (E t i k) = event_seq e \<or> event_topic (E t i k) = topicHandEnded \<and> event_topic e = topicHandEnded)
        \<longrightarrow> E t i k = e)"


lemma written_decodes:
  assumes lib: "goavro_ok av" "\<And>v. av_Marshal av v \<noteq> None" and same: "same_registry p lookup d"
    and w: "written av p topic v e" and meta: "mm_Topic meta = topic"
  shows "topic = event_topic e" "\<exists>ev. fst (Decode av lookup now v meta d) = Ok ev \<and> reports av e meta ev"
    "cache_ok lookup (snd (Decode av lookup now v meta d))"
proof -
  obtain refused b b' m where m: "event_fits e" "publish_on_bus av refused p e b = (Ok (), b')" "bu_log b' = bu_log b @ [m]"
    "bm_Topic m = topic" "bm_Value m = v"
    using w unfolding written_def by blast
  have "\<exists>m'. publish_on_bus av refused p e b
      = (if refused m' then (Err (''kafka publisher: write message to '' @ event_topic e),
             b\<lparr>bu_KafkaPublishTotal := bu_KafkaPublishTotal b @ [(event_topic e, ''error'')]\<rparr>)
         else (Ok (), b\<lparr>bu_log := bu_log b @ [m'], bu_KafkaPublishTotal := bu_KafkaPublishTotal b @ [(event_topic e, ''ok'')]\<rparr>))
      \<and> bm_Topic m' = event_topic e \<and> (mm_Topic meta = event_topic e \<longrightarrow>
        (\<exists>ev. fst (Decode av lookup now (bm_Value m') meta d) = Ok ev \<and> reports av e meta ev)
        \<and> cache_ok lookup (snd (Decode av lookup now (bm_Value m') meta d)))"
  proof -
    let ?meta = "\<lparr>mm_Topic = event_topic e, mm_Partition = mm_Partition meta, mm_Offset = mm_Offset meta\<rparr>"
    have "meta = ?meta" if "mm_Topic meta = event_topic e" using that by simp
    moreover have "mm_Topic ?meta = event_topic e" by simp
    note published_decodes [OF lib same m(1) this, of now]
    ultimately show ?thesis by metis
  qed
  then obtain m' where m': "publish_on_bus av refused p e b
      = (if refused m' then (Err (''kafka publisher: write message to '' @ event_topic e),
             b\<lparr>bu_KafkaPublishTotal := bu_KafkaPublishTotal b @ [(event_topic e, ''error'')]\<rparr>)
         else (Ok (), b\<lparr>bu_log := bu_log b @ [m'], bu_KafkaPublishTotal := bu_KafkaPublishTotal b @ [(event_topic e, ''ok'')]\<rparr>))"
    "bm_Topic m' = event_topic e" "mm_Topic meta = event_topic e \<Longrightarrow>
        (\<exists>ev. fst (Decode av lookup now (bm_Value m') meta d) = Ok ev \<and> reports av e meta ev)
        \<and> cache_ok lookup (snd (Decode av lookup now (bm_Value m') meta d))"
    by blast
  have "m' = m" using m(2,3) m'(1) by (auto split: if_splits)
  then show "topic = event_topic e" "\<exists>ev. fst (Decode av lookup now v meta d) = Ok ev \<and> reports av e meta ev"
    "cache_ok lookup (snd (Decode av lookup now v meta d))"
    using m' m meta by auto
qed

section \<open>What the storage holds\<close>

text \<open>The rows of a message of the log.\<close>

definition raw_of :: "Avro \<Rightarrow> (string \<Rightarrow> int \<Rightarrow> nat \<Rightarrow> EngineEvent) \<Rightarrow> string \<Rightarrow> int \<Rightarrow> nat \<Rightarrow> RawEvent \<Rightarrow> bool" where
  "raw_of av E t i k r \<longleftrightarrow> header r = event_header av (E t i k) \<and> re_EventType r = t \<and> re_KafkaTopic r = t
     \<and> re_KafkaPartition r = i \<and> re_KafkaOffset r = int k"

definition rows_from ::
    "Avro \<Rightarrow> (string \<Rightarrow> int \<Rightarrow> string list) \<Rightarrow> (string \<Rightarrow> int \<Rightarrow> nat \<Rightarrow> EngineEvent) \<Rightarrow> ClickDB \<Rightarrow> bool" where
  "rows_from av msgs E db \<longleftrightarrow>
     (\<forall>r \<in> set (ck_raw_events db). \<exists>t i k. k < length (msgs t i) \<and> raw_of av E t i k r)
     \<and> (\<forall>a \<in> set (ck_hand_actions db). \<exists>t i k. k < length (msgs t i) \<and> event_action av (E t i k) = Some a)
     \<and> (\<forall>y \<in> set (ck_hand_summaries db). \<exists>t i k. k < length (msgs t i) \<and> event_summary av (E t i k) = Some y)"

definition rows_of :: "Avro \<Rightarrow> (string \<Rightarrow> int \<Rightarrow> nat \<Rightarrow> EngineEvent) \<Rightarrow> string \<Rightarrow> int \<Rightarrow> nat \<Rightarrow> ClickDB \<Rightarrow> bool" where
  "rows_of av E t i k db \<longleftrightarrow> (\<exists>r \<in> set (ck_raw_events db). raw_of av E t i k r)
     \<and> set_option (event_action av (E t i k)) \<subseteq> set (ck_hand_actions db)
     \<and> set_option (event_summary av (E t i k)) \<subseteq> set (ck_hand_summaries db)"

definition grows :: "ClickDB \<Rightarrow> DecodedEvent \<Rightarrow> ClickDB \<Rightarrow> bool" where
  "grows db ev db' \<longleftrightarrow>
     set (ck_raw_events db) \<subseteq> set (ck_raw_events db') \<and> set (ck_raw_events db') \<subseteq> insert (de_RawEvent ev) (set (ck_raw_events db))
     \<and> set (ck_hand_actions db) \<subseteq> set (ck_hand_actions db')
     \<and> set (ck_hand_actions db') \<subseteq> set_option (de_HandAction ev) \<union> set (ck_hand_actions db)
     \<and> set (ck_hand_summaries db) \<subseteq> set (ck_hand_summaries db')
     \<and> set (ck_hand_summaries db') \<subseteq> set_option (de_HandSummary ev) \<union> set (ck_hand_summaries db)"

lemma InsertEvent_grows:
  assumes "InsertEvent c ev db = (r, db')"
  shows "grows db ev db'"
    "r = Ok u \<Longrightarrow> de_RawEvent ev \<in> set (ck_raw_events db') \<and> set_option (de_HandAction ev) \<subseteq> set (ck_hand_actions db')
      \<and> set_option (de_HandSummary ev) \<subseteq> set (ck_hand_summaries db')"
  using assms
  by (auto simp: grows_def InsertEvent_def insertRawEvent_def insertHandAction_def insertHandSummary_def exec_insert_def
      split: option.splits if_splits)

lemma rows_of_grows: "rows_of av E t i k db \<Longrightarrow> grows db ev db' \<Longrightarrow> rows_of av E t i k db'"
  unfolding rows_of_def grows_def by blast

lemma reports_raw_of:
  "reports av (E t i k) \<lparr>mm_Topic = t, mm_Partition = i, mm_Offset = int k\<rparr> ev \<Longrightarrow> t = event_topic (E t i k)
    \<Longrightarrow> raw_of av E t i k (de_RawEvent ev)"
  by (simp add: reports_def raw_of_def)

definition ingest_inv ::
    "Avro \<Rightarrow> (int \<Rightarrow> Schema option) \<Rightarrow> (string \<Rightarrow> int \<Rightarrow> string list) \<Rightarrow> (string \<Rightarrow> int \<Rightarrow> nat \<Rightarrow> EngineEvent) \<Rightarrow> Ingest \<Rightarrow> bool" where
  "ingest_inv av lookup msgs E s \<longleftrightarrow> cache_ok lookup (ig_decoder s) \<and> rows_from av msgs E (ig_db s)
     \<and> (\<forall>t i. ig_committed s t i \<le> length (msgs t i) \<and> (\<forall>k < ig_committed s t i. rows_of av E t i k (ig_db s)))"


lemma rows_from_grows:
  assumes "rows_from av msgs E db" "grows db ev db'" "k < length (msgs t i)" "t = event_topic (E t i k)"
    and "reports av (E t i k) \<lparr>mm_Topic = t, mm_Partition = i, mm_Offset = int k\<rparr> ev"
  shows "rows_from av msgs E db'"
  unfolding rows_from_def
proof (intro conjI ballI)
  have new: "event_action av (E t i k) = de_HandAction ev" "event_summary av (E t i k) = de_HandSummary ev"
    using assms(5) by (simp_all add: reports_def)
  fix r assume "r \<in> set (ck_raw_events db')"
  then consider "r \<in> set (ck_raw_events db)" | "r = de_RawEvent ev" using assms(2) unfolding grows_def by blast
  then show "\<exists>t i k. k < length (msgs t i) \<and> raw_of av E t i k r"
    by cases (use assms(1) rows_from_def reports_raw_of [of av E, OF assms(5,4)] assms(3) in blast)+
next
  fix a assume "a \<in> set (ck_hand_actions db')"
  then consider "a \<in> set (ck_hand_actions db)" | "de_HandAction ev = Some a" using assms(2) unfolding grows_def by fastforce
  then show "\<exists>t i k. k < length (msgs t i) \<and> event_action av (E t i k) = Some a"
    by cases (use assms(1,3,5) rows_from_def in \<open>force simp: reports_def\<close>)+
next
  fix y assume "y \<in> set (ck_hand_summaries db')"
  then consider "y \<in> set (ck_hand_summaries db)" | "de_HandSummary ev = Some y" using assms(2) unfolding grows_def by fastforce
  then show "\<exists>t i k. k < length (msgs t i) \<and> event_summary av (E t i k) = Some y"
    by cases (use assms(1,3,5) rows_from_def in \<open>force simp: reports_def\<close>)+
qed

text \<open>One message: what the decoder makes of it, then the storage, then the commit.\<close>

lemma consumeTopic_cases:
  assumes ls: "goavro_ok av" "\<And>v. av_Marshal av v \<noteq> None" "\<And>d. cache_ok lookup d \<Longrightarrow> same_registry p lookup d"
    and log: "logged av p msgs E" and cache: "cache_ok lookup (ig_decoder s)"
    and k: "ig_committed s (tt_topic t) (tt_partition t) < length (msgs (tt_topic t) (tt_partition t))"
  obtains ev d r db where "cache_ok lookup d"
    "reports av (E (tt_topic t) (tt_partition t) (ig_committed s (tt_topic t) (tt_partition t)))
       \<lparr>mm_Topic = tt_topic t, mm_Partition = tt_partition t, mm_Offset = int (ig_committed s (tt_topic t) (tt_partition t))\<rparr> ev"
    "tt_topic t = event_topic (E (tt_topic t) (tt_partition t) (ig_committed s (tt_topic t) (tt_partition t)))"
    "InsertEvent (tt_click t) ev (ig_db s) = (r, db)"
    "consumeTopic av lookup msgs t s = (case r of Ok _ \<Rightarrow> CommitMessages t (s\<lparr>ig_decoder := d, ig_db := db\<rparr>)
        | Err e \<Rightarrow> (Err (''persist kafka message: '' @ e), s\<lparr>ig_decoder := d, ig_db := db\<rparr>)
        | Panic m \<Rightarrow> (Panic m, s\<lparr>ig_decoder := d, ig_db := db\<rparr>))"
proof -
  let ?k = "ig_committed s (tt_topic t) (tt_partition t)"
  let ?meta = "\<lparr>mm_Topic = tt_topic t, mm_Partition = tt_partition t, mm_Offset = int ?k\<rparr>"
  let ?v = "msgs (tt_topic t) (tt_partition t) ! ?k"
  have w: "written av p (tt_topic t) ?v (E (tt_topic t) (tt_partition t) ?k)" using log k unfolding logged_def by blast
  note dec = written_decodes [OF ls(1,2) ls(3) [OF cache] w, of ?meta, simplified]
  then obtain ev where ev: "fst (Decode av lookup (tt_now t) ?v ?meta (ig_decoder s)) = Ok ev"
    "reports av (E (tt_topic t) (tt_partition t) ?k) ?meta ev" by blast
  let ?d = "snd (Decode av lookup (tt_now t) ?v ?meta (ig_decoder s))"
  obtain r db where i: "InsertEvent (tt_click t) ev (ig_db s) = (r, db)" by fastforce
  show thesis
  proof (rule that [of ?d ev r db])
    show "consumeTopic av lookup msgs t s = (case r of Ok _ \<Rightarrow> CommitMessages t (s\<lparr>ig_decoder := ?d, ig_db := db\<rparr>)
        | Err e \<Rightarrow> (Err (''persist kafka message: '' @ e), s\<lparr>ig_decoder := ?d, ig_db := db\<rparr>)
        | Panic m \<Rightarrow> (Panic m, s\<lparr>ig_decoder := ?d, ig_db := db\<rparr>))"
      using k ev(1) i by (simp add: consumeTopic_def Let_def case_prod_beta split: outcome.split)
  qed (use dec ev i in auto)
qed


lemma cache_ok_new [simp]: "cache_ok lookup NewDecoder"
  by (simp add: cache_ok_def NewDecoder_def)

lemma restarted_inv: "ingest_inv av lookup msgs E s \<Longrightarrow> ingest_inv av lookup msgs E (restarted (r, s))"
  by (cases r) (simp_all add: ingest_inv_def)

lemma CommitMessages_inv:
  assumes "ingest_inv av lookup msgs E s" "ig_committed s (tt_topic t) (tt_partition t) < length (msgs (tt_topic t) (tt_partition t))"
    and "rows_of av E (tt_topic t) (tt_partition t) (ig_committed s (tt_topic t) (tt_partition t)) (ig_db s)"
  shows "ingest_inv av lookup msgs E (snd (CommitMessages t s))"
  using assms by (auto simp: CommitMessages_def Let_def ingest_inv_def less_Suc_eq)

lemma consumeTopic_inv:
  assumes ls: "goavro_ok av" "\<And>v. av_Marshal av v \<noteq> None" "\<And>d. cache_ok lookup d \<Longrightarrow> same_registry p lookup d"
    and log: "logged av p msgs E" and inv: "ingest_inv av lookup msgs E s"
  shows "ingest_inv av lookup msgs E (snd (consumeTopic av lookup msgs t s))"
proof (cases "ig_committed s (tt_topic t) (tt_partition t) < length (msgs (tt_topic t) (tt_partition t))")
  case True
  have cache: "cache_ok lookup (ig_decoder s)" using inv by (simp add: ingest_inv_def)
  obtain ev d r db where
    d: "cache_ok lookup d" and rep: "reports av (E (tt_topic t) (tt_partition t) (ig_committed s (tt_topic t) (tt_partition t)))
       \<lparr>mm_Topic = tt_topic t, mm_Partition = tt_partition t, mm_Offset = int (ig_committed s (tt_topic t) (tt_partition t))\<rparr> ev"
    and topic: "tt_topic t = event_topic (E (tt_topic t) (tt_partition t) (ig_committed s (tt_topic t) (tt_partition t)))"
    and ins: "InsertEvent (tt_click t) ev (ig_db s) = (r, db)"
    and run: "consumeTopic av lookup msgs t s = (case r of Ok _ \<Rightarrow> CommitMessages t (s\<lparr>ig_decoder := d, ig_db := db\<rparr>)
        | Err e \<Rightarrow> (Err (''persist kafka message: '' @ e), s\<lparr>ig_decoder := d, ig_db := db\<rparr>)
        | Panic m \<Rightarrow> (Panic m, s\<lparr>ig_decoder := d, ig_db := db\<rparr>))"
    by (rule consumeTopic_cases [OF ls log cache True])
  note g = InsertEvent_grows(1) [OF ins]
  have "rows_from av msgs E (ig_db s)" using inv by (simp add: ingest_inv_def)
  from rows_from_grows [OF this g True topic rep] have s: "ingest_inv av lookup msgs E (s\<lparr>ig_decoder := d, ig_db := db\<rparr>)"
    using inv d rows_of_grows [OF _ g] by (auto simp: ingest_inv_def)
  have "rows_of av E (tt_topic t) (tt_partition t) (ig_committed s (tt_topic t) (tt_partition t)) db" if "r = Ok u" for u
    using InsertEvent_grows(2) [OF ins that] reports_raw_of [of av E "tt_topic t" "tt_partition t" "ig_committed s (tt_topic t) (tt_partition t)", OF rep topic] rep by (auto simp: rows_of_def reports_def)
  with s show ?thesis using CommitMessages_inv [of av lookup msgs E "s\<lparr>ig_decoder := d, ig_db := db\<rparr>" t] True
    by (auto simp: run split: outcome.split)
qed (use inv in \<open>simp add: consumeTopic_def Let_def\<close>)

lemma ingest_inv:
  assumes ls: "goavro_ok av" "\<And>v. av_Marshal av v \<noteq> None" "\<And>d. cache_ok lookup d \<Longrightarrow> same_registry p lookup d"
    and log: "logged av p msgs E" and inv: "ingest_inv av lookup msgs E s"
  shows "ingest_inv av lookup msgs E (ingest av lookup msgs ts s)"
  using inv
proof (induction ts arbitrary: s)
  case (Cons t ts)
  obtain r u where c: "consumeTopic av lookup msgs t s = (r, u)" by fastforce
  show ?case using Cons.IH restarted_inv consumeTopic_inv [OF ls log Cons.prems, of t] by (simp add: c)
qed simp

lemma new_ingest_inv: "ingest_inv av lookup msgs E new_ingest"
  by (simp add: ingest_inv_def new_ingest_def rows_from_def)

text \<open>
  What a query sees: of each key the last row.
\<close>

definition visible_raw :: "ClickDB \<Rightarrow> string \<times> int \<times> int \<times> int \<Rightarrow> RawEvent option" where
  "visible_raw db = final raw_events_key (ck_raw_events db)"

definition visible_action :: "ClickDB \<Rightarrow> string \<times> int \<Rightarrow> HandAction option" where
  "visible_action db = final hand_actions_key (ck_hand_actions db)"

definition visible_summary :: "ClickDB \<Rightarrow> string \<Rightarrow> HandSummary option" where
  "visible_summary db = final hand_summaries_key (ck_hand_summaries db)"

lemma event_action_facts:
  "event_action av e = Some a \<Longrightarrow> ha_HandID a = event_hand e \<and> ha_SequenceNumber a = event_seq e"
  by (cases e) auto

lemma event_summary_facts:
  "event_summary av e = Some y \<Longrightarrow> hy_HandID y = event_hand e \<and> event_topic e = topicHandEnded"
  by (cases e) auto

lemma event_header_hand: "event_header av e = (i, v, h, tb, n, w) \<Longrightarrow> h = event_hand e \<and> n = event_seq e"
  by (cases e) auto

lemma raw_of_key:
  "raw_of av E t i k r \<Longrightarrow> raw_events_key r = (event_hand (E t i k), event_seq (E t i k), i, int k)"
  by (auto simp: raw_of_def header_def raw_events_key_def dest: event_header_hand [OF sym])


lemma logged_topic:
  assumes "goavro_ok av" "\<And>v. av_Marshal av v \<noteq> None" "same_registry p lookup d" "logged av p msgs E" "k < length (msgs t i)"
  shows "t = event_topic (E t i k)"
proof -
  have "written av p t (msgs t i ! k) (E t i k)" using assms(4,5) unfolding logged_def by blast
  from written_decodes(1) [OF assms(1-3) this, of "\<lparr>mm_Topic = t, mm_Partition = i, mm_Offset = int k\<rparr>"] show ?thesis by simp
qed

lemma visible_rows:
  assumes inv: "ingest_inv av lookup msgs E s" and apart: "alone msgs E (E t i k)"
    and topic: "\<And>t i k. k < length (msgs t i) \<Longrightarrow> t = event_topic (E t i k)"
    and k: "k < ig_committed s t i"
  shows "\<exists>r. visible_raw (ig_db s) (event_hand (E t i k), event_seq (E t i k), i, int k) = Some r \<and> raw_of av E t i k r"
    "event_action av (E t i k) = Some a \<Longrightarrow> visible_action (ig_db s) (ha_HandID a, ha_SequenceNumber a) = Some a"
    "event_summary av (E t i k) = Some y \<Longrightarrow> visible_summary (ig_db s) (hy_HandID y) = Some y"
proof -
  have from_: "rows_from av msgs E (ig_db s)" and k': "k < length (msgs t i)" and of_: "rows_of av E t i k (ig_db s)"
    using inv k unfolding ingest_inv_def by (auto intro: less_le_trans)
  obtain r where r: "r \<in> set (ck_raw_events (ig_db s))" "raw_of av E t i k r" using of_ unfolding rows_of_def by blast
  have "raw_of av E t i k r'" if r': "r' \<in> set (ck_raw_events (ig_db s))" "raw_events_key r' = raw_events_key r" for r'
  proof -
    obtain t' i' j where j: "j < length (msgs t' i')" "raw_of av E t' i' j r'" using from_ r'(1) unfolding rows_from_def by blast
    have "(event_hand (E t' i' j), event_seq (E t' i' j), i', int j) = (event_hand (E t i k), event_seq (E t i k), i, int k)"
      using raw_of_key [OF j(2)] raw_of_key [OF r(2)] r'(2) by metis
    then have "event_hand (E t' i' j) = event_hand (E t i k)" "event_seq (E t' i' j) = event_seq (E t i k)" "i' = i" "j = k"
      unfolding prod.inject of_nat_eq_iff by blast+
    moreover from this have "E t' i' j = E t i k" using apart j(1) unfolding alone_def by blast
    ultimately show ?thesis using j topic [OF j(1)] topic [OF k'] by simp
  qed
  with final_same [OF r(1), of raw_events_key "raw_of av E t i k"] r(2) raw_of_key [OF r(2)]
  show "\<exists>r. visible_raw (ig_db s) (event_hand (E t i k), event_seq (E t i k), i, int k) = Some r \<and> raw_of av E t i k r"
    unfolding visible_raw_def by auto
next
  have from_: "rows_from av msgs E (ig_db s)" and k': "k < length (msgs t i)" and of_: "rows_of av E t i k (ig_db s)"
    using inv k unfolding ingest_inv_def by (auto intro: less_le_trans)
  assume a: "event_action av (E t i k) = Some a"
  then have "a \<in> set (ck_hand_actions (ig_db s))" using of_ unfolding rows_of_def by simp
  moreover have "a' = a" if a': "a' \<in> set (ck_hand_actions (ig_db s))" "hand_actions_key a' = hand_actions_key a" for a'
  proof -
    obtain t' i' j where j: "j < length (msgs t' i')" "event_action av (E t' i' j) = Some a'" using from_ a'(1) unfolding rows_from_def by blast
    have "event_hand (E t' i' j) = event_hand (E t i k)" "event_seq (E t' i' j) = event_seq (E t i k)"
      using event_action_facts [OF j(2)] event_action_facts [OF a] a'(2) by (simp_all add: hand_actions_key_def)
    then have "E t' i' j = E t i k" using apart j(1) unfolding alone_def by blast
    then show ?thesis using a j(2) by simp
  qed
  ultimately show "visible_action (ig_db s) (ha_HandID a, ha_SequenceNumber a) = Some a"
    using final_same [of a _ hand_actions_key "\<lambda>a. a"] by (auto simp: visible_action_def hand_actions_key_def)
next
  have from_: "rows_from av msgs E (ig_db s)" and k': "k < length (msgs t i)" and of_: "rows_of av E t i k (ig_db s)"
    using inv k unfolding ingest_inv_def by (auto intro: less_le_trans)
  assume y: "event_summary av (E t i k) = Some y"
  then have "y \<in> set (ck_hand_summaries (ig_db s))" using of_ unfolding rows_of_def by simp
  moreover have "y' = y" if y': "y' \<in> set (ck_hand_summaries (ig_db s))" "hand_summaries_key y' = hand_summaries_key y" for y'
  proof -
    obtain t' i' j where j: "j < length (msgs t' i')" "event_summary av (E t' i' j) = Some y'" using from_ y'(1) unfolding rows_from_def by blast
    have "event_hand (E t' i' j) = event_hand (E t i k)" "event_topic (E t' i' j) = topicHandEnded" "event_topic (E t i k) = topicHandEnded"
      using event_summary_facts [OF j(2)] event_summary_facts [OF y] y'(2) by (simp_all add: hand_summaries_key_def)
    then have "E t' i' j = E t i k" using apart j(1) unfolding alone_def by blast
    then show ?thesis using y j(2) by simp
  qed
  ultimately show "visible_summary (ig_db s) (hy_HandID y) = Some y"
    using final_same [of y _ hand_summaries_key "\<lambda>y. y"] by (auto simp: visible_summary_def hand_summaries_key_def)
qed

text \<open>Without that condition each key still shows the row of some message with that key.\<close>

lemma visible_some:
  assumes inv: "ingest_inv av lookup msgs E s" and k: "k < ig_committed s t i"
  shows "\<exists>r t'. visible_raw (ig_db s) (event_hand (E t i k), event_seq (E t i k), i, int k) = Some r \<and> k < length (msgs t' i)
      \<and> event_hand (E t' i k) = event_hand (E t i k) \<and> event_seq (E t' i k) = event_seq (E t i k) \<and> raw_of av E t' i k r"
    "event_action av (E t i k) = Some a \<Longrightarrow> \<exists>b t' i' k'. visible_action (ig_db s) (event_hand (E t i k), event_seq (E t i k)) = Some b
      \<and> k' < length (msgs t' i') \<and> event_action av (E t' i' k') = Some b"
    "event_summary av (E t i k) = Some y \<Longrightarrow> \<exists>z t' i' k'. visible_summary (ig_db s) (event_hand (E t i k)) = Some z
      \<and> k' < length (msgs t' i') \<and> event_summary av (E t' i' k') = Some z"
proof -
  have from_: "rows_from av msgs E (ig_db s)" and k': "k < length (msgs t i)" and of_: "rows_of av E t i k (ig_db s)"
    using inv k unfolding ingest_inv_def by (auto intro: less_le_trans)
  obtain r where r: "r \<in> set (ck_raw_events (ig_db s))" "raw_of av E t i k r" using of_ unfolding rows_of_def by blast
  obtain r' where r': "visible_raw (ig_db s) (event_hand (E t i k), event_seq (E t i k), i, int k) = Some r'"
    using final_ex [OF r(1), of raw_events_key] raw_of_key [OF r(2)] by (auto simp: visible_raw_def)
  note s' = final_Some [OF r' [unfolded visible_raw_def]]
  obtain t' i' j where j: "j < length (msgs t' i')" "raw_of av E t' i' j r'" using from_ s' unfolding rows_from_def by blast
  have "(event_hand (E t' i' j), event_seq (E t' i' j), i', int j) = (event_hand (E t i k), event_seq (E t i k), i, int k)"
    using raw_of_key [OF j(2)] s' by metis
  then have "event_hand (E t' i' j) = event_hand (E t i k)" "event_seq (E t' i' j) = event_seq (E t i k)" "i' = i" "j = k"
    unfolding prod.inject of_nat_eq_iff by blast+
  then show "\<exists>r t'. visible_raw (ig_db s) (event_hand (E t i k), event_seq (E t i k), i, int k) = Some r \<and> k < length (msgs t' i)
      \<and> event_hand (E t' i k) = event_hand (E t i k) \<and> event_seq (E t' i k) = event_seq (E t i k) \<and> raw_of av E t' i k r"
    using r' j by blast
  show "\<exists>b t' i' k'. visible_action (ig_db s) (event_hand (E t i k), event_seq (E t i k)) = Some b
      \<and> k' < length (msgs t' i') \<and> event_action av (E t' i' k') = Some b" if a: "event_action av (E t i k) = Some a"
  proof -
    have "a \<in> set (ck_hand_actions (ig_db s))" using of_ a unfolding rows_of_def by simp
    from final_ex [OF this, of hand_actions_key]
    obtain b where b: "visible_action (ig_db s) (event_hand (E t i k), event_seq (E t i k)) = Some b"
      using event_action_facts [OF a] by (auto simp: visible_action_def hand_actions_key_def)
    then show ?thesis using final_Some [OF b [unfolded visible_action_def]] from_ unfolding rows_from_def by blast
  qed
  show "\<exists>z t' i' k'. visible_summary (ig_db s) (event_hand (E t i k)) = Some z
      \<and> k' < length (msgs t' i') \<and> event_summary av (E t' i' k') = Some z" if y: "event_summary av (E t i k) = Some y"
  proof -
    have "y \<in> set (ck_hand_summaries (ig_db s))" using of_ y unfolding rows_of_def by simp
    from final_ex [OF this, of hand_summaries_key]
    obtain z where z: "visible_summary (ig_db s) (event_hand (E t i k)) = Some z"
      using event_summary_facts [OF y] by (auto simp: visible_summary_def hand_summaries_key_def)
    then show ?thesis using final_Some [OF z [unfolded visible_summary_def]] from_ unfolding rows_from_def by blast
  qed
qed

text \<open>
  C9: Committed events are in the analytics, once per key. The log of the three topics holds
  messages of the engine's publisher, in any order, possibly with an event more than once.
  Whatever faults the storage and the commits have, and however often the consumer is restarted,
  after any number of attempts: for every committed message the raw event with its hand, number,
  partition and offset is visible, for an action its hand and number show an action and for the
  end of a hand its hand shows a summary, each the row of a message of the log with that key; if
  the event is alone under its key (\<^const>\<open>alone\<close>, a condition on this one event, which the engine
  does not guarantee when saving a hand fails), the rows shown are exactly its own. And every row
  that is visible is that of a message of the log.
\<close>

theorem ingested_once_per_key:
  assumes lib: "goavro_ok av" "\<And>v. av_Marshal av v \<noteq> None" and new: "NewPublisher av CreateSchema iter = Ok p" "permuting iter"
    and reg: "registry_ok CreateSchema lookup" and log: "logged av p msgs E"
    and s: "s = ingest av lookup msgs ts new_ingest"
  shows "(\<forall>t i k. k < ig_committed s t i \<longrightarrow>
        (\<exists>r t'. visible_raw (ig_db s) (event_hand (E t i k), event_seq (E t i k), i, int k) = Some r \<and> k < length (msgs t' i)
          \<and> event_hand (E t' i k) = event_hand (E t i k) \<and> event_seq (E t' i k) = event_seq (E t i k) \<and> raw_of av E t' i k r)
        \<and> (event_action av (E t i k) \<noteq> None \<longrightarrow> visible_action (ig_db s) (event_hand (E t i k), event_seq (E t i k)) \<noteq> None)
        \<and> (event_summary av (E t i k) \<noteq> None \<longrightarrow> visible_summary (ig_db s) (event_hand (E t i k)) \<noteq> None)
        \<and> (alone msgs E (E t i k) \<longrightarrow>
          (\<exists>r. visible_raw (ig_db s) (event_hand (E t i k), event_seq (E t i k), i, int k) = Some r \<and> raw_of av E t i k r)
          \<and> (\<forall>a. event_action av (E t i k) = Some a \<longrightarrow> visible_action (ig_db s) (ha_HandID a, ha_SequenceNumber a) = Some a)
          \<and> (\<forall>y. event_summary av (E t i k) = Some y \<longrightarrow> visible_summary (ig_db s) (hy_HandID y) = Some y)))
    \<and> (\<forall>key r. visible_raw (ig_db s) key = Some r \<longrightarrow> (\<exists>t i k. k < length (msgs t i) \<and> raw_of av E t i k r))
    \<and> (\<forall>h n a. visible_action (ig_db s) (h, n) = Some a \<longrightarrow>
        (\<exists>t i k. k < length (msgs t i) \<and> event_action av (E t i k) = Some a \<and> event_hand (E t i k) = h \<and> event_seq (E t i k) = n))
    \<and> (\<forall>h y. visible_summary (ig_db s) h = Some y \<longrightarrow>
        (\<exists>t i k. k < length (msgs t i) \<and> event_summary av (E t i k) = Some y \<and> event_hand (E t i k) = h))"
proof (intro conjI allI impI)
  note same = NewPublisher_registry [OF new reg]
  have inv: "ingest_inv av lookup msgs E s"
    unfolding s by (rule ingest_inv [OF lib same log new_ingest_inv])
  then have from_: "rows_from av msgs E (ig_db s)" by (simp add: ingest_inv_def)
  note topic = logged_topic [OF lib same [OF cache_ok_new] log]
  {
    fix t i k assume k: "k < ig_committed s t i"
    note some = visible_some [OF inv k]
    show "\<exists>r t'. visible_raw (ig_db s) (event_hand (E t i k), event_seq (E t i k), i, int k) = Some r \<and> k < length (msgs t' i)
      \<and> event_hand (E t' i k) = event_hand (E t i k) \<and> event_seq (E t' i k) = event_seq (E t i k) \<and> raw_of av E t' i k r"
      by (rule some(1))
    show "visible_action (ig_db s) (event_hand (E t i k), event_seq (E t i k)) \<noteq> None" if "event_action av (E t i k) \<noteq> None"
      using that some(2) by fastforce
    show "visible_summary (ig_db s) (event_hand (E t i k)) \<noteq> None" if "event_summary av (E t i k) \<noteq> None"
      using that some(3) by fastforce
    show "\<exists>r. visible_raw (ig_db s) (event_hand (E t i k), event_seq (E t i k), i, int k) = Some r \<and> raw_of av E t i k r"
      if "alone msgs E (E t i k)" by (rule visible_rows(1) [OF inv that topic k])
    show "visible_action (ig_db s) (ha_HandID a, ha_SequenceNumber a) = Some a"
      if "alone msgs E (E t i k)" "event_action av (E t i k) = Some a" for a by (rule visible_rows(2) [OF inv that(1) topic k that(2)])
    show "visible_summary (ig_db s) (hy_HandID y) = Some y"
      if "alone msgs E (E t i k)" "event_summary av (E t i k) = Some y" for y by (rule visible_rows(3) [OF inv that(1) topic k that(2)])
  }
  show "\<exists>t i k. k < length (msgs t i) \<and> raw_of av E t i k r" if "visible_raw (ig_db s) key = Some r" for key r
    using final_Some [OF that [unfolded visible_raw_def]] from_ unfolding rows_from_def by blast
  show "\<exists>t i k. k < length (msgs t i) \<and> event_action av (E t i k) = Some a \<and> event_hand (E t i k) = h \<and> event_seq (E t i k) = n"
    if v: "visible_action (ig_db s) (h, n) = Some a" for h n a
  proof -
    note a = final_Some [OF v [unfolded visible_action_def]]
    then obtain t i k where e: "k < length (msgs t i)" "event_action av (E t i k) = Some a" using from_ unfolding rows_from_def by blast
    then show ?thesis using event_action_facts [OF e(2)] a by (auto simp: hand_actions_key_def)
  qed
  show "\<exists>t i k. k < length (msgs t i) \<and> event_summary av (E t i k) = Some y \<and> event_hand (E t i k) = h"
    if v: "visible_summary (ig_db s) h = Some y" for h y
  proof -
    note y = final_Some [OF v [unfolded visible_summary_def]]
    then obtain t i k where e: "k < length (msgs t i)" "event_summary av (E t i k) = Some y" using from_ unfolding rows_from_def by blast
    then show ?thesis using event_summary_facts [OF e(2)] y by (auto simp: hand_summaries_key_def)
  qed
qed

text \<open>An attempt without a fault.\<close>

definition no_fault :: "Attempt \<Rightarrow> bool" where
  "no_fault t \<longleftrightarrow> (\<forall>table. \<not> cl_refuses (tt_click t) table \<and> \<not> cl_loses (tt_click t) table)
     \<and> \<not> tt_commit_refused t \<and> \<not> tt_commit_lost t"

lemma InsertEvent_no_fault: "no_fault t \<Longrightarrow> fst (InsertEvent (tt_click t) ev db) = Ok ()"
  by (auto simp: no_fault_def InsertEvent_def insertRawEvent_def insertHandAction_def insertHandSummary_def exec_insert_def
      split: option.splits)

lemma committed_restarted [simp]: "ig_committed (restarted (r, s)) = ig_committed s"
  by (cases r) simp_all

lemma committed_commit: "ig_committed s t i \<le> ig_committed (snd (CommitMessages a s)) t i"
  by (simp add: CommitMessages_def Let_def)

lemma committed_mono: "ig_committed s t i \<le> ig_committed (snd (consumeTopic av lookup msgs a s)) t i"
  by (auto simp: consumeTopic_def Let_def case_prod_beta split: outcome.split
      intro: order_trans [OF _ committed_commit])


lemma committed_no_fault:
  assumes ls: "goavro_ok av" "\<And>v. av_Marshal av v \<noteq> None" "\<And>d. cache_ok lookup d \<Longrightarrow> same_registry p lookup d"
    and log: "logged av p msgs E" and cache: "cache_ok lookup (ig_decoder s)" and ok: "no_fault a"
    and k: "ig_committed s (tt_topic a) (tt_partition a) < length (msgs (tt_topic a) (tt_partition a))"
  shows "ig_committed (snd (consumeTopic av lookup msgs a s)) (tt_topic a) (tt_partition a)
    = Suc (ig_committed s (tt_topic a) (tt_partition a))"
proof (rule consumeTopic_cases [OF ls log cache k])
  fix ev d r db assume "InsertEvent (tt_click a) ev (ig_db s) = (r, db)"
    and run: "consumeTopic av lookup msgs a s = (case r of Ok _ \<Rightarrow> CommitMessages a (s\<lparr>ig_decoder := d, ig_db := db\<rparr>)
        | Err e \<Rightarrow> (Err (''persist kafka message: '' @ e), s\<lparr>ig_decoder := d, ig_db := db\<rparr>)
        | Panic m \<Rightarrow> (Panic m, s\<lparr>ig_decoder := d, ig_db := db\<rparr>))"
  then have "r = Ok ()" using InsertEvent_no_fault [OF ok, of ev "ig_db s"] by simp
  then show ?thesis using ok by (simp add: run CommitMessages_def Let_def no_fault_def)
qed

lemma committed_after:
  assumes ls: "goavro_ok av" "\<And>v. av_Marshal av v \<noteq> None" "\<And>d. cache_ok lookup d \<Longrightarrow> same_registry p lookup d"
    and log: "logged av p msgs E" and inv: "ingest_inv av lookup msgs E s"
    and enough: "length (msgs topic i) \<le> ig_committed s topic i
      + length (filter (\<lambda>a. no_fault a \<and> tt_topic a = topic \<and> tt_partition a = i) ts)"
  shows "ig_committed (ingest av lookup msgs ts s) topic i = length (msgs topic i)"
  using inv enough
proof (induction ts arbitrary: s)
  case Nil
  then have "ig_committed s topic i \<le> length (msgs topic i)" unfolding ingest_inv_def by blast
  then show ?case using Nil by simp
next
  case (Cons a ts)
  obtain r u where c: "consumeTopic av lookup msgs a s = (r, u)" by fastforce
  have inv': "ingest_inv av lookup msgs E (restarted (r, u))"
    using restarted_inv consumeTopic_inv [OF ls log Cons.prems(1), of a] by (simp add: c)
  have mono: "ig_committed s topic i \<le> ig_committed u topic i" using committed_mono [of s topic i av lookup msgs a] by (simp add: c)
  have u: "ig_committed u topic i \<le> length (msgs topic i)" using inv' by (simp add: ingest_inv_def)
  have "length (msgs topic i) \<le> ig_committed u topic i + length (filter (\<lambda>a. no_fault a \<and> tt_topic a = topic \<and> tt_partition a = i) ts)"
  proof (cases "no_fault a \<and> tt_topic a = topic \<and> tt_partition a = i \<and> ig_committed s topic i < length (msgs topic i)")
    case True
    have "cache_ok lookup (ig_decoder s)" using Cons.prems(1) by (simp add: ingest_inv_def)
    from committed_no_fault [OF ls log this, of a] True have "ig_committed u topic i = Suc (ig_committed s topic i)" by (simp add: c)
    then show ?thesis using Cons.prems(2) True by simp
  next
    case False
    then show ?thesis using Cons.prems(2) mono by (auto split: if_splits)
  qed
  then show ?case using Cons.IH [OF inv'] by (simp add: c)
qed

text \<open>
  C23: The analytics catch up. If a partition is tried often enough without a fault, in whatever
  order with faults and with the other partitions, all of its messages are committed.
\<close>

theorem ingest_catches_up:
  assumes lib: "goavro_ok av" "\<And>v. av_Marshal av v \<noteq> None" and new: "NewPublisher av CreateSchema iter = Ok p" "permuting iter"
    and reg: "registry_ok CreateSchema lookup" and log: "logged av p msgs E"
    and enough: "length (msgs topic i) \<le> length (filter (\<lambda>a. no_fault a \<and> tt_topic a = topic \<and> tt_partition a = i) ts)"
  shows "ig_committed (ingest av lookup msgs ts new_ingest) topic i = length (msgs topic i)"
proof (rule committed_after [OF lib NewPublisher_registry [OF new reg] log new_ingest_inv])
  show "length (msgs topic i) \<le> ig_committed new_ingest topic i
      + length (filter (\<lambda>a. no_fault a \<and> tt_topic a = topic \<and> tt_partition a = i) ts)"
    using enough by simp
qed

text \<open>A message that is not in the format of the registry is fetched again after every restart.\<close>

lemma bad_message_stops:
  assumes bad: "parseConfluentMessage (msgs topic i ! k) = Err e" "k < length (msgs topic i)" and s: "ig_committed s topic i \<le> k"
  shows "ig_committed (ingest av lookup msgs ts s) topic i \<le> k"
  using s
proof (induction ts arbitrary: s)
  case (Cons a ts)
  obtain r u where c: "consumeTopic av lookup msgs a s = (r, u)" by fastforce
  have "ig_committed u topic i \<le> k"
  proof (cases "tt_topic a = topic \<and> tt_partition a = i \<and> ig_committed s topic i = k")
    case True
    then have "u = s" using c bad by (auto simp: consumeTopic_def Let_def Decode_def)
    then show ?thesis using Cons.prems by simp
  next
    case False
    then show ?thesis using Cons.prems c
      by (auto simp: consumeTopic_def CommitMessages_def Let_def case_prod_beta split: outcome.splits if_splits)
  qed
  then show ?case using Cons.IH by (simp add: c)
qed simp

section \<open>A concrete log\<close>

definition ex_log :: "string \<Rightarrow> string \<Rightarrow> int \<Rightarrow> string list" where
  "ex_log v t i = (if t = topicHandEnded \<and> i = 0 then [v, v] else [])"

lemma ex_logged:
  "\<exists>p v. NewPublisher unary_avro ex_CreateSchema (\<lambda>xs. xs) = Ok p \<and> logged unary_avro p (ex_log v) (\<lambda>t i k. EvHandEnded ex_ended)"
proof -
  obtain p where p: "NewPublisher unary_avro ex_CreateSchema (\<lambda>xs. xs) = Ok p" using ex_registry(3) by blast
  have fits: "event_fits (EvHandEnded ex_ended)" by (simp add: ex_ended_def in_int32_def in_int64_def UnixMilli_def get0_def)
  note same = NewPublisher_registry [OF p permuting_id ex_registry(1,2)]
  have "\<exists>m b'. publish_on_bus unary_avro (\<lambda>m. False) p (EvHandEnded ex_ended) b = (Ok (), b') \<and> bu_log b' = bu_log b @ [m]
      \<and> bm_Topic m = topicHandEnded" for b
    using published_decodes [OF unary_avro_ok same fits, of "\<lparr>mm_Topic = topicHandEnded, mm_Partition = 0, mm_Offset = 0\<rparr>"] by fastforce
  then obtain v where "written unary_avro p topicHandEnded v (EvHandEnded ex_ended)" using fits unfolding written_def by metis
  then have "logged unary_avro p (ex_log v) (\<lambda>t i k. EvHandEnded ex_ended)" by (auto simp: logged_def ex_log_def nth_Cons split: nat.split)
  with p show ?thesis by blast
qed

definition ex_attempt :: "bool \<Rightarrow> Attempt" where
  "ex_attempt lost = \<lparr>tt_topic = topicHandEnded, tt_partition = 0, tt_now = 7,
     tt_click = \<lparr>cl_refuses = (\<lambda>_. False), cl_loses = (\<lambda>table. lost \<and> table = ''hand_summaries'')\<rparr>,
     tt_commit_refused = False, tt_commit_lost = False\<rparr>"

lemma ex_attempt_ok: "no_fault (ex_attempt False)" "tt_topic (ex_attempt l) = topicHandEnded" "tt_partition (ex_attempt l) = 0"
  by (simp_all add: ex_attempt_def no_fault_def)

theorem ingest_catches_up_witness:
  "\<exists>v. ig_committed (ingest unary_avro ex_lookup (ex_log v) [ex_attempt True, ex_attempt False, ex_attempt False] new_ingest)
    topicHandEnded 0 = 2"
proof -
  obtain p v where p: "NewPublisher unary_avro ex_CreateSchema (\<lambda>xs. xs) = Ok p"
    "logged unary_avro p (ex_log v) (\<lambda>t i k. EvHandEnded ex_ended)" using ex_logged by blast
  have "ig_committed (ingest unary_avro ex_lookup (ex_log v) [ex_attempt True, ex_attempt False, ex_attempt False] new_ingest)
      topicHandEnded 0 = length (ex_log v topicHandEnded 0)"
    by (rule ingest_catches_up [OF unary_avro_ok p(1) permuting_id ex_registry(1) p(2)]) (simp add: ex_attempt_ok ex_log_def)
  moreover have "length (ex_log v topicHandEnded 0) = 2" by (simp add: ex_log_def)
  ultimately show ?thesis by metis
qed

theorem ingested_once_per_key_witness:
  "\<exists>v y. (let s = ingest unary_avro ex_lookup (ex_log v) [ex_attempt True, ex_attempt False, ex_attempt False] new_ingest
    in ig_committed s topicHandEnded 0 = 2 \<and> visible_summary (ig_db s) ''h'' = Some y \<and> hy_Rake y = 3)"
proof -
  obtain p v where p: "NewPublisher unary_avro ex_CreateSchema (\<lambda>xs. xs) = Ok p"
    "logged unary_avro p (ex_log v) (\<lambda>t i k. EvHandEnded ex_ended)" using ex_logged by blast
  define s where "s = ingest unary_avro ex_lookup (ex_log v) [ex_attempt True, ex_attempt False, ex_attempt False] new_ingest"
  have "ig_committed s topicHandEnded 0 = length (ex_log v topicHandEnded 0)"
    unfolding s_def
    by (rule committed_after [OF unary_avro_ok NewPublisher_registry [OF p(1) permuting_id ex_registry(1)] p(2) new_ingest_inv])
      (simp_all add: ex_attempt_ok ex_log_def)
  then have two: "ig_committed s topicHandEnded 0 = 2" by (simp add: ex_log_def)
  have alone: "alone (ex_log v) (\<lambda>t i k. EvHandEnded ex_ended) (EvHandEnded ex_ended)" by (simp add: alone_def)
  note all = conjunct1 [OF ingested_once_per_key [OF unary_avro_ok p(1) permuting_id ex_registry(1) p(2) s_def]]
  have "\<forall>y. event_summary unary_avro (EvHandEnded ex_ended) = Some y \<longrightarrow> visible_summary (ig_db s) (hy_HandID y) = Some y"
    using all [THEN spec [of _ topicHandEnded], THEN spec [of _ 0], THEN spec [of _ 0], THEN mp] two alone
    by (simp del: event_summary.simps)
  then have "\<exists>y. visible_summary (ig_db s) ''h'' = Some y \<and> hy_Rake y = 3" by (simp add: ex_ended_def)
  with two show ?thesis unfolding Let_def s_def by blast
qed

end
