(* ===== verification/Provisioning.thy ===== *)
theory Provisioning
  imports AuthService WalletRun "HOL-Library.Countable"
begin

text \<open>
  From a registration to a wallet: the auth service announces a new user on a Kafka topic
  (\<open>auth-service/internal/kafka/publisher.go\<close>) and the wallet service provisions the users it
  reads there (\<open>wallet-service/internal/kafka/consumer.go\<close>). JSON and the time format are parameters.
\<close>

section \<open>The publisher\<close>

record UserCreatedMessage =
  um_UserID :: string
  um_Email :: string
  um_CreatedAt :: string

text \<open>Encoding a message, and decoding the two fields the wallet reads.\<close>

record UserJson =
  uj_Marshal :: "UserCreatedMessage \<Rightarrow> string option"
  uj_Unmarshal :: "string \<Rightarrow> (string \<times> string) option"
  uj_rfc3339 :: "int \<Rightarrow> string"

record UserMessage =
  km_Topic :: string
  km_Key :: string
  km_Value :: string

record UserPublisher =
  kp_writer :: bool
  kp_topic :: string

definition NewUserPublisher :: "string list \<Rightarrow> string \<Rightarrow> UserPublisher" where
  "NewUserPublisher brokers topic =
     (if brokers = [] \<or> topic = '''' then \<lparr>kp_writer = False, kp_topic = ''''\<rparr>
      else \<lparr>kp_writer = True, kp_topic = topic\<rparr>)"

definition userCreatedMessage :: "UserJson \<Rightarrow> User \<Rightarrow> UserCreatedMessage" where
  "userCreatedMessage js user =
     \<lparr>um_UserID = us_ID user, um_Email = us_Email user, um_CreatedAt = uj_rfc3339 js (us_CreatedAt user)\<rparr>"

definition PublishUserCreated ::
    "UserJson \<Rightarrow> (UserMessage \<Rightarrow> bool) \<Rightarrow> UserPublisher \<Rightarrow> User \<Rightarrow> UserMessage list \<Rightarrow> (string, unit) outcome \<times> UserMessage list" where
  "PublishUserCreated js refused p user sent =
     (if \<not> kp_writer p then (Ok (), sent)
      else case uj_Marshal js (userCreatedMessage js user) of
          None \<Rightarrow> (Err ''json'', sent)
        | Some payload \<Rightarrow>
            (let msg = \<lparr>km_Topic = kp_topic p, km_Key = us_ID user, km_Value = payload\<rparr>
             in if refused msg then (Err ''write message'', sent) else (Ok (), sent @ [msg])))"

text \<open>The log that the announced users leave.\<close>

definition announcements :: "UserJson \<Rightarrow> UserPublisher \<Rightarrow> User list \<Rightarrow> UserMessage list" where
  "announcements js p users = fold (\<lambda>user sent. snd (PublishUserCreated js (\<lambda>m. False) p user sent)) users []"

section \<open>The consumer\<close>

record Provisioner =
  pv_committed :: nat
  pv_db :: WalletDB

text \<open>What happens during one message: the service's environment and the commit.\<close>

record Delivery =
  dv_env :: WalletEnv
  dv_commit_refused :: bool
  dv_commit_lost :: bool

definition commit_user :: "Delivery \<Rightarrow> Provisioner \<Rightarrow> (string, unit) outcome \<times> Provisioner" where
  "commit_user t s =
     (if dv_commit_refused t then (Err ''commit kafka message'', s)
      else if dv_commit_lost t then (Err ''commit kafka message'', s\<lparr>pv_committed := pv_committed s + 1\<rparr>)
      else (Ok (), s\<lparr>pv_committed := pv_committed s + 1\<rparr>))"

definition consume_user :: "UserJson \<Rightarrow> UserMessage list \<Rightarrow> Delivery \<Rightarrow> Provisioner \<Rightarrow> (string, unit) outcome \<times> Provisioner" where
  "consume_user js sent t s =
     (if length sent \<le> pv_committed s then (Ok (), s)
      else case uj_Unmarshal js (km_Value (sent ! pv_committed s)) of
          None \<Rightarrow> commit_user t s
        | Some (userID, email) \<Rightarrow>
            (case Svc_ProvisionUser (dv_env t) userID email (pv_db s) of
               (Panic m, db) \<Rightarrow> (Panic m, s\<lparr>pv_db := db\<rparr>)
             | (_, db) \<Rightarrow> commit_user t (s\<lparr>pv_db := db\<rparr>)))"

text \<open>The loop returns the first error and is started again with the program.\<close>

fun wallet_consumer_Run ::
    "UserJson \<Rightarrow> UserMessage list \<Rightarrow> Delivery list \<Rightarrow> Provisioner \<Rightarrow> (string, unit) outcome \<times> Delivery list \<times> Provisioner" where
  "wallet_consumer_Run js sent [] s = (Ok (), [], s)"
| "wallet_consumer_Run js sent (t # ts) s =
     (case consume_user js sent t s of
        (Ok _, s) \<Rightarrow> wallet_consumer_Run js sent ts s
      | (Err e, s) \<Rightarrow> (Err e, ts, s)
      | (Panic m, s) \<Rightarrow> (Panic m, ts, s))"

definition provision_all :: "UserJson \<Rightarrow> UserMessage list \<Rightarrow> Delivery list \<Rightarrow> Provisioner \<Rightarrow> Provisioner" where
  "provision_all js sent ts s = fold (\<lambda>t s. snd (consume_user js sent t s)) ts s"

lemma wallet_consumer_Run_all:
  assumes "wallet_consumer_Run js sent ts s = (r, rest, s')"
  shows "provision_all js sent ts s = provision_all js sent rest s'"
  using assms
proof (induction js sent ts s rule: wallet_consumer_Run.induct)
  case (2 js sent t ts s)
  obtain x u where "consume_user js sent t s = (x, u)" by fastforce
  then show ?case using 2 by (cases x) (auto simp: provision_all_def)
qed (simp add: provision_all_def)

section \<open>Identifiers and emails of registered users\<close>

lemma TrimSpace_id: "s \<noteq> [] \<Longrightarrow> \<not> is_space (hd s) \<Longrightarrow> \<not> is_space (last s) \<Longrightarrow> TrimSpace s = s"
  unfolding TrimSpace_def by (metis dropWhile_eq_self_iff hd_rev rev_rev_ident)

lemma space_bytes: "is_space c \<longleftrightarrow> (of_char c :: nat) \<in> {9, 10, 11, 12, 13, 32}"
proof -
  have e: "c = d \<longleftrightarrow> (of_char c :: nat) = of_char d" for d by simp
  show ?thesis
    unfolding is_space_def insert_iff empty_iff e [of "CHR '' ''"] e [of "CHR 0x09"] e [of "CHR 0x0A"] e [of "CHR 0x0B"]
      e [of "CHR 0x0C"] e [of "CHR 0x0D"]
    by (simp add: disj_ac)
qed

lemma lower_space [simp]: "is_space (lower_char c) \<longleftrightarrow> is_space c"
  by (auto simp: space_bytes lower_char_def)

lemma TrimSpace_last: "TrimSpace s = [] \<or> \<not> is_space (last (TrimSpace s))"
  unfolding TrimSpace_def by (metis hd_dropWhile last_rev rev_is_Nil_conv dropWhile_eq_Nil_conv)

lemma normalizeEmail_id: "ToLower (TrimSpace (normalizeEmail email)) = normalizeEmail email"
proof (cases "TrimSpace email = []")
  case False
  then have "\<not> is_space (hd (normalizeEmail email))" "\<not> is_space (last (normalizeEmail email))"
    using TrimSpace_no_lead [of email] TrimSpace_last [of email] by (simp_all add: normalizeEmail_def ToLower_def hd_map last_map)
  then have "TrimSpace (normalizeEmail email) = normalizeEmail email"
    using False by (intro TrimSpace_id) (simp_all add: normalizeEmail_def ToLower_def)
  then show ?thesis by (simp add: normalizeEmail_def)
qed (simp add: normalizeEmail_def, simp add: TrimSpace_def ToLower_def)

lemma alphabet_no_space: "c \<in> set alphabet \<Longrightarrow> \<not> is_space c"
  by (auto simp: alphabet_def is_space_def)

lemma show_nat_no_space: "c \<in> set (show_nat n) \<Longrightarrow> \<not> is_space c"
proof (induction n rule: show_nat.induct)
  case (1 n)
  have "\<not> is_space (char_of (48 + k))" if "k < 10" for k :: nat using that by (simp add: space_bytes)
  then show ?case using 1 by (subst (asm) (2) show_nat.simps) (auto split: if_splits)
qed

lemma newID_id: "TrimSpace (AuthService.newID c ''user'') = AuthService.newID c ''user''" "AuthService.newID c ''user'' \<noteq> ''''"
proof -
  have "\<exists>r. AuthService.newID c ''user'' = ''user-'' @ r \<and> (\<forall>x \<in> set r. \<not> is_space x)"
  proof (cases "ax_rand_id c ''user''")
    case None
    then show ?thesis using show_nat_no_space by (fastforce simp: AuthService.newID_def show_int_def is_space_def)
  next
    case (Some raw)
    then show ?thesis using EncodeToString_alphabet [of raw] alphabet_no_space by (fastforce simp: AuthService.newID_def ToLower_def)
  qed
  then obtain r where r: "AuthService.newID c ''user'' = ''user-'' @ r" "\<forall>x \<in> set r. \<not> is_space x" by blast
  then have "\<not> is_space (last (AuthService.newID c ''user''))" by (cases r rule: rev_cases) (auto simp: is_space_def)
  then show "TrimSpace (AuthService.newID c ''user'') = AuthService.newID c ''user''"
    by (rule TrimSpace_id [rotated 2]) (simp_all add: r(1) is_space_def)
  show "AuthService.newID c ''user'' \<noteq> ''''" by (simp add: r(1))
qed

text \<open>A user as the registration makes it, seen by the wallet.\<close>

definition announced :: "User \<Rightarrow> bool" where
  "announced u \<longleftrightarrow> us_ID u \<noteq> '''' \<and> TrimSpace (us_ID u) = us_ID u
     \<and> us_Email u \<noteq> '''' \<and> ToLower (TrimSpace (us_Email u)) = us_Email u"

lemma issueSession_published: "aw_published (snd (issueSession s c user w)) = aw_published w"
  by (auto simp: issueSession_def on_auth_db_def split: outcome.split prod.split)

lemma isValidEmail_nonempty: "isValidEmail e \<Longrightarrow> e \<noteq> ''''"
  by (auto simp: isValidEmail_def HasPrefix_def)

lemma Register_published:
  assumes "\<forall>u \<in> set (aw_published w). announced u"
  shows "\<forall>u \<in> set (aw_published (snd (Register s c email password w))). announced u"
  using assms isValidEmail_nonempty [of "normalizeEmail email"]
  by (auto simp: Register_def Let_def announced_def issueSession_published newID_id normalizeEmail_id split: option.split outcome.split prod.split)

lemma auth_step_published:
  assumes "\<forall>u \<in> set (aw_published w). announced u"
  shows "\<forall>u \<in> set (aw_published (auth_step s call w)). announced u"
proof (cases call)
  case (CallRegister c email password)
  then show ?thesis using Register_published [OF assms] by simp
next
  case (CallLogin c email password)
  then show ?thesis using assms by (auto simp: Login_def issueSession_published split: outcome.split)
next
  case (CallRefresh c token)
  then show ?thesis using assms
    by (auto simp: Refresh_def refresh_write_def on_auth_db_def split: outcome.split prod.split)
next
  case (CallLogout c token)
  then show ?thesis using assms by (auto simp: Logout_def on_auth_db_def Let_def case_prod_beta split: outcome.split)
qed

lemma auth_run_published: "\<forall>u \<in> set (aw_published (auth_run s calls empty_auth)). announced u"
proof -
  have "\<forall>u \<in> set (aw_published (fold (auth_step s) calls w)). announced u" if "\<forall>u \<in> set (aw_published w). announced u" for w
    using that
  proof (induction calls arbitrary: w)
    case (Cons call calls)
    then show ?case using auth_step_published [OF Cons.prems, of s call] by simp
  qed simp
  from this [of empty_auth] show ?thesis by (simp add: auth_run_def empty_auth_def)
qed

section \<open>Provisioning\<close>

text \<open>
  JSON: a message that was encoded is decoded to its two fields. (The encoder replaces bytes that are
  not UTF-8; the email of a registration comes out of a JSON decoder, which leaves none.)
\<close>

definition json_ok :: "UserJson \<Rightarrow> bool" where
  "json_ok js \<longleftrightarrow> (\<forall>m. \<exists>v. uj_Marshal js m = Some v \<and> uj_Unmarshal js v = Some (um_UserID m, um_Email m))"

lemma announcements_values:
  assumes "json_ok js" "kp_writer p"
  shows "length (announcements js p us) = length us
    \<and> (\<forall>i < length us. uj_Unmarshal js (km_Value (announcements js p us ! i)) = Some (us_ID (us ! i), us_Email (us ! i)))"
proof (induction us rule: rev_induct)
  case (snoc u us)
  obtain v where v: "uj_Marshal js (userCreatedMessage js u) = Some v"
    "uj_Unmarshal js v = Some (us_ID u, us_Email u)"
    using assms(1) unfolding json_ok_def by (metis UserCreatedMessage.select_convs(1,2) userCreatedMessage_def)
  have "announcements js p (us @ [u]) = announcements js p us @ [\<lparr>km_Topic = kp_topic p, km_Key = us_ID u, km_Value = v\<rparr>]"
    using assms(2) v(1) by (simp add: announcements_def PublishUserCreated_def Let_def)
  then show ?case using snoc v(2) by (auto simp: nth_append less_Suc_eq)
qed (simp add: announcements_def)

text \<open>A delivery without a fault; its new deposit address.\<close>

definition clean :: "Delivery \<Rightarrow> bool" where
  "clean t \<longleftrightarrow> (\<forall>key. serves (we_sv (dv_env t)) key) \<and> is_ok (we_GenerateDepositAccount (dv_env t))
     \<and> \<not> dv_commit_refused t \<and> \<not> dv_commit_lost t"

definition new_address :: "Delivery \<Rightarrow> string" where
  "new_address t = (case we_GenerateDepositAccount (dv_env t) of Ok (k, a) \<Rightarrow> a | _ \<Rightarrow> '''')"

lemma ProvisionUser_serves:
  assumes "serves sv (ac_UserID a)" "da_UserID d = ac_UserID a" "\<forall>x \<in> set (wd_addresses db). da_Address x \<noteq> da_Address d"
  shows "ProvisionUser sv a d db = (Ok (), insert_address d
    (insert_balance \<lparr>bl_UserID = ac_UserID a, bl_AvailableGwei = 0, bl_UpdatedAt = ac_ProvisionedAt a\<rparr> (insert_account a db)))"
proof -
  let ?db = "insert_balance \<lparr>bl_UserID = ac_UserID a, bl_AvailableGwei = 0, bl_UpdatedAt = ac_ProvisionedAt a\<rparr> (insert_account a db)"
  have "has_account (ac_UserID a) ?db" by (auto simp: has_account_def insert_account_def insert_balance_def)
  moreover have "wd_addresses ?db = wd_addresses db" by (simp add: insert_account_def insert_balance_def)
  ultimately have "address_violates d ?db = None"
    using assms(2,3) by (auto simp: address_violates_def violates_def list_ex_iff)
  then show ?thesis using assms(1) by (simp add: ProvisionUser_def withTx_def tx_defs serves_def Let_def)
qed


definition provisioned :: "User list \<Rightarrow> nat \<Rightarrow> string set \<Rightarrow> WalletDB \<Rightarrow> bool" where
  "provisioned us k addresses db \<longleftrightarrow>
     us_ID ` set (take k us) = ac_UserID ` set (wd_accounts db)
     \<and> us_ID ` set (take k us) = bl_UserID ` set (wd_balances db)
     \<and> (\<forall>b \<in> set (wd_balances db). bl_AvailableGwei b = 0)
     \<and> (\<forall>a \<in> set (wd_addresses db). da_Address a \<in> addresses)"

lemma insert_wallet_ids:
  "ac_UserID ` set (wd_accounts (insert_account a db)) = insert (ac_UserID a) (ac_UserID ` set (wd_accounts db))"
  "bl_UserID ` set (wd_balances (insert_balance b db)) = insert (bl_UserID b) (bl_UserID ` set (wd_balances db))"
proof -
  have "has_account u db \<longleftrightarrow> u \<in> ac_UserID ` set (wd_accounts db)" for u by (auto simp: has_account_def list_ex_iff)
  then show "ac_UserID ` set (wd_accounts (insert_account a db)) = insert (ac_UserID a) (ac_UserID ` set (wd_accounts db))"
    by (simp add: insert_account_def insert_absorb)
  show "bl_UserID ` set (wd_balances (insert_balance b db)) = insert (bl_UserID b) (bl_UserID ` set (wd_balances db))"
    using find_balance_None [of "bl_UserID b" db] by (simp add: insert_balance_def insert_absorb)
qed

lemma insert_wallet:
  "wd_balances (insert_account a db) = wd_balances db" "wd_addresses (insert_account a db) = wd_addresses db"
  "wd_accounts (insert_balance b db) = wd_accounts db" "wd_addresses (insert_balance b db) = wd_addresses db"
  "wd_accounts (insert_address d db) = wd_accounts db" "wd_balances (insert_address d db) = wd_balances db"
  "set (wd_balances (insert_balance b db)) \<subseteq> insert b (set (wd_balances db))"
  "set (wd_addresses (insert_address d db)) \<subseteq> insert d (set (wd_addresses db))"
  by (auto simp: insert_account_def insert_balance_def insert_address_def)

lemma consume_user_step:
  assumes js: "json_ok js" "kp_writer p" and us: "\<forall>u \<in> set us. announced u" and t: "clean t" "new_address t \<notin> addresses"
    and s: "provisioned us (pv_committed s) addresses (pv_db s)" and k: "pv_committed s < length us"
  shows "\<exists>db. consume_user js (announcements js p us) t s = (Ok (), s\<lparr>pv_db := db, pv_committed := Suc (pv_committed s)\<rparr>)
    \<and> provisioned us (Suc (pv_committed s)) (insert (new_address t) addresses) db"
proof -
  let ?u = "us ! pv_committed s"
  obtain key a where ka: "we_GenerateDepositAccount (dv_env t) = Ok (key, a)" using t(1) by (auto simp: clean_def is_ok_iff)
  then have a: "new_address t = a" by (simp add: new_address_def)
  have u: "announced ?u" using us k by simp
  have old: "\<forall>x \<in> set (wd_addresses (pv_db s)). da_Address x \<noteq> a" using s t(2) unfolding provisioned_def a by blast
  define ac where "ac = \<lparr>ac_UserID = us_ID ?u, ac_Email = us_Email ?u, ac_CreatedAt = we_now (dv_env t), ac_ProvisionedAt = we_now (dv_env t)\<rparr>"
  define d where "d = \<lparr>da_UserID = us_ID ?u, da_Address = a, da_PrivateKeyHex = key, da_Chain = we_chain (dv_env t),
    da_CreatedAt = we_now (dv_env t), da_LastSweepTxHash = None, da_LastSweepAt = None, da_LastObservedBlock = None\<rparr>"
  have call: "Svc_ProvisionUser (dv_env t) (us_ID ?u) (us_Email ?u) (pv_db s) = ProvisionUser (we_sv (dv_env t)) ac d (pv_db s)"
    using u ka by (simp add: Svc_ProvisionUser_def announced_def ac_def d_def Let_def)
  have f: "ac_UserID ac = us_ID ?u" "da_UserID d = us_ID ?u" "da_Address d = a" by (simp_all add: ac_def d_def)
  let ?db = "insert_address d (insert_balance \<lparr>bl_UserID = ac_UserID ac, bl_AvailableGwei = 0, bl_UpdatedAt = ac_ProvisionedAt ac\<rparr>
    (insert_account ac (pv_db s)))"
  have run: "Svc_ProvisionUser (dv_env t) (us_ID ?u) (us_Email ?u) (pv_db s) = (Ok (), ?db)"
    unfolding call using t(1) old f by (intro ProvisionUser_serves) (simp_all add: clean_def)
  have "provisioned us (Suc (pv_committed s)) (insert (new_address t) addresses) ?db"
    using s k f a insert_wallet(7) [of "\<lparr>bl_UserID = ac_UserID ac, bl_AvailableGwei = 0, bl_UpdatedAt = ac_ProvisionedAt ac\<rparr>" "insert_account ac (pv_db s)"]
      insert_wallet(8) [of d "insert_balance \<lparr>bl_UserID = ac_UserID ac, bl_AvailableGwei = 0, bl_UpdatedAt = ac_ProvisionedAt ac\<rparr> (insert_account ac (pv_db s))"]
    unfolding provisioned_def by (auto simp: insert_wallet(1-6) insert_wallet_ids take_Suc_conv_app_nth)
  moreover have "consume_user js (announcements js p us) t s = (Ok (), s\<lparr>pv_db := ?db, pv_committed := Suc (pv_committed s)\<rparr>)"
    using k t(1) announcements_values [OF js, of us]
    by (simp add: consume_user_def run commit_user_def clean_def)
  ultimately show ?thesis by blast
qed

lemma provision_all_clean:
  assumes js: "json_ok js" "kp_writer p" and us: "\<forall>u \<in> set us. announced u"
  shows "\<lbrakk>\<forall>t \<in> set ts. clean t; distinct (map new_address ts); new_address ` set ts \<inter> addresses = {};
      provisioned us (pv_committed s) addresses (pv_db s); length us \<le> pv_committed s + length ts; pv_committed s \<le> length us\<rbrakk>
    \<Longrightarrow> \<exists>addresses. provisioned us (length us) addresses (pv_db (provision_all js (announcements js p us) ts s))"
proof (induction ts arbitrary: s addresses)
  case Nil
  then show ?case by (auto simp: provision_all_def)
next
  case (Cons t ts)
  show ?case
  proof (cases "pv_committed s < length us")
    case True
    have t: "clean t" "new_address t \<notin> addresses" using Cons.prems by auto
    obtain db where step: "consume_user js (announcements js p us) t s = (Ok (), s\<lparr>pv_db := db, pv_committed := Suc (pv_committed s)\<rparr>)"
      "provisioned us (Suc (pv_committed s)) (insert (new_address t) addresses) db"
      using consume_user_step [OF js us t Cons.prems(4) True] by blast
    have "\<exists>addresses. provisioned us (length us) addresses
        (pv_db (provision_all js (announcements js p us) ts (s\<lparr>pv_db := db, pv_committed := Suc (pv_committed s)\<rparr>)))"
      using Cons.prems step(2) True by (intro Cons.IH [of "insert (new_address t) addresses"]) auto
    then show ?thesis using step(1) by (simp add: provision_all_def)
  next
    case False
    then have s: "pv_committed s = length us" using Cons.prems(6) by simp
    then have "consume_user js (announcements js p us) t s = (Ok (), s)"
      using announcements_values [OF js, of us] by (simp add: consume_user_def)
    moreover have "\<exists>addresses. provisioned us (length us) addresses (pv_db (provision_all js (announcements js p us) ts s))"
      using Cons.prems s by (intro Cons.IH [of addresses]) auto
    ultimately show ?thesis by (simp add: provision_all_def)
  qed
qed

text \<open>
  C26: Every announced user gets a wallet. After any calls to the auth service, the users it
  announced are in the log; once the wallet's consumer has read the log, with its database and
  its commits in order and a fresh deposit address each time, the accounts of the wallet are
  exactly those of the announced users, and each of them can ask for the balance, which is zero.
\<close>

theorem announced_users_get_wallets:
  assumes js: "json_ok js" and us: "us = aw_published (auth_run s calls empty_auth)"
    and p: "p = NewUserPublisher brokers topic" "brokers \<noteq> []" "topic \<noteq> ''''"
    and ts: "\<forall>t \<in> set ts. clean t" "distinct (map new_address ts)" "length us \<le> length ts"
    and db: "db = pv_db (provision_all js (announcements js p us) ts \<lparr>pv_committed = 0, pv_db = empty_wallet\<rparr>)"
    and env: "\<And>key. serves (we_sv env) key"
  shows "ac_UserID ` set (wd_accounts db) = us_ID ` set us
    \<and> (\<forall>u \<in> set us. \<exists>b. Svc_Balance env (us_ID u) db = Ok b \<and> bl_UserID b = us_ID u \<and> bl_AvailableGwei b = 0)"
proof -
  have an: "\<forall>u \<in> set us. announced u" unfolding us by (rule auth_run_published)
  have w: "kp_writer p" using p by (simp add: NewUserPublisher_def)
  have "provisioned us 0 {} empty_wallet" by (simp add: provisioned_def empty_wallet_def)
  then obtain addresses where ok: "provisioned us (length us) addresses db"
    using provision_all_clean [OF js w an ts(1,2), of "{}" "\<lparr>pv_committed = 0, pv_db = empty_wallet\<rparr>"] ts(3) db by auto
  have "\<exists>b. Svc_Balance env (us_ID u) db = Ok b \<and> bl_UserID b = us_ID u \<and> bl_AvailableGwei b = 0" if "u \<in> set us" for u
  proof -
    have "TrimSpace (us_ID u) = us_ID u" using an that by (simp add: announced_def)
    moreover have "us_ID u \<in> bl_UserID ` set (wd_balances db)" using ok that by (auto simp: provisioned_def)
    then obtain b where "find_balance (us_ID u) db = Some b" using find_balance_None by blast
    moreover from this have "b \<in> set (wd_balances db)" "bl_UserID b = us_ID u" by (auto dest: find_balance_Some)
    ultimately show ?thesis using ok env
      by (simp add: Svc_Balance_def GetBalance_def pool_query_def serves_def provisioned_def)
  qed
  then show ?thesis using ok by (auto simp: provisioned_def)
qed


text \<open>
  A user whose provisioning failed is forgotten: the message is committed all the same, and no
  later delivery of the log reaches it again.
\<close>

lemma ProvisionUser_accounts:
  assumes "ProvisionUser sv a d db = (q, db')"
  shows "ac_UserID ` set (wd_accounts db') \<subseteq> insert (ac_UserID a) (ac_UserID ` set (wd_accounts db))"
  using assms insert_wallet_ids(1) [of a db]
  by (auto simp: ProvisionUser_def withTx_def tx_defs Let_def insert_wallet split: if_splits option.splits)

lemma Svc_ProvisionUser_accounts:
  assumes "Svc_ProvisionUser env u e db = (q, db')"
  shows "ac_UserID ` set (wd_accounts db') \<subseteq> insert (TrimSpace u) (ac_UserID ` set (wd_accounts db))"
  using assms
  by (auto simp: Svc_ProvisionUser_def Let_def split: outcome.splits if_splits dest!: ProvisionUser_accounts)

lemma failed_provisioning_is_lost:
  assumes k: "k < pv_committed s" and none: "\<forall>i. k < i \<and> i < length sent \<longrightarrow>
      (\<forall>u e. uj_Unmarshal js (km_Value (sent ! i)) = Some (u, e) \<longrightarrow> TrimSpace u \<noteq> v)"
    and v: "v \<notin> ac_UserID ` set (wd_accounts (pv_db s))"
  shows "v \<notin> ac_UserID ` set (wd_accounts (pv_db (provision_all js sent ts s)))"
  using k v
proof (induction ts arbitrary: s)
  case (Cons t ts)
  obtain r s' where step: "consume_user js sent t s = (r, s')" by fastforce
  have provision: "v \<notin> ac_UserID ` set (wd_accounts db)"
    if "Svc_ProvisionUser env u e (pv_db s) = (q, db)" "TrimSpace u \<noteq> v" for env u e q db
  proof
    assume "v \<in> ac_UserID ` set (wd_accounts db)"
    then have "v \<in> insert (TrimSpace u) (ac_UserID ` set (wd_accounts (pv_db s)))"
      by (rule subsetD [OF Svc_ProvisionUser_accounts [OF that(1)]])
    then show False using that(2) Cons.prems(2) by simp
  qed
  have "v \<notin> ac_UserID ` set (wd_accounts (pv_db s')) \<and> k < pv_committed s'"
  proof (cases "pv_committed s < length sent")
    case True
    then have "uj_Unmarshal js (km_Value (sent ! pv_committed s)) = Some (u, e) \<Longrightarrow> TrimSpace u \<noteq> v" for u e
      using none Cons.prems(1) by blast
    then show ?thesis using True Cons.prems step
      by (auto simp: consume_user_def commit_user_def split: option.splits prod.splits outcome.splits if_splits dest!: provision)
  qed (use step Cons.prems in \<open>auto simp: consume_user_def\<close>)
  then show ?case using Cons.IH [of s'] step by (simp add: provision_all_def)
qed (simp add: provision_all_def)

lemma failed_provisioning_is_committed:
  assumes "pv_committed s < length sent" "uj_Unmarshal js (km_Value (sent ! pv_committed s)) = Some (u, e)"
    and "Svc_ProvisionUser (dv_env t) u e (pv_db s) = (Err x, db)" "\<not> dv_commit_refused t" "\<not> dv_commit_lost t"
  shows "consume_user js sent t s = (Ok (), s\<lparr>pv_db := db, pv_committed := Suc (pv_committed s)\<rparr>)"
  using assms by (simp add: consume_user_def commit_user_def)

section \<open>A concrete run\<close>

text \<open>The two fields are numbered, and the message is the number in unary.\<close>

definition ex_json :: UserJson where
  "ex_json = \<lparr>uj_Marshal = (\<lambda>m. Some (replicate (to_nat (um_UserID m, um_Email m)) (CHR ''x''))),
     uj_Unmarshal = (\<lambda>v. Some (from_nat (length v))), uj_rfc3339 = show_int\<rparr>"

definition ex_delivery :: Delivery where
  "ex_delivery = \<lparr>dv_env = ex_env, dv_commit_refused = False, dv_commit_lost = False\<rparr>"

lemma ex_published: "map us_ID (aw_published ex_world) = [''user-cja'']"
  by code_simp

theorem announced_users_get_wallets_witness:
  "\<exists>db b. db = pv_db (provision_all ex_json (announcements ex_json (NewUserPublisher [''kafka:9092''] ''user.created'') (aw_published ex_world))
      [ex_delivery] \<lparr>pv_committed = 0, pv_db = empty_wallet\<rparr>)
    \<and> ac_UserID ` set (wd_accounts db) = {''user-cja''} \<and> Svc_Balance ex_env ''user-cja'' db = Ok b \<and> bl_AvailableGwei b = 0"
proof -
  have js: "json_ok ex_json" by (simp add: json_ok_def ex_json_def)
  have t: "\<forall>t \<in> set [ex_delivery]. clean t" by (simp add: clean_def ex_delivery_def ex_env_def)
  have l: "length (aw_published ex_world) \<le> length [ex_delivery]" using arg_cong [OF ex_published, of length] by simp
  have e: "serves (we_sv ex_env) key" for key by (simp add: ex_env_def)
  have ids: "us_ID ` set (aw_published ex_world) = {''user-cja''}" using arg_cong [OF ex_published, of set] by simp
  then have "''user-cja'' \<in> us_ID ` set (aw_published ex_world)" by simp
  then obtain u where u: "u \<in> set (aw_published ex_world)" "us_ID u = ''user-cja''" by (rule imageE) simp
  define db where "db = pv_db (provision_all ex_json (announcements ex_json (NewUserPublisher [''kafka:9092''] ''user.created'')
    (aw_published ex_world)) [ex_delivery] \<lparr>pv_committed = 0, pv_db = empty_wallet\<rparr>)"
  have "distinct (map new_address [ex_delivery])" by simp
  note all = announced_users_get_wallets [OF js arg_cong [OF ex_world_def, of aw_published] refl _ _ t this l db_def e]
  have accounts: "ac_UserID ` set (wd_accounts db) = us_ID ` set (aw_published ex_world)"
    by (rule conjunct1 [OF all]) simp_all
  have "\<forall>u \<in> set (aw_published ex_world). \<exists>b. Svc_Balance ex_env (us_ID u) db = Ok b \<and> bl_UserID b = us_ID u \<and> bl_AvailableGwei b = 0"
    by (rule conjunct2 [OF all]) simp_all
  from bspec [OF this u(1)] obtain b where "Svc_Balance ex_env ''user-cja'' db = Ok b" "bl_AvailableGwei b = 0"
    unfolding u(2) by blast
  then show ?thesis using accounts unfolding ids db_def by blast
qed

end
