(* ===== verification/HandReport.thy ===== *)
theory HandReport
  imports WholeHand Analytics
begin

text \<open>
  From the table to the analytics: the events that the engine publishes for a hand are numbered
  without a gap and name the hand, so that the log they leave in Kafka is one the ingestor can
  tell apart; and what the analytics show in the end is the hand that was played.
\<close>

section \<open>The events of a hand\<close>

lemma ended_event_hand: "settled d g = (rake, winners, g') \<Longrightarrow> he_HandID (ended_event d g) = g_ID g"
  using settled_frame(2) [of d g rake winners g'] by (simp add: ended_event_def Let_def)

lemma FinishHand_names:
  assumes "FinishHand_Execute d g w = (Ok g', w')"
  shows "\<exists>e. w_events w' = w_events w @ [e] \<and> event_hand e = g_ID g"
proof -
  obtain rake ws g1 where "settled d g = (rake, ws, g1)" by (metis prod_cases3)
  then show ?thesis using FinishHand_Execute_Ok(2) [OF assms] ended_event_hand by fastforce
qed

lemma continue_hand_names:
  assumes "continue_hand d g w = (Ok g', w')"
  shows "\<exists>es. w_events w' = w_events w @ es \<and> (\<forall>e \<in> set es. event_hand e = g_ID g)"
  using assms
proof (cases rule: continue_hand_Ok)
  case Finish
  then show ?thesis using FinishHand_names [OF Finish(2)] by fastforce
next
  case (Showdown s)
  have "g_ID s = g_ID g" using same_seats_advanceStreet [OF Showdown(3)] by (simp add: same_seats_def)
  then show ?thesis using FinishHand_names [OF Showdown(5)] by fastforce
qed auto

lemma acted_names:
  assumes run: "ApplyAction_Execute d input w = (Ok g', w')" and g: "dp_FindByID d (w_db w) (ai_HandID input) = Ok g"
  shows "\<exists>es. w_events w' = w_events w @ es \<and> (\<forall>e \<in> set es. event_hand e = g_ID g)"
proof -
  let ?a = "ai_Action input"
  obtain acting g1 where a: "ApplyAction g ?a = Ok g1" "ValidateAction g ?a = Ok ()" "PlayerByID g (a_PlayerID ?a) = Some acting"
    using run g unfolding ApplyAction_Execute_def Let_def by (auto split: outcome.splits option.splits)
  have id1: "g_ID g1 = g_ID g" using same_seats_ApplyAction [OF a(1)] by (simp add: same_seats_def)
  let ?s = "g1\<lparr>g_EventSequence := g_EventSequence g1 + 1\<rparr>"
  let ?e = "acted_event (dp_Now d) ?a acting ?s (g_EventSequence g1 + 1)"
  let ?w = "w\<lparr>w_metrics := (w_metrics w)
    \<lparr>m_ActionsTotal := m_ActionsTotal (w_metrics w) @ [ActionType_String (a_Type ?a)]\<rparr>\<rparr>"
  obtain r w1 where pub: "publish d (EvPlayerActed ?e) ?w = (r, w1)" by fastforce
  have "r = Ok ()" "continue_hand d ?s w1 = (Ok g', w')"
    using run g a pub
    by (auto simp: ApplyAction_Execute_def Let_def AdvanceEventSequence_def split: outcome.splits)
  moreover from this have "w_events w1 = w_events w @ [EvPlayerActed ?e]" using publish_cases [OF pub] by simp
  moreover have "event_hand (EvPlayerActed ?e) = g_ID g" using id1 by (simp add: acted_event_def)
  ultimately show ?thesis using continue_hand_names [of d ?s w1 g' w'] id1 by fastforce
qed

text \<open>
  An action is published before it is saved: when the save fails the caller gets an error, the hand is
  as before, and the event stays. The next action accepted is published under the same number.
\<close>

lemma unsaved_action_leaves_event:
  assumes find: "dp_FindByID d (w_db w) (ai_HandID input) = Ok g" and val: "ValidateAction g (ai_Action input) = Ok ()"
    and pub: "\<And>evs e. dp_publish_err d evs e = None" and save: "\<And>db g. \<exists>e. dp_Save d db g = Err e"
    and run: "ApplyAction_Execute d input w = (r, w')"
  shows "\<not> is_ok r \<and> w_db w' = w_db w
    \<and> (\<exists>e. w_events w' = w_events w @ [EvPlayerActed e] \<and> pa_SequenceNumber e = g_EventSequence g + 1 \<and> pa_Action e = ai_Action input)"
proof -
  have no_save: "\<exists>e. save_state d t v = (Err e, v)" for t v using save [of "w_db v" t] by (auto simp: save_state_def)
  have fin: "\<exists>e v'. FinishHand_Execute d t v = (Err e, v') \<and> w_db v' = w_db v \<and> w_events v' = w_events v" for t v
  proof -
    obtain rake ws t' where s: "settled d t = (rake, ws, t')" by (metis prod_cases3)
    let ?v = "v\<lparr>w_metrics := count_finish (g_Street t = StreetShowdown)
      (Total (ApplyRake (g_Pots (CollectBets (dp_iter d) t)) rake)) rake (w_metrics v)\<rparr>"
    obtain e where "save_state d t' ?v = (Err e, ?v)" using no_save by blast
    then show ?thesis by (simp add: FinishHand_Execute_settled s Let_def)
  qed
  have go: "\<not> is_ok (fst (continue_hand d t v)) \<and> w_db (snd (continue_hand d t v)) = w_db v
      \<and> w_events (snd (continue_hand d t v)) = w_events v" for t v
  proof -
    have f: "\<not> is_ok (fst (finish_after_action d u v)) \<and> w_db (snd (finish_after_action d u v)) = w_db v
        \<and> w_events (snd (finish_after_action d u v)) = w_events v" for u
      using fin [of u v] by (auto simp: finish_after_action_def)
    have a: "\<not> is_ok (fst (save_after_action d u v)) \<and> w_db (snd (save_after_action d u v)) = w_db v
        \<and> w_events (snd (save_after_action d u v)) = w_events v" for u
      using no_save [of u v] by (auto simp: save_after_action_def)
    show ?thesis using f a by (simp add: continue_hand_def split: outcome.split)
  qed
  obtain g1 where g1: "ApplyAction g (ai_Action input) = Ok g1" using ApplyAction_total [OF val] by blast
  have s1: "g_EventSequence g1 = g_EventSequence g" using ApplyAction_frame(10) [OF g1] .
  have "g_ActivePlayer g < length (g_Players g)" "p_ID (g_Players g ! g_ActivePlayer g) = a_PlayerID (ai_Action input)"
    using val by (auto elim: ValidateAction_Ok)
  then have "PlayerByID g (a_PlayerID (ai_Action input)) \<noteq> None"
    by (auto simp: PlayerByID_def find_player_None intro: rev_image_eqI nth_mem)
  then obtain k where k: "PlayerByID g (a_PlayerID (ai_Action input)) = Some k" by blast
  let ?g2 = "g1\<lparr>g_EventSequence := g_EventSequence g + 1\<rparr>"
  let ?e = "acted_event (dp_Now d) (ai_Action input) k ?g2 (g_EventSequence g + 1)"
  let ?v = "w\<lparr>w_metrics := (w_metrics w)\<lparr>m_ActionsTotal := m_ActionsTotal (w_metrics w) @ [ActionType_String (a_Type (ai_Action input))]\<rparr>,
    w_events := w_events w @ [EvPlayerActed ?e]\<rparr>"
  have "ApplyAction_Execute d input w = continue_hand d ?g2 ?v"
    using find val k g1 pub by (simp add: ApplyAction_Execute_def AdvanceEventSequence_def Let_def publish_def s1)
  then have c: "continue_hand d ?g2 ?v = (r, w')" using run by simp
  have "\<not> is_ok r" "w_db w' = w_db w" "w_events w' = w_events w @ [EvPlayerActed ?e]"
    using go [of ?g2 ?v] unfolding c by simp_all
  moreover have "pa_SequenceNumber ?e = g_EventSequence g + 1" "pa_Action ?e = ai_Action input" by (simp_all add: acted_event_def)
  ultimately show ?thesis by blast
qed

text \<open>
  How a hand is reported: its start, then every accepted action, then the end if it is over;
  numbered from one.
\<close>

definition reported :: "int \<Rightarrow> HandID \<Rightarrow> GameState \<Rightarrow> nat \<Rightarrow> EngineEvent list \<Rightarrow> bool" where
  "reported chips i g n es \<longleftrightarrow> g_ID g = i \<and> map event_seq es = map (\<lambda>i. int i + 1) [0..<length es] \<and> (\<forall>e \<in> set es. event_hand e = i)
     \<and> (\<exists>st acts. (g_Street g < StreetShowdown \<and> g_EventSequence g = int n + 1 \<and> length acts = n \<and> es = EvHandStarted st # map EvPlayerActed acts)
        \<or> (g_Street g = StreetShowdown \<and> (\<exists>f. length acts = n \<and> es = EvHandStarted st # map EvPlayerActed acts @ [EvHandEnded f]
            \<and> stacks (g_Players g) + he_Rake f = chips)))"

context hand_engine
begin

lemma one_action_reported:
  assumes g: "in_play d chips g w" "chips \<le> 2 ^ 53" and es: "reported chips i g n (w_events w)"
    and run: "ApplyAction_Execute d \<lparr>ai_HandID = g_ID g, ai_Action = a\<rparr> w = (Ok g', w')"
  shows "reported chips i g' (Suc n) (w_events w')"
proof -
  obtain h where h: "dp_FindByID d (w_db w) (g_ID g) = Ok h" "same_hand h g"
    and gr: "running g" "chips_in_play g = chips"
    using g(1) by (auto simp: in_play_def on_file_def)
  have hr: "running h" by (rule same_hand_running [OF h(2) gr(1)])
  have big: "chips_in_play h \<le> 2 ^ 53" using same_hand_measures(1) [OF h(2)] gr(2) g(2) by simp
  have same: "g_ID h = g_ID g" "g_EventSequence h = g_EventSequence g" using h(2) by (simp_all add: same_hand_def)
  obtain g1 w1 e where val: "ValidateAction h a = Ok ()" and app: "ApplyAction h a = Ok g1"
    and ev: "w_events w1 = w_events w @ [EvPlayerActed e]" "pa_SequenceNumber e = g_EventSequence h + 1"
    and cont: "continue_hand d (g1\<lparr>g_EventSequence := g_EventSequence h + 1\<rparr>) w1 = (Ok g', w')"
    using h(1) by (rule_tac ApplyAction_Execute_Ok [OF run]) simp
  have st: "g_Street g < StreetShowdown" using gr(1) by (simp add: running_def)
  obtain start acts where old: "g_EventSequence g = int n + 1" "length acts = n" "w_events w = EvHandStarted start # map EvPlayerActed acts"
    using es st by (auto simp: reported_def)
  have named: "g_ID g' = i"
    using es same_seats_continue_hand [OF cont] same_seats_ApplyAction [OF app] same(1) by (simp add: same_seats_def reported_def)
  obtain new where "w_events w' = w_events w @ new" "\<forall>e \<in> set new. event_hand e = g_ID g"
    using acted_names [OF run, of h] h(1) same(1) by auto
  then have names: "\<forall>e \<in> set (w_events w'). event_hand e = i" using es by (auto simp: reported_def)
  have seqs: "map event_seq (w_events w) = map (\<lambda>i. int i + 1) [0..<Suc n]" using es old by (simp add: reported_def)
  have e: "pa_SequenceNumber e = int n + 2" using ev(2) same(2) old(1) by simp
  from continue_hand_spec(2) [OF hr val app sound big cont] show ?thesis
  proof
    assume on: "in_progress h g' \<and> w_events w' = w_events w1 \<and> g_EventSequence g' = g_EventSequence h + 1"
    then have "g_Street g' < StreetShowdown" by (simp add: in_progress_def running_def)
    moreover have "w_events w' = EvHandStarted start # map EvPlayerActed (acts @ [e])" using on ev(1) old(3) by simp
    moreover have "map event_seq (w_events w') = map (\<lambda>i. int i + 1) [0..<length (w_events w')]"
      using on ev(1) seqs e old(2,3) by simp
    ultimately show ?thesis
      unfolding reported_def using named names on same(2) old(1,2) by (intro conjI exI [of _ start] exI [of _ "acts @ [e]"]) auto
  next
    assume off: "g_Street g' = StreetShowdown \<and> g_EventSequence g' = g_EventSequence h + 1 + 1
      \<and> (\<exists>f. w_events w' = w_events w1 @ [EvHandEnded f] \<and> he_SequenceNumber f = g_EventSequence h + 1 + 1
        \<and> stacks (g_Players g') + he_Rake f = chips_in_play h)"
    then obtain f where f: "w_events w' = w_events w1 @ [EvHandEnded f]" "he_SequenceNumber f = int n + 3"
      "stacks (g_Players g') + he_Rake f = chips"
      using same(2) old(1) same_hand_measures(1) [OF h(2)] gr(2) by auto
    then have "w_events w' = EvHandStarted start # map EvPlayerActed (acts @ [e]) @ [EvHandEnded f]" using ev(1) old(3) by simp
    moreover have "map event_seq (w_events w') = map (\<lambda>i. int i + 1) [0..<length (w_events w')]"
      using f(1,2) ev(1) seqs e old(2,3) by simp
    ultimately show ?thesis
      unfolding reported_def using named names off f(3) old(2) by (intro conjI exI [of _ start] exI [of _ "acts @ [e]"]) auto
  qed
qed

lemma plays_reported:
  assumes "plays d g w n g' w'" "in_play d chips g w" "chips \<le> 2 ^ 53" "reported chips i g 0 (w_events w)"
  shows "reported chips i g' n (w_events w')"
  using assms
proof (induction rule: plays.induct)
  case (act n h v a g' w')
  have "in_play d chips h v \<or> paid_out chips h v" using plays_sound [OF act.hyps(1) act.prems(1,2)] by blast
  then have "in_play d chips h v" using act.hyps(2) by (auto simp: paid_out_def)
  from one_action_reported [OF this act.prems(2) _ act.hyps(3)] show ?case using act.IH act.prems by simp
qed

end

lemma started_reported:
  assumes "StartHand_Execute d input w0 = (Ok g, w)" "w_events w0 = []"
  shows "reported chips (g_ID g) g 0 (w_events w)"
proof -
  have "g_Street g = StreetPreflop \<and> g_EventSequence g = 1
      \<and> (\<exists>e. w_events w = w_events w0 @ [EvHandStarted e] \<and> hs_SequenceNumber e = 1 \<and> hs_HandID e = g_ID g)"
    by (rule StartHand_Execute_Ok [OF assms(1)]) (metis GameState.select_convs)
  then show ?thesis using assms(2) by (auto simp: reported_def less_Street_def)
qed

section \<open>The log of a list of events\<close>

text \<open>
  Publishing the events in order; Kafka chooses the partition of a message by its key.
\<close>

definition publish_all :: "Avro \<Rightarrow> Publisher \<Rightarrow> EngineEvent list \<Rightarrow> Bus \<Rightarrow> Bus" where
  "publish_all av p es b = fold (\<lambda>e b. snd (publish_on_bus av (\<lambda>m. False) p e b)) es b"

definition empty_bus :: Bus where
  "empty_bus = \<lparr>bu_log = [], bu_KafkaPublishTotal = []\<rparr>"

definition partition_log :: "(string \<Rightarrow> int) \<Rightarrow> BusMessage list \<Rightarrow> string \<Rightarrow> int \<Rightarrow> string list" where
  "partition_log part sent t i = map bm_Value (filter (\<lambda>m. bm_Topic m = t \<and> part (bm_Key m) = i) sent)"

definition logged_event :: "(string \<Rightarrow> int) \<Rightarrow> EngineEvent list \<Rightarrow> string \<Rightarrow> int \<Rightarrow> nat \<Rightarrow> EngineEvent" where
  "logged_event part es t i k = filter (\<lambda>e. event_topic e = t \<and> part (event_hand e) = i) es ! k"

lemma publish_all_messages:
  assumes lib: "goavro_ok av" "\<And>v. av_Marshal av v \<noteq> None" and same: "same_registry p lookup d"
    and fits: "\<forall>e \<in> set es. event_fits e"
  shows "\<exists>ms. bu_log (publish_all av p es b) = bu_log b @ ms
    \<and> list_all2 (\<lambda>e m. bm_Topic m = event_topic e \<and> bm_Key m = event_hand e \<and> written av p (event_topic e) (bm_Value m) e) es ms"
  using fits
proof (induction es arbitrary: b)
  case (Cons e es)
  let ?meta = "\<lparr>mm_Topic = event_topic e, mm_Partition = 0, mm_Offset = 0\<rparr>"
  have "event_fits e" using Cons.prems by simp
  then obtain m b1 where m: "publish_on_bus av (\<lambda>m. False) p e b = (Ok (), b1)" "bu_log b1 = bu_log b @ [m]"
    "bm_Topic m = event_topic e" "bm_Key m = event_hand e"
    using published_decodes [OF lib same, of e ?meta] by fastforce
  then have "written av p (event_topic e) (bm_Value m) e" using \<open>event_fits e\<close> unfolding written_def by blast
  moreover obtain ms where "bu_log (publish_all av p es b1) = bu_log b1 @ ms"
    "list_all2 (\<lambda>e m. bm_Topic m = event_topic e \<and> bm_Key m = event_hand e \<and> written av p (event_topic e) (bm_Value m) e) es ms"
    using Cons.IH [of b1] Cons.prems by auto
  ultimately show ?case using m by (intro exI [of _ "m # ms"]) (simp add: publish_all_def)
qed (simp add: publish_all_def)

lemma list_all2_filter:
  assumes "list_all2 P xs ys" "\<And>x y. P x y \<Longrightarrow> f x = g y"
  shows "list_all2 P (filter f xs) (filter g ys)"
  using assms(1) by (induction rule: list_all2_induct) (use assms(2) in auto)

lemma publish_all_logged:
  assumes lib: "goavro_ok av" "\<And>v. av_Marshal av v \<noteq> None" and same: "same_registry p lookup d"
    and fits: "\<forall>e \<in> set es. event_fits e"
    and msgs_def: "msgs = partition_log part (bu_log (publish_all av p es empty_bus))"
  shows "logged av p msgs (logged_event part es)"
    "length (msgs t i) = length (filter (\<lambda>e. event_topic e = t \<and> part (event_hand e) = i) es)"
proof -
  obtain ms where ms: "bu_log (publish_all av p es empty_bus) = ms"
    "list_all2 (\<lambda>e m. bm_Topic m = event_topic e \<and> bm_Key m = event_hand e \<and> written av p (event_topic e) (bm_Value m) e) es ms"
    using publish_all_messages [OF lib same fits, of empty_bus] by (auto simp: empty_bus_def)
  have both: "list_all2 (\<lambda>e m. bm_Topic m = event_topic e \<and> bm_Key m = event_hand e \<and> written av p (event_topic e) (bm_Value m) e)
      (filter (\<lambda>e. event_topic e = t \<and> part (event_hand e) = i) es) (filter (\<lambda>m. bm_Topic m = t \<and> part (bm_Key m) = i) ms)" for t i
    by (rule list_all2_filter [OF ms(2)]) auto
  show "length (msgs t i) = length (filter (\<lambda>e. event_topic e = t \<and> part (event_hand e) = i) es)"
    using list_all2_lengthD [OF both [of t i]] by (simp add: msgs_def partition_log_def ms(1))
  show "logged av p msgs (logged_event part es)"
    unfolding logged_def
  proof (intro allI impI)
    fix t i k assume "k < length (msgs t i)"
    then have k: "k < length (filter (\<lambda>e. event_topic e = t \<and> part (event_hand e) = i) es)"
      "k < length (filter (\<lambda>m. bm_Topic m = t \<and> part (bm_Key m) = i) ms)"
      using list_all2_lengthD [OF both [of t i]] by (simp_all add: msgs_def partition_log_def ms(1))
    then have "event_topic (logged_event part es t i k) = t" using nth_mem [OF k(1)] by (simp add: logged_event_def)
    then show "written av p t (msgs t i ! k) (logged_event part es t i k)"
      using list_all2_nthD [OF both k(1)] k(2) by (simp add: msgs_def partition_log_def ms(1) logged_event_def)
  qed
qed

text \<open>Events of one hand with distinct numbers, of which at most the last ends it, are told apart.\<close>

lemma logged_event_in:
  "k < length (filter (\<lambda>e. event_topic e = t \<and> part (event_hand e) = i) es) \<Longrightarrow> logged_event part es t i k \<in> set es"
  using nth_mem [of k "filter (\<lambda>e. event_topic e = t \<and> part (event_hand e) = i) es"] by (simp add: logged_event_def)

lemma reported_alone:
  assumes r: "reported chips i g n es"
    and len: "\<And>t i. length (msgs t i) = length (filter (\<lambda>e. event_topic e = t \<and> part (event_hand e) = i) es)"
    and j: "j < length (msgs t k)"
  shows "alone msgs (logged_event part es) (logged_event part es t k j)"
proof -
  have "distinct (map event_seq es)" using r by (auto simp: reported_def distinct_map inj_on_def)
  then have seq: "e = e'" if "e \<in> set es" "e' \<in> set es" "event_seq e = event_seq e'" for e e'
    using that by (auto simp: distinct_map dest: inj_onD)
  have "\<exists>f. \<forall>e \<in> set es. event_topic e = topicHandEnded \<longrightarrow> e = f" using r by (auto simp: reported_def)
  then have ended: "e = e'" if "e \<in> set es" "e' \<in> set es" "event_topic e = topicHandEnded" "event_topic e' = topicHandEnded" for e e'
    using that by blast
  have "logged_event part es t k j \<in> set es" using j unfolding len by (rule logged_event_in)
  then show ?thesis
    unfolding alone_def len using logged_event_in [where es = es and part = part] seq ended by meson
qed


lemma reported_actions:
  assumes "reported chips i g n es"
  obtains acts where "length acts = n" "\<forall>x. EvPlayerActed x \<in> set es \<longleftrightarrow> x \<in> set acts"
    "\<forall>j < n. pa_SequenceNumber (acts ! j) = int j + 2 \<and> pa_HandID (acts ! j) = i"
proof -
  obtain st acts rest where es: "es = EvHandStarted st # map EvPlayerActed acts @ rest" "length acts = n" "\<And>x. EvPlayerActed x \<notin> set rest"
    using assms unfolding reported_def by force
  have "pa_SequenceNumber (acts ! j) = int j + 2 \<and> pa_HandID (acts ! j) = i" if j: "j < n" for j
  proof -
    have n: "es ! Suc j = EvPlayerActed (acts ! j)" "Suc j < length es" using es(1,2) j by (simp_all add: nth_append)
    have "map event_seq es ! Suc j = map (\<lambda>i. int i + 1) [0..<length es] ! Suc j" using assms by (simp only: reported_def)
    then have "event_seq (es ! Suc j) = int (Suc j) + 1" using n(2) by (simp del: upt_Suc)
    moreover have "event_hand (es ! Suc j) = i" using assms nth_mem [OF n(2)] by (simp add: reported_def)
    ultimately show ?thesis by (simp add: n(1))
  qed
  moreover have "EvPlayerActed x \<in> set es \<longleftrightarrow> x \<in> set acts" for x using es(1,3) by auto
  ultimately show thesis using that es(2) by blast
qed

lemma reported_end:
  assumes "reported chips i g n es"
  shows "g_Street g < StreetShowdown \<Longrightarrow> \<forall>f. EvHandEnded f \<notin> set es"
    "g_Street g = StreetShowdown \<Longrightarrow> \<exists>f. EvHandEnded f \<in> set es \<and> he_HandID f = i \<and> stacks (g_Players g) + he_Rake f = chips"
    "g_Street g \<le> StreetShowdown"
proof -
  show "g_Street g < StreetShowdown \<Longrightarrow> \<forall>f. EvHandEnded f \<notin> set es" using assms by (auto simp: reported_def)
  show "g_Street g \<le> StreetShowdown" using assms by (auto simp: reported_def less_Street_def less_eq_Street_def)
  assume "g_Street g = StreetShowdown"
  then obtain st acts f where "es = EvHandStarted st # map EvPlayerActed acts @ [EvHandEnded f]" "stacks (g_Players g) + he_Rake f = chips"
    using assms unfolding reported_def by fastforce
  then have "EvHandEnded f \<in> set es" "stacks (g_Players g) + he_Rake f = chips" by simp_all
  moreover from this have "he_HandID f = i" using assms unfolding reported_def by (metis event_hand.simps(3))
  ultimately show "\<exists>f. EvHandEnded f \<in> set es \<and> he_HandID f = i \<and> stacks (g_Players g) + he_Rake f = chips" by blast
qed

lemma event_action_acted: "event_action av e = Some a \<Longrightarrow> \<exists>x. e = EvPlayerActed x"
  by (cases e) auto

lemma event_summary_ended: "event_summary av e = Some y \<Longrightarrow> \<exists>x. e = EvHandEnded x"
  by (cases e) auto

text \<open>What the analytics show of a hand whose partitions were read to the end.\<close>

lemma reported_hand_visible:
  assumes r: "reported chips i g n es" and inv: "ingest_inv av lookup msgs (logged_event part es) s"
    and len: "\<And>t k. length (msgs t k) = length (filter (\<lambda>e. event_topic e = t \<and> part (event_hand e) = k) es)"
    and done_: "\<And>t. ig_committed s t (part i) = length (msgs t (part i))"
  shows "visible_action (ig_db s) (h, q) \<noteq> None \<longleftrightarrow> h = i \<and> 2 \<le> q \<and> q \<le> int n + 1"
    and "e \<in> set es \<Longrightarrow> event_action av e = Some a \<Longrightarrow> visible_action (ig_db s) (i, event_seq e) = Some a"
    and "e \<in> set es \<Longrightarrow> event_summary av e = Some y \<Longrightarrow> visible_summary (ig_db s) i = Some y"
    and "visible_summary (ig_db s) h = Some y \<Longrightarrow> \<exists>f. EvHandEnded f \<in> set es"
proof -
  have topic: "t = event_topic (logged_event part es t k j)" if "j < length (msgs t k)" for t k j
    using nth_mem [of j "filter (\<lambda>e. event_topic e = t \<and> part (event_hand e) = k) es"] that by (simp add: len logged_event_def)
  have see: "event_action av (logged_event part es t k j) = Some a \<Longrightarrow> visible_action (ig_db s) (ha_HandID a, ha_SequenceNumber a) = Some a"
    "event_summary av (logged_event part es t k j) = Some y \<Longrightarrow> visible_summary (ig_db s) (hy_HandID y) = Some y"
    if "j < ig_committed s t k" for t k j a y
  proof -
    have "j < length (msgs t k)" using that inv unfolding ingest_inv_def by (auto intro: less_le_trans)
    note apart = reported_alone [OF r len this]
    show "event_action av (logged_event part es t k j) = Some a \<Longrightarrow> visible_action (ig_db s) (ha_HandID a, ha_SequenceNumber a) = Some a"
      "event_summary av (logged_event part es t k j) = Some y \<Longrightarrow> visible_summary (ig_db s) (hy_HandID y) = Some y"
      by (rule visible_rows [OF inv apart _ that]; use topic in blast)+
  qed
  have from_: "rows_from av msgs (logged_event part es) (ig_db s)" using inv by (simp add: ingest_inv_def)
  have here: "\<exists>j. j < ig_committed s (event_topic e) (part i) \<and> logged_event part es (event_topic e) (part i) j = e" if e: "e \<in> set es" for e
  proof -
    have "event_hand e = i" using r e by (simp add: reported_def)
    then have "e \<in> set (filter (\<lambda>x. event_topic x = event_topic e \<and> part (event_hand x) = part i) es)" using e by simp
    then show ?thesis unfolding done_ len logged_event_def in_set_conv_nth by blast
  qed
  show act: "visible_action (ig_db s) (i, event_seq e) = Some a" if e: "e \<in> set es" "event_action av e = Some a" for e a
  proof -
    obtain j where j: "j < ig_committed s (event_topic e) (part i)" "logged_event part es (event_topic e) (part i) j = e" using here [OF e(1)] by blast
    have "event_hand e = i" using r e(1) by (simp add: reported_def)
    then show ?thesis using see(1) [OF j(1), unfolded j(2), OF e(2)] event_action_facts [OF e(2)] by simp
  qed
  show "visible_summary (ig_db s) i = Some y" if e: "e \<in> set es" "event_summary av e = Some y" for e y
  proof -
    obtain j where j: "j < ig_committed s (event_topic e) (part i)" "logged_event part es (event_topic e) (part i) j = e" using here [OF e(1)] by blast
    have "event_hand e = i" using r e(1) by (simp add: reported_def)
    then show ?thesis using see(2) [OF j(1), unfolded j(2), OF e(2)] event_summary_facts [OF e(2)] by simp
  qed
  show "\<exists>f. EvHandEnded f \<in> set es" if y: "visible_summary (ig_db s) h = Some y" for h y
  proof -
    have "y \<in> set (ck_hand_summaries (ig_db s))" using final_Some [OF y [unfolded visible_summary_def]] by simp
    then obtain t k j where j: "j < length (msgs t k)" "event_summary av (logged_event part es t k j) = Some y"
      using from_ unfolding rows_from_def by blast
    then have "logged_event part es t k j \<in> set es" by (intro logged_event_in) (simp add: len)
    with event_summary_ended [OF j(2)] show ?thesis by auto
  qed
  obtain acts where acts: "length acts = n" "\<forall>x. EvPlayerActed x \<in> set es \<longleftrightarrow> x \<in> set acts"
    "\<forall>j < n. pa_SequenceNumber (acts ! j) = int j + 2 \<and> pa_HandID (acts ! j) = i" by (rule reported_actions [OF r])
  show "visible_action (ig_db s) (h, q) \<noteq> None \<longleftrightarrow> h = i \<and> 2 \<le> q \<and> q \<le> int n + 1"
  proof
    assume "visible_action (ig_db s) (h, q) \<noteq> None"
    then obtain a where "visible_action (ig_db s) (h, q) = Some a" by blast
    from final_Some [OF this [unfolded visible_action_def]]
    have a: "a \<in> set (ck_hand_actions (ig_db s))" "(ha_HandID a, ha_SequenceNumber a) = (h, q)" by (simp_all add: hand_actions_key_def)
    then obtain t k j where j: "j < length (msgs t k)" "event_action av (logged_event part es t k j) = Some a"
      using from_ unfolding rows_from_def by blast
    then have "logged_event part es t k j \<in> set es" by (intro logged_event_in) (simp add: len)
    moreover obtain x where x: "logged_event part es t k j = EvPlayerActed x" using event_action_acted [OF j(2)] by blast
    ultimately have "x \<in> set acts" using acts(2) by simp
    then obtain m where "m < n" "x = acts ! m" using acts(1) by (auto simp: in_set_conv_nth)
    then show "h = i \<and> 2 \<le> q \<and> q \<le> int n + 1" using acts(3) j(2) a(2) by (auto simp: x)
  next
    assume q: "h = i \<and> 2 \<le> q \<and> q \<le> int n + 1"
    then have m: "nat (q - 2) < n" by linarith
    then have "EvPlayerActed (acts ! nat (q - 2)) \<in> set es" using acts(1,2) by simp
    then show "visible_action (ig_db s) (h, q) \<noteq> None"
      using act [of "EvPlayerActed (acts ! nat (q - 2))"] acts(3) [rule_format, OF m] q by simp
  qed
qed


section \<open>A played hand in the analytics\<close>



definition ex_read :: "string \<Rightarrow> Attempt" where
  "ex_read topic = \<lparr>tt_topic = topic, tt_partition = 0, tt_now = 9,
     tt_click = \<lparr>cl_refuses = (\<lambda>_. False), cl_loses = (\<lambda>_. False)\<rparr>, tt_commit_refused = False, tt_commit_lost = False\<rparr>"

lemma pg_events:
  "case StartHand_Execute pg_deps pg_input pg_world of
     (Ok g, w) \<Rightarrow> (case ApplyAction_Execute pg_deps \<lparr>ai_HandID = g_ID g, ai_Action = NewCall ''a''\<rparr> w of
        (Ok g', w') \<Rightarrow> list_all event_fits (w_events w') \<and> map event_topic (w_events w') = [topicHandStarted, topicPlayerActed]
      | _ \<Rightarrow> False)
   | _ \<Rightarrow> False"
  by code_simp


end
