(* ===== verification/Spec2Isabelle.thy ===== *)
theory Spec2Isabelle
  imports WholeHand WalletRun Channels EngineServer TableServer WalletApi AuthService TableSystem TableMoney TableHands Analytics Provisioning HandReport Engine64
begin

text \<open>
  A verification library for the hold'em poker platform: five Go services under \<open>src/services\<close>.

  \<^bold>\<open>The program.\<close> The \<^emph>\<open>engine\<close> plays one hand at a time: it shuffles, deals, takes blinds and
  actions, settles pots and rake, keeps each hand in Postgres and publishes its events on Kafka. The
  \<^emph>\<open>table manager\<close> keeps tables and seats in Postgres, moves buy-ins and cash-outs through the
  wallet's HTTP interface, has the engine play the hands of a table over gRPC, and pushes views of
  the table to web sockets. The \<^emph>\<open>wallet service\<close> keeps accounts, balances and a ledger, links
  addresses, and has a worker that scans an Ethereum node for deposits and sends withdrawals. The
  \<^emph>\<open>auth service\<close> registers users, issues signed access tokens and refresh tokens, and announces new
  users on Kafka, which the wallet reads. The \<^emph>\<open>analytics ingestor\<close> reads the engine's events from
  Kafka into ClickHouse.

  \<^bold>\<open>Engine\<close> (\<open>services/engine/internal\<close>). \<^theory_text>\<open>Cards\<close>: cards, their text form, deck and shuffle (\<open>domain/card.go\<close>,
  \<open>deck.go\<close>, \<open>infrastructure/shuffle\<close>). \<^theory_text>\<open>Game\<close>: players, actions, the hand's state and its events
  (\<open>domain/player.go\<close>, \<open>action.go\<close>, \<open>game.go\<close>, \<open>events.go\<close>). \<^theory_text>\<open>Pots\<close>: side pots and rake (\<open>pot.go\<close>, \<open>rake.go\<close>).
  \<^theory_text>\<open>Evaluator\<close>: ranks and comparison of hands (\<open>infrastructure/evaluator\<close>), equal to a specification
  by multiplicities and suits. \<^theory_text>\<open>Betting\<close>: validation and application of actions, turn order,
  collecting bets (\<open>betting.go\<close>). \<^theory_text>\<open>FinishHand\<close>, \<^theory_text>\<open>StartHand\<close>, \<^theory_text>\<open>PlayHand\<close>: the three use cases
  (\<open>application/*.go\<close>) on a world of repository, published events and counters, with their
  environment in the record \<open>Deps\<close>. \<^theory_text>\<open>GameRepo\<close>: the Postgres repository as lists of rows.
  \<^theory_text>\<open>WholeHand\<close>: a hand from its start to its settlement on that repository. \<^theory_text>\<open>EngineSane\<close>: what
  holds however the engine is called. \<^theory_text>\<open>EngineProto\<close>, \<^theory_text>\<open>EngineServer\<close>: messages, conversions and
  the gRPC server. \<^theory_text>\<open>Channels\<close>: Go channels with the engine's \<open>PubSub\<close> and the table manager's \<open>Hub\<close>.

  \<^bold>\<open>Exact and 64-bit chips.\<close> Go's \<open>int\<close> has 64 bits and wraps. \<^theory_text>\<open>Engine64\<close> models the engine's chip
  arithmetic at that width, function by function, next to the definitions in unbounded integers of
  the theories above, and proves the two equal while the chips of a hand (stacks, bets and pots
  together) are at most \<open>2 ^ 53\<close>, or below \<open>2 ^ 63\<close> where no float is involved; it also shows a side
  pot that wraps beyond. The exact definitions of side pots and of collecting bets are only the
  specification of the 64-bit ones. Properties stated over exact definitions carry a bound on the
  chips, or are about what does not add chips.

  \<^bold>\<open>Events and analytics.\<close> \<^theory_text>\<open>EventBus\<close>: the engine's Kafka publisher (\<open>delivery/kafka\<close>), the Avro schemas and
  the ingestor's decoder. \<^theory_text>\<open>Analytics\<close>: the ingestor's storage and consumer with faults and restarts.
  \<^theory_text>\<open>HandReport\<close>: the events of a played hand end up in the analytics.

  \<^bold>\<open>Wallet\<close> (\<open>services/wallet-service/internal\<close>). \<^theory_text>\<open>WalletStore\<close>: domain and repository (\<open>repository.go\<close>,
  \<open>repository_chain.go\<close>). \<^theory_text>\<open>WalletLedger\<close>: what a posting does, the abstract bank it implements, and
  retries. \<^theory_text>\<open>WalletService\<close>: the application service. \<^theory_text>\<open>ChainRunner\<close>: the Ethereum client and the
  worker's cycles (\<open>chain/ethereum.go\<close>, \<open>runner.go\<close>). \<^theory_text>\<open>Wallet\<close>, \<^theory_text>\<open>WalletRun\<close>: the invariants of books,
  deposits and withdrawals, and the transition system of all calls and cycles. \<^theory_text>\<open>WalletApi\<close>: the HTTP
  server and the table manager's client of it, on a connection that can lose a request or a
  response.

  \<^bold>\<open>Table manager\<close> (\<open>services/table-manager/internal\<close>). \<^theory_text>\<open>TableStore\<close>: domain and repository.
  \<^theory_text>\<open>TableService\<close>: the application service over its three interfaces. \<^theory_text>\<open>TableServer\<close>: who is
  calling, what a viewer sees, the gRPC server and the web sockets. \<^theory_text>\<open>TableSystem\<close>: the platform, that
  is the service on its repository with the engine's and the wallet's servers behind it, and the
  states its calls reach. \<^theory_text>\<open>TableMoney\<close>, \<^theory_text>\<open>TableHands\<close>: money and hands across the services.

  \<^bold>\<open>Auth\<close> (\<open>services/auth-service/internal\<close>). \<^theory_text>\<open>Base64\<close>, \<^theory_text>\<open>Tokens\<close>: the tokens and their three verifiers.
  \<^theory_text>\<open>AuthStore\<close>, \<^theory_text>\<open>AuthService\<close>: users, sessions, and the service with its HTTP server.
  \<^theory_text>\<open>Provisioning\<close>: the announcement of users and the wallet's consumer.

  \<^bold>\<open>Conventions.\<close> \<^theory_text>\<open>Prelude\<close> has the shared vocabulary. A Go call yields an \<open>outcome\<close>: a value, an error
  or a panic. A Go map is an association list with distinct keys, and the order in which Go ranges
  over it a parameter; float rounding is the parameter \<open>fl\<close>; clock, random source, identifiers,
  bcrypt, RSA, SHA-256, JSON, Avro, the schema registry, the broker and the Ethereum node are parameters, with
  what is relied on as a named predicate (\<open>sound_deps\<close>, \<open>sound_crypto\<close>, \<open>goavro_ok\<close>, \<open>registry_ok\<close>,
  \<open>json_ok\<close>, \<open>orderly\<close>, \<open>counting_node\<close>). A Postgres table is a list of rows with the keys, references and column
  widths of the migrations. The server fails any statement it likes; a failed transaction leaves no
  trace, and the answer to a commit can be lost, so that the caller sees an error though the change is
  durable. ClickHouse's replacing tables show the last row of each key. Each call of a
  service is one step; steps interleave freely. The two parts of a refresh of a token, which are
  separate statements, are also studied interleaved.

  \<^bold>\<open>What the lemmas show.\<close> Each component has its invariant and the lemmas that its operations keep it
  (collections such as \<open>sessions\<close>, \<open>tables\<close>, \<open>exact64\<close>); interfaces are locales interpreted on the
  models: the hand repository, the hand engine, the ledger, the table repository, the table
  service, the broadcasters, the shuffle. On top of these stand the numbered properties: chips, cards and
  money are conserved within the engine, across a table and in the wallet; each balance is the sum of
  its entries; a posting, a deposit and a withdrawal count once; hole cards, tokens and sessions
  reach only those entitled to them; encoders and decoders, and stored and loaded data, agree; the ingestor
  catches up. Some properties state defects: a finished hand that pays again, a raise that
  is never answered, a comparison of hands by the wrong card, a second buy-in that is free, a
  withdrawal that is sent twice, a table stopped by a short stack.

  \<^bold>\<open>Bounds.\<close> \<open>2 ^ 53\<close> chips keep the engine's float arithmetic and its 64-bit sums exact. A hand accepts
  at most \<open>4 * (max raises + 1) * (players + 1)\<close> actions before its first showdown: each street allows that
  many raises, and every player acts at most once after each. Loops are structurally recursive or
  have a measure (side pots: the number of contributors left); no fuel is used. Statements about
  runs quantify over lists of attempts with arbitrary faults, and say how many attempts without a
  fault suffice.

  \<^bold>\<open>Not modelled.\<close> Generated gRPC and gateway code, configuration, program start, migrations, telemetry
  and duration metrics, the creation of ClickHouse tables, loading of key files, the ticker loops around the
  worker's cycles, timeouts and cancellation of contexts, and the socket and JSON layers, which
  only carry values. \<open>TrimSpace\<close> and \<open>ToLower\<close> are modelled for ASCII. Concurrency inside one call of
  the table manager (it takes no lock between its read and its save) is not modelled beyond the
  order of its effects.
\<close>

end
